(* ===== verification/Prelude.thy ===== *)
theory Prelude
  imports Main "HOL-Library.Multiset"
begin

text \<open>
  Shared vocabulary of the development: the fixed-point scales of
  \<^verbatim>\<open>constants.py\<close>, the order side, the Python exceptions the modelled code raises,
  Python's \<^verbatim>\<open>bisect\<close> on lists, and the generic facts on lists and options that the
  component theories use.

  An operation of the source that can raise is a function into \<open>py_error + 'a\<close>.  An
  operation that mutates its object and can raise half way returns the object as well
  (\<open>'s \<times> (py_error + 'a)\<close>), because the caller goes on with the half-changed object.
\<close>

named_theorems op_defs \<open>unfoldings of the one-line operations of the components\<close>

named_theorems inv_intros \<open>preservation facts of the component invariants\<close>

section \<open>Scales (constants.py)\<close>

abbreviation (input) POLYMARKET_PRICE_SCALE :: int where
  "POLYMARKET_PRICE_SCALE \<equiv> 1000000"

abbreviation (input) SHARE_SIZE_SCALE :: int where
  "SHARE_SIZE_SCALE \<equiv> 1000000"

abbreviation (input) USDC_SCALE :: int where
  "USDC_SCALE \<equiv> 1000000"

abbreviation (input) PRICE_MIN_SCALED :: int where
  "PRICE_MIN_SCALED \<equiv> 0"

abbreviation (input) PRICE_MAX_SCALED :: int where
  "PRICE_MAX_SCALED \<equiv> POLYMARKET_PRICE_SCALE"

abbreviation (input) PPM :: int where
  "PPM \<equiv> 1000000"

section \<open>Sides and errors\<close>

datatype side = BUY | SELL

text \<open>
  A validation issue carries what the source interpolates into its message; the category
  of the source is the constructor.
\<close>

datatype validation_issue =
    Invalid_price int
  | Negative_size int
  | Tick_noncompliance int int
  | Book_crossed int int
  | Duplicate_level side
  | Reported_top_mismatch side "int option" "int option"
  | Token_mapping_invalid

text \<open>
  The exceptions of the modelled code.  \<open>ValueError\<close> carries the fixed part of its message.
  \<open>InvalidBookState\<close> and \<open>InsufficientReplayCash\<close> are subclasses of \<open>ValueError\<close> in the
  source (\<open>is_value_error\<close>).
\<close>

datatype py_error =
    ValueError string
  | KeyError string
  | InvalidBookState "validation_issue list"
  | InsufficientReplayCash int int
  | ZeroDivisionError
  | AssertionError
  | TypeError

fun is_value_error :: "py_error \<Rightarrow> bool" where
  "is_value_error (ValueError _) = True"
| "is_value_error (InvalidBookState _) = True"
| "is_value_error (InsufficientReplayCash _ _) = True"
| "is_value_error _ = False"

text \<open>Going on after a call that may raise.\<close>

definition res_bind :: "py_error + 'a \<Rightarrow> ('a \<Rightarrow> py_error + 'b) \<Rightarrow> py_error + 'b" where
  "res_bind r f = (case r of Inl e \<Rightarrow> Inl e | Inr x \<Rightarrow> f x)"

lemma res_bind_simps [simp]: "res_bind (Inl e) f = Inl e" "res_bind (Inr x) f = f x"
  by (simp_all add: res_bind_def)

lemma res_bind_cong [fundef_cong]:
  "r = r' \<Longrightarrow> (\<And>x. r' = Inr x \<Longrightarrow> f x = g x) \<Longrightarrow> res_bind r f = res_bind r' g"
  by (auto simp: res_bind_def split: sum.split)

lemma res_bind_Inr [simp]: "res_bind r f = Inr y \<longleftrightarrow> (\<exists>x. r = Inr x \<and> f x = Inr y)"
  by (cases r) auto

section \<open>Python's min and max over optional values\<close>

definition opt_min :: "int option \<Rightarrow> int \<Rightarrow> int" where
  "opt_min a b = (case a of None \<Rightarrow> b | Some x \<Rightarrow> min x b)"

text \<open>\<open>x or y\<close> on optional integers: \<^verbatim>\<open>None\<close> and \<^verbatim>\<open>0\<close> are false.\<close>

definition or_zero :: "int option \<Rightarrow> int" where
  "or_zero a = (case a of None \<Rightarrow> 0 | Some x \<Rightarrow> x)"

lemma or_zero_simps [simp]: "or_zero None = 0" "or_zero (Some x) = x"
  by (simp_all add: or_zero_def)

section \<open>Lists\<close>

lemma sum_list_nonneg_map:
  "(\<And>x. x \<in> set xs \<Longrightarrow> 0 \<le> (f x :: int)) \<Longrightarrow> 0 \<le> sum_list (map f xs)"
  by (induction xs) (auto simp: add_nonneg_nonneg)

lemma sum_list_mono_map:
  "(\<And>x. x \<in> set xs \<Longrightarrow> (f x :: int) \<le> g x) \<Longrightarrow> sum_list (map f xs) \<le> sum_list (map g xs)"
  by (induction xs) (auto simp: add_mono)

lemma sum_list_const_mult_map: "sum_list (map (\<lambda>x. (c::int) * f x) xs) = c * sum_list (map f xs)"
  by (induction xs) (auto simp: algebra_simps)

section \<open>Dictionaries in insertion order\<close>

text \<open>
  A Python \<^verbatim>\<open>dict\<close> that the code iterates is the list of its items in insertion order:
  assigning to a present key keeps its place, a new key goes to the end.
\<close>

fun dict_put :: "'k \<Rightarrow> 'v \<Rightarrow> ('k \<times> 'v) list \<Rightarrow> ('k \<times> 'v) list" where
  "dict_put k v [] = [(k, v)]"
| "dict_put k v ((j, w) # d) = (if j = k then (k, v) # d else (j, w) # dict_put k v d)"

definition dict_keys_distinct :: "('k \<times> 'v) list \<Rightarrow> bool" where
  "dict_keys_distinct d \<longleftrightarrow> distinct (map fst d)"

lemma map_of_dict_put [simp]: "map_of (dict_put k v d) = (map_of d)(k \<mapsto> v)"
  by (induction d) (auto simp: fun_eq_iff)

lemma keys_dict_put:
  "map fst (dict_put k v d) = (if k \<in> fst ` set d then map fst d else map fst d @ [k])"
  by (induction d) (force split: if_splits)+

lemma fst_set_dict_put: "fst ` set (dict_put k v d) = insert k (fst ` set d)"
  using arg_cong [OF keys_dict_put, of set k v d] by (auto split: if_splits)

lemma dict_put_distinct [simp]: "dict_keys_distinct d \<Longrightarrow> dict_keys_distinct (dict_put k v d)"
  by (auto simp: dict_keys_distinct_def keys_dict_put)

lemma dict_keys_distinct_simps [simp]:
  "dict_keys_distinct []"
  "dict_keys_distinct ((k, v) # d) \<longleftrightarrow> k \<notin> fst ` set d \<and> dict_keys_distinct d"
  by (auto simp: dict_keys_distinct_def)

lemma set_dict_put: "dict_keys_distinct d \<Longrightarrow>
  set (dict_put k v d) = insert (k, v) {p \<in> set d. fst p \<noteq> k}"
  by (induction d) (force split: if_splits)+

text \<open>A sum over the values of a dictionary changes by the change of the one value stored.\<close>

lemma sum_dict_put_new:
  "map_of d k = None \<Longrightarrow>
     sum_list (map (\<lambda>(_, v). f v :: int) (dict_put k v d)) = sum_list (map (\<lambda>(_, v). f v) d) + f v"
  by (induction d) (auto split: if_splits)

lemma sum_dict_put_old:
  "map_of d k = Some w \<Longrightarrow>
     sum_list (map (\<lambda>(_, v). f v :: int) (dict_put k v d))
       = sum_list (map (\<lambda>(_, v). f v) d) - f w + f v"
  by (induction d) (auto split: if_splits)

section \<open>Python's bisect\<close>

text \<open>
  The loops of \<^verbatim>\<open>bisect_left\<close> and \<^verbatim>\<open>bisect_right\<close>: an index interval \<open>[lo, hi)\<close> halved until it is
  empty.  On a sorted list they count the elements below, or not above, the key.
\<close>

function bisect_left_in :: "int list \<Rightarrow> int \<Rightarrow> nat \<Rightarrow> nat \<Rightarrow> nat" where
  "bisect_left_in xs x lo hi =
     (if lo < hi then
        (let mid = (lo + hi) div 2
         in if xs ! mid < x then bisect_left_in xs x (Suc mid) hi
            else bisect_left_in xs x lo mid)
      else lo)"
  by pat_completeness auto
termination
  by (relation "measure (\<lambda>(xs, x, lo, hi). hi - lo)") auto

function bisect_right_in :: "int list \<Rightarrow> int \<Rightarrow> nat \<Rightarrow> nat \<Rightarrow> nat" where
  "bisect_right_in xs x lo hi =
     (if lo < hi then
        (let mid = (lo + hi) div 2
         in if x < xs ! mid then bisect_right_in xs x lo mid
            else bisect_right_in xs x (Suc mid) hi)
      else lo)"
  by pat_completeness auto
termination
  by (relation "measure (\<lambda>(xs, x, lo, hi). hi - lo)") auto

declare bisect_left_in.simps [simp del] bisect_right_in.simps [simp del]

definition bisect_left :: "int list \<Rightarrow> int \<Rightarrow> nat" where
  "bisect_left xs x = bisect_left_in xs x 0 (length xs)"

definition bisect_right :: "int list \<Rightarrow> int \<Rightarrow> nat" where
  "bisect_right xs x = bisect_right_in xs x 0 (length xs)"

text \<open>The code's \<^verbatim>\<open>bisect_right(xs, x, lo=lo)\<close>.\<close>

definition bisect_right_from :: "int list \<Rightarrow> int \<Rightarrow> nat \<Rightarrow> nat" where
  "bisect_right_from xs x lo = bisect_right_in xs x lo (length xs)"

lemma bisect_right_in_spec:
  assumes "sorted xs" "lo \<le> hi" "hi \<le> length xs"
    and "\<And>i. i < lo \<Longrightarrow> xs ! i \<le> x"
    and "\<And>i. hi \<le> i \<Longrightarrow> i < length xs \<Longrightarrow> x < xs ! i"
  shows "lo \<le> bisect_right_in xs x lo hi \<and> bisect_right_in xs x lo hi \<le> hi
    \<and> (\<forall>i < bisect_right_in xs x lo hi. xs ! i \<le> x)
    \<and> (\<forall>i. bisect_right_in xs x lo hi \<le> i \<longrightarrow> i < length xs \<longrightarrow> x < xs ! i)"
  using assms
proof (induction xs x lo hi rule: bisect_right_in.induct)
  case (1 xs x lo hi)
  note step = bisect_right_in.simps [of xs x lo hi]
  let ?mid = "(lo + hi) div 2"
  show ?case
  proof (cases "lo < hi")
    case False
    then have "bisect_right_in xs x lo hi = lo" by (simp add: step)
    with False "1.prems" show ?thesis by simp
  next
    case True
    then have mid: "lo \<le> ?mid" "?mid < hi" "?mid < length xs"
      using "1.prems"(3) by auto
    show ?thesis
    proof (cases "x < xs ! ?mid")
      case less: True
      have up: "\<And>i. ?mid \<le> i \<Longrightarrow> i < length xs \<Longrightarrow> x < xs ! i"
        using less sorted_nth_mono [OF \<open>sorted xs\<close>] by (meson order_less_le_trans)
      have "lo \<le> bisect_right_in xs x lo ?mid \<and> bisect_right_in xs x lo ?mid \<le> ?mid
        \<and> (\<forall>i < bisect_right_in xs x lo ?mid. xs ! i \<le> x)
        \<and> (\<forall>i. bisect_right_in xs x lo ?mid \<le> i \<longrightarrow> i < length xs \<longrightarrow> x < xs ! i)"
        by (rule "1.IH"(1) [OF True refl less "1.prems"(1)])
          (use mid up "1.prems" in auto)
      with True less mid show ?thesis by (simp add: step)
    next
      case ge: False
      have low: "\<And>i. i < Suc ?mid \<Longrightarrow> xs ! i \<le> x"
        using ge mid sorted_nth_mono [OF \<open>sorted xs\<close>]
        by (metis less_Suc_eq_le linorder_not_less order.trans)
      have "Suc ?mid \<le> bisect_right_in xs x (Suc ?mid) hi
        \<and> bisect_right_in xs x (Suc ?mid) hi \<le> hi
        \<and> (\<forall>i < bisect_right_in xs x (Suc ?mid) hi. xs ! i \<le> x)
        \<and> (\<forall>i. bisect_right_in xs x (Suc ?mid) hi \<le> i \<longrightarrow> i < length xs \<longrightarrow> x < xs ! i)"
        by (rule "1.IH"(2) [OF True refl ge "1.prems"(1)])
          (use mid low "1.prems" in auto)
      with True ge mid show ?thesis by (simp add: step)
    qed
  qed
qed

lemma bisect_right_spec:
  assumes "sorted xs"
  shows "bisect_right xs x \<le> length xs
    \<and> (\<forall>i < bisect_right xs x. xs ! i \<le> x)
    \<and> (\<forall>i. bisect_right xs x \<le> i \<longrightarrow> i < length xs \<longrightarrow> x < xs ! i)"
  unfolding bisect_right_def using bisect_right_in_spec [OF assms, of 0 "length xs" x] by simp

lemma bisect_left_in_spec:
  assumes "sorted xs" "lo \<le> hi" "hi \<le> length xs"
    and "\<And>i. i < lo \<Longrightarrow> xs ! i < x"
    and "\<And>i. hi \<le> i \<Longrightarrow> i < length xs \<Longrightarrow> x \<le> xs ! i"
  shows "lo \<le> bisect_left_in xs x lo hi \<and> bisect_left_in xs x lo hi \<le> hi
    \<and> (\<forall>i < bisect_left_in xs x lo hi. xs ! i < x)
    \<and> (\<forall>i. bisect_left_in xs x lo hi \<le> i \<longrightarrow> i < length xs \<longrightarrow> x \<le> xs ! i)"
  using assms
proof (induction xs x lo hi rule: bisect_left_in.induct)
  case (1 xs x lo hi)
  note step = bisect_left_in.simps [of xs x lo hi]
  let ?mid = "(lo + hi) div 2"
  show ?case
  proof (cases "lo < hi")
    case False
    then have "bisect_left_in xs x lo hi = lo" by (simp add: step)
    with False "1.prems" show ?thesis by simp
  next
    case True
    then have mid: "lo \<le> ?mid" "?mid < hi" "?mid < length xs"
      using "1.prems"(3) by auto
    show ?thesis
    proof (cases "xs ! ?mid < x")
      case less: True
      have low: "\<And>i. i < Suc ?mid \<Longrightarrow> xs ! i < x"
        using less mid sorted_nth_mono [OF \<open>sorted xs\<close>]
        by (metis less_Suc_eq_le order.strict_trans1)
      have "Suc ?mid \<le> bisect_left_in xs x (Suc ?mid) hi
        \<and> bisect_left_in xs x (Suc ?mid) hi \<le> hi
        \<and> (\<forall>i < bisect_left_in xs x (Suc ?mid) hi. xs ! i < x)
        \<and> (\<forall>i. bisect_left_in xs x (Suc ?mid) hi \<le> i \<longrightarrow> i < length xs \<longrightarrow> x \<le> xs ! i)"
        by (rule "1.IH"(1) [OF True refl less "1.prems"(1)])
          (use mid low "1.prems" in auto)
      with True less mid show ?thesis by (simp add: step)
    next
      case ge: False
      have up: "\<And>i. ?mid \<le> i \<Longrightarrow> i < length xs \<Longrightarrow> x \<le> xs ! i"
        using ge sorted_nth_mono [OF \<open>sorted xs\<close>] by (meson linorder_not_less order.trans)
      have "lo \<le> bisect_left_in xs x lo ?mid \<and> bisect_left_in xs x lo ?mid \<le> ?mid
        \<and> (\<forall>i < bisect_left_in xs x lo ?mid. xs ! i < x)
        \<and> (\<forall>i. bisect_left_in xs x lo ?mid \<le> i \<longrightarrow> i < length xs \<longrightarrow> x \<le> xs ! i)"
        by (rule "1.IH"(2) [OF True refl ge "1.prems"(1)])
          (use mid up "1.prems" in auto)
      with True ge mid show ?thesis by (simp add: step)
    qed
  qed
qed

lemma bisect_left_spec:
  assumes "sorted xs"
  shows "bisect_left xs x \<le> length xs
    \<and> (\<forall>i < bisect_left xs x. xs ! i < x)
    \<and> (\<forall>i. bisect_left xs x \<le> i \<longrightarrow> i < length xs \<longrightarrow> x \<le> xs ! i)"
  unfolding bisect_left_def using bisect_left_in_spec [OF assms, of 0 "length xs" x] by simp

end
