(* ===== verification/TimedQueue.thy ===== *)
theory TimedQueue
  imports Prelude "HOL-Library.Product_Lexorder"
begin

text \<open>
  The priority queue behind the replay wallet and the backtest engine.  Both push
  \<^verbatim>\<open>(time, sequence, item)\<close> triples with \<^verbatim>\<open>heapq\<close> and pop them in order of time, ties broken
  by a sequence number that never repeats.  A heap with distinct keys pops its entries in
  key order, so the queue is kept here as the list of its entries in pop order.

  \<open>timed_queue\<close> is the contract the two clients rely on; the list implementation is
  shown to satisfy it at the end of the theory.
\<close>

type_synonym 'a entry = "(int \<times> nat) \<times> 'a"

fun tq_push :: "'a entry \<Rightarrow> 'a entry list \<Rightarrow> 'a entry list" where
  "tq_push x [] = [x]"
| "tq_push x (y # ys) = (if fst x < fst y then x # y # ys else y # tq_push x ys)"

fun tq_pop :: "'a entry list \<Rightarrow> ('a entry \<times> 'a entry list) option" where
  "tq_pop [] = None"
| "tq_pop (x # xs) = Some (x, xs)"

definition tq_inv :: "'a entry list \<Rightarrow> bool" where
  "tq_inv q \<longleftrightarrow> sorted (map fst q)"

lemma tq_inv_simps [simp]:
  "tq_inv []" "tq_inv (x # q) \<longleftrightarrow> (\<forall>y \<in> set q. fst x \<le> fst y) \<and> tq_inv q"
  by (auto simp: tq_inv_def)

lemma mset_tq_push [simp]: "mset (tq_push x q) = add_mset x (mset q)"
  by (induction q) auto

lemma set_tq_push [simp]: "set (tq_push x q) = insert x (set q)"
  by (induction q) auto

lemma length_tq_push [simp]: "length (tq_push x q) = Suc (length q)"
  by (induction q) auto

lemma tq_push_not_Nil [simp]: "tq_push x q \<noteq> []"
  by (cases q) auto

lemma tq_inv_push [inv_intros]: "tq_inv q \<Longrightarrow> tq_inv (tq_push x q)"
proof (induction q)
  case (Cons y q)
  then have "\<forall>z \<in> set q. fst x < fst y \<longrightarrow> fst x \<le> fst z"
    by (auto intro: order.trans less_imp_le)
  with Cons show ?case by (auto simp del: less_eq_prod_simp less_prod_simp)
qed simp

lemma fst_entry_mono: "(x :: int \<times> nat) \<le> y \<Longrightarrow> fst x \<le> fst y"
  by (cases x; cases y) auto

lemma tq_pop_None [simp]: "tq_pop q = None \<longleftrightarrow> q = []"
  by (cases q) auto

lemma tq_pop_Some: "tq_pop q = Some (x, q') \<longleftrightarrow> q = x # q'"
  by (cases q) auto

section \<open>The contract and its consequences\<close>

locale timed_queue =
  fixes push :: "'a entry \<Rightarrow> 'q \<Rightarrow> 'q"
    and pop :: "'q \<Rightarrow> ('a entry \<times> 'q) option"
    and entries :: "'q \<Rightarrow> 'a entry multiset"
    and inv :: "'q \<Rightarrow> bool"
  assumes entries_push: "inv q \<Longrightarrow> entries (push x q) = add_mset x (entries q)"
    and inv_push: "inv q \<Longrightarrow> inv (push x q)"
    and pop_None: "inv q \<Longrightarrow> pop q = None \<longleftrightarrow> entries q = {#}"
    and pop_entries: "inv q \<Longrightarrow> pop q = Some (x, q') \<Longrightarrow> entries q = add_mset x (entries q')"
    and pop_inv: "inv q \<Longrightarrow> pop q = Some (x, q') \<Longrightarrow> inv q'"
    and pop_least: "inv q \<Longrightarrow> pop q = Some (x, q') \<Longrightarrow> y \<in># entries q' \<Longrightarrow> fst x \<le> fst y"
begin

text \<open>Popping makes the queue smaller: the loops that drain it stop.\<close>

lemma pop_size: "inv q \<Longrightarrow> pop q = Some (x, q') \<Longrightarrow> size (entries q') < size (entries q)"
  by (simp add: pop_entries)

text \<open>When the head is not due, nothing is due.\<close>

lemma head_not_due:
  assumes "inv q" "pop q = Some (x, q')" "t < fst (fst x)" "y \<in># entries q"
  shows "t < fst (fst y)"
proof (cases "y = x")
  case False
  with assms pop_entries have "y \<in># entries q'" by fastforce
  with assms have "fst x \<le> fst y" by (blast intro: pop_least)
  then have "fst (fst x) \<le> fst (fst y)" by (rule fst_entry_mono)
  with assms(3) show ?thesis by simp
qed (use assms in simp)

text \<open>The head is the earliest entry.\<close>

lemma head_earliest:
  assumes "inv q" "pop q = Some (x, q')" "y \<in># entries q"
  shows "fst (fst x) \<le> fst (fst y)"
proof (cases "y = x")
  case False
  with assms pop_entries have "y \<in># entries q'" by fastforce
  with assms(1,2) have "fst x \<le> fst y" by (rule pop_least)
  then show ?thesis by (rule fst_entry_mono)
qed simp

lemma push_not_empty: "inv q \<Longrightarrow> pop (push x q) \<noteq> None"
  by (simp add: pop_None inv_push entries_push)

end

interpretation tq: timed_queue tq_push tq_pop mset tq_inv
  by unfold_locales (auto simp: inv_intros tq_pop_Some)

end
