(* ===== verification/Wallet.thy ===== *)
theory Wallet
  imports TimedQueue
begin

text \<open>
  \<^verbatim>\<open>backtest/wallet.py\<close>: the timestamped collateral ledger.  Cash is either available or a
  pending credit with a release time; \<open>advance_to\<close> moves time forward and releases what has
  become due, \<open>debit\<close> spends available cash only.  An operation returns the wallet and its
  result, because a refused debit has already advanced the wallet's clock.
\<close>

section \<open>State\<close>

record pending_credit =
  pc_available_utc_ns :: int
  pc_amount_scaled :: int
  pc_source :: string

definition make_pending_credit :: "int \<Rightarrow> int \<Rightarrow> string \<Rightarrow> py_error + pending_credit" where
  "make_pending_credit available amount source =
     (if available < 0 then Inl (ValueError ''credit timestamp must be non-negative'')
      else if amount < 0 then Inl (ValueError ''credit amount must be non-negative'')
      else Inr \<lparr>pc_available_utc_ns = available, pc_amount_scaled = amount, pc_source = source\<rparr>)"

datatype wallet_event_kind = Credit_released | Debit | Credit

record wallet_event =
  we_timestamp_utc_ns :: int
  we_kind :: wallet_event_kind
  we_amount_scaled :: int
  we_available_cash_scaled :: int
  we_source :: string

record wallet =
  w_available :: int
  w_now :: int
  w_pending :: "pending_credit entry list"
  w_sequence :: nat
  w_events :: "wallet_event list"

definition make_wallet :: "int \<Rightarrow> int \<Rightarrow> py_error + wallet" where
  "make_wallet starting_cash start_utc_ns =
     (if starting_cash < 0 then Inl (ValueError ''starting cash must be non-negative'')
      else if start_utc_ns < 0 then Inl (ValueError ''start timestamp must be non-negative'')
      else Inr \<lparr>w_available = starting_cash, w_now = start_utc_ns, w_pending = [],
                w_sequence = 0, w_events = []\<rparr>)"

section \<open>Observers\<close>

definition pending_cash :: "wallet \<Rightarrow> int" where
  "pending_cash w = sum_list (map (\<lambda>(_, c). pc_amount_scaled c) (w_pending w))"

definition total_equity :: "wallet \<Rightarrow> int" where
  "total_equity w = w_available w + pending_cash w"

definition peek_available_at :: "int \<Rightarrow> wallet \<Rightarrow> py_error + int" where
  "peek_available_at t w =
     (if t < w_now w then Inl (ValueError ''cannot query cash behind wallet time'')
      else Inr (w_available w
        + sum_list (map (\<lambda>(_, c). pc_amount_scaled c)
            (filter (\<lambda>((due, _), _). due \<le> t) (w_pending w)))))"

section \<open>Operations\<close>

definition log_event :: "int \<Rightarrow> wallet_event_kind \<Rightarrow> int \<Rightarrow> string \<Rightarrow> wallet \<Rightarrow> wallet" where
  "log_event t kind amount source w =
     w\<lparr>w_events := w_events w @ [\<lparr>we_timestamp_utc_ns = t, we_kind = kind,
         we_amount_scaled = amount, we_available_cash_scaled = w_available w,
         we_source = source\<rparr>]\<rparr>"

text \<open>The \<^verbatim>\<open>while\<close> loop of \<^verbatim>\<open>advance_to\<close>.\<close>

function release_due :: "int \<Rightarrow> wallet \<Rightarrow> wallet" where
  "release_due t w =
     (case tq_pop (w_pending w) of
        None \<Rightarrow> w
      | Some (((due, _), credit), rest) \<Rightarrow>
          if due \<le> t then
            release_due t
              (log_event due Credit_released (pc_amount_scaled credit) (pc_source credit)
                (w\<lparr>w_available := w_available w + pc_amount_scaled credit,
                   w_pending := rest\<rparr>))
          else w)"
  by pat_completeness auto
termination
  by (relation "measure (\<lambda>(t, w). length (w_pending w))")
    (auto simp: log_event_def tq_pop_Some)

declare release_due.simps [simp del]

definition advance_to :: "int \<Rightarrow> wallet \<Rightarrow> wallet \<times> (py_error + int)" where
  "advance_to t w =
     (if t < w_now w then (w, Inl (ValueError ''wallet time cannot move backwards''))
      else let w' = (release_due t w)\<lparr>w_now := t\<rparr> in (w', Inr (w_available w')))"

definition debit :: "int \<Rightarrow> int \<Rightarrow> string \<Rightarrow> wallet \<Rightarrow> wallet \<times> (py_error + unit)" where
  "debit t amount source w =
     (if amount < 0 then (w, Inl (ValueError ''debit amount must be non-negative''))
      else case advance_to t w of
        (w1, Inl e) \<Rightarrow> (w1, Inl e)
      | (w1, Inr _) \<Rightarrow>
          if w_available w1 < amount
          then (w1, Inl (InsufficientReplayCash amount (w_available w1)))
          else (log_event t Debit (- amount) source
                  (w1\<lparr>w_available := w_available w1 - amount\<rparr>), Inr ()))"

definition credit_now :: "int \<Rightarrow> int \<Rightarrow> string \<Rightarrow> wallet \<Rightarrow> wallet \<times> (py_error + unit)" where
  "credit_now t amount source w =
     (if amount < 0 then (w, Inl (ValueError ''credit amount must be non-negative''))
      else case advance_to t w of
        (w1, Inl e) \<Rightarrow> (w1, Inl e)
      | (w1, Inr _) \<Rightarrow>
          (log_event t Credit amount source
             (w1\<lparr>w_available := w_available w1 + amount\<rparr>), Inr ()))"

definition schedule_credit :: "pending_credit \<Rightarrow> wallet \<Rightarrow> wallet" where
  "schedule_credit c w =
     (if pc_amount_scaled c = 0 then w
      else if pc_available_utc_ns c \<le> w_now w then
        log_event (w_now w) Credit_released (pc_amount_scaled c) (pc_source c)
          (w\<lparr>w_available := w_available w + pc_amount_scaled c\<rparr>)
      else w\<lparr>w_sequence := w_sequence w + 1,
             w_pending := tq_push ((pc_available_utc_ns c, w_sequence w + 1), c) (w_pending w)\<rparr>)"

definition release_all :: "wallet \<Rightarrow> wallet \<times> (py_error + int)" where
  "release_all w =
     (case map (\<lambda>((due, _), _). due) (w_pending w) of
        [] \<Rightarrow> (w, Inr (w_available w))
      | d # ds \<Rightarrow>
          (case advance_to (foldl max d ds) w of
             (w1, Inl e) \<Rightarrow> (w1, Inl e)
           | (w1, Inr _) \<Rightarrow> (w1, Inr (w_available w1))))"

section \<open>Invariant\<close>

text \<open>
  \<open>ledger_ok c es\<close>: started from cash \<open>c\<close>, every event records the balance it leaves, and no
  balance is negative.  \<open>ledger_end c es\<close> is the balance after the last event.
\<close>

fun ledger_ok :: "int \<Rightarrow> wallet_event list \<Rightarrow> bool" where
  "ledger_ok c [] \<longleftrightarrow> 0 \<le> c"
| "ledger_ok c (e # es) \<longleftrightarrow>
     0 \<le> c \<and> we_available_cash_scaled e = c + we_amount_scaled e
     \<and> ledger_ok (we_available_cash_scaled e) es"

definition ledger_end :: "int \<Rightarrow> wallet_event list \<Rightarrow> int" where
  "ledger_end c es = c + sum_list (map we_amount_scaled es)"

definition pending_ok :: "wallet \<Rightarrow> bool" where
  "pending_ok w \<longleftrightarrow> tq_inv (w_pending w)
     \<and> (\<forall>((due, n), c) \<in> set (w_pending w).
          due = pc_available_utc_ns c \<and> w_now w < due \<and> 0 < pc_amount_scaled c
          \<and> n \<le> w_sequence w)
     \<and> distinct (map (\<lambda>((due, n), c). n) (w_pending w))"

definition events_ok :: "int \<Rightarrow> wallet \<Rightarrow> bool" where
  "events_ok c0 w \<longleftrightarrow> ledger_ok c0 (w_events w) \<and> w_available w = ledger_end c0 (w_events w)
     \<and> sorted (map we_timestamp_utc_ns (w_events w))
     \<and> (\<forall>e \<in> set (w_events w). we_timestamp_utc_ns e \<le> w_now w)"

definition wallet_inv :: "int \<Rightarrow> wallet \<Rightarrow> bool" where
  "wallet_inv c0 w \<longleftrightarrow> 0 \<le> w_available w \<and> pending_ok w \<and> events_ok c0 w"

lemma ledger_ok_snoc:
  "ledger_ok c (es @ [e]) \<longleftrightarrow>
     ledger_ok c es \<and> we_available_cash_scaled e = ledger_end c es + we_amount_scaled e
     \<and> 0 \<le> we_available_cash_scaled e"
  by (induction c es rule: ledger_ok.induct) (auto simp: ledger_end_def algebra_simps)

lemma ledger_end_simps [simp]:
  "ledger_end c [] = c" "ledger_end c (es @ [e]) = ledger_end c es + we_amount_scaled e"
  by (simp_all add: ledger_end_def)

lemma log_event_sel [simp]:
  "w_available (log_event t k a s w) = w_available w" "w_now (log_event t k a s w) = w_now w"
  "w_pending (log_event t k a s w) = w_pending w" "w_sequence (log_event t k a s w) = w_sequence w"
  by (simp_all add: log_event_def)

text \<open>Logging the movement of \<open>a\<close> keeps the ledger in step with the balance.\<close>

lemma events_ok_log:
  assumes "events_ok c0 w" "0 \<le> w_available w + a" "w_available w' = w_available w + a"
    "w_events w' = w_events w" "\<forall>e \<in> set (w_events w). we_timestamp_utc_ns e \<le> t"
    "t \<le> w_now w'" "w_now w \<le> w_now w'"
  shows "events_ok c0 (log_event t k a s w')"
  using assms
  by (auto simp: events_ok_def log_event_def ledger_ok_snoc sorted_append intro: order.trans)

text \<open>
  The release loop, with the facts it keeps: the part of the invariant that does not mention
  the clock, and a log that never runs ahead of what is still pending.
\<close>

definition release_inv :: "int \<Rightarrow> int \<Rightarrow> wallet \<Rightarrow> bool" where
  "release_inv c0 t w \<longleftrightarrow> 0 \<le> w_available w \<and> pending_ok w
     \<and> ledger_ok c0 (w_events w) \<and> w_available w = ledger_end c0 (w_events w)
     \<and> sorted (map we_timestamp_utc_ns (w_events w))
     \<and> (\<forall>e \<in> set (w_events w). we_timestamp_utc_ns e \<le> t)
     \<and> (\<forall>e \<in> set (w_events w). \<forall>p \<in> set (w_pending w). we_timestamp_utc_ns e \<le> fst (fst p))"

definition release_one :: "wallet \<Rightarrow> wallet" where
  "release_one w =
     (case w_pending w of
        [] \<Rightarrow> w
      | ((due, _), c) # rest \<Rightarrow>
          log_event due Credit_released (pc_amount_scaled c) (pc_source c)
            (w\<lparr>w_available := w_available w + pc_amount_scaled c, w_pending := rest\<rparr>))"

lemma release_due_stop:
  "w_pending w = [] \<or> t < fst (fst (hd (w_pending w))) \<Longrightarrow> release_due t w = w"
  by (subst release_due.simps) (auto split: list.splits option.splits simp: tq_pop_Some)

lemma release_due_step:
  "w_pending w = p # rest \<Longrightarrow> fst (fst p) \<le> t \<Longrightarrow> release_due t w = release_due t (release_one w)"
  by (subst release_due.simps) (auto simp: release_one_def split: prod.splits)

lemma pending_release_one [simp]:
  "w_pending w = p # rest \<Longrightarrow> w_pending (release_one w) = rest"
  by (auto simp: release_one_def split: prod.splits)

lemma release_one_sel [simp]:
  "w_now (release_one w) = w_now w" "w_sequence (release_one w) = w_sequence w"
  by (auto simp: release_one_def split: list.splits)

lemma release_due_frame: "w_now (release_due t w) = w_now w \<and> w_sequence (release_due t w) = w_sequence w"
proof (induction "w_pending w" arbitrary: w)
  case (Cons p rest)
  note p = Cons.hyps(2) [symmetric]
  from Cons.hyps(1) [of "release_one w"] p show ?case
    by (cases "fst (fst p) \<le> t") (simp_all add: release_due_step [OF p] release_due_stop)
qed (simp add: release_due_stop)

lemmas release_due_sel [simp] =
  release_due_frame [THEN conjunct1] release_due_frame [THEN conjunct2]

lemma release_inv_one:
  assumes "release_inv c0 t w" "w_pending w = p # rest" "fst (fst p) \<le> t"
  shows "release_inv c0 t (release_one w)"
proof -
  obtain due n c where p: "p = ((due, n), c)" by (metis surj_pair)
  have pos: "0 < pc_amount_scaled c" and rest: "pending_ok (w\<lparr>w_pending := rest\<rparr>)"
    using assms(1,2) by (auto simp: release_inv_def pending_ok_def p)
  have later: "due \<le> fst (fst q)" if "q \<in> set rest" for q
    using assms(1,2) that fst_entry_mono [of "(due, n)" "fst q"]
    by (auto simp: release_inv_def pending_ok_def p)
  show ?thesis
    using assms pos rest later
    by (auto simp: release_inv_def release_one_def log_event_def ledger_ok_snoc p pending_ok_def
        sorted_append)
qed

lemma release_due_inv:
  "release_inv c0 t w \<Longrightarrow>
     release_inv c0 t (release_due t w) \<and> (\<forall>q \<in> set (w_pending (release_due t w)). t < fst (fst q))"
proof (induction "w_pending w" arbitrary: w)
  case Nil
  then show ?case by (simp add: release_due_stop)
next
  case (Cons p rest)
  note p = Cons.hyps(2) [symmetric]
  show ?case
  proof (cases "fst (fst p) \<le> t")
    case True
    with Cons.hyps(1) [of "release_one w"] release_inv_one [OF Cons.prems p True] p
    show ?thesis by (simp add: release_due_step)
  next
    case False
    have inv: "tq_inv (w_pending w)"
      using Cons.prems by (simp add: release_inv_def pending_ok_def)
    have "\<forall>q \<in> set (w_pending w). t < fst (fst q)"
      using tq.head_not_due [OF inv, of p rest t] p False by (auto simp: tq_pop_Some)
    with Cons.prems p False show ?thesis by (simp add: release_due_stop)
  qed
qed

lemma wallet_inv_release: "wallet_inv c0 w \<Longrightarrow> w_now w \<le> t \<Longrightarrow> release_inv c0 t w"
  unfolding wallet_inv_def release_inv_def events_ok_def pending_ok_def
  by (fastforce simp: split_beta)

text \<open>What the release loop moves, in closed form.\<close>

lemma release_due_moves:
  "tq_inv (w_pending w) \<Longrightarrow>
     w_available (release_due t w) = w_available w
       + sum_list (map (\<lambda>(_, c). pc_amount_scaled c) (filter (\<lambda>((due, _), _). due \<le> t) (w_pending w)))
     \<and> w_pending (release_due t w) = filter (\<lambda>((due, _), _). t < due) (w_pending w)"
proof (induction "w_pending w" arbitrary: w)
  case Nil
  then show ?case by (simp add: release_due_stop)
next
  case (Cons p rest)
  note p = Cons.hyps(2) [symmetric]
  show ?case
  proof (cases "fst (fst p) \<le> t")
    case True
    have "w_available (release_one w) = w_available w + pc_amount_scaled (snd p)"
      using p by (auto simp: release_one_def split: prod.splits)
    with Cons.hyps(1) [of "release_one w"] Cons.prems True p show ?thesis
      by (auto simp: release_due_step split: prod.splits)
  next
    case False
    have late: "\<forall>q \<in> set (w_pending w). t < fst (fst q)"
      using tq.head_not_due [OF Cons.prems, of p rest t] p False by (auto simp: tq_pop_Some)
    then have "filter (\<lambda>((due, _), _). due \<le> t) (w_pending w) = []"
      "filter (\<lambda>((due, _), _). t < due) (w_pending w) = w_pending w"
      by (auto simp: filter_empty_conv filter_id_conv)
    with p False show ?thesis by (simp add: release_due_stop)
  qed
qed

section \<open>The operations keep the invariant\<close>

lemma wallet_inv_make: "make_wallet cash t = Inr w \<Longrightarrow> wallet_inv cash w"
  by (auto simp: make_wallet_def wallet_inv_def pending_ok_def events_ok_def split: if_splits)

lemma wallet_inv_advance [inv_intros]:
  assumes "wallet_inv c0 w"
  shows "wallet_inv c0 (fst (advance_to t w))"
proof (cases "t < w_now w")
  case False
  then have "release_inv c0 t w" using assms by (simp add: wallet_inv_release)
  from release_due_inv [OF this] False show ?thesis
    by (auto simp: advance_to_def wallet_inv_def release_inv_def pending_ok_def events_ok_def
        Let_def)
qed (use assms in \<open>simp add: advance_to_def\<close>)

lemma advance_to_cases:
  obtains (past) "t < w_now w" "advance_to t w = (w, Inl (ValueError ''wallet time cannot move backwards''))"
  | (ok) w1 where "w_now w \<le> t" "advance_to t w = (w1, Inr (w_available w1))" "w_now w1 = t"
      "w1 = (release_due t w)\<lparr>w_now := t\<rparr>"
  by (cases "t < w_now w") (auto simp: advance_to_def Let_def)

lemma wallet_inv_log:
  assumes "wallet_inv c0 w" "0 \<le> w_available w + a"
  shows "wallet_inv c0 (log_event (w_now w) k a s (w\<lparr>w_available := w_available w + a\<rparr>))"
proof -
  have "events_ok c0 (log_event (w_now w) k a s (w\<lparr>w_available := w_available w + a\<rparr>))"
    by (rule events_ok_log [where w = w]) (use assms in \<open>auto simp: wallet_inv_def events_ok_def\<close>)
  with assms show ?thesis by (simp add: wallet_inv_def pending_ok_def)
qed

lemma wallet_inv_debit [inv_intros]:
  assumes "wallet_inv c0 w"
  shows "wallet_inv c0 (fst (debit t amount source w))"
proof (cases rule: advance_to_cases [where t = t and w = w])
  case past
  with assms show ?thesis by (simp add: debit_def)
next
  case (ok w1)
  have inv: "wallet_inv c0 w1" using wallet_inv_advance [OF assms, of t] ok by simp
  show ?thesis
    using assms ok inv wallet_inv_log [OF inv, of "- amount" Debit source]
    by (auto simp: debit_def)
qed

lemma wallet_inv_credit [inv_intros]:
  assumes "wallet_inv c0 w"
  shows "wallet_inv c0 (fst (credit_now t amount source w))"
proof (cases rule: advance_to_cases [where t = t and w = w])
  case past
  with assms show ?thesis by (simp add: credit_now_def)
next
  case (ok w1)
  have inv: "wallet_inv c0 w1" using wallet_inv_advance [OF assms, of t] ok by simp
  then have "0 \<le> w_available w1" by (simp add: wallet_inv_def)
  with assms ok inv wallet_inv_log [OF inv, of amount Credit source] show ?thesis
    by (auto simp: credit_now_def)
qed

lemma wallet_inv_schedule [inv_intros]:
  assumes "wallet_inv c0 w" "0 \<le> pc_amount_scaled c"
  shows "wallet_inv c0 (schedule_credit c w)"
proof (cases "pc_amount_scaled c = 0 \<or> pc_available_utc_ns c \<le> w_now w")
  case True
  have "0 \<le> w_available w" using assms(1) by (simp add: wallet_inv_def)
  with assms True wallet_inv_log [OF assms(1), of "pc_amount_scaled c" Credit_released "pc_source c"]
  show ?thesis by (auto simp: schedule_credit_def)
next
  case False
  let ?e = "((pc_available_utc_ns c, Suc (w_sequence w)), c)"
  have p: "pending_ok w" using assms(1) by (simp add: wallet_inv_def)
  have "set (map (\<lambda>((due, n), c). n) (w_pending w)) \<subseteq> {..w_sequence w}"
    using p by (auto simp: pending_ok_def)
  moreover have "distinct (map (\<lambda>((due, n), c). n) (tq_push ?e (w_pending w))) \<longleftrightarrow>
      distinct (map (\<lambda>((due, n), c). n) (?e # w_pending w))"
    by (intro mset_eq_imp_distinct_iff) simp
  ultimately have "distinct (map (\<lambda>((due, n), c). n) (tq_push ?e (w_pending w)))"
    using p by (auto simp: pending_ok_def)
  with p False assms(2) have "pending_ok (schedule_credit c w)"
    by (auto simp: pending_ok_def schedule_credit_def inv_intros)
  with assms(1) False show ?thesis
    by (auto simp: wallet_inv_def schedule_credit_def events_ok_def)
qed

lemma wallet_inv_release_all [inv_intros]:
  assumes "wallet_inv c0 w"
  shows "wallet_inv c0 (fst (release_all w))"
proof (cases "map (\<lambda>((due, _), _). due) (w_pending w)")
  case (Cons d ds)
  show ?thesis
    using wallet_inv_advance [OF assms, of "foldl max d ds"] Cons
    by (cases rule: advance_to_cases [where t = "foldl max d ds" and w = w])
      (auto simp: release_all_def)
qed (use assms in \<open>simp add: release_all_def\<close>)

section \<open>What the operations do\<close>

lemma advance_available:
  assumes "wallet_inv c0 w" "w_now w \<le> t"
  shows "peek_available_at t w = Inr (w_available (fst (advance_to t w)))"
  using assms release_due_moves [of w t]
  by (simp add: advance_to_def peek_available_at_def Let_def wallet_inv_def pending_ok_def)

lemma sum_list_filter_split:
  "sum_list (map f (filter P xs)) + sum_list (map f (filter (\<lambda>x. \<not> P x) xs))
     = (sum_list (map f xs) :: int)"
  by (induction xs) auto

lemma advance_equity:
  assumes "wallet_inv c0 w"
  shows "total_equity (fst (advance_to t w)) = total_equity w"
proof (cases "t < w_now w")
  case False
  have late: "(\<lambda>((due, _), _). t < due) = (\<lambda>x. \<not> (\<lambda>((due, _), _). due \<le> t) x)"
    by (auto simp: fun_eq_iff)
  from False show ?thesis
    using assms release_due_moves [of w t]
      sum_list_filter_split [of "\<lambda>(_, c). pc_amount_scaled c" "\<lambda>((due, _), _). due \<le> t" "w_pending w"]
    by (simp add: advance_to_def Let_def total_equity_def pending_cash_def wallet_inv_def
        pending_ok_def late)
qed (simp add: advance_to_def)

lemma advance_pending_empty:
  assumes "wallet_inv c0 w" "\<forall>((due, _), _) \<in> set (w_pending w). due \<le> t" "w_now w \<le> t"
  shows "w_pending (fst (advance_to t w)) = []"
  using assms release_due_moves [of w t]
  by (auto simp: advance_to_def Let_def wallet_inv_def pending_ok_def filter_empty_conv)

lemma foldl_max_ge: "foldl max (d :: int) ds \<ge> d \<and> (\<forall>x \<in> set ds. x \<le> foldl max d ds)"
proof (induction ds arbitrary: d)
  case (Cons x ds)
  from Cons.IH [of "max d x"] show ?case by auto
qed simp

lemma release_all_drains:
  assumes "wallet_inv c0 w"
  shows "w_pending (fst (release_all w)) = []
    \<and> w_available (fst (release_all w)) = total_equity w
    \<and> snd (release_all w) = Inr (total_equity w)"
proof (cases "map (\<lambda>((due, _), _). due) (w_pending w)")
  case Nil
  then show ?thesis by (simp add: release_all_def total_equity_def pending_cash_def)
next
  case (Cons d ds)
  let ?t = "foldl max d ds"
  have "\<forall>x \<in> set (map (\<lambda>((due, _), _). due) (w_pending w)). x \<le> ?t \<and> w_now w < x"
    using foldl_max_ge [of d ds] assms Cons
    by (auto simp: wallet_inv_def pending_ok_def simp del: set_map)
       (force simp flip: Cons)+
  then have due: "\<forall>((due, _), _) \<in> set (w_pending w). due \<le> ?t" and now: "w_now w \<le> ?t"
    using Cons by (auto simp: map_eq_Cons_conv)
  from advance_pending_empty [OF assms due now] have empty: "w_pending (fst (advance_to ?t w)) = []" .
  with advance_equity [OF assms, of ?t]
  have avail: "w_available (fst (advance_to ?t w)) = total_equity w"
    by (simp add: total_equity_def pending_cash_def)
  show ?thesis
    using now Cons empty avail
    by (cases rule: advance_to_cases [where t = ?t and w = w]) (auto simp: release_all_def)
qed

lemma debit_outcome:
  assumes "wallet_inv c0 w" "w_now w \<le> t" "0 \<le> amount" "peek_available_at t w = Inr cash"
  shows "debit t amount source w =
    (if amount \<le> cash
     then (log_event t Debit (- amount) source
             ((fst (advance_to t w))\<lparr>w_available := cash - amount\<rparr>), Inr ())
     else (fst (advance_to t w), Inl (InsufficientReplayCash amount cash)))"
proof -
  have cash: "w_available (fst (advance_to t w)) = cash"
    using advance_available [OF assms(1,2)] assms(4) by simp
  show ?thesis
    using assms(2,3) cash
    by (cases rule: advance_to_cases [where t = t and w = w]) (auto simp: debit_def)
qed

section \<open>Reachable wallets\<close>

text \<open>
  A wallet as any caller can make it: constructed with cash \<open>c0\<close> and driven by the public
  operations in any order, going on after an exception with the wallet as it was left.
\<close>

inductive reachable_wallet :: "int \<Rightarrow> wallet \<Rightarrow> bool" for c0 where
  start: "make_wallet c0 t = Inr w \<Longrightarrow> reachable_wallet c0 w"
| advance: "reachable_wallet c0 w \<Longrightarrow> reachable_wallet c0 (fst (advance_to t w))"
| debit: "reachable_wallet c0 w \<Longrightarrow> reachable_wallet c0 (fst (debit t amount source w))"
| credit: "reachable_wallet c0 w \<Longrightarrow> reachable_wallet c0 (fst (credit_now t amount source w))"
| schedule: "reachable_wallet c0 w \<Longrightarrow> make_pending_credit t amount source = Inr c \<Longrightarrow>
    reachable_wallet c0 (schedule_credit c w)"
| release: "reachable_wallet c0 w \<Longrightarrow> reachable_wallet c0 (fst (release_all w))"

lemma make_pending_credit_amount: "make_pending_credit t a s = Inr c \<Longrightarrow> 0 \<le> pc_amount_scaled c"
  by (auto simp: make_pending_credit_def split: if_splits)

lemma reachable_wallet_inv: "reachable_wallet c0 w \<Longrightarrow> wallet_inv c0 w"
  by (induction rule: reachable_wallet.induct)
    (auto intro: inv_intros wallet_inv_make make_pending_credit_amount)

text \<open>
  C11. Whatever sequence of operations a caller performs, refused ones included, the replay
  wallet is never overdrawn, holds back exactly the credits that are not yet due, and its event
  log explains the balance: the recorded amounts sum to it, each event records the balance it
  left, and the events are in time order.
\<close>

theorem wallet_ledger_sound:
  assumes "reachable_wallet c0 w"
  shows "0 \<le> w_available w
    \<and> (\<forall>((due, _), c) \<in> set (w_pending w). w_now w < due \<and> 0 < pc_amount_scaled c)
    \<and> ledger_ok c0 (w_events w)
    \<and> w_available w = c0 + sum_list (map we_amount_scaled (w_events w))
    \<and> sorted (map we_timestamp_utc_ns (w_events w))"
  using reachable_wallet_inv [OF assms]
  by (auto simp: wallet_inv_def pending_ok_def events_ok_def ledger_end_def)

text \<open>A run used by the witnesses: a locked settlement credit, then a refused debit.\<close>

definition demo_credit :: pending_credit where
  "demo_credit = \<lparr>pc_available_utc_ns = 50, pc_amount_scaled = 7, pc_source = ''win''\<rparr>"

definition demo_wallet :: wallet where
  "demo_wallet = \<lparr>w_available = 10, w_now = 5, w_pending = [((50, 1), demo_credit)],
     w_sequence = 1, w_events = []\<rparr>"

lemma demo_wallet_reachable: "reachable_wallet 10 demo_wallet"
proof -
  have "reachable_wallet 10 \<lparr>w_available = 10, w_now = 5, w_pending = [], w_sequence = 0, w_events = []\<rparr>"
    by (rule reachable_wallet.start [of _ 5]) (simp add: make_wallet_def)
  then have "reachable_wallet 10 (schedule_credit demo_credit
      \<lparr>w_available = 10, w_now = 5, w_pending = [], w_sequence = 0, w_events = []\<rparr>)"
    by (rule reachable_wallet.schedule [where t = 50 and amount = 7 and source = "''win''"])
      (simp add: make_pending_credit_def demo_credit_def)
  then show ?thesis by (simp add: schedule_credit_def demo_credit_def demo_wallet_def)
qed

theorem wallet_ledger_sound_witness:
  "reachable_wallet 10 (fst (debit 60 12 ''buy'' demo_wallet))
   \<and> w_available (fst (debit 60 12 ''buy'' demo_wallet)) = 5
   \<and> ledger_ok 10 (w_events (fst (debit 60 12 ''buy'' demo_wallet)))"
proof -
  have r: "reachable_wallet 10 (fst (debit 60 12 ''buy'' demo_wallet))"
    by (rule reachable_wallet.debit [OF demo_wallet_reachable])
  have "w_available (fst (debit 60 12 ''buy'' demo_wallet)) = 5"
    by (simp add: debit_def advance_to_def release_due.simps demo_wallet_def demo_credit_def
        log_event_def Let_def)
  with r wallet_ledger_sound [OF r] show ?thesis by simp
qed

text \<open>
  Locked collateral cannot be spent early and released collateral is not lost: a debit at a
  future time succeeds exactly when the amount is covered by what \<open>peek_available_at\<close> reports
  for that time; on success the balance is that cash less the amount, and a refused debit
  leaves exactly that cash and takes nothing from the total equity.
\<close>

theorem wallet_debit_exact:
  assumes "reachable_wallet c0 w" "w_now w \<le> t" "0 \<le> amount"
    and "debit t amount source w = (w', r)"
  shows "\<exists>cash. peek_available_at t w = Inr cash \<and> w_now w' = t
    \<and> (if amount \<le> cash
       then r = Inr () \<and> w_available w' = cash - amount
         \<and> total_equity w' = total_equity w - amount
       else r = Inl (InsufficientReplayCash amount cash) \<and> w_available w' = cash
         \<and> total_equity w' = total_equity w)"
proof -
  note inv = reachable_wallet_inv [OF assms(1)]
  obtain cash where cash: "peek_available_at t w = Inr cash"
    using advance_available [OF inv assms(2)] by blast
  then have avail: "w_available (fst (advance_to t w)) = cash"
    using advance_available [OF inv assms(2)] by simp
  have now: "w_now (fst (advance_to t w)) = t"
    using assms(2) by (simp add: advance_to_def Let_def)
  from debit_outcome [OF inv assms(2,3) cash, of source] assms(4) avail now cash
    advance_equity [OF inv, of t]
  show ?thesis
    by (auto simp: total_equity_def pending_cash_def split: if_splits)
qed

theorem wallet_debit_exact_witness:
  "w_available (fst (debit 40 12 ''buy'' demo_wallet)) = 10
   \<and> snd (debit 40 12 ''buy'' demo_wallet) = Inl (InsufficientReplayCash 12 10)
   \<and> snd (debit 60 12 ''buy'' demo_wallet) = Inr ()"
proof -
  have now: "w_now demo_wallet \<le> 40" "w_now demo_wallet \<le> 60" by (simp_all add: demo_wallet_def)
  have peek: "peek_available_at 40 demo_wallet = Inr 10" "peek_available_at 60 demo_wallet = Inr 17"
    by (simp_all add: peek_available_at_def demo_wallet_def demo_credit_def)
  from wallet_debit_exact [OF demo_wallet_reachable now(1), of 12 "''buy''"
      "fst (debit 40 12 ''buy'' demo_wallet)" "snd (debit 40 12 ''buy'' demo_wallet)"]
    wallet_debit_exact [OF demo_wallet_reachable now(2), of 12 "''buy''"
      "fst (debit 60 12 ''buy'' demo_wallet)" "snd (debit 60 12 ''buy'' demo_wallet)"]
    peek
  show ?thesis by simp
qed

text \<open>
  Advancing the clock moves money between pending and available without creating or
  losing any, and \<open>release_all\<close> turns the whole equity into available cash.
\<close>

theorem wallet_release_conserves:
  assumes "reachable_wallet c0 w"
  shows "total_equity (fst (advance_to t w)) = total_equity w
    \<and> w_pending (fst (release_all w)) = []
    \<and> snd (release_all w) = Inr (total_equity w)"
  using advance_equity [OF reachable_wallet_inv [OF assms]]
    release_all_drains [OF reachable_wallet_inv [OF assms]] by blast

theorem wallet_release_conserves_witness:
  "snd (release_all demo_wallet) = Inr 17"
  using wallet_release_conserves [OF demo_wallet_reachable]
  by (simp add: total_equity_def pending_cash_def demo_wallet_def demo_credit_def)

end
