(* ===== verification/SortedDict.thy ===== *)
theory SortedDict
  imports Prelude
begin

text \<open>
  The contract of \<^verbatim>\<open>sortedcontainers.SortedDict\<close> that \<^verbatim>\<open>orderbook/state.py\<close> relies on: a finite
  map whose items come in strictly ascending key order, with assignment and \<^verbatim>\<open>pop\<close> acting on
  one key.  The package is not part of the repository; the locale \<open>sorted_dict\<close> states its
  documented behaviour, its consequences are proved once inside, and the model represents the
  dictionary by its item list, on which the contract is interpreted.
\<close>

lemma ascending_le_last: "sorted_wrt (<) ks \<Longrightarrow> k \<in> set ks \<Longrightarrow> k \<le> last (ks :: int list)"
  by (induction ks) (auto split: if_splits simp: order_less_imp_le)

locale sorted_dict =
  fixes items :: "'d \<Rightarrow> (int \<times> int) list"
    and empty :: 'd
    and put :: "int \<Rightarrow> int \<Rightarrow> 'd \<Rightarrow> 'd"
    and pop :: "int \<Rightarrow> 'd \<Rightarrow> 'd"
    and inv :: "'d \<Rightarrow> bool"
  assumes items_empty: "items empty = []"
    and inv_empty: "inv empty"
    and items_ascending: "inv d \<Longrightarrow> sorted_wrt (<) (map fst (items d))"
    and lookup_put: "inv d \<Longrightarrow> map_of (items (put k v d)) = (map_of (items d))(k \<mapsto> v)"
    and inv_put: "inv d \<Longrightarrow> inv (put k v d)"
    and lookup_pop: "inv d \<Longrightarrow> map_of (items (pop k d)) = (map_of (items d))(k := None)"
    and inv_pop: "inv d \<Longrightarrow> inv (pop k d)"
begin

lemma items_distinct: "inv d \<Longrightarrow> distinct (map fst (items d))"
  using items_ascending [of d] strict_sorted_iff by auto

lemma in_items: "inv d \<Longrightarrow> (k, v) \<in> set (items d) \<longleftrightarrow> map_of (items d) k = Some v"
  by (simp add: items_distinct)

text \<open>\<^verbatim>\<open>peekitem(0)\<close> is the least key, \<^verbatim>\<open>peekitem(-1)\<close> the greatest.\<close>

lemma first_least:
  assumes "inv d" "items d = p # rest" "q \<in> set (items d)"
  shows "fst p \<le> fst q"
  using items_ascending [OF assms(1)] assms(2,3) by fastforce

lemma last_greatest:
  assumes "inv d" "items d \<noteq> []" "q \<in> set (items d)"
  shows "fst q \<le> fst (last (items d))"
  using ascending_le_last [OF items_ascending [OF assms(1)], of "fst q"] assms(2,3)
  by (simp add: last_map)

text \<open>The items are determined by the map: no history of the dictionary shows.\<close>

lemma items_canonical:
  assumes "inv d" "inv e" "map_of (items d) = map_of (items e)"
  shows "items d = items e"
proof (rule map_sorted_distinct_set_unique)
  show set_eq: "set (items d) = set (items e)"
    using assms by (auto simp: in_items)
  show "inj_on fst (set (items d) \<union> set (items e))"
    using items_distinct [OF assms(1)] set_eq by (simp add: distinct_map)
qed (use items_ascending [OF assms(1)] items_ascending [OF assms(2)] in \<open>auto simp: strict_sorted_iff\<close>)

lemma set_put: "inv d \<Longrightarrow> set (items (put k v d)) = insert (k, v) {p \<in> set (items d). fst p \<noteq> k}"
  by (auto simp: in_items inv_put lookup_put split: if_splits)

lemma set_pop: "inv d \<Longrightarrow> set (items (pop k d)) = {p \<in> set (items d). fst p \<noteq> k}"
  by (auto simp: in_items inv_pop lookup_pop split: if_splits)

text \<open>The loops that pop every key of an \<^verbatim>\<open>irange\<close>.\<close>

lemma fold_pop:
  assumes "inv d"
  shows "inv (fold pop ks d)
    \<and> map_of (items (fold pop ks d)) = (\<lambda>k. if k \<in> set ks then None else map_of (items d) k)"
  using assms by (induction ks arbitrary: d) (auto simp: inv_pop lookup_pop fun_eq_iff)

end

section \<open>The item list as the representation\<close>

type_synonym sdict = "(int \<times> int) list"

fun sd_put :: "int \<Rightarrow> int \<Rightarrow> sdict \<Rightarrow> sdict" where
  "sd_put k v [] = [(k, v)]"
| "sd_put k v ((j, w) # d) =
     (if k < j then (k, v) # (j, w) # d
      else if k = j then (k, v) # d
      else (j, w) # sd_put k v d)"

fun sd_pop :: "int \<Rightarrow> sdict \<Rightarrow> sdict" where
  "sd_pop k [] = []"
| "sd_pop k ((j, w) # d) = (if k = j then d else (j, w) # sd_pop k d)"

definition sd_inv :: "sdict \<Rightarrow> bool" where
  "sd_inv d \<longleftrightarrow> sorted_wrt (<) (map fst d)"

text \<open>\<^verbatim>\<open>peekitem(0)[0]\<close> and \<^verbatim>\<open>peekitem(-1)[0]\<close>, \<^verbatim>\<open>None\<close> on an empty dictionary.\<close>

definition sd_first :: "sdict \<Rightarrow> int option" where
  "sd_first d = (case d of [] \<Rightarrow> None | (k, _) # _ \<Rightarrow> Some k)"

definition sd_last :: "sdict \<Rightarrow> int option" where
  "sd_last d = (if d = [] then None else Some (fst (last d)))"

text \<open>\<^verbatim>\<open>irange(minimum=lo)\<close> and \<^verbatim>\<open>irange(maximum=hi)\<close>: the keys in the closed range.\<close>

definition sd_irange_from :: "int \<Rightarrow> sdict \<Rightarrow> int list" where
  "sd_irange_from lo d = filter (\<lambda>k. lo \<le> k) (map fst d)"

definition sd_irange_to :: "int \<Rightarrow> sdict \<Rightarrow> int list" where
  "sd_irange_to hi d = filter (\<lambda>k. k \<le> hi) (map fst d)"

lemma sd_inv_simps [simp]:
  "sd_inv []"
  "sd_inv (p # d) \<longleftrightarrow> (\<forall>q \<in> set d. fst p < fst q) \<and> sd_inv d"
  by (auto simp: sd_inv_def)

lemma sd_set_put: "sd_inv d \<Longrightarrow> set (sd_put k v d) = insert (k, v) {p \<in> set d. fst p \<noteq> k}"
  by (induction k v d rule: sd_put.induct) auto

lemma sd_set_pop: "sd_inv d \<Longrightarrow> set (sd_pop k d) = {p \<in> set d. fst p \<noteq> k}"
  by (induction k d rule: sd_pop.induct) auto

lemma sd_inv_put: "sd_inv d \<Longrightarrow> sd_inv (sd_put k v d)"
  by (induction k v d rule: sd_put.induct) (auto simp: sd_set_put)

lemma sd_inv_pop: "sd_inv d \<Longrightarrow> sd_inv (sd_pop k d)"
  by (induction k d rule: sd_pop.induct) (auto simp: sd_set_pop)

lemma sd_lookup_put: "map_of (sd_put k v d) = (map_of d)(k \<mapsto> v)"
  by (induction k v d rule: sd_put.induct) (auto simp: fun_eq_iff)

lemma sd_lookup_none: "\<forall>q \<in> set d. (k :: int) < fst q \<Longrightarrow> map_of d k = None"
  by (induction d) auto

lemma sd_lookup_pop: "sd_inv d \<Longrightarrow> map_of (sd_pop k d) = (map_of d)(k := None)"
  by (induction k d rule: sd_pop.induct) (auto simp: fun_eq_iff sd_lookup_none)

interpretation sd: sorted_dict "\<lambda>d. d" "[]" sd_put sd_pop sd_inv
  by unfold_locales
    (simp_all add: sd_inv_put sd_inv_pop sd_lookup_put sd_lookup_pop, simp add: sd_inv_def)

end
