(* ===== verification/Numerics.thy ===== *)
theory Numerics
  imports Prelude
begin

text \<open>
  The arithmetic of the fixed-point code: Decimal quantisation of an exact quotient to an
  integer, floor and ceiling division, parts-per-million scaling, and Python floats as
  (mantissa, exponent) pairs with a 53-bit significand for the few places where the code
  turns minutes, seconds or milliseconds into nanoseconds.
\<close>

section \<open>Quantising an exact quotient\<close>

text \<open>
  \<open>quantize_div mode n d\<close> is the integer that \<^verbatim>\<open>quantize(Decimal(1), rounding=mode)\<close> gives for
  the exact quotient \<open>n / d\<close>, for \<open>d > 0\<close>.  \<^verbatim>\<open>ROUND_HALF_UP\<close> rounds ties away from zero.
\<close>

datatype rounding_mode = Half_up | Floor | Ceiling

definition round_half_up :: "int \<Rightarrow> int \<Rightarrow> int" where
  "round_half_up n d =
     (if 0 \<le> n then (2 * n + d) div (2 * d) else - ((2 * (- n) + d) div (2 * d)))"

fun quantize_div :: "rounding_mode \<Rightarrow> int \<Rightarrow> int \<Rightarrow> int" where
  "quantize_div Half_up n d = round_half_up n d"
| "quantize_div Floor n d = n div d"
| "quantize_div Ceiling n d = - ((- n) div d)"

lemma round_half_up_0 [simp]: "0 < d \<Longrightarrow> round_half_up 0 d = 0"
  by (simp add: round_half_up_def)

lemma round_half_up_nonneg: "0 < d \<Longrightarrow> 0 \<le> n \<Longrightarrow> 0 \<le> round_half_up n d"
  by (simp add: round_half_up_def pos_imp_zdiv_nonneg_iff)

lemma round_half_up_mult: "0 < d \<Longrightarrow> round_half_up (k * d) d = k"
proof -
  assume d: "0 < d"
  have eq: "(2 * (j * d) + d) div (2 * d) = j" for j
    using d by (intro int_div_pos_eq [where r = d]) (auto simp: algebra_simps)
  show ?thesis
  proof (cases "0 \<le> k * d")
    case True
    then show ?thesis using eq [of k] by (simp add: round_half_up_def)
  next
    case False
    then show ?thesis using eq [of "- k"] by (simp add: round_half_up_def)
  qed
qed

text \<open>The rounded value is within half a unit of the quotient.\<close>

lemma round_half_up_bounds:
  assumes "0 < d"
  shows "2 * n - d \<le> 2 * d * round_half_up n d" "2 * d * round_half_up n d \<le> 2 * n + d"
proof -
  have q: "2 * m + d - 2 * d < 2 * d * ((2 * m + d) div (2 * d))"
    "2 * d * ((2 * m + d) div (2 * d)) \<le> 2 * m + d" for m
    using assms pos_mod_bound [of "2 * d" "2 * m + d"] pos_mod_sign [of "2 * d" "2 * m + d"]
      mult_div_mod_eq [of "2 * d" "2 * m + d"] by linarith+
  show "2 * n - d \<le> 2 * d * round_half_up n d" "2 * d * round_half_up n d \<le> 2 * n + d"
    using q [of n] q [of "- n"] by (auto simp: round_half_up_def)
qed

lemma round_half_up_mono:
  assumes "0 < d" "n \<le> m"
  shows "round_half_up n d \<le> round_half_up m d"
proof -
  have up: "(2 * a + d) div (2 * d) \<le> (2 * b + d) div (2 * d)" if "a \<le> b" for a b
    using that assms(1) by (intro zdiv_mono1) auto
  have nn: "0 \<le> (2 * a + d) div (2 * d)" if "0 \<le> a" for a
    using that assms(1) by (simp add: pos_imp_zdiv_nonneg_iff)
  show ?thesis
    using up [of n m] up [of "- m" "- n"] nn [of m] nn [of "- n"] assms(2)
    by (auto simp: round_half_up_def)
qed

lemma round_half_up_le: "0 < d \<Longrightarrow> n \<le> k * d \<Longrightarrow> round_half_up n d \<le> k"
  using round_half_up_mono [of d n "k * d"] round_half_up_mult [of d k] by simp

lemma round_half_up_ge: "0 < d \<Longrightarrow> k * d \<le> n \<Longrightarrow> k \<le> round_half_up n d"
  using round_half_up_mono [of d "k * d" n] round_half_up_mult [of d k] by simp

lemma quantize_div_nonneg: "0 < d \<Longrightarrow> 0 \<le> n \<Longrightarrow> 0 \<le> quantize_div r n d"
proof (cases r)
  case Ceiling
  assume "0 < d" "0 \<le> n"
  then have "(- n) div d \<le> 0 div d" by (intro zdiv_mono1) auto
  with Ceiling show ?thesis by simp
qed (auto simp: round_half_up_nonneg pos_imp_zdiv_nonneg_iff)

lemma quantize_div_mono:
  assumes "0 < d" "n \<le> m"
  shows "quantize_div r n d \<le> quantize_div r m d"
proof (cases r)
  case Ceiling
  from assms have "(- m) div d \<le> (- n) div d" by (intro zdiv_mono1) auto
  with Ceiling show ?thesis by simp
qed (auto simp: assms round_half_up_mono zdiv_mono1)

lemma quantize_div_0 [simp]: "0 < d \<Longrightarrow> quantize_div r 0 d = 0"
  by (cases r) auto

section \<open>Division helpers of the execution policies\<close>

definition ceil_div :: "int \<Rightarrow> int \<Rightarrow> int" where
  "ceil_div numerator denominator = - ((- numerator) div denominator)"

text \<open>Multiply by a PPM rate, truncating symmetrically toward zero.\<close>

definition ppm_of :: "int \<Rightarrow> int \<Rightarrow> int" where
  "ppm_of value rate_ppm = (if value < 0 then -1 else 1) * (\<bar>value\<bar> * rate_ppm div PPM)"

lemma ppm_of_nonneg: "0 \<le> v \<Longrightarrow> 0 \<le> r \<Longrightarrow> 0 \<le> ppm_of v r"
  by (simp add: ppm_of_def pos_imp_zdiv_nonneg_iff)

lemma ppm_of_le: "0 \<le> v \<Longrightarrow> r \<le> PPM \<Longrightarrow> ppm_of v r \<le> v"
proof -
  assume v: "0 \<le> v" and r: "r \<le> PPM"
  have "v * r div PPM \<le> v * PPM div PPM"
    by (rule zdiv_mono1) (use v r in \<open>auto intro: mult_left_mono\<close>)
  with v show ?thesis by (simp add: ppm_of_def)
qed

lemma ppm_of_PPM [simp]: "ppm_of v PPM = v"
  by (simp add: ppm_of_def)

lemma ppm_of_0 [simp]: "ppm_of 0 r = 0" "ppm_of v 0 = 0"
  by (simp_all add: ppm_of_def)

lemma ppm_of_odd: "ppm_of (- v) r = - ppm_of v r"
  by (simp add: ppm_of_def)

lemma ppm_of_mono: "0 \<le> r \<Longrightarrow> 0 \<le> v \<Longrightarrow> v \<le> w \<Longrightarrow> ppm_of v r \<le> ppm_of w r"
  by (simp add: ppm_of_def zdiv_mono1 mult_right_mono)

lemma ppm_of_mono_rate: "0 \<le> v \<Longrightarrow> r \<le> s \<Longrightarrow> ppm_of v r \<le> ppm_of v s"
  by (simp add: ppm_of_def zdiv_mono1 mult_left_mono)

lemma ceil_div_ge: "0 < d \<Longrightarrow> n \<le> d * ceil_div n d"
  using mult_div_mod_eq [of d "- n"] pos_mod_sign [of d "- n"]
  unfolding ceil_div_def mult_minus_right by linarith

lemma ceil_div_less: "0 < d \<Longrightarrow> d * ceil_div n d < n + d"
  using mult_div_mod_eq [of d "- n"] pos_mod_bound [of d "- n"]
  unfolding ceil_div_def mult_minus_right by linarith

lemma ceil_div_le: "0 < d \<Longrightarrow> n \<le> k * d \<Longrightarrow> ceil_div n d \<le> k"
proof -
  assume d: "0 < d" and n: "n \<le> k * d"
  from ceil_div_less [OF d, of n] n have "d * ceil_div n d < d * (k + 1)"
    by (simp add: algebra_simps)
  with d show ?thesis by simp
qed

lemma ceil_div_mult [simp]: "0 < d \<Longrightarrow> ceil_div (k * d) d = k"
  using nonzero_mult_div_cancel_right [of d "- k"] by (simp add: ceil_div_def)

section \<open>Python floats\<close>

text \<open>
  A finite float \<open>m * 2 ^ e\<close>.  Results are rounded to 53 significant bits, ties to even, as
  IEEE double arithmetic does in the normal range; overflow to infinity and subnormals are
  outside the model (the configuration values are minutes, seconds and milliseconds).
\<close>

datatype pyfloat = Flt (mantissa: int) (exponent: int)

fun bit_len :: "nat \<Rightarrow> nat" where
  "bit_len n = (if n = 0 then 0 else Suc (bit_len (n div 2)))"

declare bit_len.simps [simp del]

definition round_half_even :: "int \<Rightarrow> int \<Rightarrow> int" where
  "round_half_even n d =
     (let q = n div d; r = n mod d
      in if 2 * r < d \<or> (2 * r = d \<and> even q) then q else q + 1)"

definition fl_round :: "int \<Rightarrow> int \<Rightarrow> pyfloat" where
  "fl_round m e =
     (let k = bit_len (nat \<bar>m\<bar>)
      in if k \<le> 53 then Flt m e else Flt (round_half_even m (2 ^ (k - 53))) (e + int (k - 53)))"

definition fl_of_int :: "int \<Rightarrow> pyfloat" where
  "fl_of_int n = fl_round n 0"

definition fl_mult :: "pyfloat \<Rightarrow> pyfloat \<Rightarrow> pyfloat" where
  "fl_mult x y = fl_round (mantissa x * mantissa y) (exponent x + exponent y)"

text \<open>\<^verbatim>\<open>int(x)\<close> truncates toward zero.\<close>

definition fl_trunc :: "pyfloat \<Rightarrow> int" where
  "fl_trunc x =
     (if 0 \<le> exponent x then mantissa x * 2 ^ nat (exponent x)
      else sgn (mantissa x) * (\<bar>mantissa x\<bar> div 2 ^ nat (- exponent x)))"

lemma bit_len_le: "n < 2 ^ k \<Longrightarrow> bit_len n \<le> k"
proof (induction k arbitrary: n)
  case 0
  then show ?case by (simp add: bit_len.simps)
next
  case (Suc k)
  then have "n div 2 < 2 ^ k" by auto
  from Suc.IH [OF this] show ?case by (simp add: bit_len.simps [of n])
qed

lemma fl_round_exact: "\<bar>m\<bar> < 2 ^ 53 \<Longrightarrow> fl_round m e = Flt m e"
proof -
  assume "\<bar>m\<bar> < 2 ^ 53"
  then have "nat \<bar>m\<bar> < 2 ^ 53" by (simp add: nat_less_iff)
  from bit_len_le [OF this] show ?thesis by (simp add: fl_round_def)
qed

text \<open>The code equation rounds without counting bits where nothing is to round.\<close>

lemma fl_round_code [code]:
  "fl_round m e =
     (if \<bar>m\<bar> < 9007199254740992 then Flt m e
      else let k = bit_len (nat \<bar>m\<bar>)
           in if k \<le> 53 then Flt m e else Flt (round_half_even m (2 ^ (k - 53))) (e + int (k - 53)))"
  using fl_round_exact [of m e] by (simp add: fl_round_def)

text \<open>
  Scaling an integral float by an integer is exact while the product fits in 53 bits: whole
  milliseconds and whole minutes become whole nanoseconds.
\<close>

lemma fl_trunc_mult_int:
  assumes "\<bar>m\<bar> < 2 ^ 53" "\<bar>n\<bar> < 2 ^ 53" "\<bar>m * n\<bar> < 2 ^ 53"
  shows "fl_trunc (fl_mult (fl_of_int m) (fl_of_int n)) = m * n"
  using assms by (simp add: fl_of_int_def fl_mult_def fl_round_exact fl_trunc_def)

end
