(* ===== verification/Orders.thy ===== *)
theory Orders
  imports Numerics
begin

text \<open>
  The records of \<^verbatim>\<open>models/books.py\<close>, \<^verbatim>\<open>models/orders.py\<close>, \<^verbatim>\<open>models/prices.py\<close>,
  \<^verbatim>\<open>models/trades.py\<close> and \<^verbatim>\<open>models/results.py\<close>.  Field names carry a prefix per record; the
  constant \<^verbatim>\<open>schema_version\<close> is left out.  An identifier that the source derives with \<^verbatim>\<open>uuid5\<close>
  is kept as the tuple of what is hashed, so equal names give equal identifiers and nothing is
  assumed of the hash.
\<close>

section \<open>Books\<close>

record book_level =
  bl_price :: int
  bl_size :: int

record book_snapshot =
  bs_snapshot_id :: string
  bs_sequence :: int
  bs_run_id :: string
  bs_connection_id :: string
  bs_source :: string
  bs_condition_id :: string
  bs_token_id :: string
  bs_outcome :: string
  bs_exchange_timestamp_ns :: "int option"
  bs_received_utc_ns :: int
  bs_received_monotonic_ns :: int
  bs_book_hash :: "string option"
  bs_tick_size :: int
  bs_minimum_order_size :: int
  bs_last_trade_price :: "int option"
  bs_neg_risk :: bool
  bs_bids :: "book_level list"
  bs_asks :: "book_level list"

record book_level_change =
  bc_parent_event_id :: string
  bc_change_index :: int
  bc_sequence :: int
  bc_condition_id :: string
  bc_token_id :: string
  bc_outcome :: string
  bc_exchange_timestamp_ns :: "int option"
  bc_received_utc_ns :: int
  bc_received_monotonic_ns :: int
  bc_side :: side
  bc_price :: int
  bc_new_size :: int
  bc_book_hash :: "string option"
  bc_reported_best_bid :: "int option"
  bc_reported_best_ask :: "int option"
  bc_connection_id :: string

record tick_size_change =
  tc_tick_change_id :: string
  tc_sequence :: int
  tc_condition_id :: string
  tc_token_id :: string
  tc_exchange_timestamp_ns :: "int option"
  tc_received_utc_ns :: int
  tc_received_monotonic_ns :: int
  tc_old_tick_size :: "int option"
  tc_new_tick_size :: int
  tc_connection_id :: string
  tc_source :: string

record top_of_book =
  tb_condition_id :: string
  tb_token_id :: string
  tb_sequence :: int
  tb_received_utc_ns :: int
  tb_best_bid :: "int option"
  tb_best_ask :: "int option"
  tb_spread :: "int option"
  tb_midpoint :: "int option"
  tb_bid_size :: "int option"
  tb_ask_size :: "int option"

section \<open>Prices and trades\<close>

record btc_price_event =
  bp_price_event_id :: string
  bp_sequence :: int
  bp_source :: string
  bp_topic :: string
  bp_symbol :: string
  bp_rtds_envelope_timestamp_ns :: "int option"
  bp_underlying_source_timestamp_ns :: "int option"
  bp_received_utc_ns :: int
  bp_received_monotonic_ns :: int
  bp_price_scaled :: int
  bp_connection_id :: string

record trade_event =
  tr_trade_event_id :: string
  tr_sequence :: int
  tr_condition_id :: string
  tr_token_id :: string
  tr_outcome :: string
  tr_exchange_timestamp_ns :: "int option"
  tr_received_utc_ns :: int
  tr_received_monotonic_ns :: int
  tr_price_scaled :: int
  tr_size_scaled :: "int option"
  tr_notional_scaled :: "int option"
  tr_reported_side :: "string option"
  tr_fee_rate_bps_scaled :: "int option"
  tr_transaction_hash :: "string option"
  tr_trade_id_when_available :: "string option"
  tr_source :: string
  tr_is_reconciled :: bool
  tr_reconciliation_status :: string

section \<open>Orders\<close>

datatype simulated_order_type = MARKETABLE_TAKER | LIMIT_GTC_SIMULATED

text \<open>
  \<open>Uuid5_intent strategy decision counter token\<close> is \<^verbatim>\<open>BacktestEngine._schedule\<close>'s deterministic
  identifier, \<open>Uuid5_fill order rank price size\<close> the simulator's fill identifier.
\<close>

datatype order_id = Given_id string | Uuid5_intent string int nat string

datatype fill_id = Uuid5_fill order_id nat int int

text \<open>
  A metadata value is a text.  \<open>Meta_int n\<close> is the text of the integer \<open>n\<close>, which the engine
  reads back with \<^verbatim>\<open>int\<close>; \<open>Meta_str\<close> is any other text.
\<close>

datatype meta_value = Meta_str string | Meta_int int

record order_intent =
  oi_order_intent_id :: order_id
  oi_strategy_id :: string
  oi_decision_timestamp_ns :: int
  oi_token_id :: string
  oi_condition_id :: string
  oi_outcome :: string
  oi_side :: side
  oi_order_type :: simulated_order_type
  oi_limit_price :: "int option"
  oi_requested_shares :: "int option"
  oi_requested_notional :: "int option"
  oi_time_in_force :: string
  oi_metadata :: "string \<rightharpoonup> meta_value"

record simulated_fill =
  sf_fill_id :: fill_id
  sf_order_intent_id :: order_id
  sf_condition_id :: string
  sf_token_id :: string
  sf_side :: side
  sf_price :: int
  sf_size :: int
  sf_notional :: int
  sf_fee :: int
  sf_book_event_sequence :: int
  sf_decision_time_ns :: int
  sf_scheduled_arrival_time_ns :: int
  sf_fill_time_ns :: int
  sf_level_rank :: nat
  sf_liquidity_remaining_after :: int

datatype order_status = Accepted | Rejected | Partial | Filled

record order_result =
  or_intent :: order_intent
  or_status :: order_status
  or_rejection_reason :: "string option"
  or_fills :: "simulated_fill list"

definition rejected :: "order_intent \<Rightarrow> string \<Rightarrow> order_result" where
  "rejected intent reason =
     \<lparr>or_intent = intent, or_status = Rejected, or_rejection_reason = Some reason, or_fills = []\<rparr>"

lemma rejected_sel [simp]:
  "or_intent (rejected i r) = i" "or_status (rejected i r) = Rejected"
  "or_rejection_reason (rejected i r) = Some r" "or_fills (rejected i r) = []"
  by (simp_all add: rejected_def)

section \<open>Results\<close>

record portfolio_snapshot =
  ps_timestamp_ns :: int
  ps_available_cash :: int
  ps_reserved_cash :: int
  ps_realized_pnl :: int
  ps_unrealized_pnl :: int
  ps_fees_paid :: int
  ps_settlement_receivable :: int
  ps_inventory :: "(string \<times> int) list"

end
