(* ===== verification/OrderBook.thy ===== *)
theory OrderBook
  imports SortedDict Orders
begin

text \<open>
  \<^verbatim>\<open>orderbook/validator.py\<close>, \<^verbatim>\<open>orderbook/state.py\<close> and \<^verbatim>\<open>orderbook/metrics.py\<close>: one token's
  Level-2 book.  \<^verbatim>\<open>replace\<close> and \<^verbatim>\<open>apply\<close> mutate the book before they raise, so an operation
  returns the book beside its result.  The simulator's own consumption is an overlay that
  never touches the recorded levels.
\<close>

section \<open>Validation (validator.py)\<close>

definition validate_level :: "int \<Rightarrow> int \<Rightarrow> int \<Rightarrow> validation_issue list" where
  "validate_level price sz tick =
     (if PRICE_MIN_SCALED < price \<and> price < PRICE_MAX_SCALED then [] else [Invalid_price price])
     @ (if sz < 0 then [Negative_size sz] else [])
     @ (if tick \<le> 0 \<or> price mod tick \<noteq> 0 then [Tick_noncompliance price tick] else [])"

definition validate_cross :: "int option \<Rightarrow> int option \<Rightarrow> validation_issue list" where
  "validate_cross best_bid best_ask =
     (case (best_bid, best_ask) of
        (Some b, Some a) \<Rightarrow> if a \<le> b then [Book_crossed b a] else []
      | _ \<Rightarrow> [])"

section \<open>The book\<close>

record order_book =
  ob_condition_id :: string
  ob_token_id :: string
  ob_outcome :: string
  ob_bids :: sdict
  ob_asks :: sdict
  ob_consumed_bids :: "int \<rightharpoonup> int"
  ob_consumed_asks :: "int \<rightharpoonup> int"
  ob_tick_size :: int
  ob_minimum_order_size :: int
  ob_last_sequence :: int
  ob_last_received_utc_ns :: int
  ob_source_hash :: "string option"
  ob_valid :: bool

definition make_book :: "string \<Rightarrow> string \<Rightarrow> string \<Rightarrow> order_book" where
  "make_book condition_id token_id outcome =
     \<lparr>ob_condition_id = condition_id, ob_token_id = token_id, ob_outcome = outcome,
      ob_bids = [], ob_asks = [], ob_consumed_bids = Map.empty, ob_consumed_asks = Map.empty,
      ob_tick_size = 10000, ob_minimum_order_size = 0, ob_last_sequence = 0,
      ob_last_received_utc_ns = 0, ob_source_hash = None, ob_valid = False\<rparr>"

definition best_bid :: "order_book \<Rightarrow> int option" where
  "best_bid b = sd_last (ob_bids b)"

definition best_ask :: "order_book \<Rightarrow> int option" where
  "best_ask b = sd_first (ob_asks b)"

text \<open>\<open>available_levels side\<close>: displayed size less simulated consumption, best level first.\<close>

definition available_levels :: "side \<Rightarrow> order_book \<Rightarrow> (int \<times> int) list" where
  "available_levels s b =
     (let levels = (if s = BUY then rev (ob_bids b) else ob_asks b);
          consumed = (if s = BUY then ob_consumed_bids b else ob_consumed_asks b)
      in concat (map (\<lambda>(price, size).
           let left = size - or_zero (consumed price)
           in if 0 < left then [(price, left)] else []) levels))"

definition consume :: "side \<Rightarrow> int \<Rightarrow> int \<Rightarrow> order_book \<Rightarrow> order_book" where
  "consume s price sz b =
     (if s = BUY
      then b\<lparr>ob_consumed_bids := (ob_consumed_bids b)(price \<mapsto> or_zero (ob_consumed_bids b price) + sz)\<rparr>
      else b\<lparr>ob_consumed_asks := (ob_consumed_asks b)(price \<mapsto> or_zero (ob_consumed_asks b price) + sz)\<rparr>)"

section \<open>Snapshots\<close>

text \<open>One of the two level loops of \<^verbatim>\<open>replace\<close>: the levels stored and the issues raised so far.\<close>

fun load_levels :: "side \<Rightarrow> int \<Rightarrow> book_level list \<Rightarrow> sdict \<times> validation_issue list
    \<Rightarrow> sdict \<times> validation_issue list" where
  "load_levels s tick [] acc = acc"
| "load_levels s tick (l # ls) (d, issues) =
     load_levels s tick ls
       (if 0 < bl_size l then sd_put (bl_price l) (bl_size l) d else d,
        issues @ validate_level (bl_price l) (bl_size l) tick
          @ (if map_of d (bl_price l) \<noteq> None then [Duplicate_level s] else []))"

definition ob_replace :: "book_snapshot \<Rightarrow> order_book \<Rightarrow> order_book \<times> (py_error + bool)" where
  "ob_replace snap b =
     (if bs_token_id snap \<noteq> ob_token_id b \<or> bs_condition_id snap \<noteq> ob_condition_id b
      then (b, Inl (InvalidBookState [Token_mapping_invalid]))
      else if bs_sequence snap < ob_last_sequence b then (b, Inr False)
      else
        let (bids, issues1) = load_levels BUY (bs_tick_size snap) (bs_bids snap) ([], []);
            (asks, issues2) = load_levels SELL (bs_tick_size snap) (bs_asks snap) ([], issues1);
            issues = issues2 @ validate_cross (sd_last bids) (sd_first asks)
        in if issues \<noteq> [] then (b\<lparr>ob_valid := False\<rparr>, Inl (InvalidBookState issues))
           else (b\<lparr>ob_bids := bids, ob_asks := asks, ob_consumed_bids := Map.empty,
                   ob_consumed_asks := Map.empty, ob_tick_size := bs_tick_size snap,
                   ob_minimum_order_size := bs_minimum_order_size snap,
                   ob_last_sequence := bs_sequence snap,
                   ob_last_received_utc_ns := bs_received_utc_ns snap,
                   ob_source_hash := bs_book_hash snap, ob_valid := True\<rparr>, Inr True))"

section \<open>Level changes\<close>

text \<open>The level named by the change is restated; consumption recorded against it is dropped.\<close>

definition set_level :: "book_level_change \<Rightarrow> order_book \<Rightarrow> order_book" where
  "set_level c b =
     (let store = (\<lambda>d. if bc_new_size c = 0 then sd_pop (bc_price c) d
                       else sd_put (bc_price c) (bc_new_size c) d)
      in if bc_side c = BUY
         then b\<lparr>ob_consumed_bids := (ob_consumed_bids b)(bc_price c := None),
                ob_bids := store (ob_bids b)\<rparr>
         else b\<lparr>ob_consumed_asks := (ob_consumed_asks b)(bc_price c := None),
                ob_asks := store (ob_asks b)\<rparr>)"

text \<open>The reported top removes the levels that it declares gone.\<close>

definition trim_bids :: "int option \<Rightarrow> sdict \<Rightarrow> sdict" where
  "trim_bids reported d =
     (case reported of
        None \<Rightarrow> d
      | Some r \<Rightarrow> if r = 0 then [] else fold sd_pop (sd_irange_from (r + 1) d) d)"

definition trim_asks :: "int option \<Rightarrow> sdict \<Rightarrow> sdict" where
  "trim_asks reported d =
     (case reported of
        None \<Rightarrow> d
      | Some r \<Rightarrow> if r = POLYMARKET_PRICE_SCALE then []
                 else fold sd_pop (sd_irange_to (r - 1) d) d)"

definition trim_to_reported :: "book_level_change \<Rightarrow> order_book \<Rightarrow> order_book" where
  "trim_to_reported c b =
     b\<lparr>ob_bids := trim_bids (bc_reported_best_bid c) (ob_bids b),
       ob_asks := trim_asks (bc_reported_best_ask c) (ob_asks b)\<rparr>"

definition expected_bid :: "book_level_change \<Rightarrow> int option" where
  "expected_bid c = (if bc_reported_best_bid c = Some 0 then None else bc_reported_best_bid c)"

definition expected_ask :: "book_level_change \<Rightarrow> int option" where
  "expected_ask c =
     (if bc_reported_best_ask c = Some POLYMARKET_PRICE_SCALE then None else bc_reported_best_ask c)"

definition top_issues :: "book_level_change \<Rightarrow> order_book \<Rightarrow> validation_issue list" where
  "top_issues c b =
     validate_cross (best_bid b) (best_ask b)
     @ (if bc_reported_best_bid c \<noteq> None \<and> best_bid b \<noteq> expected_bid c
        then [Reported_top_mismatch BUY (best_bid b) (expected_bid c)] else [])
     @ (if bc_reported_best_ask c \<noteq> None \<and> best_ask b \<noteq> expected_ask c
        then [Reported_top_mismatch SELL (best_ask b) (expected_ask c)] else [])"

definition ob_apply :: "book_level_change \<Rightarrow> order_book \<Rightarrow> order_book \<times> (py_error + unit)" where
  "ob_apply c b =
     (if bc_token_id c \<noteq> ob_token_id b \<or> bc_condition_id c \<noteq> ob_condition_id b
      then (b, Inl (InvalidBookState [Token_mapping_invalid]))
      else if bc_sequence c < ob_last_sequence b then (b, Inr ())
      else
        let issues = validate_level (bc_price c) (bc_new_size c) (ob_tick_size b)
        in if issues \<noteq> [] then (b\<lparr>ob_valid := False\<rparr>, Inl (InvalidBookState issues))
           else
             let b2 = trim_to_reported c (set_level c b);
                 issues = top_issues c b2
             in if issues \<noteq> [] then (b2\<lparr>ob_valid := False\<rparr>, Inl (InvalidBookState issues))
                else (b2\<lparr>ob_last_sequence := bc_sequence c,
                         ob_last_received_utc_ns := bc_received_utc_ns c,
                         ob_source_hash := (case bc_book_hash c of
                            None \<Rightarrow> ob_source_hash b2
                          | Some h \<Rightarrow> if h = [] then ob_source_hash b2 else Some h),
                         ob_valid := True\<rparr>, Inr ()))"

section \<open>Observers\<close>

definition ob_top :: "order_book \<Rightarrow> top_of_book" where
  "ob_top b =
     \<lparr>tb_condition_id = ob_condition_id b, tb_token_id = ob_token_id b,
      tb_sequence = ob_last_sequence b, tb_received_utc_ns = ob_last_received_utc_ns b,
      tb_best_bid = best_bid b, tb_best_ask = best_ask b,
      tb_spread = (case (best_bid b, best_ask b) of (Some bid, Some ask) \<Rightarrow> Some (ask - bid) | _ \<Rightarrow> None),
      tb_midpoint = (case (best_bid b, best_ask b) of
         (Some bid, Some ask) \<Rightarrow> Some ((ask + bid) div 2) | _ \<Rightarrow> None),
      tb_bid_size = (case best_bid b of None \<Rightarrow> None | Some bid \<Rightarrow> map_of (ob_bids b) bid),
      tb_ask_size = (case best_ask b of None \<Rightarrow> None | Some ask \<Rightarrow> map_of (ob_asks b) ask)\<rparr>"

definition snapshot_levels :: "order_book \<Rightarrow> book_level list \<times> book_level list" where
  "snapshot_levels b =
     (map (\<lambda>(p, s). \<lparr>bl_price = p, bl_size = s\<rparr>) (rev (ob_bids b)),
      map (\<lambda>(p, s). \<lparr>bl_price = p, bl_size = s\<rparr>) (ob_asks b))"

record depth_metrics =
  dm_l1_bid :: int
  dm_l1_ask :: int
  dm_l5_bid :: int
  dm_l5_ask :: int
  dm_l10_bid :: int
  dm_l10_ask :: int
  dm_within_1c_bid :: int
  dm_within_1c_ask :: int
  dm_within_2c_bid :: int
  dm_within_2c_ask :: int
  dm_within_5c_bid :: int
  dm_within_5c_ask :: int
  dm_imbalance_ppm :: "int option"

definition top_sum :: "(int \<times> int) list \<Rightarrow> nat \<Rightarrow> int" where
  "top_sum levels n = sum_list (map snd (take n levels))"

definition depth_within :: "(int \<times> int) list \<Rightarrow> int option \<Rightarrow> int \<Rightarrow> int" where
  "depth_within levels best amount =
     (case best of None \<Rightarrow> 0
      | Some p \<Rightarrow> sum_list (map snd (filter (\<lambda>(price, _). \<bar>price - p\<bar> \<le> amount) levels)))"

definition ob_depth_metrics :: "order_book \<Rightarrow> depth_metrics" where
  "ob_depth_metrics b =
     (let bids = rev (ob_bids b); asks = ob_asks b;
          bid_depth = top_sum bids 5; ask_depth = top_sum asks 5;
          total = bid_depth + ask_depth
      in \<lparr>dm_l1_bid = top_sum bids 1, dm_l1_ask = top_sum asks 1,
          dm_l5_bid = bid_depth, dm_l5_ask = ask_depth,
          dm_l10_bid = top_sum bids 10, dm_l10_ask = top_sum asks 10,
          dm_within_1c_bid = depth_within bids (best_bid b) 10000,
          dm_within_1c_ask = depth_within asks (best_ask b) 10000,
          dm_within_2c_bid = depth_within bids (best_bid b) 20000,
          dm_within_2c_ask = depth_within asks (best_ask b) 20000,
          dm_within_5c_bid = depth_within bids (best_bid b) 50000,
          dm_within_5c_ask = depth_within asks (best_ask b) 50000,
          dm_imbalance_ppm = (if total = 0 then None
            else Some ((bid_depth - ask_depth) * 1000000 div total))\<rparr>)"

section \<open>Book metrics (metrics.py)\<close>

definition microprice_scaled :: "order_book \<Rightarrow> int option" where
  "microprice_scaled b =
     (case (best_bid b, best_ask b) of
        (Some bid, Some ask) \<Rightarrow>
          (let bid_size = the (map_of (ob_bids b) bid); ask_size = the (map_of (ob_asks b) ask);
               total = bid_size + ask_size
           in if total = 0 then None else Some ((ask * bid_size + bid * ask_size) div total))
      | _ \<Rightarrow> None)"

text \<open>The sweep both executable-value functions make over the levels, best first.\<close>

fun sweep_value :: "(int \<times> int) list \<Rightarrow> int \<Rightarrow> int \<Rightarrow> int \<Rightarrow> int \<times> int" where
  "sweep_value [] remaining value filled = (value, filled)"
| "sweep_value ((price, available) # ls) remaining value filled =
     (let take = min remaining available;
          value' = value + take * price div 1000000;
          filled' = filled + take
      in if remaining - take = 0 then (value', filled')
         else sweep_value ls (remaining - take) value' filled')"

definition executable_cost_scaled :: "order_book \<Rightarrow> int \<Rightarrow> int \<times> int" where
  "executable_cost_scaled b shares = sweep_value (ob_asks b) shares 0 0"

definition executable_proceeds_scaled :: "order_book \<Rightarrow> int \<Rightarrow> int \<times> int" where
  "executable_proceeds_scaled b shares = sweep_value (rev (ob_bids b)) shares 0 0"

section \<open>Invariant\<close>

definition side_ok :: "sdict \<Rightarrow> bool" where
  "side_ok d \<longleftrightarrow> sd_inv d
     \<and> (\<forall>(p, sz) \<in> set d. PRICE_MIN_SCALED < p \<and> p < PRICE_MAX_SCALED \<and> 0 < sz)"

definition uncrossed :: "order_book \<Rightarrow> bool" where
  "uncrossed b \<longleftrightarrow> (\<forall>p \<in> fst ` set (ob_bids b). \<forall>q \<in> fst ` set (ob_asks b). p < q)"

definition book_inv :: "order_book \<Rightarrow> bool" where
  "book_inv b \<longleftrightarrow> side_ok (ob_bids b) \<and> side_ok (ob_asks b) \<and> (ob_valid b \<longrightarrow> uncrossed b)"

lemma side_ok_Nil [simp]: "side_ok []"
  by (simp add: side_ok_def)

lemma side_ok_put [inv_intros]:
  "side_ok d \<Longrightarrow> PRICE_MIN_SCALED < p \<Longrightarrow> p < PRICE_MAX_SCALED \<Longrightarrow> 0 < sz \<Longrightarrow> side_ok (sd_put p sz d)"
  by (auto simp: side_ok_def sd_inv_put sd_set_put)

lemma side_ok_pop [inv_intros]: "side_ok d \<Longrightarrow> side_ok (sd_pop p d)"
  by (auto simp: side_ok_def sd_inv_pop sd_set_pop)

lemma side_ok_fold_pop [inv_intros]: "side_ok d \<Longrightarrow> side_ok (fold sd_pop ks d)"
  by (induction ks arbitrary: d) (auto intro: side_ok_pop)

lemma side_ok_trim [inv_intros]:
  "side_ok d \<Longrightarrow> side_ok (trim_bids r d)" "side_ok d \<Longrightarrow> side_ok (trim_asks r d)"
  by (auto simp: trim_bids_def trim_asks_def side_ok_fold_pop split: option.split)

lemma sd_last_SomeD:
  assumes "sd_inv d" "sd_last d = Some k"
  shows "k \<in> fst ` set d" "\<And>q. q \<in> fst ` set d \<Longrightarrow> q \<le> k"
  using assms sd.last_greatest [of d] by (auto simp: sd_last_def split: if_splits)

lemma sd_first_SomeD:
  assumes "sd_inv d" "sd_first d = Some k"
  shows "k \<in> fst ` set d" "\<And>q. q \<in> fst ` set d \<Longrightarrow> k \<le> q"
  using assms by (auto simp: sd_first_def split: list.splits)

lemma sd_last_eqI:
  "sd_inv d \<Longrightarrow> k \<in> fst ` set d \<Longrightarrow> \<forall>q \<in> fst ` set d. q \<le> k \<Longrightarrow> sd_last d = Some k"
  by (metis antisym_conv empty_iff image_empty list.set(1) option.exhaust sd_last_SomeD sd_last_def)

lemma sd_first_eqI:
  "sd_inv d \<Longrightarrow> k \<in> fst ` set d \<Longrightarrow> \<forall>q \<in> fst ` set d. k \<le> q \<Longrightarrow> sd_first d = Some k"
  by (cases d) (force simp: sd_first_def)+

lemma sd_ends_None [simp]: "sd_last d = None \<longleftrightarrow> d = []" "sd_first d = None \<longleftrightarrow> d = []"
  by (auto simp: sd_last_def sd_first_def split: list.splits)

lemma validate_cross_uncrossed:
  assumes "sd_inv d" "sd_inv e" "validate_cross (sd_last d) (sd_first e) = []"
  shows "\<forall>p \<in> fst ` set d. \<forall>q \<in> fst ` set e. p < q"
proof (cases "d = [] \<or> e = []")
  case False
  then obtain k j where k: "sd_last d = Some k" "sd_first e = Some j"
    by (metis sd_ends_None option.exhaust)
  with assms(3) have "k < j" by (simp add: validate_cross_def split: if_splits)
  then show ?thesis
    using sd_last_SomeD(2) [OF assms(1) k(1)] sd_first_SomeD(2) [OF assms(2) k(2)] by force
qed auto

lemma validate_level_Nil:
  "validate_level p sz tick = [] \<longleftrightarrow>
     PRICE_MIN_SCALED < p \<and> p < PRICE_MAX_SCALED \<and> 0 \<le> sz \<and> 0 < tick \<and> p mod tick = 0"
  by (auto simp: validate_level_def)

lemma load_levels_issues: "\<exists>more. snd (load_levels s tick ls acc) = snd acc @ more"
  by (induction s tick ls acc rule: load_levels.induct) fastforce+

lemma load_levels_no_issues:
  "load_levels s tick ls (d, iss) = (d', []) \<Longrightarrow> side_ok d \<Longrightarrow>
     iss = [] \<and> side_ok d' \<and>
     set d' = set d \<union> {(bl_price l, bl_size l) | l. l \<in> set ls \<and> 0 < bl_size l}"
proof (induction s tick ls "(d, iss)" arbitrary: d iss rule: load_levels.induct)
  case (2 s tick l ls d iss)
  let ?d = "if 0 < bl_size l then sd_put (bl_price l) (bl_size l) d else d"
  let ?iss = "iss @ validate_level (bl_price l) (bl_size l) tick
          @ (if map_of d (bl_price l) \<noteq> None then [Duplicate_level s] else [])"
  have load: "load_levels s tick ls (?d, ?iss) = (d', [])" using "2.prems"(1) by simp
  then have Nil: "?iss = []"
    using load_levels_issues [of s tick ls "(?d, ?iss)"] by simp
  then have new: "validate_level (bl_price l) (bl_size l) tick = []" "bl_price l \<notin> fst ` set d"
    by (auto split: if_splits simp: map_of_eq_None_iff)
  then have ok: "side_ok ?d"
    using "2.prems"(2) by (auto simp: validate_level_Nil side_ok_put)
  have "set ?d = set d \<union> {(bl_price l, bl_size l) | k. k = l \<and> 0 < bl_size l}"
    using new(2) "2.prems"(2) by (force simp: sd_set_put side_ok_def)
  then show ?case using "2.hyps" [OF load ok] Nil by auto
qed auto

lemma ob_replace_cases:
  assumes "ob_replace snap b = (b', r)"
  shows "(r = Inr False \<and> b' = b \<and> bs_sequence snap < ob_last_sequence b)
    \<or> (\<exists>is. r = Inl (InvalidBookState is) \<and> (b' = b \<or> b' = b\<lparr>ob_valid := False\<rparr>))
    \<or> (r = Inr True \<and> ob_last_sequence b \<le> bs_sequence snap
       \<and> side_ok (ob_bids b') \<and> side_ok (ob_asks b') \<and> uncrossed b' \<and> ob_valid b'
       \<and> set (ob_bids b') = {(bl_price l, bl_size l) | l. l \<in> set (bs_bids snap) \<and> 0 < bl_size l}
       \<and> set (ob_asks b') = {(bl_price l, bl_size l) | l. l \<in> set (bs_asks snap) \<and> 0 < bl_size l}
       \<and> ob_consumed_bids b' = Map.empty \<and> ob_consumed_asks b' = Map.empty
       \<and> ob_last_sequence b' = bs_sequence snap)"
proof (cases "r = Inr True")
  case True
  obtain bids i1 where bids: "load_levels BUY (bs_tick_size snap) (bs_bids snap) ([], []) = (bids, i1)"
    by (meson surj_pair)
  obtain asks i2 where asks: "load_levels SELL (bs_tick_size snap) (bs_asks snap) ([], i1) = (asks, i2)"
    by (meson surj_pair)
  from assms True bids asks have
    none: "i2 = []" "validate_cross (sd_last bids) (sd_first asks) = []"
    and b': "ob_bids b' = bids" "ob_asks b' = asks" "ob_valid b'"
      "ob_consumed_bids b' = Map.empty" "ob_consumed_asks b' = Map.empty"
      "ob_last_sequence b' = bs_sequence snap" "ob_last_sequence b \<le> bs_sequence snap"
    by (auto simp: ob_replace_def Let_def split: if_splits)
  note A = load_levels_no_issues [OF asks [unfolded none(1)] side_ok_Nil]
  then have "i1 = []" by blast
  note B = load_levels_no_issues [OF bids [unfolded this] side_ok_Nil]
  from A B none(2) b' True show ?thesis
    using validate_cross_uncrossed [of bids asks] by (auto simp: side_ok_def uncrossed_def)
next
  case False
  with assms show ?thesis
    by (auto simp: ob_replace_def Let_def split: if_splits prod.splits)
qed

lemma book_inv_replace [inv_intros]: "book_inv b \<Longrightarrow> book_inv (fst (ob_replace snap b))"
  using ob_replace_cases [OF surjective_pairing, of snap b] by (auto simp: book_inv_def)

lemma lookup_trim_bids:
  assumes "sd_inv d"
  shows "map_of (trim_bids rep d) p
    = (if \<exists>r. rep = Some r \<and> (r = 0 \<or> r < p) then None else map_of d p)"
proof -
  have "map_of (fold sd_pop (sd_irange_from (the rep + 1) d) d) p
      = (if p \<in> set (sd_irange_from (the rep + 1) d) then None else map_of d p)"
    using sd.fold_pop [OF assms, of "sd_irange_from (the rep + 1) d"] by simp
  moreover have "p \<notin> fst ` set d \<Longrightarrow> map_of d p = None"
    by (simp add: map_of_eq_None_iff)
  ultimately show ?thesis
    by (auto simp: trim_bids_def sd_irange_from_def split: option.splits)
qed

lemma lookup_trim_asks:
  assumes "sd_inv d"
  shows "map_of (trim_asks rep d) p
    = (if \<exists>r. rep = Some r \<and> (r = POLYMARKET_PRICE_SCALE \<or> p < r) then None else map_of d p)"
proof -
  have "map_of (fold sd_pop (sd_irange_to (the rep - 1) d) d) p
      = (if p \<in> set (sd_irange_to (the rep - 1) d) then None else map_of d p)"
    using sd.fold_pop [OF assms, of "sd_irange_to (the rep - 1) d"] by simp
  moreover have "p \<notin> fst ` set d \<Longrightarrow> map_of d p = None"
    by (simp add: map_of_eq_None_iff)
  ultimately show ?thesis
    by (auto simp: trim_asks_def sd_irange_to_def split: option.splits)
qed

lemma set_level_sides:
  "ob_bids (set_level c b) = (if bc_side c = BUY
     then if bc_new_size c = 0 then sd_pop (bc_price c) (ob_bids b)
          else sd_put (bc_price c) (bc_new_size c) (ob_bids b)
     else ob_bids b)"
  "ob_asks (set_level c b) = (if bc_side c = SELL
     then if bc_new_size c = 0 then sd_pop (bc_price c) (ob_asks b)
          else sd_put (bc_price c) (bc_new_size c) (ob_asks b)
     else ob_asks b)"
  by (cases "bc_side c"; simp add: set_level_def Let_def)+

text \<open>The levels that a restated level leaves, before the reported top is applied.\<close>

definition restated :: "side \<Rightarrow> book_level_change \<Rightarrow> (int \<rightharpoonup> int) \<Rightarrow> int \<rightharpoonup> int" where
  "restated s c m =
     (if bc_side c = s
      then m(bc_price c := if bc_new_size c = 0 then None else Some (bc_new_size c))
      else m)"

lemma set_level_lookup:
  assumes "sd_inv (ob_bids b)" "sd_inv (ob_asks b)"
  shows "map_of (ob_bids (set_level c b)) = restated BUY c (map_of (ob_bids b))"
    "map_of (ob_asks (set_level c b)) = restated SELL c (map_of (ob_asks b))"
  using assms by (auto simp: set_level_sides restated_def sd_lookup_put sd_lookup_pop)

lemma set_level_ok:
  assumes "side_ok (ob_bids b)" "side_ok (ob_asks b)"
    "validate_level (bc_price c) (bc_new_size c) (ob_tick_size b) = []"
  shows "side_ok (ob_bids (set_level c b))" "side_ok (ob_asks (set_level c b))"
  using assms by (auto simp: set_level_sides validate_level_Nil intro!: side_ok_put side_ok_pop)

lemma top_issues_Nil:
  assumes "sd_inv (ob_bids b)" "sd_inv (ob_asks b)" "top_issues c b = []"
  shows "uncrossed b"
    and "bc_reported_best_bid c \<noteq> None \<Longrightarrow> best_bid b = expected_bid c"
    and "bc_reported_best_ask c \<noteq> None \<Longrightarrow> best_ask b = expected_ask c"
  using assms(3) validate_cross_uncrossed [OF assms(1,2)]
  by (auto simp: top_issues_def uncrossed_def best_bid_def best_ask_def split: if_splits)

lemma book_inv_apply [inv_intros]:
  assumes "book_inv b"
  shows "book_inv (fst (ob_apply c b))"
proof (cases "validate_level (bc_price c) (bc_new_size c) (ob_tick_size b) = []")
  case True
  let ?b = "trim_to_reported c (set_level c b)"
  have ok: "side_ok (ob_bids ?b)" "side_ok (ob_asks ?b)"
    using set_level_ok [OF _ _ True] assms
    by (auto simp: book_inv_def trim_to_reported_def intro!: side_ok_trim)
  have "top_issues c ?b = [] \<Longrightarrow> uncrossed ?b"
    using ok top_issues_Nil(1) [of ?b c] by (auto simp: side_ok_def)
  with ok assms True show ?thesis
    by (auto simp: ob_apply_def Let_def book_inv_def uncrossed_def)
qed (use assms in \<open>auto simp: ob_apply_def Let_def book_inv_def uncrossed_def\<close>)

lemma book_inv_make [inv_intros]: "book_inv (make_book c t u)"
  by (simp add: book_inv_def make_book_def)

lemma book_inv_consume [inv_intros]: "book_inv b \<Longrightarrow> book_inv (consume s p q b)"
  by (cases s) (auto simp: book_inv_def consume_def uncrossed_def)

lemma book_inv_update [inv_intros]:
  "book_inv b \<Longrightarrow> book_inv (b\<lparr>ob_valid := False\<rparr>)"
  "book_inv b \<Longrightarrow> book_inv (b\<lparr>ob_tick_size := t\<rparr>)"
  by (auto simp: book_inv_def uncrossed_def)

section \<open>Reachable books\<close>

inductive reachable_book :: "order_book \<Rightarrow> bool" where
  start: "reachable_book (make_book c t u)"
| replaced: "reachable_book b \<Longrightarrow> reachable_book (fst (ob_replace snap b))"
| applied: "reachable_book b \<Longrightarrow> reachable_book (fst (ob_apply c b))"
| consumed: "reachable_book b \<Longrightarrow> reachable_book (consume s p q b)"
| uncertain: "reachable_book b \<Longrightarrow> reachable_book (b\<lparr>ob_valid := False\<rparr>)"
| retick: "reachable_book b \<Longrightarrow> reachable_book (b\<lparr>ob_tick_size := t\<rparr>)"

lemma reachable_book_inv: "reachable_book b \<Longrightarrow> book_inv b"
  by (induction rule: reachable_book.induct) (auto intro: inv_intros)

lemma reachable_sides:
  assumes "reachable_book b"
  shows "sd_inv (ob_bids b)" "sd_inv (ob_asks b)"
  using reachable_book_inv [OF assms] by (auto simp: book_inv_def side_ok_def)

text \<open>A successful, current change, in closed form.\<close>

lemma ob_apply_current:
  assumes inv: "book_inv b" and run: "ob_apply c b = (b', Inr ())"
    and current: "ob_last_sequence b \<le> bc_sequence c"
  shows "map_of (ob_bids b') = (\<lambda>p. if \<exists>r. bc_reported_best_bid c = Some r \<and> (r = 0 \<or> r < p)
        then None else restated BUY c (map_of (ob_bids b)) p)
    \<and> map_of (ob_asks b') = (\<lambda>p. if \<exists>r. bc_reported_best_ask c = Some r
        \<and> (r = POLYMARKET_PRICE_SCALE \<or> p < r)
        then None else restated SELL c (map_of (ob_asks b)) p)
    \<and> (bc_reported_best_bid c \<noteq> None \<longrightarrow> best_bid b' = expected_bid c)
    \<and> (bc_reported_best_ask c \<noteq> None \<longrightarrow> best_ask b' = expected_ask c)
    \<and> uncrossed b' \<and> ob_valid b' \<and> ob_last_sequence b' = bc_sequence c"
proof -
  let ?b = "trim_to_reported c (set_level c b)"
  from run current have level: "validate_level (bc_price c) (bc_new_size c) (ob_tick_size b) = []"
    and none: "top_issues c ?b = []"
    and b': "ob_bids b' = ob_bids ?b" "ob_asks b' = ob_asks ?b" "ob_valid b'"
      "ob_last_sequence b' = bc_sequence c"
    by (auto simp: ob_apply_def Let_def not_less split: if_split_asm)
  have sides: "side_ok (ob_bids b)" "side_ok (ob_asks b)"
    using inv by (auto simp: book_inv_def)
  have ok: "side_ok (ob_bids (set_level c b))" "side_ok (ob_asks (set_level c b))"
    "sd_inv (ob_bids b)" "sd_inv (ob_asks b)"
    using set_level_ok [OF sides level] sides by (simp_all add: side_ok_def)
  then have trimmed: "sd_inv (ob_bids ?b)" "sd_inv (ob_asks ?b)"
    using side_ok_trim(1) [OF ok(1)] side_ok_trim(2) [OF ok(2)]
    by (simp_all add: side_ok_def trim_to_reported_def)
  note top = top_issues_Nil [OF trimmed none]
  have "map_of (ob_bids b') = (\<lambda>p. if \<exists>r. bc_reported_best_bid c = Some r \<and> (r = 0 \<or> r < p)
        then None else restated BUY c (map_of (ob_bids b)) p)"
    using ok by (auto simp: b' trim_to_reported_def fun_eq_iff lookup_trim_bids side_ok_def set_level_lookup)
  moreover have "map_of (ob_asks b') = (\<lambda>p. if \<exists>r. bc_reported_best_ask c = Some r
        \<and> (r = POLYMARKET_PRICE_SCALE \<or> p < r)
        then None else restated SELL c (map_of (ob_asks b)) p)"
    using ok by (auto simp: b' trim_to_reported_def fun_eq_iff lookup_trim_asks side_ok_def set_level_lookup)
  ultimately show ?thesis
    using top b' by (simp add: uncrossed_def best_bid_def best_ask_def)
qed

lemma concat_available_set:
  "(p, q) \<in> set (available_levels s b) \<longleftrightarrow>
     (\<exists>sz. (p, sz) \<in> set (if s = BUY then ob_bids b else ob_asks b)
        \<and> q = sz - or_zero ((if s = BUY then ob_consumed_bids b else ob_consumed_asks b) p) \<and> 0 < q)"
  by (auto simp: available_levels_def Let_def split: if_splits)

lemma sorted_concat_filter:
  "sorted_wrt R (map fst d) \<Longrightarrow>
     sorted_wrt R (map fst (concat (map (\<lambda>(p, sz). if P p sz then [(p, f p sz)] else []) d)))"
  by (induction d) (force split: if_splits)+

lemma available_levels_sorted:
  assumes "book_inv b"
  shows "sorted_wrt (\<lambda>p q. if s = BUY then q < p else p < q) (map fst (available_levels s b))"
proof -
  have "sd_inv (ob_bids b)" "sd_inv (ob_asks b)"
    using assms by (auto simp: book_inv_def side_ok_def)
  then have "sorted_wrt (\<lambda>p q. if s = BUY then q < p else p < q)
      (map fst (if s = BUY then rev (ob_bids b) else ob_asks b))"
    by (simp add: sd_inv_def sorted_wrt_rev flip: rev_map)
  then show ?thesis
    unfolding available_levels_def Let_def by (rule sorted_concat_filter)
qed

text \<open>What is available at a price, as a map.\<close>

definition depth_at :: "side \<Rightarrow> order_book \<Rightarrow> int \<Rightarrow> int" where
  "depth_at s b p =
     (case map_of (if s = BUY then ob_bids b else ob_asks b) p of
        None \<Rightarrow> 0
      | Some sz \<Rightarrow> max 0 (sz - or_zero ((if s = BUY then ob_consumed_bids b else ob_consumed_asks b) p)))"

lemma available_iff_depth:
  assumes "sd_inv (ob_bids b)" "sd_inv (ob_asks b)"
  shows "(p, q) \<in> set (available_levels s b) \<longleftrightarrow> 0 < q \<and> q = depth_at s b p"
proof -
  have "(p, sz) \<in> set (if s = BUY then ob_bids b else ob_asks b)
      \<longleftrightarrow> map_of (if s = BUY then ob_bids b else ob_asks b) p = Some sz" for sz
    using assms sd.in_items by simp
  then show ?thesis
    by (auto simp: concat_available_set depth_at_def split: option.splits)
qed

lemma depth_consume:
  assumes "0 \<le> q" "q \<le> depth_at s b p"
  shows "depth_at s (consume s p q b) = (depth_at s b)(p := depth_at s b p - q)"
  using assms
  by (cases s) (auto simp: depth_at_def consume_def fun_eq_iff max_def split: option.splits if_splits)

lemma depth_consume_other: "s' \<noteq> s \<Longrightarrow> depth_at s' (consume s p q b) = depth_at s' b"
  by (cases s; cases s') (auto simp: depth_at_def consume_def fun_eq_iff split: option.splits)

section \<open>Properties\<close>

text \<open>
  Every reachable book keeps both sides as strictly ascending price maps whose levels have a
  price strictly between zero and one and a positive size, whatever snapshots and changes were
  accepted or refused on the way; while the book is valid its best bid is below its best ask.
\<close>

theorem book_levels_sound:
  assumes "reachable_book b"
  shows "(\<forall>d \<in> {ob_bids b, ob_asks b}. sorted_wrt (<) (map fst d)
      \<and> (\<forall>(p, sz) \<in> set d. 0 < p \<and> p < 1000000 \<and> 0 < sz))
    \<and> (ob_valid b \<longrightarrow> (\<forall>bid ask. best_bid b = Some bid \<longrightarrow> best_ask b = Some ask \<longrightarrow> bid < ask))"
proof -
  note inv = reachable_book_inv [OF assms]
  have "bid < ask" if "ob_valid b" "best_bid b = Some bid" "best_ask b = Some ask" for bid ask
    using sd_last_SomeD(1) [OF reachable_sides(1) [OF assms], of bid]
      sd_first_SomeD(1) [OF reachable_sides(2) [OF assms], of ask] that inv
    unfolding book_inv_def uncrossed_def best_bid_def best_ask_def by blast
  then show ?thesis
    using inv by (auto simp: book_inv_def side_ok_def sd_inv_def)
qed

definition demo_snapshot :: book_snapshot where
  "demo_snapshot =
     \<lparr>bs_snapshot_id = ''s1'', bs_sequence = 7, bs_run_id = ''r'', bs_connection_id = ''c'',
      bs_source = ''clob_rest'', bs_condition_id = ''m'', bs_token_id = ''t'', bs_outcome = ''Up'',
      bs_exchange_timestamp_ns = Some 90, bs_received_utc_ns = 100, bs_received_monotonic_ns = 1,
      bs_book_hash = Some ''h'', bs_tick_size = 10000, bs_minimum_order_size = 5000000,
      bs_last_trade_price = None, bs_neg_risk = False,
      bs_bids = [\<lparr>bl_price = 480000, bl_size = 3000000\<rparr>, \<lparr>bl_price = 500000, bl_size = 2000000\<rparr>],
      bs_asks = [\<lparr>bl_price = 520000, bl_size = 4000000\<rparr>, \<lparr>bl_price = 560000, bl_size = 1000000\<rparr>]\<rparr>"

definition demo_change :: book_level_change where
  "demo_change =
     \<lparr>bc_parent_event_id = ''e'', bc_change_index = 0, bc_sequence = 8, bc_condition_id = ''m'',
      bc_token_id = ''t'', bc_outcome = ''Up'', bc_exchange_timestamp_ns = Some 110,
      bc_received_utc_ns = 120, bc_received_monotonic_ns = 2, bc_side = SELL, bc_price = 540000,
      bc_new_size = 6000000, bc_book_hash = None, bc_reported_best_bid = Some 480000,
      bc_reported_best_ask = Some 540000, bc_connection_id = ''c''\<rparr>"

definition demo_book :: order_book where
  "demo_book =
     \<lparr>ob_condition_id = ''m'', ob_token_id = ''t'', ob_outcome = ''Up'',
      ob_bids = [(480000, 3000000), (500000, 2000000)],
      ob_asks = [(520000, 4000000), (560000, 1000000)],
      ob_consumed_bids = Map.empty, ob_consumed_asks = Map.empty,
      ob_tick_size = 10000, ob_minimum_order_size = 5000000, ob_last_sequence = 7,
      ob_last_received_utc_ns = 100, ob_source_hash = Some ''h'', ob_valid = True\<rparr>"

lemma demo_replace: "ob_replace demo_snapshot (make_book ''m'' ''t'' ''Up'') = (demo_book, Inr True)"
  by (simp add: ob_replace_def demo_snapshot_def make_book_def demo_book_def validate_level_def
      validate_cross_def sd_last_def sd_first_def)

lemma demo_book_reachable: "reachable_book demo_book"
  using reachable_book.replaced [OF reachable_book.start, of demo_snapshot "''m''" "''t''" "''Up''"]
  by (simp add: demo_replace)

theorem book_levels_sound_witness:
  "sorted_wrt (<) (map fst (ob_bids demo_book)) \<and> best_bid demo_book = Some 500000
   \<and> best_ask demo_book = Some 520000"
  using book_levels_sound [OF demo_book_reachable]
  by (simp add: best_bid_def best_ask_def sd_last_def sd_first_def demo_book_def)

text \<open>
  C12. A current change that \<open>ob_apply\<close> accepts acts as the abstract update of two price maps: the
  named level is restated (or removed at size zero), every level beyond the reported best bid
  or ask is dropped, nothing else moves, and the local top then equals the reported one.
\<close>

theorem ob_apply_refines_maps:
  assumes "reachable_book b" "ob_apply c b = (b', Inr ())" "ob_last_sequence b \<le> bc_sequence c"
  shows "map_of (ob_bids b') = (\<lambda>p. if \<exists>r. bc_reported_best_bid c = Some r \<and> (r = 0 \<or> r < p)
        then None else restated BUY c (map_of (ob_bids b)) p)
    \<and> map_of (ob_asks b') = (\<lambda>p. if \<exists>r. bc_reported_best_ask c = Some r
        \<and> (r = POLYMARKET_PRICE_SCALE \<or> p < r)
        then None else restated SELL c (map_of (ob_asks b)) p)
    \<and> (bc_reported_best_bid c \<noteq> None \<longrightarrow> best_bid b' = expected_bid c)
    \<and> (bc_reported_best_ask c \<noteq> None \<longrightarrow> best_ask b' = expected_ask c)
    \<and> uncrossed b' \<and> ob_valid b' \<and> ob_last_sequence b' = bc_sequence c"
  by (rule ob_apply_current [OF reachable_book_inv [OF assms(1)] assms(2,3)])

theorem ob_apply_refines_maps_witness:
  "ob_bids (fst (ob_apply demo_change demo_book)) = [(480000, 3000000)]
   \<and> ob_asks (fst (ob_apply demo_change demo_book)) = [(540000, 6000000), (560000, 1000000)]
   \<and> best_ask (fst (ob_apply demo_change demo_book)) = Some 540000"
proof -
  have run: "ob_apply demo_change demo_book
      = (demo_book\<lparr>ob_bids := [(480000, 3000000)], ob_asks := [(540000, 6000000), (560000, 1000000)],
           ob_last_sequence := 8, ob_last_received_utc_ns := 120\<rparr>, Inr ())"
    by (simp add: ob_apply_def demo_change_def demo_book_def validate_level_def set_level_def
        trim_to_reported_def trim_bids_def trim_asks_def sd_irange_from_def sd_irange_to_def top_issues_def
        validate_cross_def best_bid_def best_ask_def sd_last_def sd_first_def expected_bid_def
        expected_ask_def fun_eq_iff)
  have current: "ob_last_sequence demo_book \<le> bc_sequence demo_change"
    by (simp add: demo_book_def demo_change_def)
  from ob_apply_refines_maps [OF demo_book_reachable run current] run show ?thesis
    by (simp add: demo_change_def expected_ask_def)
qed

text \<open>
  A snapshot is all or nothing.  An accepted snapshot leaves exactly its positive levels and
  clears the simulated consumption; one older than the book is ignored; one with any validation
  issue leaves every level, sequence number and consumption as it was and only marks the book
  invalid.
\<close>

theorem ob_replace_all_or_nothing:
  "case ob_replace snap b of
     (b', Inr True) \<Rightarrow> ob_valid b' \<and> uncrossed b' \<and> ob_last_sequence b \<le> ob_last_sequence b'
       \<and> set (ob_bids b') = {(bl_price l, bl_size l) | l. l \<in> set (bs_bids snap) \<and> 0 < bl_size l}
       \<and> set (ob_asks b') = {(bl_price l, bl_size l) | l. l \<in> set (bs_asks snap) \<and> 0 < bl_size l}
       \<and> (\<forall>s p. depth_at s b' p = or_zero (map_of (if s = BUY then ob_bids b' else ob_asks b') p))
   | (b', Inr False) \<Rightarrow> b' = b \<and> bs_sequence snap < ob_last_sequence b
   | (b', Inl _) \<Rightarrow> b' = b \<or> b' = b\<lparr>ob_valid := False\<rparr>"
proof -
  obtain b' r where run: "ob_replace snap b = (b', r)" by (meson surj_pair)
  have pos: "0 \<le> sz" if "side_ok d" "map_of d p = Some sz" for d p sz
    using that map_of_SomeD [of d p sz] by (auto simp: side_ok_def)
  show ?thesis
    using ob_replace_cases [OF run] run pos
    by (auto simp: depth_at_def split: option.splits bool.splits sum.splits)
qed

theorem ob_replace_all_or_nothing_witness:
  "ob_replace demo_snapshot (make_book ''m'' ''t'' ''Up'') = (demo_book, Inr True) \<and> uncrossed demo_book"
  using ob_replace_all_or_nothing [where snap = demo_snapshot and b = "make_book ''m'' ''t'' ''Up''"] demo_replace by simp

text \<open>
  The depth the simulators may take is the recorded size less what they already took.  The
  available levels of a side come strictly best first and carry exactly \<open>depth_at\<close>; consuming
  \<open>q\<close> at a price lowers the depth there by \<open>q\<close> (never below zero), leaves every other price and
  the other side alone, and does not touch the recorded feed.
\<close>

theorem consumed_depth_not_reused:
  assumes "reachable_book b" "0 \<le> q" "q \<le> depth_at s b p"
  shows "sorted_wrt (\<lambda>p q. if s = BUY then q < p else p < q) (map fst (available_levels s b))
    \<and> (\<forall>p q. (p, q) \<in> set (available_levels s b) \<longleftrightarrow> 0 < q \<and> q = depth_at s b p)
    \<and> depth_at s (consume s p q b) = (depth_at s b)(p := depth_at s b p - q)
    \<and> (\<forall>s'. s' \<noteq> s \<longrightarrow> depth_at s' (consume s p q b) = depth_at s' b)
    \<and> ob_bids (consume s p q b) = ob_bids b \<and> ob_asks (consume s p q b) = ob_asks b
    \<and> ob_last_sequence (consume s p q b) = ob_last_sequence b"
proof -
  note inv = reachable_book_inv [OF assms(1)]
  have "ob_bids (consume s p q b) = ob_bids b" "ob_asks (consume s p q b) = ob_asks b"
    "ob_last_sequence (consume s p q b) = ob_last_sequence b"
    by (auto simp: consume_def)
  then show ?thesis
    using depth_consume [OF assms(2,3)] depth_consume_other
      available_levels_sorted [OF inv] available_iff_depth [OF reachable_sides [OF assms(1)]]
    by blast
qed

theorem consumed_depth_not_reused_witness:
  "depth_at SELL (consume SELL 520000 1500000 demo_book) 520000 = 2500000
   \<and> depth_at SELL (consume SELL 520000 1500000 demo_book) 560000 = 1000000"
proof -
  have "(1500000 :: int) \<le> depth_at SELL demo_book 520000"
    by (simp add: depth_at_def demo_book_def)
  from consumed_depth_not_reused [OF demo_book_reachable _ this] show ?thesis
    by (simp add: depth_at_def demo_book_def)
qed

end
