(* ===== verification/Reconstructor.thy ===== *)
theory Reconstructor
  imports OrderBook
begin

text \<open>
  \<^verbatim>\<open>orderbook/reconstructor.py\<close>: the books of all tokens, the effective tick sizes, and the
  intervals during which a book cannot be trusted.  The book dictionary is iterated by the
  engine, so it is kept in insertion order.
\<close>

section \<open>State and operations\<close>

record uncertainty_interval =
  ui_token_id :: string
  ui_start_utc_ns :: int
  ui_end_utc_ns :: "int option"
  ui_reason :: string
  ui_first_sequence :: "int option"
  ui_last_sequence :: "int option"

record reconstructor =
  rc_books :: "(string \<times> order_book) list"
  rc_uncertainty :: "uncertainty_interval list"
  rc_effective_tick_sizes :: "string \<rightharpoonup> int"

definition make_reconstructor :: reconstructor where
  "make_reconstructor =
     \<lparr>rc_books = [], rc_uncertainty = [], rc_effective_tick_sizes = Map.empty\<rparr>"

definition rc_book :: "reconstructor \<Rightarrow> string \<Rightarrow> order_book option" where
  "rc_book r token_id = map_of (rc_books r) token_id"

definition register_token :: "string \<Rightarrow> string \<Rightarrow> string \<Rightarrow> reconstructor
    \<Rightarrow> reconstructor \<times> (py_error + order_book)" where
  "register_token condition_id token_id outcome r =
     (case rc_book r token_id of
        Some b \<Rightarrow>
          if ob_condition_id b \<noteq> condition_id \<or> ob_outcome b \<noteq> outcome
          then (r, Inl (ValueError ''token mapping changed unexpectedly''))
          else (r, Inr b)
      | None \<Rightarrow>
          let b = make_book condition_id token_id outcome
          in (r\<lparr>rc_books := dict_put token_id b (rc_books r)\<rparr>, Inr b))"

text \<open>The newest open interval of the token is closed by the snapshot.\<close>

fun close_first_open :: "string \<Rightarrow> int \<Rightarrow> int \<Rightarrow> uncertainty_interval list
    \<Rightarrow> uncertainty_interval list" where
  "close_first_open t now sq [] = []"
| "close_first_open t now sq (i # is) =
     (if ui_token_id i = t \<and> ui_end_utc_ns i = None
      then i\<lparr>ui_end_utc_ns := Some now, ui_last_sequence := Some sq\<rparr> # is
      else i # close_first_open t now sq is)"

definition close_newest_open :: "book_snapshot \<Rightarrow> uncertainty_interval list
    \<Rightarrow> uncertainty_interval list" where
  "close_newest_open snap is =
     rev (close_first_open (bs_token_id snap) (bs_received_utc_ns snap) (bs_sequence snap) (rev is))"

text \<open>
  The tick of the snapshot: REST snapshots and the first snapshot of a token set it, a later
  WebSocket snapshot takes over the one in force.
\<close>

definition resolve_tick :: "book_snapshot \<Rightarrow> reconstructor \<Rightarrow> book_snapshot \<times> reconstructor" where
  "resolve_tick snap r =
     (case rc_effective_tick_sizes r (bs_token_id snap) of
        None \<Rightarrow> (snap, r\<lparr>rc_effective_tick_sizes :=
                  (rc_effective_tick_sizes r)(bs_token_id snap \<mapsto> bs_tick_size snap)\<rparr>)
      | Some tick \<Rightarrow>
          if bs_source snap = ''clob_rest''
          then (snap, r\<lparr>rc_effective_tick_sizes :=
                  (rc_effective_tick_sizes r)(bs_token_id snap \<mapsto> bs_tick_size snap)\<rparr>)
          else if bs_tick_size snap \<noteq> tick then (snap\<lparr>bs_tick_size := tick\<rparr>, r)
          else (snap, r))"

definition apply_snapshot :: "book_snapshot \<Rightarrow> reconstructor \<Rightarrow> reconstructor \<times> (py_error + top_of_book)" where
  "apply_snapshot snap0 r0 =
     (let (snap, r1) = resolve_tick snap0 r0
      in case register_token (bs_condition_id snap) (bs_token_id snap) (bs_outcome snap) r1 of
           (r2, Inl e) \<Rightarrow> (r2, Inl e)
         | (r2, Inr b) \<Rightarrow>
             (case ob_replace snap b of
                (b', Inl e) \<Rightarrow>
                  (r2\<lparr>rc_books := dict_put (bs_token_id snap) b' (rc_books r2)\<rparr>, Inl e)
              | (b', Inr _) \<Rightarrow>
                  (r2\<lparr>rc_books := dict_put (bs_token_id snap) b' (rc_books r2),
                      rc_uncertainty := close_newest_open snap (rc_uncertainty r2)\<rparr>,
                   Inr (ob_top b'))))"

definition apply_tick_size_change :: "tick_size_change \<Rightarrow> reconstructor
    \<Rightarrow> reconstructor \<times> (py_error + top_of_book option)" where
  "apply_tick_size_change c r =
     (if tc_new_tick_size c \<le> 0 then (r, Inl (ValueError ''tick size must be positive''))
      else
        let r1 = r\<lparr>rc_effective_tick_sizes :=
                    (rc_effective_tick_sizes r)(tc_token_id c \<mapsto> tc_new_tick_size c)\<rparr>
        in case rc_book r1 (tc_token_id c) of
             None \<Rightarrow> (r1, Inr None)
           | Some b \<Rightarrow>
               if ob_condition_id b \<noteq> tc_condition_id c
               then (r1, Inl (ValueError ''tick-size token/market mapping does not match book''))
               else
                 let b' = b\<lparr>ob_tick_size := tc_new_tick_size c\<rparr>
                 in (r1\<lparr>rc_books := dict_put (tc_token_id c) b' (rc_books r1)\<rparr>,
                     Inr (Some (ob_top b'))))"

definition apply_change :: "book_level_change \<Rightarrow> reconstructor \<Rightarrow> reconstructor \<times> (py_error + top_of_book)" where
  "apply_change c r =
     (case rc_book r (bc_token_id c) of
        None \<Rightarrow> (r, Inl (ValueError ''cannot apply update without valid snapshot''))
      | Some b \<Rightarrow>
          if \<not> ob_valid b then (r, Inl (ValueError ''cannot apply update without valid snapshot''))
          else
            case ob_apply c b of
              (b', Inl e) \<Rightarrow> (r\<lparr>rc_books := dict_put (bc_token_id c) b' (rc_books r)\<rparr>, Inl e)
            | (b', Inr _) \<Rightarrow>
                (r\<lparr>rc_books := dict_put (bc_token_id c) b' (rc_books r)\<rparr>, Inr (ob_top b')))"

definition mark_uncertain :: "string \<Rightarrow> int \<Rightarrow> string \<Rightarrow> int option \<Rightarrow> reconstructor \<Rightarrow> reconstructor" where
  "mark_uncertain token_id start_utc_ns reason first_sequence r =
     r\<lparr>rc_books := (case rc_book r token_id of
          None \<Rightarrow> rc_books r
        | Some b \<Rightarrow> dict_put token_id (b\<lparr>ob_valid := False\<rparr>) (rc_books r)),
       rc_uncertainty := rc_uncertainty r @
         [\<lparr>ui_token_id = token_id, ui_start_utc_ns = start_utc_ns, ui_end_utc_ns = None,
           ui_reason = reason, ui_first_sequence = first_sequence, ui_last_sequence = None\<rparr>]\<rparr>"

definition rc_valid :: "reconstructor \<Rightarrow> string \<Rightarrow> bool" where
  "rc_valid r token_id = (case rc_book r token_id of None \<Rightarrow> False | Some b \<Rightarrow> ob_valid b)"

section \<open>Runs\<close>

text \<open>
  The messages a reconstructor receives; \<open>rc_step\<close> keeps the state a message leaves when it
  raises, as a caller that logs the error and goes on does.
\<close>

datatype rc_message =
    Msg_snapshot book_snapshot
  | Msg_change book_level_change
  | Msg_tick tick_size_change
  | Msg_uncertain string int string "int option"

fun rc_step :: "rc_message \<Rightarrow> reconstructor \<Rightarrow> reconstructor" where
  "rc_step (Msg_snapshot s) r = fst (apply_snapshot s r)"
| "rc_step (Msg_change c) r = fst (apply_change c r)"
| "rc_step (Msg_tick c) r = fst (apply_tick_size_change c r)"
| "rc_step (Msg_uncertain t now why sq) r = mark_uncertain t now why sq r"

definition rc_inv :: "reconstructor \<Rightarrow> bool" where
  "rc_inv r \<longleftrightarrow> dict_keys_distinct (rc_books r)
     \<and> (\<forall>(t, b) \<in> set (rc_books r). reachable_book b \<and> ob_token_id b = t)"

lemma rc_inv_make [inv_intros]: "rc_inv make_reconstructor"
  by (simp add: rc_inv_def make_reconstructor_def)

lemma rc_inv_put:
  "rc_inv r \<Longrightarrow> reachable_book b \<Longrightarrow> ob_token_id b = t \<Longrightarrow>
     rc_inv (r\<lparr>rc_books := dict_put t b (rc_books r)\<rparr>)"
  by (auto simp: rc_inv_def set_dict_put)

lemma rc_inv_frame [simp]:
  "rc_inv (r\<lparr>rc_uncertainty := u\<rparr>) = rc_inv r"
  "rc_inv (r\<lparr>rc_effective_tick_sizes := e\<rparr>) = rc_inv r"
  by (simp_all add: rc_inv_def)

lemma rc_bookD: "rc_inv r \<Longrightarrow> rc_book r t = Some b \<Longrightarrow> reachable_book b \<and> ob_token_id b = t"
  by (auto simp: rc_inv_def rc_book_def dest!: map_of_SomeD)

lemma ob_token_id_keeps [simp]:
  "ob_token_id (fst (ob_replace s b)) = ob_token_id b"
  "ob_token_id (fst (ob_apply c b)) = ob_token_id b"
  by (auto simp: ob_replace_def ob_apply_def Let_def trim_to_reported_def set_level_def
      split: prod.split)

lemma register_token_inv:
  assumes "rc_inv r" "register_token c t u r = (r', x)"
  shows "rc_inv r' \<and> (\<forall>b. x = Inr b \<longrightarrow> reachable_book b \<and> ob_token_id b = t \<and> rc_book r' t = Some b)"
  using assms rc_inv_put [OF assms(1), of "make_book c t u" t] rc_bookD [OF assms(1), of t]
  by (auto simp: register_token_def Let_def make_book_def rc_book_def reachable_book.start [unfolded make_book_def]
      split: option.splits if_splits)

lemma resolve_tick_frame:
  assumes "resolve_tick s r = (s', r')"
  shows "rc_books r' = rc_books r \<and> rc_uncertainty r' = rc_uncertainty r
    \<and> bs_token_id s' = bs_token_id s \<and> bs_condition_id s' = bs_condition_id s
    \<and> bs_outcome s' = bs_outcome s \<and> bs_sequence s' = bs_sequence s
    \<and> bs_received_utc_ns s' = bs_received_utc_ns s"
  using assms by (auto simp: resolve_tick_def split: option.splits if_splits)

lemma rc_inv_resolve: "resolve_tick s r = (s', r') \<Longrightarrow> rc_inv r' = rc_inv r"
  using resolve_tick_frame [of s r s' r'] by (simp add: rc_inv_def)

lemma rc_inv_snapshot:
  assumes "rc_inv r"
  shows "rc_inv (fst (apply_snapshot s r))"
proof -
  obtain s' r1 where res: "resolve_tick s r = (s', r1)" by (meson surj_pair)
  obtain r2 x where reg: "register_token (bs_condition_id s') (bs_token_id s') (bs_outcome s') r1 = (r2, x)"
    by (meson surj_pair)
  have inv: "rc_inv r2" "\<And>b. x = Inr b \<Longrightarrow> reachable_book b \<and> ob_token_id b = bs_token_id s'"
    using register_token_inv [OF _ reg] rc_inv_resolve [OF res] assms by auto
  show ?thesis
  proof (cases x)
    case (Inr b)
    obtain b' y where rep: "ob_replace s' b = (b', y)" by (meson surj_pair)
    then have "reachable_book b'" "ob_token_id b' = bs_token_id s'"
      using reachable_book.replaced [of b s'] ob_token_id_keeps(1) [of s' b] inv(2) [OF Inr] by auto
    from rc_inv_put [OF inv(1) this] Inr res reg rep show ?thesis
      by (auto simp: apply_snapshot_def rc_inv_def split: sum.split)
  qed (use inv res reg in \<open>simp add: apply_snapshot_def\<close>)
qed

lemma rc_inv_change:
  assumes "rc_inv r"
  shows "rc_inv (fst (apply_change c r))"
proof (cases "rc_book r (bc_token_id c)")
  case (Some b)
  obtain b' y where app: "ob_apply c b = (b', y)" by (meson surj_pair)
  then have "reachable_book b'" "ob_token_id b' = bc_token_id c"
    using reachable_book.applied [of b c] ob_token_id_keeps(2) [of c b] rc_bookD [OF assms Some] by auto
  from rc_inv_put [OF assms this] Some app assms show ?thesis
    by (auto simp: apply_change_def split: sum.split)
qed (use assms in \<open>simp add: apply_change_def\<close>)

lemma rc_inv_tick:
  assumes "rc_inv r"
  shows "rc_inv (fst (apply_tick_size_change c r))"
proof (cases "rc_book r (tc_token_id c)")
  case (Some b)
  have "reachable_book (b\<lparr>ob_tick_size := tc_new_tick_size c\<rparr>)" "ob_token_id b = tc_token_id c"
    using rc_bookD [OF assms Some] reachable_book.retick by auto
  then have "rc_inv (r\<lparr>rc_books := dict_put (tc_token_id c) (b\<lparr>ob_tick_size := tc_new_tick_size c\<rparr>) (rc_books r)\<rparr>)"
    using rc_inv_put [OF assms] by simp
  with assms Some show ?thesis
    by (auto simp: apply_tick_size_change_def Let_def rc_book_def rc_inv_def)
qed (use assms in \<open>auto simp: apply_tick_size_change_def Let_def rc_book_def rc_inv_def\<close>)

lemma rc_inv_uncertain:
  assumes "rc_inv r"
  shows "rc_inv (mark_uncertain t now why sq r)"
proof (cases "rc_book r t")
  case (Some b)
  have "rc_inv (r\<lparr>rc_books := dict_put t (b\<lparr>ob_valid := False\<rparr>) (rc_books r)\<rparr>)"
    using rc_inv_put [OF assms] rc_bookD [OF assms Some] reachable_book.uncertain by simp
  then show ?thesis using Some by (simp add: mark_uncertain_def rc_inv_def)
qed (use assms in \<open>simp add: mark_uncertain_def rc_inv_def\<close>)

lemma rc_inv_step [inv_intros]: "rc_inv r \<Longrightarrow> rc_inv (rc_step m r)"
  by (cases m) (auto simp: rc_inv_snapshot rc_inv_change rc_inv_tick rc_inv_uncertain)

lemma rc_inv_run: "rc_inv r \<Longrightarrow> rc_inv (fold rc_step ms r)"
  by (induction ms arbitrary: r) (auto intro: inv_intros)

text \<open>Only a snapshot of the token itself can make its book valid again.\<close>

definition snapshot_of :: "string \<Rightarrow> rc_message \<Rightarrow> bool" where
  "snapshot_of t m = (case m of Msg_snapshot s \<Rightarrow> bs_token_id s = t | _ \<Rightarrow> False)"

lemma rc_valid_put:
  "rc_valid (r\<lparr>rc_books := dict_put k b (rc_books r)\<rparr>) t = (if k = t then ob_valid b else rc_valid r t)"
  by (simp add: rc_valid_def rc_book_def)

lemma rc_valid_frame [simp]:
  "rc_valid (r\<lparr>rc_uncertainty := u\<rparr>) t = rc_valid r t"
  "rc_valid (r\<lparr>rc_effective_tick_sizes := e\<rparr>) t = rc_valid r t"
  by (simp_all add: rc_valid_def rc_book_def)

lemma invalid_step:
  assumes "\<not> rc_valid r t" "\<not> snapshot_of t m"
  shows "\<not> rc_valid (rc_step m r) t"
proof (cases m)
  case (Msg_snapshot s)
  obtain s' r1 where res: "resolve_tick s r = (s', r1)" by (meson surj_pair)
  note frame = resolve_tick_frame [OF res]
  have other: "bs_token_id s \<noteq> t" using assms(2) Msg_snapshot by (simp add: snapshot_of_def)
  have "map_of (rc_books (fst (apply_snapshot s r))) t = map_of (rc_books r) t"
    using frame other
    by (auto simp: apply_snapshot_def res register_token_def rc_book_def Let_def
        split: option.split prod.split sum.split)
  with assms(1) Msg_snapshot show ?thesis by (simp add: rc_valid_def rc_book_def)
next
  case (Msg_change c)
  with assms(1) show ?thesis
    by (cases "bc_token_id c = t")
      (auto simp: apply_change_def rc_valid_def rc_book_def split: option.splits prod.split sum.split)
next
  case (Msg_tick c)
  with assms(1) show ?thesis
    by (cases "tc_token_id c = t")
      (auto simp: apply_tick_size_change_def rc_valid_def rc_book_def Let_def split: option.splits)
next
  case (Msg_uncertain k now why sq)
  with assms(1) show ?thesis
    by (cases "k = t") (auto simp: mark_uncertain_def rc_valid_def rc_book_def split: option.splits)
qed

lemma invalid_run:
  "\<not> rc_valid r t \<Longrightarrow> \<forall>m \<in> set ms. \<not> snapshot_of t m \<Longrightarrow> \<not> rc_valid (fold rc_step ms r) t"
  by (induction ms arbitrary: r) (auto dest: invalid_step)

section \<open>Properties\<close>

text \<open>
  A reconstructor only ever holds books that their own operations can reach, each filed
  under its own token, whatever messages arrived and whichever of them raised.
\<close>

theorem reconstructor_sound:
  "dict_keys_distinct (rc_books (fold rc_step ms make_reconstructor))
   \<and> (\<forall>(t, b) \<in> set (rc_books (fold rc_step ms make_reconstructor)).
        reachable_book b \<and> ob_token_id b = t)"
  using rc_inv_run [OF rc_inv_make, of ms] by (simp add: rc_inv_def)

theorem reconstructor_sound_witness:
  "rc_book (fold rc_step [Msg_snapshot demo_snapshot, Msg_uncertain ''t'' 200 ''gap'' None] make_reconstructor) ''t''
     = Some (demo_book\<lparr>ob_valid := False\<rparr>)
   \<and> reachable_book (demo_book\<lparr>ob_valid := False\<rparr>)"
proof -
  have tok: "bs_token_id demo_snapshot = ''t''" "bs_condition_id demo_snapshot = ''m''"
    "bs_outcome demo_snapshot = ''Up''" by (simp_all add: demo_snapshot_def)
  have "rc_books (fold rc_step [Msg_snapshot demo_snapshot, Msg_uncertain ''t'' 200 ''gap'' None] make_reconstructor)
      = [(''t'', demo_book\<lparr>ob_valid := False\<rparr>)]"
    by (simp add: demo_replace apply_snapshot_def resolve_tick_def make_reconstructor_def register_token_def
        rc_book_def mark_uncertain_def Let_def tok)
  with reconstructor_sound [of "[Msg_snapshot demo_snapshot, Msg_uncertain ''t'' 200 ''gap'' None]"]
  show ?thesis by (simp add: rc_book_def)
qed

text \<open>
  C26. Once a token is marked uncertain its book stays unusable until a snapshot of that token:
  every run of messages without one leaves the token invalid, and a level change for it raises
  and leaves the state as it is.
\<close>

theorem uncertain_until_snapshot:
  assumes "\<forall>m \<in> set ms. \<not> snapshot_of t m" "r' = fold rc_step ms (mark_uncertain t now why sq r)"
  shows "\<not> rc_valid r' t
    \<and> (\<forall>c. bc_token_id c = t \<longrightarrow>
         apply_change c r' = (r', Inl (ValueError ''cannot apply update without valid snapshot'')))"
proof -
  have "\<not> rc_valid (mark_uncertain t now why sq r) t"
    by (auto simp: mark_uncertain_def rc_valid_def rc_book_def split: option.splits)
  from invalid_run [OF this assms(1)] have "\<not> rc_valid r' t" using assms(2) by simp
  then show ?thesis
    by (auto simp: apply_change_def rc_valid_def split: option.splits)
qed

definition demo_reconstructor :: reconstructor where
  "demo_reconstructor =
     \<lparr>rc_books = [(''t'', demo_book)], rc_uncertainty = [], rc_effective_tick_sizes = [''t'' \<mapsto> 10000]\<rparr>"

theorem uncertain_until_snapshot_witness:
  "rc_valid demo_reconstructor ''t''
   \<and> \<not> rc_valid (fold rc_step [Msg_change demo_change] (mark_uncertain ''t'' 200 ''gap'' None demo_reconstructor)) ''t''"
proof -
  have "\<forall>m \<in> set [Msg_change demo_change]. \<not> snapshot_of ''t'' m" by (simp add: snapshot_of_def)
  from uncertain_until_snapshot [OF this refl] show ?thesis
    by (simp add: rc_valid_def rc_book_def demo_reconstructor_def demo_book_def)
qed

text \<open>
  A snapshot older than the book's last sequence is ignored by the book (its levels, its
  validity and every other book stay as they are), and still the reconstructor closes the
  newest open uncertainty interval of the token and lets a REST snapshot overwrite the
  effective tick size.  So an interval can be reported as ended while the book is invalid.
\<close>

theorem stale_snapshot_effects:
  assumes "rc_book r (bs_token_id s) = Some b" "ob_token_id b = bs_token_id s"
    and "ob_condition_id b = bs_condition_id s" "ob_outcome b = bs_outcome s"
    and "bs_sequence s < ob_last_sequence b"
  shows "(\<forall>t. rc_book (fst (apply_snapshot s r)) t = rc_book r t)
    \<and> snd (apply_snapshot s r) = Inr (ob_top b)
    \<and> rc_uncertainty (fst (apply_snapshot s r)) = close_newest_open s (rc_uncertainty r)
    \<and> (bs_source s = ''clob_rest'' \<longrightarrow>
         rc_effective_tick_sizes (fst (apply_snapshot s r)) (bs_token_id s) = Some (bs_tick_size s))"
proof -
  obtain s' r1 where res: "resolve_tick s r = (s', r1)" by (meson surj_pair)
  note frame = resolve_tick_frame [OF res]
  have reg: "register_token (bs_condition_id s') (bs_token_id s') (bs_outcome s') r1 = (r1, Inr b)"
    using assms frame by (simp add: register_token_def rc_book_def)
  have rep: "ob_replace s' b = (b, Inr False)"
    using assms frame by (simp add: ob_replace_def)
  have eff: "apply_snapshot s r = (r1\<lparr>rc_books := dict_put (bs_token_id s') b (rc_books r1),
      rc_uncertainty := close_newest_open s' (rc_uncertainty r1)\<rparr>, Inr (ob_top b))"
    by (simp add: apply_snapshot_def res reg rep)
  have tick: "bs_source s = ''clob_rest'' \<Longrightarrow> rc_effective_tick_sizes r1 (bs_token_id s) = Some (bs_tick_size s)"
    using res by (auto simp: resolve_tick_def split: option.splits)
  show ?thesis
    using frame assms(1) tick by (auto simp: eff rc_book_def close_newest_open_def)
qed

theorem stale_snapshot_effects_witness:
  "let r = mark_uncertain ''t'' 200 ''gap'' None demo_reconstructor;
       r' = fst (apply_snapshot (demo_snapshot\<lparr>bs_sequence := 6, bs_received_utc_ns := 210\<rparr>) r)
   in \<not> rc_valid r' ''t'' \<and> map ui_end_utc_ns (rc_uncertainty r') = [Some 210]"
proof -
  let ?r = "mark_uncertain ''t'' 200 ''gap'' None demo_reconstructor"
  let ?s = "demo_snapshot\<lparr>bs_sequence := 6, bs_received_utc_ns := 210\<rparr>"
  have book: "rc_book ?r (bs_token_id ?s) = Some (demo_book\<lparr>ob_valid := False\<rparr>)"
    by (simp add: mark_uncertain_def rc_book_def demo_reconstructor_def demo_snapshot_def)
  have "(\<forall>t. rc_book (fst (apply_snapshot ?s ?r)) t = rc_book ?r t)
    \<and> rc_uncertainty (fst (apply_snapshot ?s ?r)) = close_newest_open ?s (rc_uncertainty ?r)"
    using stale_snapshot_effects [OF book] by (simp add: demo_book_def demo_snapshot_def)
  with book show ?thesis
    by (simp add: rc_valid_def Let_def demo_snapshot_def close_newest_open_def mark_uncertain_def
        demo_reconstructor_def)
qed

end
