(* ===== verification/Fees.thy ===== *)
theory Fees
  imports Numerics
begin

text \<open>
  \<^verbatim>\<open>backtest/fees.py\<close>, \<^verbatim>\<open>backtest/latency.py\<close> and the \<open>notional_scaled\<close> helper that
  \<^verbatim>\<open>backtest/execution.py\<close> and \<^verbatim>\<open>backtest/realism.py\<close> share.  The Decimal computations are
  written over one exact quotient.  Python evaluates them with 28 significant digits; the
  intermediate coefficients stay below \<open>10 ^ 28\<close> for the sizes the code handles, where the
  two agree.  The random generator behind the latency models is a parameter.
\<close>

section \<open>Notional value\<close>

definition notional_scaled :: "int \<Rightarrow> int \<Rightarrow> int" where
  "notional_scaled size_scaled price_scaled =
     round_half_up (size_scaled * price_scaled) POLYMARKET_PRICE_SCALE"

lemma notional_nonneg: "0 \<le> s \<Longrightarrow> 0 \<le> p \<Longrightarrow> 0 \<le> notional_scaled s p"
  by (simp add: notional_scaled_def round_half_up_nonneg)

lemma notional_mono_size: "s \<le> s' \<Longrightarrow> 0 \<le> p \<Longrightarrow> notional_scaled s p \<le> notional_scaled s' p"
  by (simp add: notional_scaled_def round_half_up_mono mult_right_mono)

lemma notional_mono_price: "p \<le> p' \<Longrightarrow> 0 \<le> s \<Longrightarrow> notional_scaled s p \<le> notional_scaled s p'"
  by (simp add: notional_scaled_def round_half_up_mono mult_left_mono)

lemma notional_zero [simp]: "notional_scaled 0 p = 0" "notional_scaled s 0 = 0"
  by (simp_all add: notional_scaled_def)

text \<open>A share never costs more than one unit of collateral.\<close>

lemma notional_le_size: "0 \<le> s \<Longrightarrow> p \<le> POLYMARKET_PRICE_SCALE \<Longrightarrow> notional_scaled s p \<le> s"
  unfolding notional_scaled_def
  by (rule round_half_up_le) (auto intro: mult_left_mono)

section \<open>The fee model\<close>

datatype liquidity_role = Taker | Maker

datatype fee_formula = Shares_rate_p_one_minus_p | Zero_fee

text \<open>\<^verbatim>\<open>Decimal(text)\<close> of a configured decimal: \<open>dec_num / 10 ^ dec_places\<close>.\<close>

record dec_literal =
  dec_num :: int
  dec_places :: nat

text \<open>
  \<^verbatim>\<open>decimal_to_scaled\<close> of \<^verbatim>\<open>clock.py\<close> on a finite decimal: exact or refused.  Its
  \<^verbatim>\<open>PrecisionError\<close> is a \<^verbatim>\<open>ValueError\<close>.
\<close>

definition decimal_to_scaled :: "dec_literal \<Rightarrow> int \<Rightarrow> py_error + int" where
  "decimal_to_scaled d scale =
     (if dec_num d * scale mod 10 ^ dec_places d = 0
      then Inr (dec_num d * scale div 10 ^ dec_places d)
      else Inl (ValueError ''value exceeds supported precision for scale''))"

definition multiply_scaled :: "int \<Rightarrow> int \<Rightarrow> int \<Rightarrow> py_error + int" where
  "multiply_scaled left right right_scale =
     (if right_scale = 0 then Inl ZeroDivisionError
      else if left * right mod right_scale \<noteq> 0
      then Inl (ValueError ''fixed-scale multiplication exceeds output precision'')
      else Inr (left * right div right_scale))"

record fee_config =
  fc_liquidity_role :: liquidity_role
  fc_formula :: fee_formula
  fc_rate :: dec_literal
  fc_exponent :: nat
  fc_minimum_fee :: dec_literal
  fc_rounding :: rounding_mode

definition minimum_scaled :: "fee_config \<Rightarrow> int" where
  "minimum_scaled cfg =
     quantize_div (fc_rounding cfg) (dec_num (fc_minimum_fee cfg) * USDC_SCALE)
       (10 ^ dec_places (fc_minimum_fee cfg))"

text \<open>
  \<open>raw_scaled = shares * rate * (p * (1 - p)) ^ exponent * USDC_SCALE\<close> with shares and price at
  their fixed scales, as one quotient \<open>fee_num / fee_den\<close>.
\<close>

definition fee_num :: "fee_config \<Rightarrow> int \<Rightarrow> int \<Rightarrow> int" where
  "fee_num cfg shares_scaled price_scaled =
     shares_scaled * dec_num (fc_rate cfg)
       * (price_scaled * (POLYMARKET_PRICE_SCALE - price_scaled)) ^ fc_exponent cfg"

definition fee_den :: "fee_config \<Rightarrow> int" where
  "fee_den cfg =
     10 ^ dec_places (fc_rate cfg) * (POLYMARKET_PRICE_SCALE * POLYMARKET_PRICE_SCALE) ^ fc_exponent cfg"

definition calculate_fee :: "fee_config \<Rightarrow> int \<Rightarrow> int \<Rightarrow> int" where
  "calculate_fee cfg shares_scaled price_scaled =
     (if fc_formula cfg = Zero_fee \<or> fc_liquidity_role cfg = Maker then 0
      else
        let raw = fee_num cfg shares_scaled price_scaled;
            fee = quantize_div (fc_rounding cfg) raw (fee_den cfg)
        in if 0 < raw then max fee (minimum_scaled cfg) else 0)"

text \<open>A schedule as the code configures it: a non-negative rate and minimum.\<close>

definition fee_config_ok :: "fee_config \<Rightarrow> bool" where
  "fee_config_ok cfg \<longleftrightarrow> 0 \<le> dec_num (fc_rate cfg) \<and> 0 \<le> dec_num (fc_minimum_fee cfg)"

lemma fee_den_pos: "0 < fee_den cfg"
  by (simp add: fee_den_def)

lemma minimum_scaled_nonneg: "fee_config_ok cfg \<Longrightarrow> 0 \<le> minimum_scaled cfg"
  by (simp add: minimum_scaled_def fee_config_ok_def quantize_div_nonneg)

lemma fee_nonneg: "fee_config_ok cfg \<Longrightarrow> 0 \<le> calculate_fee cfg s p"
  using minimum_scaled_nonneg [of cfg]
  by (auto simp: calculate_fee_def Let_def le_max_iff_disj)

lemma curve_nonneg:
  "0 \<le> p \<Longrightarrow> p \<le> POLYMARKET_PRICE_SCALE \<Longrightarrow> 0 \<le> p * (POLYMARKET_PRICE_SCALE - p)"
  by simp

lemma fee_num_mono:
  assumes "fee_config_ok cfg" "0 \<le> p" "p \<le> POLYMARKET_PRICE_SCALE" "s \<le> s'"
  shows "fee_num cfg s p \<le> fee_num cfg s' p"
  unfolding fee_num_def
  by (intro mult_right_mono) (use assms in \<open>auto simp: fee_config_ok_def\<close>)

lemma fee_mono:
  assumes "fee_config_ok cfg" "0 \<le> p" "p \<le> POLYMARKET_PRICE_SCALE" "s \<le> s'"
  shows "calculate_fee cfg s p \<le> calculate_fee cfg s' p"
proof (cases "0 < fee_num cfg s p")
  case True
  note num = fee_num_mono [OF assms]
  have "quantize_div (fc_rounding cfg) (fee_num cfg s p) (fee_den cfg)
      \<le> quantize_div (fc_rounding cfg) (fee_num cfg s' p) (fee_den cfg)"
    using num by (rule quantize_div_mono [OF fee_den_pos])
  with True num show ?thesis by (auto simp: calculate_fee_def Let_def)
next
  case False
  with fee_nonneg [OF assms(1), of s' p] show ?thesis
    by (auto simp: calculate_fee_def Let_def)
qed

text \<open>The all-in cost of a buy, which the affordability searches compare with a budget.\<close>

definition buy_cost :: "fee_config \<Rightarrow> int \<Rightarrow> int \<Rightarrow> int" where
  "buy_cost cfg s p = notional_scaled s p + calculate_fee cfg s p"

lemma buy_cost_mono:
  assumes "fee_config_ok cfg" "0 \<le> p" "p \<le> POLYMARKET_PRICE_SCALE" "s \<le> s'"
  shows "buy_cost cfg s p \<le> buy_cost cfg s' p"
  using notional_mono_size [OF assms(4,2)] fee_mono [OF assms] by (simp add: buy_cost_def)

lemma buy_cost_zero [simp]: "buy_cost cfg 0 p = 0"
  by (simp add: buy_cost_def calculate_fee_def fee_num_def)

lemma buy_cost_nonneg: "fee_config_ok cfg \<Longrightarrow> 0 \<le> s \<Longrightarrow> 0 \<le> p \<Longrightarrow> 0 \<le> buy_cost cfg s p"
  by (simp add: buy_cost_def fee_nonneg notional_nonneg)

text \<open>The schedule \<^verbatim>\<open>DEFAULT_FEE\<close> of \<^verbatim>\<open>realism.py\<close>: rate 0.07, exponent 1, minimum 0.000001.\<close>

definition DEFAULT_FEE :: fee_config where
  "DEFAULT_FEE =
     \<lparr>fc_liquidity_role = Taker, fc_formula = Shares_rate_p_one_minus_p,
      fc_rate = \<lparr>dec_num = 7, dec_places = 2\<rparr>, fc_exponent = 1,
      fc_minimum_fee = \<lparr>dec_num = 1, dec_places = 6\<rparr>, fc_rounding = Half_up\<rparr>"

lemma DEFAULT_FEE_ok [simp]: "fee_config_ok DEFAULT_FEE"
  by (simp add: fee_config_ok_def DEFAULT_FEE_def)

lemma calculate_DEFAULT_FEE:
  "calculate_fee DEFAULT_FEE s p =
     (let raw = s * 7 * (p * (1000000 - p))
      in if 0 < raw then max (round_half_up raw 100000000000000) 1 else 0)"
  by (simp add: calculate_fee_def DEFAULT_FEE_def fee_num_def fee_den_def minimum_scaled_def
      round_half_up_def Let_def)

section \<open>Latency\<close>

datatype latency_kind = Latency_constant | Latency_empirical | Latency_lognormal | Latency_disabled

record latency_config =
  lc_model :: latency_kind
  lc_constant_ms :: int
  lc_samples_ms :: "int list"
  lc_lognormal_mu :: pyfloat
  lc_lognormal_sigma :: pyfloat

text \<open>
  The seeded generator, as the two draws the code makes: \<^verbatim>\<open>random.choice(samples)\<close> and
  \<^verbatim>\<open>math.exp(random.normalvariate(mu, sigma))\<close>, each with the state it leaves.
\<close>

record 'r rng =
  rng_choice :: "int list \<Rightarrow> 'r \<Rightarrow> int \<times> 'r"
  rng_lognormal :: "pyfloat \<Rightarrow> pyfloat \<Rightarrow> 'r \<Rightarrow> pyfloat \<times> 'r"

definition ms_to_ns :: "pyfloat \<Rightarrow> int" where
  "ms_to_ns milliseconds = max 0 (fl_trunc (fl_mult milliseconds (fl_of_int 1000000)))"

definition sample_ns :: "'r rng \<Rightarrow> latency_config \<Rightarrow> 'r \<Rightarrow> (py_error + int) \<times> 'r" where
  "sample_ns g cfg r =
     (case lc_model cfg of
        Latency_disabled \<Rightarrow> (Inr (ms_to_ns (fl_of_int 0)), r)
      | Latency_constant \<Rightarrow> (Inr (ms_to_ns (fl_of_int (lc_constant_ms cfg))), r)
      | Latency_empirical \<Rightarrow>
          (if lc_samples_ms cfg = []
           then (Inl (ValueError ''empirical latency requires samples_ms''), r)
           else let (ms, r') = rng_choice g (lc_samples_ms cfg) r
                in (Inr (ms_to_ns (fl_of_int ms)), r'))
      | Latency_lognormal \<Rightarrow>
          let (ms, r') = rng_lognormal g (lc_lognormal_mu cfg) (lc_lognormal_sigma cfg) r
          in (Inr (ms_to_ns ms), r'))"

definition schedule_arrival :: "'r rng \<Rightarrow> latency_config \<Rightarrow> int \<Rightarrow> 'r \<Rightarrow> (py_error + int) \<times> 'r" where
  "schedule_arrival g cfg decision_timestamp_ns r =
     (case sample_ns g cfg r of
        (Inl e, r') \<Rightarrow> (Inl e, r')
      | (Inr ns, r') \<Rightarrow> (Inr (decision_timestamp_ns + ns), r'))"

lemma ms_to_ns_nonneg: "0 \<le> ms_to_ns x"
  by (simp add: ms_to_ns_def)

lemma sample_ns_nonneg: "sample_ns g cfg r = (Inr ns, r') \<Longrightarrow> 0 \<le> ns"
  by (auto simp: sample_ns_def ms_to_ns_nonneg Let_def
      split: latency_kind.splits if_splits prod.splits)

lemma schedule_arrival_not_before: "schedule_arrival g cfg t r = (Inr a, r') \<Longrightarrow> t \<le> a"
  by (auto simp: schedule_arrival_def dest: sample_ns_nonneg split: prod.splits sum.splits)

lemma ms_to_ns_int: "0 \<le> n \<Longrightarrow> n \<le> 1000000000 \<Longrightarrow> ms_to_ns (fl_of_int n) = n * 1000000"
  unfolding ms_to_ns_def by (subst fl_trunc_mult_int) (simp_all add: abs_mult)

end
