(* ===== verification/Portfolio.thy ===== *)
theory Portfolio
  imports Fees Orders
begin

text \<open>
  \<^verbatim>\<open>backtest/portfolio.py\<close> and \<^verbatim>\<open>backtest/settlement.py\<close>: cash, positions and realised profit of
  the event-driven engine.  \<^verbatim>\<open>apply_fill\<close> creates the position before it can raise, so it
  returns the portfolio beside its result.
\<close>

section \<open>State\<close>

record position =
  pos_condition_id :: string
  pos_outcome :: string
  pos_shares :: int
  pos_cost_basis :: int

datatype portfolio_event_type = Fill_event | Settlement_event

record portfolio_event =
  pe_timestamp_ns :: int
  pe_event_type :: portfolio_event_type
  pe_token_id :: string
  pe_cash :: int
  pe_inventory :: int
  pe_realized_pnl :: int
  pe_fees :: int

record portfolio =
  pf_starting_cash :: int
  pf_available_cash :: int
  pf_reserved_cash :: int
  pf_allow_negative_cash :: bool
  pf_allow_short_positions :: bool
  pf_positions :: "(string \<times> position) list"
  pf_realized_pnl :: int
  pf_unrealized_pnl :: int
  pf_fees_paid :: int
  pf_settlement_receivable :: int
  pf_settled_cash :: int
  pf_events :: "portfolio_event list"

definition average_cost_price :: "position \<Rightarrow> int option" where
  "average_cost_price p =
     (if pos_shares p = 0 then None else Some (pos_cost_basis p * 1000000 div pos_shares p))"

definition make_portfolio :: "int \<Rightarrow> bool \<Rightarrow> bool \<Rightarrow> portfolio" where
  "make_portfolio starting_cash allow_negative_cash allow_short_positions =
     \<lparr>pf_starting_cash = starting_cash, pf_available_cash = starting_cash, pf_reserved_cash = 0,
      pf_allow_negative_cash = allow_negative_cash,
      pf_allow_short_positions = allow_short_positions, pf_positions = [],
      pf_realized_pnl = 0, pf_unrealized_pnl = 0, pf_fees_paid = 0,
      pf_settlement_receivable = 0, pf_settled_cash = 0, pf_events = []\<rparr>"

definition inventory :: "portfolio \<Rightarrow> string \<Rightarrow> int" where
  "inventory pf token_id =
     (case map_of (pf_positions pf) token_id of None \<Rightarrow> 0 | Some p \<Rightarrow> pos_shares p)"

section \<open>Fills\<close>

text \<open>\<^verbatim>\<open>positions.setdefault\<close>.\<close>

definition open_position :: "simulated_fill \<Rightarrow> string \<Rightarrow> portfolio \<Rightarrow> portfolio \<times> position" where
  "open_position f outcome pf =
     (case map_of (pf_positions pf) (sf_token_id f) of
        Some p \<Rightarrow> (pf, p)
      | None \<Rightarrow>
          let p = \<lparr>pos_condition_id = sf_condition_id f, pos_outcome = outcome,
                   pos_shares = 0, pos_cost_basis = 0\<rparr>
          in (pf\<lparr>pf_positions := dict_put (sf_token_id f) p (pf_positions pf)\<rparr>, p))"

text \<open>The fee and the event that end both branches.\<close>

definition record_fill :: "simulated_fill \<Rightarrow> position \<Rightarrow> portfolio \<Rightarrow> portfolio" where
  "record_fill f p pf =
     (let fees = pf_fees_paid pf + sf_fee f
      in pf\<lparr>pf_positions := dict_put (sf_token_id f) p (pf_positions pf),
            pf_fees_paid := fees,
            pf_events := pf_events pf @
              [\<lparr>pe_timestamp_ns = sf_fill_time_ns f, pe_event_type = Fill_event,
                pe_token_id = sf_token_id f, pe_cash = pf_available_cash pf,
                pe_inventory = pos_shares p, pe_realized_pnl = pf_realized_pnl pf,
                pe_fees = fees\<rparr>]\<rparr>)"

definition removed_cost :: "position \<Rightarrow> int \<Rightarrow> int" where
  "removed_cost p sz =
     (if pos_shares p \<noteq> 0 then pos_cost_basis p * sz div pos_shares p else 0)"

definition apply_fill :: "simulated_fill \<Rightarrow> string \<Rightarrow> portfolio \<Rightarrow> portfolio \<times> (py_error + unit)" where
  "apply_fill f outcome pf =
     (let (pf1, p) = open_position f outcome pf
      in if sf_side f = BUY then
           (let debit = sf_notional f + sf_fee f
            in if \<not> pf_allow_negative_cash pf1 \<and> pf_available_cash pf1 < debit
               then (pf1, Inl (ValueError ''insufficient available cash''))
               else (record_fill f
                       (p\<lparr>pos_shares := pos_shares p + sf_size f,
                          pos_cost_basis := pos_cost_basis p + sf_notional f\<rparr>)
                       (pf1\<lparr>pf_available_cash := pf_available_cash pf1 - debit\<rparr>), Inr ()))
         else if \<not> pf_allow_short_positions pf1 \<and> pos_shares p < sf_size f
         then (pf1, Inl (ValueError ''insufficient inventory''))
         else
           (let removed = removed_cost p (sf_size f);
                net_proceeds = sf_notional f - sf_fee f
            in (record_fill f
                  (p\<lparr>pos_shares := pos_shares p - sf_size f,
                     pos_cost_basis := pos_cost_basis p - removed\<rparr>)
                  (pf1\<lparr>pf_available_cash := pf_available_cash pf1 + net_proceeds,
                       pf_realized_pnl := pf_realized_pnl pf1 + net_proceeds - removed\<rparr>), Inr ())))"

section \<open>Settlement and marking\<close>

text \<open>The settlement loop: payout, change of realised profit, and the positions it leaves.\<close>

fun settle_positions :: "string \<Rightarrow> string \<Rightarrow> (string \<times> position) list
    \<Rightarrow> int \<times> int \<times> (string \<times> position) list" where
  "settle_positions condition_id winner [] = (0, 0, [])"
| "settle_positions condition_id winner ((token_id, p) # ps) =
     (let (payout, pnl, ps') = settle_positions condition_id winner ps
      in if pos_condition_id p \<noteq> condition_id \<or> pos_shares p = 0
         then (payout, pnl, (token_id, p) # ps')
         else
           let token_payout = (if token_id = winner then pos_shares p else 0)
           in (token_payout + payout, token_payout - pos_cost_basis p + pnl,
               (token_id, p\<lparr>pos_shares := 0, pos_cost_basis := 0\<rparr>) # ps'))"

definition settle_market :: "string \<Rightarrow> string \<Rightarrow> int \<Rightarrow> portfolio \<Rightarrow> portfolio \<times> int" where
  "settle_market condition_id winner timestamp_ns pf =
     (let (payout, pnl, ps) = settle_positions condition_id winner (pf_positions pf);
          cash = pf_available_cash pf + payout;
          realized = pf_realized_pnl pf + pnl
      in (pf\<lparr>pf_positions := ps, pf_realized_pnl := realized,
             pf_settlement_receivable := pf_settlement_receivable pf + payout - payout,
             pf_available_cash := cash, pf_settled_cash := pf_settled_cash pf + payout,
             pf_events := pf_events pf @
               [\<lparr>pe_timestamp_ns = timestamp_ns, pe_event_type = Settlement_event,
                 pe_token_id = winner, pe_cash = cash, pe_inventory = 0,
                 pe_realized_pnl = realized, pe_fees = pf_fees_paid pf\<rparr>]\<rparr>, payout))"

text \<open>\<^verbatim>\<open>settle_categorical_market\<close> only renames the arguments.\<close>

definition settle_categorical_market :: "portfolio \<Rightarrow> string \<Rightarrow> string \<Rightarrow> int \<Rightarrow> portfolio \<times> int" where
  "settle_categorical_market pf condition_id winner resolution_available_utc_ns =
     settle_market condition_id winner resolution_available_utc_ns pf"

definition marked_value :: "position \<Rightarrow> int \<Rightarrow> int" where
  "marked_value p price = pos_shares p * price div 1000000"

definition mark_to_market :: "(string \<rightharpoonup> int) \<Rightarrow> portfolio \<Rightarrow> portfolio \<times> int" where
  "mark_to_market prices pf =
     (let unrealized = sum_list (map (\<lambda>(t, p).
            case prices t of None \<Rightarrow> 0 | Some price \<Rightarrow> marked_value p price - pos_cost_basis p)
          (pf_positions pf))
      in (pf\<lparr>pf_unrealized_pnl := unrealized\<rparr>, unrealized))"

definition equity_scaled :: "(string \<rightharpoonup> int) \<Rightarrow> portfolio \<Rightarrow> int" where
  "equity_scaled prices pf =
     pf_available_cash pf
     + sum_list (map (\<lambda>(t, p). case prices t of None \<Rightarrow> 0 | Some price \<Rightarrow> marked_value p price)
         (pf_positions pf))
     + pf_settlement_receivable pf"

definition pf_snapshot :: "int \<Rightarrow> portfolio \<Rightarrow> portfolio_snapshot" where
  "pf_snapshot timestamp_ns pf =
     \<lparr>ps_timestamp_ns = timestamp_ns, ps_available_cash = pf_available_cash pf,
      ps_reserved_cash = pf_reserved_cash pf, ps_realized_pnl = pf_realized_pnl pf,
      ps_unrealized_pnl = pf_unrealized_pnl pf, ps_fees_paid = pf_fees_paid pf,
      ps_settlement_receivable = pf_settlement_receivable pf,
      ps_inventory = map (\<lambda>(t, p). (t, pos_shares p)) (pf_positions pf)\<rparr>"

section \<open>Invariant\<close>

text \<open>
  \<open>total_cost\<close> is the cost basis of all positions.  A long position has non-negative cost, and
  none once it is flat.  \<open>accounts_ok buy_fees\<close> is the accounting identity: cash and cost basis
  are the starting cash plus realised profit less the fees paid on buys, which the code books
  against cash but not against realised profit.
\<close>

definition total_cost :: "(string \<times> position) list \<Rightarrow> int" where
  "total_cost ps = sum_list (map (\<lambda>(_, p). pos_cost_basis p) ps)"

definition position_ok :: "position \<Rightarrow> bool" where
  "position_ok p \<longleftrightarrow> 0 \<le> pos_shares p \<and> 0 \<le> pos_cost_basis p
     \<and> (pos_shares p = 0 \<longrightarrow> pos_cost_basis p = 0)"

definition accounts_ok :: "int \<Rightarrow> portfolio \<Rightarrow> bool" where
  "accounts_ok buy_fees pf \<longleftrightarrow>
     pf_available_cash pf + total_cost (pf_positions pf)
       = pf_starting_cash pf + pf_realized_pnl pf - buy_fees"

definition portfolio_inv :: "int \<Rightarrow> portfolio \<Rightarrow> bool" where
  "portfolio_inv buy_fees pf \<longleftrightarrow> dict_keys_distinct (pf_positions pf)
     \<and> accounts_ok buy_fees pf
     \<and> (\<not> pf_allow_short_positions pf \<longrightarrow> (\<forall>(_, p) \<in> set (pf_positions pf). position_ok p))"

definition fill_ok :: "simulated_fill \<Rightarrow> bool" where
  "fill_ok f \<longleftrightarrow> 0 < sf_size f \<and> 0 \<le> sf_notional f \<and> 0 \<le> sf_fee f"

definition buy_fee :: "simulated_fill \<Rightarrow> int" where
  "buy_fee f = (if sf_side f = BUY then sf_fee f else 0)"

lemma total_cost_put:
  "total_cost (dict_put t p ps)
     = total_cost ps + pos_cost_basis p
       - (case map_of ps t of None \<Rightarrow> 0 | Some q \<Rightarrow> pos_cost_basis q)"
  by (auto simp: total_cost_def sum_dict_put_new sum_dict_put_old split: option.split)

lemma removed_cost_bounds:
  assumes "position_ok p" "0 < sz" "sz \<le> pos_shares p"
  shows "0 \<le> removed_cost p sz" "removed_cost p sz \<le> pos_cost_basis p"
    "sz = pos_shares p \<Longrightarrow> removed_cost p sz = pos_cost_basis p"
proof -
  have pos: "0 < pos_shares p" "0 \<le> pos_cost_basis p" using assms by (auto simp: position_ok_def)
  show "0 \<le> removed_cost p sz"
    using pos assms(2) by (simp add: removed_cost_def pos_imp_zdiv_nonneg_iff)
  have "pos_cost_basis p * sz div pos_shares p \<le> pos_cost_basis p * pos_shares p div pos_shares p"
    using pos assms(3) by (intro zdiv_mono1 mult_left_mono) auto
  then show "removed_cost p sz \<le> pos_cost_basis p"
    using pos by (simp add: removed_cost_def)
  show "sz = pos_shares p \<Longrightarrow> removed_cost p sz = pos_cost_basis p"
    using pos by (simp add: removed_cost_def)
qed

lemma open_position_facts:
  assumes "open_position f u pf = (pf1, p)" "portfolio_inv bf pf"
  shows "portfolio_inv bf pf1 \<and> map_of (pf_positions pf1) (sf_token_id f) = Some p
    \<and> pf_available_cash pf1 = pf_available_cash pf \<and> pf_starting_cash pf1 = pf_starting_cash pf
    \<and> pf_allow_negative_cash pf1 = pf_allow_negative_cash pf
    \<and> pf_allow_short_positions pf1 = pf_allow_short_positions pf
    \<and> pf_realized_pnl pf1 = pf_realized_pnl pf \<and> pos_shares p = inventory pf (sf_token_id f)
    \<and> pf_fees_paid pf1 = pf_fees_paid pf"
  using assms
  by (auto simp: open_position_def Let_def portfolio_inv_def accounts_ok_def total_cost_put
      set_dict_put position_ok_def inventory_def split: option.splits)

lemma record_fill_inv:
  assumes "portfolio_inv bf pf1" "map_of (pf_positions pf1) (sf_token_id f) = Some p"
    and "\<not> pf_allow_short_positions pf1 \<Longrightarrow> position_ok p'"
    and "cash + pos_cost_basis p' + (bf' - bf)
       = pf_available_cash pf1 + pos_cost_basis p + (realized - pf_realized_pnl pf1)"
  shows "portfolio_inv bf'
    (record_fill f p' (pf1\<lparr>pf_available_cash := cash, pf_realized_pnl := realized\<rparr>))"
  using assms
  by (auto simp: record_fill_def Let_def portfolio_inv_def accounts_ok_def total_cost_put set_dict_put)

lemma portfolio_inv_fill:
  assumes inv: "portfolio_inv bf pf" and ok: "fill_ok f" and run: "apply_fill f u pf = (pf', Inr ())"
  shows "portfolio_inv (bf + buy_fee f) pf'"
proof -
  obtain pf1 p where op: "open_position f u pf = (pf1, p)" by (meson surj_pair)
  note facts = open_position_facts [OF op inv]
  have pok: "\<not> pf_allow_short_positions pf1 \<Longrightarrow> position_ok p"
    using facts by (auto simp: portfolio_inv_def dest: map_of_SomeD)
  show ?thesis
  proof (cases "sf_side f")
    case BUY
    let ?p = "p\<lparr>pos_shares := pos_shares p + sf_size f,
                pos_cost_basis := pos_cost_basis p + sf_notional f\<rparr>"
    have "portfolio_inv (bf + buy_fee f) (record_fill f ?p
        (pf1\<lparr>pf_available_cash := pf_available_cash pf1 - (sf_notional f + sf_fee f),
             pf_realized_pnl := pf_realized_pnl pf1\<rparr>))"
      by (rule record_fill_inv [of bf _ _ p])
        (use facts pok ok BUY in \<open>auto simp: position_ok_def fill_ok_def buy_fee_def\<close>)
    with run op BUY show ?thesis by (auto simp: apply_fill_def Let_def split: if_splits)
  next
    case SELL
    let ?r = "removed_cost p (sf_size f)" and ?n = "sf_notional f - sf_fee f"
    let ?p = "p\<lparr>pos_shares := pos_shares p - sf_size f, pos_cost_basis := pos_cost_basis p - ?r\<rparr>"
    have enough: "\<not> pf_allow_short_positions pf1 \<Longrightarrow> sf_size f \<le> pos_shares p"
      using run op SELL by (auto simp: apply_fill_def Let_def split: if_splits)
    have "position_ok ?p" if "\<not> pf_allow_short_positions pf1"
      using removed_cost_bounds [OF pok [OF that], of "sf_size f"] enough [OF that] ok
      by (auto simp: position_ok_def fill_ok_def)
    then have "portfolio_inv (bf + buy_fee f) (record_fill f ?p
        (pf1\<lparr>pf_available_cash := pf_available_cash pf1 + ?n,
             pf_realized_pnl := pf_realized_pnl pf1 + ?n - ?r\<rparr>))"
      by (intro record_fill_inv [of bf _ _ p]) (use facts SELL in \<open>auto simp: buy_fee_def\<close>)
    with run op SELL show ?thesis by (auto simp: apply_fill_def Let_def split: if_splits)
  qed
qed

lemma portfolio_inv_refused:
  "portfolio_inv bf pf \<Longrightarrow> apply_fill f u pf = (pf', Inl e) \<Longrightarrow> portfolio_inv bf pf'"
  using open_position_facts [of f u pf _ _ bf]
  by (auto simp: apply_fill_def Let_def split: prod.splits if_splits)

lemma settle_positions_spec:
  "settle_positions cond win ps = (payout, pnl, ps') \<Longrightarrow>
     payout = sum_list (map (\<lambda>(t, p). if pos_condition_id p = cond \<and> t = win then pos_shares p else 0) ps)
     \<and> pnl = payout - (total_cost ps - total_cost ps')
     \<and> ps' = map (\<lambda>(t, p). (t, if pos_condition_id p \<noteq> cond \<or> pos_shares p = 0 then p
            else p\<lparr>pos_shares := 0, pos_cost_basis := 0\<rparr>)) ps"
proof (induction ps arbitrary: payout pnl ps')
  case (Cons q qs)
  obtain t p where q: "q = (t, p)" by (meson surj_pair)
  obtain y l r where rest: "settle_positions cond win qs = (y, l, r)" by (metis prod_cases3)
  from Cons.IH [OF rest] Cons.prems rest q show ?case
    by (auto simp: Let_def total_cost_def split: if_splits)
qed (simp add: total_cost_def)

lemma keys_settle: "settle_positions cond win ps = (y, l, ps') \<Longrightarrow> map fst ps' = map fst ps"
  using settle_positions_spec [of cond win ps y l ps'] by (auto simp: comp_def split_beta)

lemma portfolio_inv_settle:
  assumes "portfolio_inv bf pf"
  shows "portfolio_inv bf (fst (settle_market cond win t pf))"
proof -
  obtain y l ps where s: "settle_positions cond win (pf_positions pf) = (y, l, ps)"
    by (metis prod_cases3)
  note spec = settle_positions_spec [OF s]
  have ok: "position_ok p" if "\<not> pf_allow_short_positions pf" "(k, p) \<in> set ps" for k p
    using that assms spec by (fastforce simp: portfolio_inv_def position_ok_def split: if_splits)
  have keys: "dict_keys_distinct ps"
    using assms keys_settle [OF s] by (simp add: portfolio_inv_def dict_keys_distinct_def)
  have pnl: "l = y - (total_cost (pf_positions pf) - total_cost ps)"
    using spec by blast
  have "portfolio_inv bf (pf\<lparr>pf_positions := ps, pf_available_cash := pf_available_cash pf + y,
      pf_realized_pnl := pf_realized_pnl pf + l\<rparr>)"
    using assms keys ok pnl by (auto simp: portfolio_inv_def accounts_ok_def)
  then show ?thesis
    by (simp add: settle_market_def s Let_def portfolio_inv_def accounts_ok_def)
qed

lemma sum_list_flat: "\<forall>(t, p) \<in> set qs. P t p \<longrightarrow> f p = (0 :: int) \<Longrightarrow>
  sum_list (map (\<lambda>(t, p). if P t p then f p else 0) qs) = 0"
  by (induction qs) auto

lemma sum_list_one_key:
  assumes "dict_keys_distinct qs"
  shows "sum_list (map (\<lambda>(t, p). if P p \<and> t = w then f p else (0 :: int)) qs)
    = (case map_of qs w of None \<Rightarrow> 0 | Some p \<Rightarrow> if P p then f p else 0)"
  using assms
proof (induction qs)
  case (Cons q qs)
  obtain t p where q: "q = (t, p)" by (meson surj_pair)
  have "sum_list (map (\<lambda>(t, p). if P p \<and> t = w then f p else 0) qs) = 0" if "t = w"
    using Cons.prems that q by (intro sum_list_flat) force
  with Cons q show ?case by auto
qed simp

lemma portfolio_inv_mark: "portfolio_inv bf pf \<Longrightarrow> portfolio_inv bf (fst (mark_to_market prices pf))"
  by (simp add: mark_to_market_def Let_def portfolio_inv_def accounts_ok_def)

lemma portfolio_inv_make: "portfolio_inv 0 (make_portfolio cash neg short)"
  by (simp add: portfolio_inv_def accounts_ok_def make_portfolio_def total_cost_def)

text \<open>Portfolios a run can reach; the index is the total of the fees paid on buys.\<close>

inductive reachable_portfolio :: "portfolio \<Rightarrow> int \<Rightarrow> bool" where
  start: "reachable_portfolio (make_portfolio cash neg short) 0"
| filled: "reachable_portfolio pf bf \<Longrightarrow> fill_ok f \<Longrightarrow> apply_fill f u pf = (pf', Inr ())
    \<Longrightarrow> reachable_portfolio pf' (bf + buy_fee f)"
| refused: "reachable_portfolio pf bf \<Longrightarrow> apply_fill f u pf = (pf', Inl e)
    \<Longrightarrow> reachable_portfolio pf' bf"
| settled: "reachable_portfolio pf bf \<Longrightarrow> reachable_portfolio (fst (settle_market c w t pf)) bf"
| marked: "reachable_portfolio pf bf \<Longrightarrow> reachable_portfolio (fst (mark_to_market prices pf)) bf"

lemma reachable_portfolio_inv: "reachable_portfolio pf bf \<Longrightarrow> portfolio_inv bf pf"
  by (induction rule: reachable_portfolio.induct)
    (auto intro: portfolio_inv_make portfolio_inv_fill portfolio_inv_refused portfolio_inv_settle
      portfolio_inv_mark)

section \<open>Properties\<close>

text \<open>
  C27. The books balance.  On every portfolio reachable by fills (of positive size and
  non-negative notional and fee), refusals, settlements and markings: available cash plus the
  cost basis of all positions equals starting cash plus realised profit less the fees paid on
  buys; and unless short positions are allowed, every position holds a non-negative number of
  shares at a non-negative cost, with no cost left on a flat position.
\<close>

theorem portfolio_accounts_balance:
  assumes "reachable_portfolio pf buy_fees"
  shows "pf_available_cash pf + total_cost (pf_positions pf)
      = pf_starting_cash pf + pf_realized_pnl pf - buy_fees
    \<and> (\<not> pf_allow_short_positions pf \<longrightarrow>
         (\<forall>(_, p) \<in> set (pf_positions pf). 0 \<le> pos_shares p \<and> 0 \<le> pos_cost_basis p
            \<and> (pos_shares p = 0 \<longrightarrow> pos_cost_basis p = 0)))"
  using reachable_portfolio_inv [OF assms]
  by (auto simp: portfolio_inv_def accounts_ok_def position_ok_def)

definition demo_fill :: simulated_fill where
  "demo_fill =
     \<lparr>sf_fill_id = Uuid5_fill (Given_id ''o'') 1 500000 2000000, sf_order_intent_id = Given_id ''o'',
      sf_condition_id = ''m'', sf_token_id = ''t'', sf_side = BUY, sf_price = 500000,
      sf_size = 2000000, sf_notional = 1000000, sf_fee = 35000, sf_book_event_sequence = 7,
      sf_decision_time_ns = 0, sf_scheduled_arrival_time_ns = 10, sf_fill_time_ns = 10,
      sf_level_rank = 1, sf_liquidity_remaining_after = 0\<rparr>"

definition demo_portfolio :: portfolio where
  "demo_portfolio = fst (apply_fill demo_fill ''Up'' (make_portfolio 5000000 False False))"

lemma demo_portfolio_eq:
  "pf_positions demo_portfolio = [(''t'', \<lparr>pos_condition_id = ''m'', pos_outcome = ''Up'',
      pos_shares = 2000000, pos_cost_basis = 1000000\<rparr>)]"
  "pf_available_cash demo_portfolio = 3965000" "pf_starting_cash demo_portfolio = 5000000"
  "pf_allow_short_positions demo_portfolio = False" "pf_realized_pnl demo_portfolio = 0"
  "pf_settled_cash demo_portfolio = 0" "pf_allow_negative_cash demo_portfolio = False"
  by (simp_all add: demo_portfolio_def apply_fill_def open_position_def make_portfolio_def
      demo_fill_def record_fill_def Let_def)

lemma demo_portfolio_reachable: "reachable_portfolio demo_portfolio 35000"
proof -
  have "apply_fill demo_fill ''Up'' (make_portfolio 5000000 False False) = (demo_portfolio, Inr ())"
    by (simp add: demo_portfolio_def prod_eq_iff)
      (simp add: apply_fill_def open_position_def make_portfolio_def demo_fill_def Let_def)
  from reachable_portfolio.filled [OF reachable_portfolio.start _ this] show ?thesis
    by (simp add: fill_ok_def demo_fill_def buy_fee_def)
qed

theorem portfolio_accounts_balance_witness:
  "pf_available_cash demo_portfolio + total_cost (pf_positions demo_portfolio) = 5000000 - 35000"
  using portfolio_accounts_balance [OF demo_portfolio_reachable] by (simp add: demo_portfolio_eq)

text \<open>
  C28. Settlement pays every winning share once.  The payout of a market is exactly the shares
  held in its winning token, it lands in available and settled cash, every position of the
  market becomes flat, positions of other markets are untouched, the realised profit moves by
  payout less the cost removed, and settling the market again pays nothing.
\<close>

theorem settlement_pays_winners_once:
  assumes "reachable_portfolio pf bf" "settle_categorical_market pf cond win t = (pf', payout)"
  shows "payout = (case map_of (pf_positions pf) win of
        None \<Rightarrow> 0 | Some p \<Rightarrow> if pos_condition_id p = cond then pos_shares p else 0)
    \<and> pf_available_cash pf' = pf_available_cash pf + payout
    \<and> pf_settled_cash pf' = pf_settled_cash pf + payout
    \<and> pf_realized_pnl pf' - pf_realized_pnl pf
        = payout - (total_cost (pf_positions pf) - total_cost (pf_positions pf'))
    \<and> (\<forall>(k, p) \<in> set (pf_positions pf'). pos_condition_id p = cond \<longrightarrow> pos_shares p = 0)
    \<and> (\<forall>(k, p) \<in> set (pf_positions pf). pos_condition_id p \<noteq> cond \<longrightarrow> (k, p) \<in> set (pf_positions pf'))
    \<and> snd (settle_categorical_market pf' cond win' t') = 0"
proof -
  have inv: "dict_keys_distinct (pf_positions pf)"
    using reachable_portfolio_inv [OF assms(1)] by (simp add: portfolio_inv_def)
  obtain y l ps where s: "settle_positions cond win (pf_positions pf) = (y, l, ps)"
    by (metis prod_cases3)
  note spec = settle_positions_spec [OF s]
  have pf': "pf_positions pf' = ps" "payout = y" "pf_available_cash pf' = pf_available_cash pf + y"
    "pf_settled_cash pf' = pf_settled_cash pf + y" "pf_realized_pnl pf' = pf_realized_pnl pf + l"
    using assms(2) s by (auto simp: settle_categorical_market_def settle_market_def Let_def)
  have flat: "\<forall>(k, p) \<in> set ps. pos_condition_id p = cond \<longrightarrow> pos_shares p = 0"
    using spec by (auto split: if_splits)
  obtain y' l' ps' where s': "settle_positions cond win' ps = (y', l', ps')" by (metis prod_cases3)
  have "y' = 0"
    using settle_positions_spec [OF s'] flat
      sum_list_flat [of ps "\<lambda>t p. pos_condition_id p = cond \<and> t = win'" pos_shares] by auto
  then have again: "snd (settle_categorical_market pf' cond win' t') = 0"
    using s' pf' by (simp add: settle_categorical_market_def settle_market_def Let_def)
  have "y = (case map_of (pf_positions pf) win of
        None \<Rightarrow> 0 | Some p \<Rightarrow> if pos_condition_id p = cond then pos_shares p else 0)"
    using spec sum_list_one_key [OF inv, of "\<lambda>p. pos_condition_id p = cond" win pos_shares] by simp
  moreover have "(k, p) \<in> set ps" if "(k, p) \<in> set (pf_positions pf)" "pos_condition_id p \<noteq> cond" for k p
    using spec that by force
  moreover have "l = y - (total_cost (pf_positions pf) - total_cost ps)"
    using spec by blast
  ultimately show ?thesis using pf' flat again by auto
qed

theorem settlement_pays_winners_once_witness:
  "snd (settle_categorical_market demo_portfolio ''m'' ''t'' 99) = 2000000
   \<and> pf_realized_pnl (fst (settle_categorical_market demo_portfolio ''m'' ''t'' 99)) = 1000000"
proof -
  note st = settlement_pays_winners_once [OF demo_portfolio_reachable,
      of "''m''" "''t''" 99 "fst (settle_categorical_market demo_portfolio ''m'' ''t'' 99)"
        "snd (settle_categorical_market demo_portfolio ''m'' ''t'' 99)"]
  have "pf_positions (fst (settle_categorical_market demo_portfolio ''m'' ''t'' 99))
      = [(''t'', \<lparr>pos_condition_id = ''m'', pos_outcome = ''Up'', pos_shares = 0, pos_cost_basis = 0\<rparr>)]"
    by (simp add: settle_categorical_market_def settle_market_def demo_portfolio_eq Let_def)
  with st show ?thesis
    by (simp add: demo_portfolio_eq total_cost_def)
qed

text \<open>
  What \<open>apply_fill\<close> does to cash.  Without the permission to go negative a buy never takes
  more than the available cash; a sell adds its net proceeds, so from a non-negative balance
  the cash becomes negative exactly when a sell's fee exceeds its notional by more than the
  balance.  The guard on sells looks at inventory only: a dust sell can overdraw the account.
\<close>

theorem apply_fill_cash:
  assumes "apply_fill f u pf = (pf', Inr ())" "\<not> pf_allow_negative_cash pf" "0 \<le> pf_available_cash pf"
  shows "pf_available_cash pf' = pf_available_cash pf
      + (if sf_side f = BUY then - (sf_notional f + sf_fee f) else sf_notional f - sf_fee f)
    \<and> (pf_available_cash pf' < 0 \<longleftrightarrow>
         sf_side f = SELL \<and> pf_available_cash pf + sf_notional f < sf_fee f)"
proof -
  obtain pf1 p where op: "open_position f u pf = (pf1, p)" by (meson surj_pair)
  then have "pf_available_cash pf1 = pf_available_cash pf"
    "pf_allow_negative_cash pf1 = pf_allow_negative_cash pf"
    by (auto simp: open_position_def Let_def split: option.splits)
  with assms op show ?thesis
    by (cases "sf_side f") (auto simp: apply_fill_def Let_def record_fill_def split: if_splits)
qed

text \<open>The witness is a sell of one millionth of a share for nothing at the minimum fee.\<close>

theorem apply_fill_cash_witness:
  "let pf = demo_portfolio\<lparr>pf_available_cash := 0\<rparr>;
       f = demo_fill\<lparr>sf_side := SELL, sf_size := 1, sf_price := 1000, sf_notional := 0, sf_fee := 1\<rparr>
   in pf_available_cash (fst (apply_fill f ''Up'' pf)) = -1"
proof -
  let ?pf = "demo_portfolio\<lparr>pf_available_cash := 0\<rparr>"
  let ?f = "demo_fill\<lparr>sf_side := SELL, sf_size := 1, sf_price := 1000, sf_notional := 0, sf_fee := 1\<rparr>"
  have "apply_fill ?f ''Up'' ?pf = (fst (apply_fill ?f ''Up'' ?pf), Inr ())"
    by (simp add: prod_eq_iff)
      (simp add: apply_fill_def open_position_def demo_portfolio_eq demo_fill_def Let_def)
  from apply_fill_cash [OF this] show ?thesis
    by (simp add: demo_portfolio_eq demo_fill_def Let_def)
qed

end
