(* ===== verification/Execution.thy ===== *)
theory Execution
  imports OrderBook Portfolio
begin

text \<open>
  \<^verbatim>\<open>backtest/execution.py\<close>: \<^verbatim>\<open>TakerExecutionSimulator\<close>.  An order sweeps the available depth
  of the opposite side into a plan, the plan is checked against cash or inventory as a whole,
  and only then is it applied fill by fill to the portfolio and to the book's consumption.
\<close>

section \<open>Planning\<close>

record planned_level =
  pl_rank :: nat
  pl_price :: int
  pl_size :: int
  pl_notional :: int
  pl_displayed_after :: int

definition beyond_limit :: "order_intent \<Rightarrow> int \<Rightarrow> bool" where
  "beyond_limit i price =
     (case oi_limit_price i of None \<Rightarrow> False
      | Some l \<Rightarrow> if oi_side i = BUY then l < price else price < l)"

definition desired_size :: "int option \<Rightarrow> int option \<Rightarrow> int \<Rightarrow> int \<Rightarrow> int" where
  "desired_size shares_remaining notional_remaining price displayed =
     (case shares_remaining of
        Some n \<Rightarrow> min n displayed
      | None \<Rightarrow> min displayed (or_zero notional_remaining * SHARE_SIZE_SCALE div max price 1))"

fun plan_levels :: "order_intent \<Rightarrow> nat \<Rightarrow> int option \<Rightarrow> int option \<Rightarrow> (int \<times> int) list
    \<Rightarrow> planned_level list" where
  "plan_levels i rank shares notional [] = []"
| "plan_levels i rank shares notional ((price, displayed) # ls) =
     (let desired = desired_size shares notional price displayed in
      if beyond_limit i price \<or> desired \<le> 0 then []
      else
        let value = notional_scaled desired price;
            shares' = map_option (\<lambda>n. n - desired) shares;
            notional' = map_option (\<lambda>n. max 0 (n - value)) notional
        in \<lparr>pl_rank = rank, pl_price = price, pl_size = desired, pl_notional = value,
             pl_displayed_after = displayed - desired\<rparr>
           # (if shares' = Some 0 \<or> notional' = Some 0 then []
              else plan_levels i (rank + 1) shares' notional' ls))"

definition opposite :: "side \<Rightarrow> side" where
  "opposite s = (if s = BUY then SELL else BUY)"

definition order_plan :: "order_intent \<Rightarrow> order_book \<Rightarrow> planned_level list" where
  "order_plan i b = plan_levels i 1 (oi_requested_shares i) (oi_requested_notional i)
     (available_levels (opposite (oi_side i)) b)"

section \<open>Applying the plan\<close>

definition fill_of :: "fee_config \<Rightarrow> order_intent \<Rightarrow> int \<Rightarrow> order_book \<Rightarrow> planned_level \<Rightarrow> simulated_fill" where
  "fill_of cfg i arrival_time_ns b pl =
     \<lparr>sf_fill_id = Uuid5_fill (oi_order_intent_id i) (pl_rank pl) (pl_price pl) (pl_size pl),
      sf_order_intent_id = oi_order_intent_id i, sf_condition_id = oi_condition_id i,
      sf_token_id = oi_token_id i, sf_side = oi_side i, sf_price = pl_price pl,
      sf_size = pl_size pl, sf_notional = pl_notional pl,
      sf_fee = calculate_fee cfg (pl_size pl) (pl_price pl),
      sf_book_event_sequence = ob_last_sequence b,
      sf_decision_time_ns = oi_decision_timestamp_ns i,
      sf_scheduled_arrival_time_ns = arrival_time_ns, sf_fill_time_ns = arrival_time_ns,
      sf_level_rank = pl_rank pl, sf_liquidity_remaining_after = pl_displayed_after pl\<rparr>"

fun apply_plan :: "fee_config \<Rightarrow> order_intent \<Rightarrow> int \<Rightarrow> planned_level list
    \<Rightarrow> order_book \<Rightarrow> portfolio \<Rightarrow> order_book \<times> portfolio \<times> (py_error + simulated_fill list)" where
  "apply_plan cfg i t [] b pf = (b, pf, Inr [])"
| "apply_plan cfg i t (pl # pls) b pf =
     (let f = fill_of cfg i t b pl in
      case apply_fill f (oi_outcome i) pf of
        (pf', Inl e) \<Rightarrow> (b, pf', Inl e)
      | (pf', Inr _) \<Rightarrow>
          (case apply_plan cfg i t pls (consume (opposite (oi_side i)) (pl_price pl) (pl_size pl) b) pf' of
             (b2, pf2, Inl e) \<Rightarrow> (b2, pf2, Inl e)
           | (b2, pf2, Inr fs) \<Rightarrow> (b2, pf2, Inr (f # fs))))"

definition plan_cost :: "fee_config \<Rightarrow> planned_level list \<Rightarrow> int" where
  "plan_cost cfg plan =
     sum_list (map (\<lambda>pl. pl_notional pl + calculate_fee cfg (pl_size pl) (pl_price pl)) plan)"

definition plan_size :: "planned_level list \<Rightarrow> int" where
  "plan_size plan = sum_list (map pl_size plan)"

definition fully_filled :: "order_intent \<Rightarrow> simulated_fill list \<Rightarrow> bool" where
  "fully_filled i fs \<longleftrightarrow>
     oi_requested_shares i = Some (sum_list (map sf_size fs))
     \<or> (case oi_requested_notional i of None \<Rightarrow> False
        | Some n \<Rightarrow> n \<le> sum_list (map sf_notional fs))"

definition execute_taker :: "fee_config \<Rightarrow> order_intent \<Rightarrow> int \<Rightarrow> order_book \<Rightarrow> portfolio
    \<Rightarrow> order_book \<times> portfolio \<times> (py_error + order_result)" where
  "execute_taker cfg i arrival_time_ns b pf =
     (if \<not> ob_valid b then (b, pf, Inr (rejected i ''book unavailable or invalid''))
      else if oi_requested_shares i = None \<and> oi_requested_notional i = None
      then (b, pf, Inr (rejected i ''size or notional required''))
      else
        let plan = order_plan i b
        in if oi_side i = BUY \<and> pf_available_cash pf < plan_cost cfg plan
           then (b, pf, Inr (rejected i ''insufficient available cash''))
           else if oi_side i = SELL \<and> inventory pf (oi_token_id i) < plan_size plan
           then (b, pf, Inr (rejected i ''insufficient inventory''))
           else
             case apply_plan cfg i arrival_time_ns plan b pf of
               (b', pf', Inl e) \<Rightarrow> (b', pf', Inl e)
             | (b', pf', Inr fs) \<Rightarrow>
                 if fs = []
                 then (b', pf', Inr (rejected i ''no executable liquidity/resources''))
                 else (b', pf', Inr \<lparr>or_intent = i,
                        or_status = (if fully_filled i fs then Filled else Partial),
                        or_rejection_reason = None, or_fills = fs\<rparr>))"

section \<open>Facts on plans\<close>

text \<open>
  \<open>plan_of i ls plan\<close>: the plan takes a prefix of the levels, best first, within the limit,
  a positive size of at most the displayed one from each.
\<close>

definition level_planned :: "order_intent \<Rightarrow> planned_level \<Rightarrow> int \<times> int \<Rightarrow> bool" where
  "level_planned i pl l \<longleftrightarrow> pl_price pl = fst l \<and> 0 < pl_size pl \<and> pl_size pl \<le> snd l
     \<and> \<not> beyond_limit i (fst l) \<and> pl_notional pl = notional_scaled (pl_size pl) (fst l)
     \<and> pl_displayed_after pl = snd l - pl_size pl"

lemma desired_le_displayed: "desired_size shares notional price displayed \<le> displayed"
  by (simp add: desired_size_def split: option.split)

lemma plan_levels_prefix:
  "list_all2 (level_planned i) (plan_levels i rank shares notional ls)
     (take (length (plan_levels i rank shares notional ls)) ls)"
  by (induction i rank shares notional ls rule: plan_levels.induct)
    (auto simp: Let_def level_planned_def desired_le_displayed)

lemma plan_levels_shares:
  "0 \<le> n \<Longrightarrow> plan_size (plan_levels i rank (Some n) notional ls) \<le> n"
proof (induction ls arbitrary: n notional rank)
  case (Cons l ls)
  obtain price displayed where l: "l = (price, displayed)" by (meson surj_pair)
  let ?d = "desired_size (Some n) notional price displayed"
  let ?rest = "plan_levels i (rank + 1) (Some (n - ?d))
    (map_option (\<lambda>n. max 0 (n - notional_scaled ?d price)) notional) ls"
  have d: "?d \<le> n" by (simp add: desired_size_def)
  then have "plan_size ?rest \<le> n - ?d" by (intro Cons.IH) simp
  with Cons.prems d show ?case by (simp add: l Let_def plan_size_def)
qed (simp add: plan_size_def)

lemma affordable_notional:
  assumes "0 \<le> price" "0 \<le> n" "d \<le> n * SHARE_SIZE_SCALE div max price 1"
  shows "notional_scaled d price \<le> n"
proof -
  have "max price 1 * (n * SHARE_SIZE_SCALE div max price 1) \<le> n * SHARE_SIZE_SCALE"
    using mult_div_mod_eq [of "max price 1" "n * SHARE_SIZE_SCALE"]
      pos_mod_sign [of "max price 1" "n * SHARE_SIZE_SCALE"] by linarith
  moreover have "d * price \<le> max price 1 * (n * SHARE_SIZE_SCALE div max price 1)"
  proof (cases "price = 0")
    case True
    then show ?thesis using assms(2) by (simp add: pos_imp_zdiv_nonneg_iff)
  next
    case False
    then show ?thesis using assms(1,3) mult_right_mono [OF assms(3), of price]
      by (simp add: mult.commute)
  qed
  ultimately show ?thesis
    unfolding notional_scaled_def by (intro round_half_up_le) auto
qed

lemma plan_levels_notional:
  "0 \<le> n \<Longrightarrow> \<forall>l \<in> set ls. 0 \<le> fst l \<Longrightarrow>
     sum_list (map pl_notional (plan_levels i rank None (Some n) ls)) \<le> n"
proof (induction ls arbitrary: n rank)
  case (Cons l ls)
  obtain price displayed where l: "l = (price, displayed)" by (meson surj_pair)
  let ?d = "desired_size None (Some n) price displayed"
  let ?v = "notional_scaled ?d price"
  have v: "?v \<le> n"
    using Cons.prems l by (intro affordable_notional) (auto simp: desired_size_def)
  then have "sum_list (map pl_notional (plan_levels i (rank + 1) None (Some (n - ?v)) ls)) \<le> n - ?v"
    using Cons.prems by (intro Cons.IH) auto
  with Cons.prems v show ?case by (simp add: l Let_def max_def)
qed simp

section \<open>Facts on applying a plan\<close>

lemma apply_fill_effect:
  assumes "apply_fill f u pf = (pf', Inr ())"
  shows "pf_available_cash pf' = pf_available_cash pf
      + (if sf_side f = BUY then - (sf_notional f + sf_fee f) else sf_notional f - sf_fee f)"
    and "inventory pf' t = inventory pf t
      + (if t = sf_token_id f then (if sf_side f = BUY then sf_size f else - sf_size f) else 0)"
  using assms
  by (cases "sf_side f"; auto simp: apply_fill_def open_position_def record_fill_def inventory_def
      Let_def split: option.splits if_splits)+

lemma apply_fill_total:
  "sf_side f = BUY \<Longrightarrow> sf_notional f + sf_fee f \<le> pf_available_cash pf \<Longrightarrow>
     \<exists>pf'. apply_fill f u pf = (pf', Inr ())"
  "sf_side f = SELL \<Longrightarrow> sf_size f \<le> inventory pf (sf_token_id f) \<Longrightarrow>
     \<exists>pf'. apply_fill f u pf = (pf', Inr ())"
  by (auto simp: apply_fill_def open_position_def inventory_def Let_def split: option.splits)

text \<open>
  What a plan needs: sizes and prices as in a book, and the cash or the inventory for all of it.
\<close>

definition plan_funded :: "fee_config \<Rightarrow> order_intent \<Rightarrow> planned_level list \<Rightarrow> portfolio \<Rightarrow> bool" where
  "plan_funded cfg i plan pf \<longleftrightarrow>
     (\<forall>pl \<in> set plan. 0 < pl_size pl \<and> 0 \<le> pl_notional pl)
     \<and> (if oi_side i = BUY then plan_cost cfg plan \<le> pf_available_cash pf
        else plan_size plan \<le> inventory pf (oi_token_id i))"

lemma plan_cost_nonneg:
  "fee_config_ok cfg \<Longrightarrow> \<forall>pl \<in> set plan. 0 \<le> pl_notional pl \<Longrightarrow> 0 \<le> plan_cost cfg plan"
  unfolding plan_cost_def by (intro sum_list_nonneg_map) (auto simp: fee_nonneg)

lemma plan_size_nonneg: "\<forall>pl \<in> set plan. 0 < pl_size pl \<Longrightarrow> 0 \<le> plan_size plan"
  unfolding plan_size_def by (intro sum_list_nonneg_map) (auto simp: order_less_imp_le)

text \<open>The fills a plan produces, and the consumption it leaves.\<close>

definition plan_fills :: "fee_config \<Rightarrow> order_intent \<Rightarrow> int \<Rightarrow> order_book \<Rightarrow> planned_level list
    \<Rightarrow> simulated_fill list" where
  "plan_fills cfg i t b plan = map (fill_of cfg i t b) plan"

definition consume_plan :: "order_intent \<Rightarrow> planned_level list \<Rightarrow> order_book \<Rightarrow> order_book" where
  "consume_plan i plan b = fold (\<lambda>pl. consume (opposite (oi_side i)) (pl_price pl) (pl_size pl)) plan b"

lemma fill_of_consume [simp]: "fill_of cfg i t (consume s p q b) = fill_of cfg i t b"
  by (simp add: fun_eq_iff fill_of_def consume_def)

lemma fill_of_sel [simp]:
  "sf_side (fill_of cfg i t b pl) = oi_side i" "sf_size (fill_of cfg i t b pl) = pl_size pl"
  "sf_price (fill_of cfg i t b pl) = pl_price pl" "sf_notional (fill_of cfg i t b pl) = pl_notional pl"
  "sf_token_id (fill_of cfg i t b pl) = oi_token_id i"
  "sf_fee (fill_of cfg i t b pl) = calculate_fee cfg (pl_size pl) (pl_price pl)"
  "sf_fill_time_ns (fill_of cfg i t b pl) = t"
  by (simp_all add: fill_of_def)

lemma apply_plan_funded:
  assumes "fee_config_ok cfg" "plan_funded cfg i plan pf"
  shows "\<exists>pf'. apply_plan cfg i t plan b pf
      = (consume_plan i plan b, pf', Inr (plan_fills cfg i t b plan))
    \<and> pf_available_cash pf' = pf_available_cash pf
        + (if oi_side i = BUY then - plan_cost cfg plan
           else sum_list (map (\<lambda>pl. pl_notional pl - calculate_fee cfg (pl_size pl) (pl_price pl)) plan))
    \<and> inventory pf' (oi_token_id i) = inventory pf (oi_token_id i)
        + (if oi_side i = BUY then plan_size plan else - plan_size plan)
    \<and> (reachable_portfolio pf bf \<longrightarrow>
         reachable_portfolio pf' (bf + sum_list (map buy_fee (plan_fills cfg i t b plan))))"
  using assms(2)
proof (induction plan arbitrary: pf b bf)
  case Nil
  then show ?case by (simp add: consume_plan_def plan_fills_def plan_cost_def plan_size_def)
next
  case (Cons pl plan)
  let ?f = "fill_of cfg i t b pl"
  have pos: "\<forall>pl \<in> set plan. 0 < pl_size pl \<and> 0 \<le> pl_notional pl" "0 < pl_size pl" "0 \<le> pl_notional pl"
    using Cons.prems by (auto simp: plan_funded_def)
  have "\<exists>pf1. apply_fill ?f (oi_outcome i) pf = (pf1, Inr ())"
    using apply_fill_total(1) [of ?f pf] apply_fill_total(2) [of ?f pf] Cons.prems pos
      plan_cost_nonneg [OF assms(1), of plan] plan_size_nonneg [of plan]
    by (cases "oi_side i") (auto simp: plan_funded_def plan_cost_def plan_size_def)
  then obtain pf1 where fill: "apply_fill ?f (oi_outcome i) pf = (pf1, Inr ())" ..
  note eff = apply_fill_effect [OF fill]
  let ?b = "consume (opposite (oi_side i)) (pl_price pl) (pl_size pl) b"
  have funded: "plan_funded cfg i plan pf1"
    using Cons.prems eff pos by (auto simp: plan_funded_def plan_cost_def plan_size_def)
  have step: "reachable_portfolio pf bf \<Longrightarrow> reachable_portfolio pf1 (bf + buy_fee ?f)"
    by (rule reachable_portfolio.filled [OF _ _ fill])
      (use pos assms(1) in \<open>auto simp: fill_ok_def fee_nonneg\<close>)
  show ?case
    using Cons.IH [OF funded, of ?b "bf + buy_fee ?f"] fill eff step
    by (auto simp: Let_def consume_plan_def plan_fills_def plan_cost_def plan_size_def comp_def
        algebra_simps)
qed

lemma available_plan_levels:
  assumes "reachable_book b" "plan = plan_levels i 1 shares notional (available_levels s b)"
  shows "\<forall>pl \<in> set plan. 0 < pl_price pl \<and> pl_price pl < 1000000 \<and> 0 < pl_size pl
      \<and> 0 \<le> pl_notional pl \<and> pl_size pl \<le> depth_at s b (pl_price pl)
      \<and> \<not> beyond_limit i (pl_price pl)"
    and "map pl_price plan = take (length plan) (map fst (available_levels s b))"
proof -
  note pre = plan_levels_prefix [of i 1 shares notional "available_levels s b", folded assms(2)]
  have lvl: "0 < p \<and> p < 1000000 \<and> q = depth_at s b p" if "(p, q) \<in> set (available_levels s b)" for p q
  proof -
    have "(\<exists>sz. (p, sz) \<in> set (if s = BUY then ob_bids b else ob_asks b))"
      using that by (auto simp: concat_available_set)
    then show ?thesis
      using reachable_book_inv [OF assms(1)] that available_iff_depth [OF reachable_sides [OF assms(1)]]
      by (auto simp: book_inv_def side_ok_def split: if_splits)
  qed
  show "\<forall>pl \<in> set plan. 0 < pl_price pl \<and> pl_price pl < 1000000 \<and> 0 < pl_size pl
      \<and> 0 \<le> pl_notional pl \<and> pl_size pl \<le> depth_at s b (pl_price pl)
      \<and> \<not> beyond_limit i (pl_price pl)"
  proof
    fix pl assume "pl \<in> set plan"
    then obtain k where k: "k < length plan" "pl = plan ! k" by (metis in_set_conv_nth)
    have len: "length (take (length plan) (available_levels s b)) = length plan"
      using list_all2_lengthD [OF pre] by simp
    let ?l = "available_levels s b ! k"
    have "level_planned i pl ?l" using list_all2_nthD [OF pre k(1)] k by simp
    moreover have "?l \<in> set (available_levels s b)" using k len by simp
    ultimately show "0 < pl_price pl \<and> pl_price pl < 1000000 \<and> 0 < pl_size pl
      \<and> 0 \<le> pl_notional pl \<and> pl_size pl \<le> depth_at s b (pl_price pl) \<and> \<not> beyond_limit i (pl_price pl)"
      using lvl [of "fst ?l" "snd ?l"] by (auto simp: level_planned_def notional_nonneg)
  qed
  show "map pl_price plan = take (length plan) (map fst (available_levels s b))"
    using pre unfolding take_map
    by (auto simp: list_all2_conv_all_nth level_planned_def intro!: nth_equalityI)
qed

lemma sorted_wrt_irrefl_distinct: "sorted_wrt R xs \<Longrightarrow> (\<And>x. \<not> R x x) \<Longrightarrow> distinct xs"
  by (induction xs) auto

lemma filter_unique_key: "distinct (map f xs) \<Longrightarrow> x \<in> set xs \<Longrightarrow> filter (\<lambda>y. f y = f x) xs = [x]"
  by (induction xs) (auto simp: filter_empty_conv image_iff)

lemma levels_nonneg: "reachable_book b \<Longrightarrow> \<forall>l \<in> set (available_levels s b). 0 \<le> fst l"
  using reachable_book_inv [of b]
  by (fastforce simp: concat_available_set book_inv_def side_ok_def split: if_splits)

lemma consume_plan_depth:
  assumes "distinct (map pl_price plan)"
    "\<forall>pl \<in> set plan. 0 < pl_size pl \<and> pl_size pl \<le> depth_at (opposite (oi_side i)) b (pl_price pl)"
  shows "depth_at (opposite (oi_side i)) (consume_plan i plan b) p
    = depth_at (opposite (oi_side i)) b p
      - sum_list (map pl_size (filter (\<lambda>pl. pl_price pl = p) plan))"
  using assms
proof (induction plan arbitrary: b)
  case (Cons pl plan)
  let ?s = "opposite (oi_side i)"
  let ?b = "consume ?s (pl_price pl) (pl_size pl) b"
  have d: "depth_at ?s ?b = (depth_at ?s b)(pl_price pl := depth_at ?s b (pl_price pl) - pl_size pl)"
    using Cons.prems by (intro depth_consume) auto
  have "\<forall>k \<in> set plan. pl_price k \<noteq> pl_price pl"
    using Cons.prems(1) image_eqI [of _ pl_price _ "set plan"] by (metis distinct.simps(2) list.simps(9) set_map)
  then have "\<forall>k \<in> set plan. 0 < pl_size k \<and> pl_size k \<le> depth_at ?s ?b (pl_price k)"
    using Cons.prems(2) by (simp add: d)
  with Cons.IH [of ?b] Cons.prems(1) have
    "depth_at ?s (consume_plan i plan ?b) p
      = depth_at ?s ?b p - sum_list (map pl_size (filter (\<lambda>pl. pl_price pl = p) plan))"
    by simp
  then show ?case by (auto simp: d consume_plan_def)
qed (simp add: consume_plan_def)

lemma reachable_consume_plan: "reachable_book b \<Longrightarrow> reachable_book (consume_plan i plan b)"
  unfolding consume_plan_def
  by (induction plan arbitrary: b) (auto intro: reachable_book.consumed)

text \<open>The outcomes of an order: refused without effect, or a non-empty plan applied in full.\<close>

lemma execute_taker_cases:
  assumes "reachable_book b" "fee_config_ok cfg" "execute_taker cfg i t b pf = (b', pf', r)"
  shows "(\<exists>reason. r = Inr (rejected i reason) \<and> b' = b \<and> pf' = pf)
    \<or> (\<exists>res. r = Inr res \<and> ob_valid b \<and> order_plan i b \<noteq> [] \<and> or_fills res = plan_fills cfg i t b (order_plan i b)
        \<and> or_intent res = i \<and> or_status res \<in> {Filled, Partial}
        \<and> plan_funded cfg i (order_plan i b) pf \<and> b' = consume_plan i (order_plan i b) b
        \<and> apply_plan cfg i t (order_plan i b) b pf = (b', pf', Inr (or_fills res)))"
proof (cases "plan_funded cfg i (order_plan i b) pf")
  case True
  obtain pf1 where run: "apply_plan cfg i t (order_plan i b) b pf
      = (consume_plan i (order_plan i b) b, pf1, Inr (plan_fills cfg i t b (order_plan i b)))"
    using apply_plan_funded [OF assms(2) True, of t b] by blast
  show ?thesis
  proof (cases "order_plan i b = []")
    case True
    with assms(3) show ?thesis
      by (cases "oi_side i") (auto simp: execute_taker_def plan_funded_def Let_def split: if_splits)
  next
    case False
    then have "plan_fills cfg i t b (order_plan i b) \<noteq> []" by (simp add: plan_fills_def)
    with assms(3) run False True show ?thesis
      by (cases "oi_side i") (auto simp: execute_taker_def plan_funded_def Let_def split: if_splits)
  qed
next
  case False
  then have "(oi_side i = BUY \<and> pf_available_cash pf < plan_cost cfg (order_plan i b))
      \<or> (oi_side i = SELL \<and> inventory pf (oi_token_id i) < plan_size (order_plan i b))"
    using available_plan_levels(1) [OF assms(1) order_plan_def]
    by (cases "oi_side i") (auto simp: plan_funded_def)
  with assms(3) show ?thesis
    by (cases "oi_side i") (auto simp: execute_taker_def plan_funded_def Let_def split: if_splits)
qed

lemma ob_token_id_consume_plan [simp]: "ob_token_id (consume_plan i plan b) = ob_token_id b"
  unfolding consume_plan_def by (induction plan arbitrary: b) (auto simp: consume_def)

text \<open>What the engine needs of one execution.\<close>

lemma execute_taker_facts:
  assumes "reachable_book b" "fee_config_ok cfg" "reachable_portfolio pf bf"
    and "execute_taker cfg i t b pf = (b', pf', r)"
  shows "\<exists>res. r = Inr res \<and> reachable_book b' \<and> ob_token_id b' = ob_token_id b
    \<and> (\<exists>bf'. reachable_portfolio pf' bf')
    \<and> (\<forall>f \<in> set (or_fills res). sf_fill_time_ns f = t \<and> 0 < sf_size f
         \<and> sf_decision_time_ns f = oi_decision_timestamp_ns i)"
  using execute_taker_cases [OF assms(1,2,4)]
proof (elim disjE exE conjE)
  fix reason assume "r = Inr (rejected i reason)" "b' = b" "pf' = pf"
  with assms(1,3) show ?thesis by auto
next
  fix res
  assume res: "r = Inr res" "or_fills res = plan_fills cfg i t b (order_plan i b)"
    "plan_funded cfg i (order_plan i b) pf" "b' = consume_plan i (order_plan i b) b"
    "apply_plan cfg i t (order_plan i b) b pf = (b', pf', Inr (or_fills res))"
  from apply_plan_funded [OF assms(2) res(3), of t b bf] res(5) assms(3)
  have "\<exists>bf'. reachable_portfolio pf' bf'" by auto
  moreover have "\<forall>pl \<in> set (order_plan i b). 0 < pl_size pl"
    using res(3) by (simp add: plan_funded_def)
  ultimately show ?thesis
    using res reachable_consume_plan [OF assms(1)] by (auto simp: plan_fills_def fill_of_def)
qed

section \<open>Properties\<close>

text \<open>
  C29. An order either has no effect or goes through completely.  On a reachable book and with a
  schedule of non-negative rates, the simulator never raises, whatever the intent: the
  preflight is enough for every later \<open>apply_fill\<close>.  A rejected order has no fills and leaves
  book and portfolio exactly as they were; any other order has at least one fill, and the
  portfolio it leaves is one the portfolio's own operations reach.
\<close>

theorem taker_all_or_nothing:
  assumes "reachable_book b" "fee_config_ok cfg" "reachable_portfolio pf bf"
    and "execute_taker cfg i t b pf = (b', pf', r)"
  shows "\<exists>res. r = Inr res \<and> or_intent res = i \<and> reachable_book b'
    \<and> reachable_portfolio pf' (bf + sum_list (map buy_fee (or_fills res)))
    \<and> (if or_status res = Rejected then or_fills res = [] \<and> b' = b \<and> pf' = pf
       else or_status res \<in> {Filled, Partial} \<and> or_fills res \<noteq> [])"
  using execute_taker_cases [OF assms(1,2,4)]
proof (elim disjE exE conjE)
  fix reason assume "r = Inr (rejected i reason)" "b' = b" "pf' = pf"
  with assms(1,3) show ?thesis by simp
next
  fix res
  assume res: "r = Inr res" "order_plan i b \<noteq> []" "or_fills res = plan_fills cfg i t b (order_plan i b)"
    "or_intent res = i" "or_status res \<in> {Filled, Partial}"
    "plan_funded cfg i (order_plan i b) pf" "b' = consume_plan i (order_plan i b) b"
    "apply_plan cfg i t (order_plan i b) b pf = (b', pf', Inr (or_fills res))"
  from apply_plan_funded [OF assms(2) res(6), of t b bf] res(3,8) assms(3)
  have "reachable_portfolio pf' (bf + sum_list (map buy_fee (or_fills res)))" by auto
  moreover have "or_fills res \<noteq> []" using res(2,3) by (simp add: plan_fills_def)
  ultimately show ?thesis
    using res reachable_consume_plan [OF assms(1)] by auto
qed

definition demo_intent :: order_intent where
  "demo_intent =
     \<lparr>oi_order_intent_id = Given_id ''o'', oi_strategy_id = ''s'', oi_decision_timestamp_ns = 100,
      oi_token_id = ''t'', oi_condition_id = ''m'', oi_outcome = ''Up'', oi_side = BUY,
      oi_order_type = MARKETABLE_TAKER, oi_limit_price = Some 550000,
      oi_requested_shares = Some 5000000, oi_requested_notional = None,
      oi_time_in_force = ''IOC'', oi_metadata = Map.empty\<rparr>"

lemma demo_execute:
  "execute_taker DEFAULT_FEE demo_intent 150 demo_book (make_portfolio 5000000 False False)
    = (fst (execute_taker DEFAULT_FEE demo_intent 150 demo_book (make_portfolio 5000000 False False)),
       fst (snd (execute_taker DEFAULT_FEE demo_intent 150 demo_book (make_portfolio 5000000 False False))),
       Inr \<lparr>or_intent = demo_intent, or_status = Partial, or_rejection_reason = None,
         or_fills = [fill_of DEFAULT_FEE demo_intent 150 demo_book
           \<lparr>pl_rank = 1, pl_price = 520000, pl_size = 4000000, pl_notional = 2080000,
            pl_displayed_after = 0\<rparr>]\<rparr>)"
  by (simp add: prod_eq_iff)
    (simp add: execute_taker_def order_plan_def demo_book_def demo_intent_def opposite_def available_levels_def
      desired_size_def beyond_limit_def notional_scaled_def round_half_up_def Let_def plan_cost_def
      calculate_DEFAULT_FEE make_portfolio_def apply_fill_def open_position_def record_fill_def
      fill_of_def fully_filled_def)

theorem taker_all_or_nothing_witness:
  "reachable_book (fst (execute_taker DEFAULT_FEE demo_intent 150 demo_book (make_portfolio 5000000 False False)))
   \<and> (\<exists>bf. reachable_portfolio
        (fst (snd (execute_taker DEFAULT_FEE demo_intent 150 demo_book (make_portfolio 5000000 False False)))) bf)"
  using taker_all_or_nothing [OF demo_book_reachable DEFAULT_FEE_ok reachable_portfolio.start demo_execute]
  by auto

text \<open>
  C14. Fills come from the book and stay within the order.  The fills take the best available
  levels in order, each at most once, within the limit price and within the depth that earlier
  simulated fills left; that depth goes down by exactly what is filled.  Requested shares are
  never exceeded, nor is a requested notional (when the order is sized by notional), and cash
  moves by exactly the notionals and fees.
\<close>

theorem taker_fills_within_order:
  assumes "reachable_book b" "fee_config_ok cfg" "execute_taker cfg i t b pf = (b', pf', Inr res)"
  shows "map sf_price (or_fills res)
      = take (length (or_fills res)) (map fst (available_levels (opposite (oi_side i)) b))
    \<and> distinct (map sf_price (or_fills res))
    \<and> (\<forall>f \<in> set (or_fills res). \<not> beyond_limit i (sf_price f) \<and> 0 < sf_size f
         \<and> sf_size f \<le> depth_at (opposite (oi_side i)) b (sf_price f)
         \<and> depth_at (opposite (oi_side i)) b' (sf_price f)
             = depth_at (opposite (oi_side i)) b (sf_price f) - sf_size f)
    \<and> (\<forall>n. oi_requested_shares i = Some n \<longrightarrow> 0 \<le> n \<longrightarrow> sum_list (map sf_size (or_fills res)) \<le> n)
    \<and> (\<forall>n. oi_requested_shares i = None \<longrightarrow> oi_requested_notional i = Some n \<longrightarrow> 0 \<le> n \<longrightarrow>
         sum_list (map sf_notional (or_fills res)) \<le> n)
    \<and> pf_available_cash pf' - pf_available_cash pf
       = sum_list (map (\<lambda>f. if oi_side i = BUY then - (sf_notional f + sf_fee f)
           else sf_notional f - sf_fee f) (or_fills res))"
  using execute_taker_cases [OF assms]
proof (elim disjE exE conjE)
  fix reason assume "Inr res = (Inr (rejected i reason) :: py_error + _)" "b' = b" "pf' = pf"
  then show ?thesis by simp
next
  fix res'
  let ?s = "opposite (oi_side i)" and ?plan = "order_plan i b"
  assume A: "Inr res = (Inr res' :: py_error + _)" "or_fills res' = plan_fills cfg i t b ?plan"
    "plan_funded cfg i ?plan pf" "b' = consume_plan i ?plan b"
    "apply_plan cfg i t ?plan b pf = (b', pf', Inr (or_fills res'))"
  note lv = available_plan_levels [OF assms(1) order_plan_def]
  have fs: "or_fills res = map (fill_of cfg i t b) ?plan" using A(1,2) by (simp add: plan_fills_def)
  have "sorted_wrt (\<lambda>p q. if ?s = BUY then q < p else p < q) (map pl_price ?plan)"
    unfolding lv(2) by (rule sorted_wrt_take)
      (rule available_levels_sorted [OF reachable_book_inv [OF assms(1)]])
  then have dist: "distinct (map pl_price ?plan)"
    by (rule sorted_wrt_irrefl_distinct) (auto split: if_splits)
  have depth: "depth_at ?s b' (pl_price pl) = depth_at ?s b (pl_price pl) - pl_size pl"
    if "pl \<in> set ?plan" for pl
  proof -
    have "filter (\<lambda>k. pl_price k = pl_price pl) ?plan = [pl]"
      using dist that by (rule filter_unique_key)
    then show ?thesis
      using consume_plan_depth [OF dist, of i b "pl_price pl"] lv(1) A(4) by auto
  qed
  have shares: "sum_list (map pl_size ?plan) \<le> n" if "oi_requested_shares i = Some n" "0 \<le> n" for n
    using plan_levels_shares [OF that(2)] that(1) by (simp add: order_plan_def plan_size_def)
  have notional: "sum_list (map pl_notional ?plan) \<le> n"
    if "oi_requested_shares i = None" "oi_requested_notional i = Some n" "0 \<le> n" for n
    using that plan_levels_notional [OF that(3), of "available_levels ?s b"] levels_nonneg [OF assms(1)]
    by (simp add: order_plan_def)
  have "map sf_price (or_fills res) = map pl_price ?plan" "length (or_fills res) = length ?plan"
    by (simp_all add: fs)
  then show ?thesis
    using lv(2) dist lv(1) depth shares notional
      apply_plan_funded [OF assms(2) A(3), of t b] A(5)
    by (auto simp: fs plan_cost_def comp_def uminus_sum_list_map)
qed

theorem taker_fills_within_order_witness:
  "\<exists>b' pf'. pf_available_cash pf' = 5000000 - 2080000 - 69888
     \<and> depth_at SELL b' 520000 = 0
     \<and> execute_taker DEFAULT_FEE demo_intent 150 demo_book (make_portfolio 5000000 False False)
        = (b', pf', Inr \<lparr>or_intent = demo_intent, or_status = Partial, or_rejection_reason = None,
             or_fills = [fill_of DEFAULT_FEE demo_intent 150 demo_book
               \<lparr>pl_rank = 1, pl_price = 520000, pl_size = 4000000, pl_notional = 2080000,
                pl_displayed_after = 0\<rparr>]\<rparr>)"
proof (intro exI conjI)
  note facts = taker_fills_within_order [OF demo_book_reachable DEFAULT_FEE_ok demo_execute]
  have "oi_side demo_intent = BUY" by (simp add: demo_intent_def)
  moreover have "depth_at SELL demo_book 520000 = 4000000" by (simp add: depth_at_def demo_book_def)
  moreover have "pf_available_cash (make_portfolio 5000000 False False) = 5000000"
    by (simp add: make_portfolio_def)
  ultimately show "pf_available_cash (fst (snd (execute_taker DEFAULT_FEE demo_intent 150 demo_book
      (make_portfolio 5000000 False False)))) = 5000000 - 2080000 - 69888"
    "depth_at SELL (fst (execute_taker DEFAULT_FEE demo_intent 150 demo_book
      (make_portfolio 5000000 False False))) 520000 = 0"
    using facts by (simp_all add: opposite_def calculate_DEFAULT_FEE round_half_up_def)
qed (rule demo_execute)

end
