(* ===== verification/Replay.thy ===== *)
theory Replay
  imports Orders "HOL-Library.Product_Lexorder" "HOL-Library.List_Lexorder" "HOL-Library.Char_ord"
begin

text \<open>
  \<^verbatim>\<open>replay/event_clock.py\<close>, \<^verbatim>\<open>replay/merger.py\<close>, \<^verbatim>\<open>replay/integrity.py\<close> and the degraded-time
  report of \<^verbatim>\<open>backtest/engine.py\<close>: the order in which recorded events are replayed, the clock
  they drive, and the quality intervals they cross.  Python compares the key tuples
  lexicographically and sorts stably; \<open>sort_key\<close> on the product and list orders does the same.
\<close>

section \<open>Events\<close>

text \<open>The payload determines the event type; \<open>Other_payload\<close> carries any type the engine ignores.\<close>

datatype event_payload =
    Book_snapshot book_snapshot
  | Book_update book_level_change
  | Tick_size_change tick_size_change
  | Btc_price btc_price_event
  | Trade trade_event
  | Market_resolution string string "string option"
  | Other_payload string

record replay_event =
  re_exchange_timestamp_ns :: "int option"
  re_received_utc_ns :: int
  re_received_monotonic_ns :: int
  re_connection_id :: string
  re_sequence :: int
  re_parent_change_index :: int
  re_source_priority :: int
  re_payload :: event_payload

datatype clock_mode = EXCHANGE_TIME | LOCAL_RECEIVE_TIME

definition event_timestamp :: "clock_mode \<Rightarrow> replay_event \<Rightarrow> py_error + int" where
  "event_timestamp mode e =
     (if mode = LOCAL_RECEIVE_TIME then Inr (re_received_utc_ns e)
      else case re_exchange_timestamp_ns e of
        None \<Rightarrow> Inl (ValueError ''event lacks exchange timestamp'')
      | Some t \<Rightarrow> Inr t)"

text \<open>\<^verbatim>\<open>EventClock.advance\<close> on its \<^verbatim>\<open>current_ns\<close>.\<close>

definition clock_advance :: "clock_mode \<Rightarrow> replay_event \<Rightarrow> int option \<Rightarrow> py_error + int option" where
  "clock_advance mode e current =
     res_bind (event_timestamp mode e) (\<lambda>t.
       case current of
         None \<Rightarrow> Inr (Some t)
       | Some c \<Rightarrow> if t < c then Inl (ValueError ''replay clock moved backwards'') else Inr (Some t))"

section \<open>Merging\<close>

type_synonym event_key = "int \<times> int \<times> int \<times> string \<times> int \<times> int"

definition deterministic_event_key :: "clock_mode \<Rightarrow> replay_event \<Rightarrow> py_error + event_key" where
  "deterministic_event_key mode e =
     res_bind (event_timestamp mode e) (\<lambda>t.
       Inr (t, re_received_utc_ns e, re_source_priority e, re_connection_id e, re_sequence e,
            re_parent_change_index e))"

text \<open>\<^verbatim>\<open>sorted\<close> computes every key before it compares any: one missing timestamp fails the merge.\<close>

fun keyed_events :: "clock_mode \<Rightarrow> replay_event list \<Rightarrow> py_error + (event_key \<times> replay_event) list" where
  "keyed_events mode [] = Inr []"
| "keyed_events mode (e # es) =
     res_bind (deterministic_event_key mode e) (\<lambda>k.
       res_bind (keyed_events mode es) (\<lambda>kes. Inr ((k, e) # kes)))"

definition merge_events :: "clock_mode \<Rightarrow> replay_event list \<Rightarrow> py_error + replay_event list" where
  "merge_events mode es =
     res_bind (keyed_events mode es) (\<lambda>kes. Inr (map snd (sort_key fst kes)))"

section \<open>Integrity\<close>

datatype quality_state = COMPLETE | DEGRADED | UNRELIABLE | EXCLUDED

record quality_interval =
  qi_start_utc_ns :: int
  qi_end_utc_ns :: "int option"
  qi_state :: quality_state
  qi_category :: string
  qi_details :: string

definition qi_contains :: "quality_interval \<Rightarrow> int \<Rightarrow> bool" where
  "qi_contains q t \<longleftrightarrow> qi_start_utc_ns q \<le> t
     \<and> (case qi_end_utc_ns q of None \<Rightarrow> True | Some e \<Rightarrow> t \<le> e)"

definition note_used :: "quality_interval \<Rightarrow> quality_interval list \<Rightarrow> quality_interval list" where
  "note_used q used = (if q \<in> set used then used else used @ [q])"

fun integrity_loop :: "bool \<Rightarrow> int \<Rightarrow> quality_interval list \<Rightarrow> quality_interval list \<Rightarrow> quality_state
    \<Rightarrow> quality_interval list \<times> (py_error + quality_state)" where
  "integrity_loop reject t [] used state = (used, Inr state)"
| "integrity_loop reject t (q # qs) used state =
     (if \<not> qi_contains q t then integrity_loop reject t qs used state
      else if qi_state q = UNRELIABLE \<or> qi_state q = EXCLUDED then
        (if reject then (used, Inl (ValueError ''replay rejected''))
         else integrity_loop reject t qs (note_used q used) (qi_state q))
      else if qi_state q = DEGRADED then
        integrity_loop reject t qs (note_used q used) (if state = COMPLETE then DEGRADED else state)
      else integrity_loop reject t qs used state)"

definition integrity_check :: "bool \<Rightarrow> quality_interval list \<Rightarrow> int \<Rightarrow> quality_interval list
    \<Rightarrow> quality_interval list \<times> (py_error + quality_state)" where
  "integrity_check reject intervals t used = integrity_loop reject t intervals used COMPLETE"

text \<open>The merge of the clipped spans in \<^verbatim>\<open>_degraded_time_ppm\<close>, newest merged span last.\<close>

fun merge_spans :: "(int \<times> int) list \<Rightarrow> (int \<times> int) list \<Rightarrow> (int \<times> int) list" where
  "merge_spans merged [] = merged"
| "merge_spans merged ((start, end') # spans) =
     (if end' \<le> start then merge_spans merged spans
      else if merged \<noteq> [] \<and> start \<le> snd (last merged)
      then merge_spans (butlast merged @ [(fst (last merged), max (snd (last merged)) end')]) spans
      else merge_spans (merged @ [(start, end')]) spans)"

definition clip_span :: "int \<Rightarrow> int \<Rightarrow> quality_interval \<Rightarrow> int \<times> int" where
  "clip_span lo hi q =
     (max lo (qi_start_utc_ns q),
      min hi (case qi_end_utc_ns q of None \<Rightarrow> hi | Some e \<Rightarrow> if e = 0 then hi else e))"

definition degraded_time_ppm :: "replay_event list \<Rightarrow> quality_interval list \<Rightarrow> int" where
  "degraded_time_ppm events intervals =
     (if events = [] \<or> intervals = [] then 0
      else
        let times = map re_received_utc_ns events;
            lo = fold min (tl times) (hd times);
            hi = fold max (tl times) (hd times);
            total = hi - lo
        in if total \<le> 0 then 1000000
           else
             let merged = merge_spans [] (sort (map (clip_span lo hi) intervals));
                 degraded = sum_list (map (\<lambda>(s, e). e - s) merged)
             in min 1000000 (degraded * 1000000 div total))"

section \<open>Facts\<close>

lemma keyed_events_spec:
  "keyed_events mode es = Inr kes \<Longrightarrow>
     map snd kes = es \<and> (\<forall>(k, e) \<in> set kes. deterministic_event_key mode e = Inr k)"
  by (induction es arbitrary: kes) auto

lemma keyed_events_total:
  "\<forall>e \<in> set es. \<exists>t. event_timestamp mode e = Inr t \<Longrightarrow> \<exists>kes. keyed_events mode es = Inr kes"
  by (induction es) (auto simp: deterministic_event_key_def)

text \<open>The comparison the merge uses, on events.\<close>

definition event_key_of :: "clock_mode \<Rightarrow> replay_event \<Rightarrow> event_key" where
  "event_key_of mode e = projr (deterministic_event_key mode e)"

lemma sort_key_keyed:
  "\<forall>(k, e) \<in> set kes. k = f e \<Longrightarrow> map snd (sort_key fst kes) = sort_key f (map snd kes)"
proof (induction kes)
  case (Cons p kes)
  obtain k e where p: "p = (k, e)" by (meson surj_pair)
  have ins: "map snd (insort_key fst (f e, e) xs) = insort_key f e (map snd xs)"
    if "\<forall>(k, e) \<in> set xs. k = f e" for xs
    using that by (induction xs) auto
  have "\<forall>(k, e) \<in> set (sort_key fst kes). k = f e" using Cons.prems by simp
  with Cons p ins show ?case by simp
qed simp

lemma merge_events_sort:
  "merge_events mode es = Inr out \<Longrightarrow> out = sort_key (event_key_of mode) es"
proof -
  assume m: "merge_events mode es = Inr out"
  then obtain kes where k: "keyed_events mode es = Inr kes" and out: "out = map snd (sort_key fst kes)"
    by (auto simp: merge_events_def)
  have "\<forall>(k, e) \<in> set kes. k = event_key_of mode e"
    using keyed_events_spec [OF k] by (auto simp: event_key_of_def)
  from sort_key_keyed [OF this] keyed_events_spec [OF k] out show ?thesis by simp
qed

lemma merge_events_timestamps:
  assumes "merge_events mode es = Inr out" "e \<in> set out"
  shows "\<exists>t. event_timestamp mode e = Inr t \<and> fst (event_key_of mode e) = t"
proof -
  obtain kes where k: "keyed_events mode es = Inr kes" "out = map snd (sort_key fst kes)"
    using assms(1) by (auto simp: merge_events_def)
  then obtain k where "deterministic_event_key mode e = Inr k"
    using keyed_events_spec [OF k(1)] assms(2) by auto
  then show ?thesis by (auto simp: deterministic_event_key_def event_key_of_def)
qed

lemma fst_key_mono: "(k :: event_key) \<le> j \<Longrightarrow> fst k \<le> fst j"
  by (cases k; cases j) auto

lemma merge_events_sorted_times:
  assumes "merge_events mode es = Inr out"
  shows "sorted (map (\<lambda>e. projr (event_timestamp mode e)) out)"
proof -
  have eq: "projr (event_timestamp mode e) = fst (event_key_of mode e)" if "e \<in> set out" for e
    using merge_events_timestamps [OF assms that] by auto
  have "sorted (map (event_key_of mode) out)" by (simp add: merge_events_sort [OF assms])
  then have "sorted (map (\<lambda>e. fst (event_key_of mode e)) out)"
    by (auto simp: sorted_map intro: fst_key_mono elim: sorted_wrt_mono_rel [rotated])
  with eq show ?thesis by (metis (no_types, lifting) map_cong)
qed

section \<open>Merged spans\<close>

definition span_points :: "(int \<times> int) list \<Rightarrow> int set" where
  "span_points spans = (\<Union>(s, e) \<in> set spans. {s..<e})"

definition spans_ok :: "(int \<times> int) list \<Rightarrow> bool" where
  "spans_ok spans \<longleftrightarrow> (\<forall>(s, e) \<in> set spans. s < e) \<and> sorted_wrt (\<lambda>p q. snd p < fst q) spans"

lemma span_points_simps [simp]:
  "span_points [] = {}" "span_points ((s, e) # xs) = {s..<e} \<union> span_points xs"
  "span_points (xs @ ys) = span_points xs \<union> span_points ys"
  by (auto simp: span_points_def)

lemma spans_ok_measure: "spans_ok spans \<Longrightarrow>
  finite (span_points spans) \<and> int (card (span_points spans)) = sum_list (map (\<lambda>(s, e). e - s) spans)"
proof (induction spans)
  case (Cons p spans)
  obtain s e where p: "p = (s, e)" by (meson surj_pair)
  have ok: "spans_ok spans" "s < e" and later: "\<forall>q \<in> set spans. e < fst q"
    using Cons.prems p by (auto simp: spans_ok_def)
  then have "{s..<e} \<inter> span_points spans = {}" by (fastforce simp: span_points_def)
  with Cons.IH [OF ok(1)] ok(2) p show ?case
    by (simp add: card_Un_disjoint)
qed simp

lemma merge_spans_spec:
  "spans_ok merged \<Longrightarrow> sorted spans \<Longrightarrow>
     (\<forall>m \<in> set merged. \<forall>p \<in> set spans. fst m \<le> fst p) \<Longrightarrow>
     spans_ok (merge_spans merged spans)
     \<and> span_points (merge_spans merged spans) = span_points merged \<union> span_points spans"
proof (induction merged spans rule: merge_spans.induct)
  case (2 merged start end' spans)
  have srt: "sorted spans" "\<forall>p \<in> set spans. start \<le> fst p" using "2.prems"(2) by force+
  consider (skip) "end' \<le> start" | (join) m ms where "start < end'" "merged = ms @ [m]" "start \<le> snd m"
    | (new) "start < end'" "merged = [] \<or> snd (last merged) < start"
    by (cases merged rule: rev_cases) force+
  then show ?case
  proof cases
    case skip
    then show ?thesis using 2 srt by auto
  next
    case (join m ms)
    obtain s e where m: "m = (s, e)" by (meson surj_pair)
    let ?new = "ms @ [(s, max e end')]"
    have "s \<le> start" using "2.prems"(3) join m by auto
    have ok: "spans_ok ?new"
      using "2.prems"(1) join m by (auto simp: spans_ok_def sorted_wrt_append)
    have "\<forall>m \<in> set ?new. \<forall>p \<in> set spans. fst m \<le> fst p"
      using "2.prems"(3) join m by auto
    then have IH: "spans_ok (merge_spans ?new spans)
      \<and> span_points (merge_spans ?new spans) = span_points ?new \<union> span_points spans"
      using "2.IH"(2) join m ok srt by simp
    moreover have "{s..<max e end'} = {s..<e} \<union> {start..<end'}"
      using join m \<open>s \<le> start\<close> by auto
    ultimately show ?thesis using join m by (simp add: Un_assoc)
  next
    case new
    have last: "snd m < start" if "m \<in> set merged" for m
    proof (cases merged rule: rev_cases)
      case (snoc ms k)
      have "snd m < fst k \<or> m = k" using that "2.prems"(1) snoc by (auto simp: spans_ok_def sorted_wrt_append)
      moreover have "fst k < snd k" "snd k < start" using "2.prems"(1) snoc new by (auto simp: spans_ok_def)
      ultimately show ?thesis by auto
    qed (use that in simp)
    have ok: "spans_ok (merged @ [(start, end')])"
      using "2.prems"(1) new last by (auto simp: spans_ok_def sorted_wrt_append)
    have "\<forall>m \<in> set (merged @ [(start, end')]). \<forall>p \<in> set spans. fst m \<le> fst p"
      using "2.prems"(3) srt by auto
    then show ?thesis using "2.IH"(3) new ok srt by (auto simp: Un_assoc)
  qed
qed simp

section \<open>Properties\<close>

text \<open>
  The merge is deterministic and loses nothing.  It fails exactly when some event lacks the
  timestamp of the clock mode; otherwise it is the stable sort by the documented key: a
  permutation of the events, replay times never decrease, and events with equal keys keep the
  order in which they were read.
\<close>

theorem merge_events_deterministic:
  "case merge_events mode es of
     Inl _ \<Rightarrow> \<exists>e \<in> set es. mode = EXCHANGE_TIME \<and> re_exchange_timestamp_ns e = None
   | Inr out \<Rightarrow> mset out = mset es
       \<and> sorted (map (event_key_of mode) out)
       \<and> sorted (map (\<lambda>e. projr (event_timestamp mode e)) out)
       \<and> (\<forall>k. filter (\<lambda>e. event_key_of mode e = k) out = filter (\<lambda>e. event_key_of mode e = k) es)"
proof (cases "merge_events mode es")
  case (Inl x)
  then have "\<nexists>kes. keyed_events mode es = Inr kes" by (auto simp: merge_events_def)
  then obtain e where "e \<in> set es" "\<nexists>t. event_timestamp mode e = Inr t"
    using keyed_events_total by blast
  then have "mode = EXCHANGE_TIME \<and> re_exchange_timestamp_ns e = None"
    by (cases mode) (auto simp: event_timestamp_def split: option.splits)
  with Inl \<open>e \<in> set es\<close> show ?thesis by auto
next
  case (Inr out)
  note out = merge_events_sort [OF Inr]
  have "sorted (map (event_key_of mode) out)" by (simp add: out)
  moreover note merge_events_sorted_times [OF Inr]
  ultimately show ?thesis
    using Inr by (simp add: out sort_key_stable)
qed

text \<open>
  C30. The degraded-time report measures each instant once.  When the replay spans time, the
  merged spans cover exactly the union of the clipped quality intervals, so overlapping
  intervals are not counted twice, and the result is the covered share of the replay in parts
  per million, at most one million.
\<close>

theorem degraded_time_measures_union:
  assumes "events \<noteq> []" "intervals \<noteq> []"
    and "lo = fold min (tl (map re_received_utc_ns events)) (hd (map re_received_utc_ns events))"
    and "hi = fold max (tl (map re_received_utc_ns events)) (hd (map re_received_utc_ns events))"
    and "lo < hi"
  shows "degraded_time_ppm events intervals
    = int (card (span_points (map (clip_span lo hi) intervals))) * 1000000 div (hi - lo)
    \<and> degraded_time_ppm events intervals \<le> 1000000"
proof -
  let ?spans = "sort (map (clip_span lo hi) intervals)"
  have m: "spans_ok (merge_spans [] ?spans)" "span_points (merge_spans [] ?spans) = span_points ?spans"
    using merge_spans_spec [of "[]" ?spans] by (auto simp: spans_ok_def)
  have pts: "span_points ?spans = span_points (map (clip_span lo hi) intervals)"
    by (simp add: span_points_def)
  have "span_points (map (clip_span lo hi) intervals) \<subseteq> {lo..<hi}"
    by (auto simp: span_points_def clip_span_def)
  then have "card (span_points (map (clip_span lo hi) intervals)) \<le> card {lo..<hi}"
    by (intro card_mono) auto
  then have le: "int (card (span_points (map (clip_span lo hi) intervals))) \<le> hi - lo"
    using assms(5) by simp
  then have "int (card (span_points (map (clip_span lo hi) intervals))) * 1000000 div (hi - lo)
      \<le> (hi - lo) * 1000000 div (hi - lo)"
    using assms(5) by (intro zdiv_mono1) auto
  also have "(hi - lo) * 1000000 div (hi - lo) = 1000000"
    using assms(5) by (intro nonzero_mult_div_cancel_left) simp
  finally have "int (card (span_points (map (clip_span lo hi) intervals))) * 1000000 div (hi - lo) \<le> 1000000" .
  then show ?thesis
    using assms spans_ok_measure [OF m(1)] m(2) pts
    by (simp add: degraded_time_ppm_def Let_def)
qed

definition demo_event :: "int \<Rightarrow> replay_event" where
  "demo_event t =
     \<lparr>re_exchange_timestamp_ns = None, re_received_utc_ns = t, re_received_monotonic_ns = t,
      re_connection_id = ''c'', re_sequence = t, re_parent_change_index = 0,
      re_source_priority = 10, re_payload = Other_payload ''x''\<rparr>"

definition demo_interval :: "int \<Rightarrow> int option \<Rightarrow> quality_interval" where
  "demo_interval s e =
     \<lparr>qi_start_utc_ns = s, qi_end_utc_ns = e, qi_state = DEGRADED, qi_category = ''gap'',
      qi_details = []\<rparr>"

theorem degraded_time_measures_union_witness:
  "degraded_time_ppm [demo_event 100, demo_event 200] [demo_interval 150 (Some 180), demo_interval 120 (Some 160)]
     = 600000"
proof -
  have "span_points (map (clip_span 100 200) [demo_interval 150 (Some 180), demo_interval 120 (Some 160)])
      = {120..<180}"
    by (auto simp: clip_span_def demo_interval_def)
  then show ?thesis
    using degraded_time_measures_union [of "[demo_event 100, demo_event 200]"
        "[demo_interval 150 (Some 180), demo_interval 120 (Some 160)]" 100 200]
    by (simp add: demo_event_def)
qed

theorem merge_events_deterministic_witness:
  "merge_events LOCAL_RECEIVE_TIME [demo_event 200, demo_event 100] = Inr [demo_event 100, demo_event 200]
   \<and> mset [demo_event 100, demo_event 200] = mset [demo_event 200, demo_event 100]"
proof -
  have "merge_events LOCAL_RECEIVE_TIME [demo_event 200, demo_event 100] = Inr [demo_event 100, demo_event 200]"
    by (simp add: merge_events_def deterministic_event_key_def event_timestamp_def demo_event_def)
  with merge_events_deterministic [where mode = LOCAL_RECEIVE_TIME and es = "[demo_event 200, demo_event 100]"]
  show ?thesis by simp
qed

end
