(* ===== verification/Metrics.thy ===== *)
theory Metrics
  imports Numerics
begin

text \<open>
  \<^verbatim>\<open>backtest/metrics.py\<close> and \<^verbatim>\<open>backtest/maker.py\<close>: drawdown and percentiles of a result series,
  and the queue position of a resting order.  The text that \<^verbatim>\<open>profit_factor\<close> formats is kept as
  the two sums it divides.
\<close>

section \<open>Metrics\<close>

text \<open>The loop of \<^verbatim>\<open>maximum_drawdown\<close>: running peak and running drawdown.\<close>

fun drawdown_loop :: "int list \<Rightarrow> int \<Rightarrow> int \<Rightarrow> int" where
  "drawdown_loop [] peak drawdown = drawdown"
| "drawdown_loop (v # vs) peak drawdown =
     (let peak' = max peak v in drawdown_loop vs peak' (max drawdown (peak' - v)))"

definition maximum_drawdown :: "int list \<Rightarrow> int" where
  "maximum_drawdown vs = (case vs of [] \<Rightarrow> 0 | v # _ \<Rightarrow> drawdown_loop vs v 0)"

definition percentile :: "int list \<Rightarrow> pyfloat \<Rightarrow> int option" where
  "percentile vs probability =
     (if vs = [] then None
      else
        let ordered = sort vs;
            index = min (int (length ordered) - 1)
                      (max 0 (fl_trunc (fl_mult (fl_of_int (int (length ordered) - 1)) probability)))
        in Some (ordered ! nat index))"

text \<open>The doubles \<^verbatim>\<open>0.50\<close> and \<^verbatim>\<open>0.95\<close>.\<close>

definition fl_p50 :: pyfloat where "fl_p50 = Flt 1 (-1)"

definition fl_p95 :: pyfloat where "fl_p95 = Flt 4278419646001971 (-52)"

datatype profit_ratio = No_changes | Infinite_ratio | Ratio int int

definition profit_factor :: "int list \<Rightarrow> profit_ratio" where
  "profit_factor changes =
     (let gains = sum_list (filter (\<lambda>v. 0 < v) changes);
          losses = - sum_list (filter (\<lambda>v. v < 0) changes)
      in if losses = 0 then (if gains = 0 then No_changes else Infinite_ratio)
         else Ratio gains losses)"

lemma drawdown_loop_spec:
  "drawdown_loop vs peak dd =
     foldr max (map (\<lambda>j. foldr max (take (Suc j) vs) peak - vs ! j) [0..<length vs]) dd"
proof (induction vs arbitrary: peak dd)
  case (Cons v vs)
  have comm: "foldr max (xs :: int list) (max a b) = max a (foldr max xs b)" for xs a b
    by (induction xs) (auto simp: max.left_commute)
  have "foldr max (take (Suc j) vs) (max peak v) = foldr max (v # take (Suc j) vs) peak" for j
    using comm [of "take (Suc j) vs" v peak] by (simp add: max.commute)
  moreover have "max a (foldr max xs b) = max b (foldr max (xs :: int list) a)" for xs a b
    using comm [of xs a b] comm [of xs b a] by (simp add: max.commute)
  ultimately show ?case
    by (simp add: Cons.IH Let_def upt_conv_Cons map_Suc_upt [symmetric] comp_def comm max.commute
        del: upt_Suc)
qed simp

lemma foldr_max_ge: "x \<in> set xs \<or> x = b \<Longrightarrow> (x :: int) \<le> foldr max xs b"
  by (induction xs) auto

lemma foldr_max_in: "foldr max xs (b :: int) \<in> insert b (set xs)"
  by (induction xs) (auto simp: max_def)

text \<open>Percentiles are values of the series.\<close>

lemma percentile_in: "percentile vs p = Some x \<Longrightarrow> x \<in> set vs"
proof -
  assume p: "percentile vs p = Some x"
  then have ne: "vs \<noteq> []" by (auto simp: percentile_def)
  let ?i = "min (int (length (sort vs)) - 1)
                      (max 0 (fl_trunc (fl_mult (fl_of_int (int (length (sort vs)) - 1)) p)))"
  have "nat ?i < length (sort vs)" using ne by (auto simp: nat_less_iff)
  then have "sort vs ! nat ?i \<in> set (sort vs)" by (rule nth_mem)
  with p ne show ?thesis by (simp add: percentile_def Let_def)
qed

section \<open>The maker queue\<close>

datatype queue_model = OPTIMISTIC | CONSERVATIVE | PROPORTIONAL

record maker_queue =
  mq_order_id :: string
  mq_displayed_ahead :: int
  mq_simulated_size :: int
  mq_queue_model :: queue_model
  mq_filled :: int

definition observe_trade :: "int \<Rightarrow> maker_queue \<Rightarrow> maker_queue \<times> int" where
  "observe_trade trade_size m =
     (let advance = min (mq_displayed_ahead m) trade_size;
          residual = trade_size - advance;
          fill = min residual (mq_simulated_size m - mq_filled m)
      in (m\<lparr>mq_displayed_ahead := mq_displayed_ahead m - advance,
            mq_filled := mq_filled m + fill\<rparr>, fill))"

definition observe_displayed_decrease :: "int \<Rightarrow> int \<Rightarrow> maker_queue \<Rightarrow> maker_queue" where
  "observe_displayed_decrease decrease displayed_total m =
     (case mq_queue_model m of
        CONSERVATIVE \<Rightarrow> m
      | OPTIMISTIC \<Rightarrow> m\<lparr>mq_displayed_ahead := max 0 (mq_displayed_ahead m - decrease)\<rparr>
      | PROPORTIONAL \<Rightarrow>
          if displayed_total \<le> 0 then m
          else m\<lparr>mq_displayed_ahead :=
                  max 0 (mq_displayed_ahead m - mq_displayed_ahead m * decrease div displayed_total)\<rparr>)"

text \<open>A queue message and the run of a resting order; the trades seen are summed.\<close>

datatype queue_message = Trade_seen int | Decrease_seen int int

fun queue_step :: "queue_message \<Rightarrow> maker_queue \<Rightarrow> maker_queue" where
  "queue_step (Trade_seen n) m = fst (observe_trade n m)"
| "queue_step (Decrease_seen d n) m = observe_displayed_decrease d n m"

fun traded :: "queue_message \<Rightarrow> int" where
  "traded (Trade_seen n) = n"
| "traded (Decrease_seen _ _) = 0"

fun message_ok :: "queue_message \<Rightarrow> bool" where
  "message_ok (Trade_seen n) \<longleftrightarrow> 0 \<le> n"
| "message_ok (Decrease_seen d n) \<longleftrightarrow> 0 \<le> d"

definition queue_ok :: "maker_queue \<Rightarrow> bool" where
  "queue_ok m \<longleftrightarrow> 0 \<le> mq_displayed_ahead m \<and> 0 \<le> mq_filled m \<and> mq_filled m \<le> mq_simulated_size m"

lemma proportional_share:
  "0 \<le> a \<Longrightarrow> 0 \<le> d \<Longrightarrow> 0 < t \<Longrightarrow> (a :: int) * d div t \<ge> 0"
  by (simp add: pos_imp_zdiv_nonneg_iff)

lemma queue_step_ok:
  assumes "queue_ok m" "message_ok x"
  shows "queue_ok (queue_step x m)"
    and "mq_filled m \<le> mq_filled (queue_step x m)"
    and "mq_displayed_ahead (queue_step x m) \<le> mq_displayed_ahead m"
    and "mq_simulated_size (queue_step x m) = mq_simulated_size m"
    and "mq_queue_model (queue_step x m) = mq_queue_model m"
    and "mq_queue_model m = CONSERVATIVE \<Longrightarrow>
           mq_filled (queue_step x m) + mq_displayed_ahead m
             \<le> mq_filled m + mq_displayed_ahead (queue_step x m) + traded x"
proof -
  have share: "0 \<le> mq_displayed_ahead m * d div t" if "0 \<le> d" "\<not> t \<le> 0" for d t
    using proportional_share [of "mq_displayed_ahead m" d t] assms(1) that by (auto simp: queue_ok_def)
  show "queue_ok (queue_step x m)" "mq_filled m \<le> mq_filled (queue_step x m)"
    "mq_displayed_ahead (queue_step x m) \<le> mq_displayed_ahead m"
    "mq_simulated_size (queue_step x m) = mq_simulated_size m"
    "mq_queue_model (queue_step x m) = mq_queue_model m"
    "mq_queue_model m = CONSERVATIVE \<Longrightarrow>
       mq_filled (queue_step x m) + mq_displayed_ahead m
         \<le> mq_filled m + mq_displayed_ahead (queue_step x m) + traded x"
    using assms share
    by (cases x; auto simp: queue_ok_def observe_trade_def observe_displayed_decrease_def Let_def
        split: queue_model.splits)+
qed

lemma queue_run:
  assumes "queue_ok m" "\<forall>x \<in> set xs. message_ok x"
  shows "queue_ok (fold queue_step xs m) \<and> mq_filled m \<le> mq_filled (fold queue_step xs m)
    \<and> mq_simulated_size (fold queue_step xs m) = mq_simulated_size m
    \<and> (mq_queue_model m = CONSERVATIVE \<longrightarrow>
        mq_filled (fold queue_step xs m) + mq_displayed_ahead m
          \<le> mq_filled m + mq_displayed_ahead (fold queue_step xs m) + sum_list (map traded xs))"
  using assms
proof (induction xs arbitrary: m)
  case (Cons x xs)
  have x: "message_ok x" and xs: "\<forall>y \<in> set xs. message_ok y" using Cons.prems(2) by auto
  note step = queue_step_ok [OF Cons.prems(1) x]
  from Cons.IH [OF step(1) xs] step show ?case by auto
qed simp

section \<open>Properties\<close>

text \<open>
  \<open>maximum_drawdown\<close> is the largest fall from an earlier (or the same) value of the series to
  a later one: no pair falls further, and on a non-empty series some pair attains it.
\<close>

theorem maximum_drawdown_is_largest_fall:
  "(\<forall>i j. i \<le> j \<longrightarrow> j < length vs \<longrightarrow> vs ! i - vs ! j \<le> maximum_drawdown vs)
   \<and> (vs \<noteq> [] \<longrightarrow> (\<exists>i j. i \<le> j \<and> j < length vs \<and> maximum_drawdown vs = vs ! i - vs ! j))"
proof (cases vs)
  case (Cons w ws)
  let ?f = "\<lambda>j. foldr max (take (Suc j) vs) w - vs ! j"
  have dd: "maximum_drawdown vs = foldr max (map ?f [0..<length vs]) 0"
    by (simp add: maximum_drawdown_def Cons drawdown_loop_spec)
  have "vs ! i - vs ! j \<le> maximum_drawdown vs" if "i \<le> j" "j < length vs" for i j
  proof -
    have "vs ! i \<in> set (take (Suc j) vs)" using that by (auto simp: in_set_conv_nth intro!: exI [of _ i])
    then have "vs ! i - vs ! j \<le> ?f j" using foldr_max_ge [of "vs ! i" "take (Suc j) vs" w] by simp
    also have "?f j \<le> maximum_drawdown vs" unfolding dd using that by (intro foldr_max_ge) auto
    finally show ?thesis .
  qed
  moreover have "\<exists>i j. i \<le> j \<and> j < length vs \<and> maximum_drawdown vs = vs ! i - vs ! j"
  proof -
    consider "maximum_drawdown vs = 0" | j where "j < length vs" "maximum_drawdown vs = ?f j"
      using foldr_max_in [of "map ?f [0..<length vs]" 0] unfolding dd by auto
    then show ?thesis
    proof cases
      case 1
      then show ?thesis using Cons by (intro exI [of _ 0]) simp
    next
      case (2 j)
      have "foldr max (take (Suc j) vs) w \<in> set (take (Suc j) vs)"
        using foldr_max_in [of "take (Suc j) vs" w] by (auto simp: Cons)
      then obtain i where "i < length (take (Suc j) vs)" "foldr max (take (Suc j) vs) w = take (Suc j) vs ! i"
        by (metis in_set_conv_nth)
      with 2 show ?thesis by (intro exI [of _ i] exI [of _ j]) (auto simp: less_Suc_eq_le)
    qed
  qed
  ultimately show ?thesis by blast
qed (simp add: maximum_drawdown_def)

theorem maximum_drawdown_is_largest_fall_witness:
  "maximum_drawdown [5, 9, 3, 7] = 6 \<and> [5, 9, 3, 7] ! 1 - [5, 9, 3, 7] ! 2 \<le> maximum_drawdown [5, 9, 3, 7]"
proof -
  have "([5, 9, 3, 7] :: int list) ! 1 - [5, 9, 3, 7] ! 2 \<le> maximum_drawdown [5, 9, 3, 7]"
    by (rule maximum_drawdown_is_largest_fall [THEN conjunct1, rule_format]) simp_all
  then show ?thesis by (simp add: maximum_drawdown_def)
qed

text \<open>
  A resting order never fills beyond its size, its fills only grow, and under the
  conservative model every filled share is accounted for by trades that first worked off the
  size displayed ahead: fills plus what the queue lost are at most the volume traded.
\<close>

theorem maker_queue_fills_bounded:
  assumes "0 \<le> mq_displayed_ahead m" "mq_filled m = 0" "0 \<le> mq_simulated_size m"
    and "\<forall>x \<in> set xs. message_ok x"
  shows "0 \<le> mq_filled (fold queue_step xs m)
    \<and> mq_filled (fold queue_step xs m) \<le> mq_simulated_size m
    \<and> (mq_queue_model m = CONSERVATIVE \<longrightarrow>
        mq_filled (fold queue_step xs m)
          + (mq_displayed_ahead m - mq_displayed_ahead (fold queue_step xs m))
          \<le> sum_list (map traded xs))"
  using queue_run [of m xs] assms by (auto simp: queue_ok_def)

theorem maker_queue_fills_bounded_witness:
  "mq_filled (fold queue_step [Trade_seen 30, Decrease_seen 10 50, Trade_seen 40]
     \<lparr>mq_order_id = ''o'', mq_displayed_ahead = 50, mq_simulated_size = 15,
      mq_queue_model = CONSERVATIVE, mq_filled = 0\<rparr>) \<le> 15"
proof -
  have "\<forall>x \<in> set [Trade_seen 30, Decrease_seen 10 50, Trade_seen 40]. message_ok x" by simp
  from maker_queue_fills_bounded [OF _ _ _ this, of "\<lparr>mq_order_id = ''o'', mq_displayed_ahead = 50,
      mq_simulated_size = 15, mq_queue_model = CONSERVATIVE, mq_filled = 0\<rparr>"]
  show ?thesis by simp
qed

end
