(* ===== verification/Engine.thy ===== *)
theory Engine
  imports TimedQueue Reconstructor Execution Replay Metrics
begin

text \<open>
  \<^verbatim>\<open>backtest/engine.py\<close>: the event-driven engine.  Events are merged, applied in groups of
  equal replay time, and the orders that the strategy returns wait in a priority queue for
  their arrival.  The strategy is the record of its callbacks over a state of its own, the
  random generator the record \<open>rng\<close>.  An exception ends the run, so the operations return
  \<open>py_error + engine\<close>.
\<close>

section \<open>Strategy interface (strategy.py)\<close>

record strategy_context =
  ctx_portfolio :: portfolio
  ctx_now_ns :: int
  ctx_books :: "(string \<times> order_book) list"
  ctx_btc_prices :: "(string \<times> btc_price_event) list"

definition ctx_book :: "strategy_context \<Rightarrow> string \<Rightarrow> order_book option" where
  "ctx_book ctx token_id = map_of (ctx_books ctx) token_id"

definition ctx_valid_books :: "strategy_context \<Rightarrow> order_book list" where
  "ctx_valid_books ctx = filter ob_valid (map snd (ctx_books ctx))"

record market_close_event =
  mc_timestamp_ns :: int
  mc_condition_id :: string
  mc_winning_token_id :: string

record 's strategy =
  st_strategy_id :: string
  st_on_start :: "strategy_context \<Rightarrow> 's \<Rightarrow> 's"
  st_on_market_event :: "replay_event \<Rightarrow> strategy_context \<Rightarrow> 's \<Rightarrow> py_error + order_intent list \<times> 's"
  st_on_btc_price :: "btc_price_event \<Rightarrow> strategy_context \<Rightarrow> 's \<Rightarrow> py_error + order_intent list \<times> 's"
  st_on_trade :: "trade_event \<Rightarrow> strategy_context \<Rightarrow> 's \<Rightarrow> py_error + order_intent list \<times> 's"
  st_on_market_close :: "market_close_event \<Rightarrow> strategy_context \<Rightarrow> 's \<Rightarrow> py_error + order_intent list \<times> 's"

section \<open>State\<close>

record backtest_config =
  cf_starting_cash :: dec_literal
  cf_replay_clock :: clock_mode
  cf_reject_on_gap :: bool
  cf_random_seed :: int
  cf_allow_negative_cash :: bool
  cf_allow_short_positions :: bool
  cf_latency :: latency_config
  cf_fee :: fee_config
  cf_fee_version :: string
  cf_maker_queue_model :: queue_model

record market_result =
  mr_condition_id :: string
  mr_winning_token_id :: string
  mr_winning_outcome :: string
  mr_settlement_timestamp_ns :: int
  mr_payout :: int

record ('s, 'r) engine =
  en_now_ns :: int
  en_clock :: "int option"
  en_used_degraded :: "quality_interval list"
  en_portfolio :: portfolio
  en_recon :: reconstructor
  en_btc_prices :: "(string \<times> btc_price_event) list"
  en_rng :: 'r
  en_pending :: "order_intent entry list"
  en_counter :: nat
  en_order_results :: "order_result list"
  en_market_results :: "market_result list"
  en_slippages :: "int list"
  en_resolved :: "string set"
  en_strategy :: 's

text \<open>What a run keeps fixed: configuration, strategy code, generator code, quality intervals.\<close>

record ('s, 'r) engine_env =
  ev_config :: backtest_config
  ev_strategy :: "'s strategy"
  ev_rng :: "'r rng"
  ev_intervals :: "quality_interval list"

definition make_engine :: "('s, 'r) engine_env \<Rightarrow> 's \<Rightarrow> 'r \<Rightarrow> py_error + ('s, 'r) engine" where
  "make_engine env s r =
     res_bind (decimal_to_scaled (cf_starting_cash (ev_config env)) USDC_SCALE) (\<lambda>cash.
       Inr \<lparr>en_now_ns = 0, en_clock = None, en_used_degraded = [],
            en_portfolio = make_portfolio cash (cf_allow_negative_cash (ev_config env))
              (cf_allow_short_positions (ev_config env)),
            en_recon = make_reconstructor, en_btc_prices = [], en_rng = r, en_pending = [],
            en_counter = 0, en_order_results = [], en_market_results = [], en_slippages = [],
            en_resolved = {}, en_strategy = s\<rparr>)"

definition en_context :: "('s, 'r) engine \<Rightarrow> strategy_context" where
  "en_context en =
     \<lparr>ctx_portfolio = en_portfolio en, ctx_now_ns = en_now_ns en,
      ctx_books = rc_books (en_recon en), ctx_btc_prices = en_btc_prices en\<rparr>"

section \<open>Scheduling orders\<close>

definition decision_reference :: "('s, 'r) engine \<Rightarrow> order_intent \<Rightarrow> int option" where
  "decision_reference en i =
     (case rc_book (en_recon en) (oi_token_id i) of
        None \<Rightarrow> None
      | Some b \<Rightarrow> if oi_side i = BUY then best_ask b else best_bid b)"

definition deterministic_intent :: "('s, 'r) engine_env \<Rightarrow> ('s, 'r) engine \<Rightarrow> order_intent \<Rightarrow> order_intent" where
  "deterministic_intent env en i =
     i\<lparr>oi_order_intent_id := Uuid5_intent (st_strategy_id (ev_strategy env))
          (oi_decision_timestamp_ns i) (en_counter en) (oi_token_id i),
       oi_metadata := (case decision_reference en i of
          None \<Rightarrow> oi_metadata i
        | Some p \<Rightarrow> (oi_metadata i)(''decision_reference_price_scaled'' \<mapsto> Meta_int p))\<rparr>"

definition schedule_intent :: "('s, 'r) engine_env \<Rightarrow> order_intent \<Rightarrow> ('s, 'r) engine
    \<Rightarrow> py_error + ('s, 'r) engine" where
  "schedule_intent env i0 en0 =
     (let i = deterministic_intent env en0 i0;
          counter = en_counter en0;
          en = en0\<lparr>en_counter := counter + 1\<rparr>
      in if oi_order_type i = LIMIT_GTC_SIMULATED
         then Inr (en\<lparr>en_order_results := en_order_results en @
                [rejected i ''maker simulation requires explicit queue-event workflow'']\<rparr>)
         else case schedule_arrival (ev_rng env) (cf_latency (ev_config env))
                     (oi_decision_timestamp_ns i) (en_rng en) of
                (Inl e, r) \<Rightarrow> Inl e
              | (Inr arrival, r) \<Rightarrow>
                  Inr (en\<lparr>en_rng := r,
                          en_pending := tq_push ((arrival, counter), i) (en_pending en)\<rparr>))"

fun schedule_all :: "('s, 'r) engine_env \<Rightarrow> order_intent list \<Rightarrow> ('s, 'r) engine
    \<Rightarrow> py_error + ('s, 'r) engine" where
  "schedule_all env [] en = Inr en"
| "schedule_all env (i # is) en = res_bind (schedule_intent env i en) (schedule_all env is)"

section \<open>Executing due orders\<close>

definition order_slippage :: "order_intent \<Rightarrow> simulated_fill list \<Rightarrow> py_error + int list" where
  "order_slippage i fills =
     (if fills = [] then Inr []
      else case oi_metadata i ''decision_reference_price_scaled'' of
        None \<Rightarrow> Inr []
      | Some (Meta_str _) \<Rightarrow> Inl (ValueError ''invalid literal for int()'')
      | Some (Meta_int reference) \<Rightarrow>
          let total_size = sum_list (map sf_size fills) in
          if total_size = 0 then Inl ZeroDivisionError
          else
            let average = sum_list (map (\<lambda>f. sf_price f * sf_size f) fills) div total_size
            in Inr [if oi_side i = BUY then average - reference else reference - average])"

definition execute_order :: "('s, 'r) engine_env \<Rightarrow> int \<Rightarrow> order_intent \<Rightarrow> ('s, 'r) engine
    \<Rightarrow> py_error + ('s, 'r) engine \<times> order_result" where
  "execute_order env arrival i en =
     (if oi_condition_id i \<in> en_resolved en then Inr (en, rejected i ''market already resolved'')
      else case rc_book (en_recon en) (oi_token_id i) of
        None \<Rightarrow> Inr (en, rejected i ''token book unavailable'')
      | Some b \<Rightarrow>
          (case execute_taker (cf_fee (ev_config env)) i arrival b (en_portfolio en) of
             (b', pf', Inl e) \<Rightarrow> Inl e
           | (b', pf', Inr res) \<Rightarrow>
               Inr (en\<lparr>en_portfolio := pf',
                       en_recon := (en_recon en)\<lparr>rc_books :=
                         dict_put (oi_token_id i) b' (rc_books (en_recon en))\<rparr>\<rparr>, res)))"

definition execute_and_record :: "('s, 'r) engine_env \<Rightarrow> int \<Rightarrow> order_intent \<Rightarrow> ('s, 'r) engine
    \<Rightarrow> py_error + ('s, 'r) engine" where
  "execute_and_record env arrival i en =
     res_bind (execute_order env arrival i en) (\<lambda>(en', res).
       res_bind (order_slippage i (or_fills res)) (\<lambda>slip.
         Inr (en'\<lparr>en_order_results := en_order_results en' @ [res],
                  en_slippages := en_slippages en' @ slip\<rparr>)))"

definition order_due :: "int \<Rightarrow> bool \<Rightarrow> order_intent entry \<Rightarrow> bool" where
  "order_due cutoff inclusive x \<longleftrightarrow>
     fst (fst x) < cutoff \<or> (inclusive \<and> fst (fst x) = cutoff)"

lemma execute_order_pending:
  "execute_order env t i en = Inr (en', res) \<Longrightarrow>
     en_pending en' = en_pending en \<and> en_counter en' = en_counter en
     \<and> en_order_results en' = en_order_results en \<and> en_clock en' = en_clock en"
  by (auto simp: execute_order_def split: if_splits option.splits prod.splits sum.splits)

lemma execute_and_record_pending:
  "execute_and_record env t i en = Inr en' \<Longrightarrow>
     en_pending en' = en_pending en \<and> en_counter en' = en_counter en \<and> en_clock en' = en_clock en"
  by (auto simp: execute_and_record_def dest: execute_order_pending)

text \<open>The loop of \<^verbatim>\<open>_execute_pending\<close>; every pass pops the head of the queue.\<close>

function execute_pending :: "('s, 'r) engine_env \<Rightarrow> int \<Rightarrow> bool \<Rightarrow> ('s, 'r) engine
    \<Rightarrow> py_error + ('s, 'r) engine" where
  "execute_pending env cutoff inclusive en =
     (case tq_pop (en_pending en) of
        None \<Rightarrow> Inr en
      | Some (x, rest) \<Rightarrow>
          if order_due cutoff inclusive x then
            res_bind (execute_and_record env (fst (fst x)) (snd x) (en\<lparr>en_pending := rest\<rparr>))
              (\<lambda>en'. execute_pending env cutoff inclusive en')
          else Inr en)"
  by pat_completeness auto
termination
  by (relation "measure (\<lambda>(env, cutoff, inclusive, en). length (en_pending en))")
    (auto dest!: execute_and_record_pending simp: tq_pop_Some)

declare execute_pending.simps [simp del]

section \<open>Applying events\<close>

definition callback :: "('s \<Rightarrow> py_error + order_intent list \<times> 's) \<Rightarrow> ('s, 'r) engine
    \<Rightarrow> py_error + ('s, 'r) engine \<times> order_intent list" where
  "callback f en =
     res_bind (f (en_strategy en)) (\<lambda>(intents, s). Inr (en\<lparr>en_strategy := s\<rparr>, intents))"

definition with_recon :: "reconstructor \<times> (py_error + 'a) \<Rightarrow> ('s, 'r) engine
    \<Rightarrow> py_error + ('s, 'r) engine" where
  "with_recon result en = res_bind (snd result) (\<lambda>_. Inr (en\<lparr>en_recon := fst result\<rparr>))"

definition resolve_market :: "string \<Rightarrow> string \<Rightarrow> string option \<Rightarrow> ('s, 'r) engine \<Rightarrow> ('s, 'r) engine" where
  "resolve_market condition_id winner outcome en =
     (let (pf, payout) = settle_categorical_market (en_portfolio en) condition_id winner (en_now_ns en)
      in en\<lparr>en_portfolio := pf, en_resolved := insert condition_id (en_resolved en),
            en_market_results := en_market_results en @
              [\<lparr>mr_condition_id = condition_id, mr_winning_token_id = winner,
                mr_winning_outcome = (case outcome of None \<Rightarrow> [] | Some u \<Rightarrow> u),
                mr_settlement_timestamp_ns = en_now_ns en, mr_payout = payout\<rparr>]\<rparr>)"

definition apply_event :: "('s, 'r) engine_env \<Rightarrow> replay_event \<Rightarrow> ('s, 'r) engine
    \<Rightarrow> py_error + ('s, 'r) engine \<times> order_intent list" where
  "apply_event env e en0 =
     res_bind (event_timestamp (cf_replay_clock (ev_config env)) e) (\<lambda>now.
       let en = en0\<lparr>en_now_ns := now\<rparr>;
           st = ev_strategy env;
           market = (\<lambda>en. callback (st_on_market_event st e (en_context en)) en)
       in case re_payload e of
            Book_snapshot s \<Rightarrow> res_bind (with_recon (apply_snapshot s (en_recon en)) en) market
          | Book_update c \<Rightarrow> res_bind (with_recon (apply_change c (en_recon en)) en) market
          | Tick_size_change c \<Rightarrow>
              res_bind (with_recon (apply_tick_size_change c (en_recon en)) en) market
          | Btc_price p \<Rightarrow>
              let en' = en\<lparr>en_btc_prices := dict_put (bp_source p) p (en_btc_prices en)\<rparr>
              in callback (st_on_btc_price st p (en_context en')) en'
          | Trade t \<Rightarrow> callback (st_on_trade st t (en_context en)) en
          | Market_resolution condition_id winner outcome \<Rightarrow>
              let en' = resolve_market condition_id winner outcome en
              in callback (st_on_market_close st
                   \<lparr>mc_timestamp_ns = en_now_ns en', mc_condition_id = condition_id,
                    mc_winning_token_id = winner\<rparr> (en_context en')) en'
          | Other_payload _ \<Rightarrow> Inr (en, []))"

text \<open>The body of the event loop: integrity, clock, the event itself, and its orders.\<close>

definition process_event :: "('s, 'r) engine_env \<Rightarrow> replay_event \<Rightarrow> ('s, 'r) engine
    \<Rightarrow> py_error + ('s, 'r) engine" where
  "process_event env e en =
     (case integrity_check (cf_reject_on_gap (ev_config env)) (ev_intervals env)
             (re_received_utc_ns e) (en_used_degraded en) of
        (used, Inl err) \<Rightarrow> Inl err
      | (used, Inr _) \<Rightarrow>
          res_bind (clock_advance (cf_replay_clock (ev_config env)) e (en_clock en)) (\<lambda>clock.
            res_bind (apply_event env e (en\<lparr>en_used_degraded := used, en_clock := clock\<rparr>))
              (\<lambda>(en', intents). schedule_all env intents en')))"

fun process_events :: "('s, 'r) engine_env \<Rightarrow> replay_event list \<Rightarrow> ('s, 'r) engine
    \<Rightarrow> py_error + ('s, 'r) engine" where
  "process_events env [] en = Inr en"
| "process_events env (e # es) en = res_bind (process_event env e en) (process_events env es)"

section \<open>The run\<close>

text \<open>
  The outer loop of \<^verbatim>\<open>run\<close>, one group of equal replay time per pass.  Every event of the merged
  list has its timestamp, so a failing \<^verbatim>\<open>timestamp\<close> is the error of the pass.
\<close>

definition same_time :: "clock_mode \<Rightarrow> int \<Rightarrow> replay_event \<Rightarrow> bool" where
  "same_time mode t e \<longleftrightarrow> event_timestamp mode e = Inr t"

function run_groups :: "('s, 'r) engine_env \<Rightarrow> replay_event list \<Rightarrow> ('s, 'r) engine
    \<Rightarrow> py_error + ('s, 'r) engine" where
  "run_groups env [] en = Inr en"
| "run_groups env (e # es) en =
     res_bind (event_timestamp (cf_replay_clock (ev_config env)) e) (\<lambda>t.
       let group = takeWhile (same_time (cf_replay_clock (ev_config env)) t) (e # es);
           rest = dropWhile (same_time (cf_replay_clock (ev_config env)) t) es
       in res_bind (execute_pending env t False en) (\<lambda>en1.
            res_bind (process_events env group en1) (\<lambda>en2.
              res_bind (execute_pending env t True en2) (\<lambda>en3.
                run_groups env rest en3))))"
  by pat_completeness auto
termination
  by (relation "measure (\<lambda>(env, es, en). length es)") (auto simp: less_Suc_eq_le length_dropWhile_le)

text \<open>Induction over a successful run of the loop.\<close>

lemma execute_pending_induct [consumes 1, case_names stop step]:
  assumes "execute_pending env c incl en = Inr en'"
    and "\<And>en. (\<And>x rest. en_pending en = x # rest \<Longrightarrow> \<not> order_due c incl x) \<Longrightarrow> P en en"
    and "\<And>en x rest en1 en'. en_pending en = x # rest \<Longrightarrow> order_due c incl x \<Longrightarrow>
      execute_and_record env (fst (fst x)) (snd x) (en\<lparr>en_pending := rest\<rparr>) = Inr en1 \<Longrightarrow>
      en_pending en1 = rest \<Longrightarrow> P en1 en' \<Longrightarrow> P en en'"
  shows "P en en'"
  using assms(1)
proof (induction "length (en_pending en)" arbitrary: en rule: less_induct)
  case less
  note run = less.prems [unfolded execute_pending.simps [of env c incl en]]
  show ?case
  proof (cases "en_pending en")
    case Nil
    with run have "en' = en" by simp
    with Nil show ?thesis using assms(2) [of en] by simp
  next
    case (Cons x rest)
    show ?thesis
    proof (cases "order_due c incl x")
      case True
      with run Cons obtain en1 where
        1: "execute_and_record env (fst (fst x)) (snd x) (en\<lparr>en_pending := rest\<rparr>) = Inr en1"
           "execute_pending env c incl en1 = Inr en'"
        by (auto split: sum.splits)
      then have "en_pending en1 = rest" by (auto dest: execute_and_record_pending)
      with less.hyps [of en1] 1 Cons True show ?thesis using assms(3) by simp
    next
      case False
      with run Cons have "en' = en" by simp
      with False Cons show ?thesis using assms(2) [of en] by simp
    qed
  qed
qed

lemma execute_pending_shrinks:
  "execute_pending env c incl en = Inr en' \<Longrightarrow> length (en_pending en') \<le> length (en_pending en)"
  by (induction rule: execute_pending_induct) auto

lemma execute_pending_pops_head:
  assumes "tq_pop (en_pending en) = Some (x, rest)" "execute_pending env (fst (fst x)) True en = Inr en'"
  shows "length (en_pending en') < length (en_pending en)"
proof -
  from assms obtain en1 where
    "execute_and_record env (fst (fst x)) (snd x) (en\<lparr>en_pending := rest\<rparr>) = Inr en1"
    "execute_pending env (fst (fst x)) True en1 = Inr en'"
    by (subst (asm) execute_pending.simps) (auto simp: order_due_def split: sum.splits)
  then show ?thesis
    using execute_pending_shrinks [of env "fst (fst x)" True en1 en'] assms(1)
    by (auto dest!: execute_and_record_pending simp: tq_pop_Some)
qed

text \<open>The loop after the last event: the remaining orders run in order of arrival.\<close>

function drain_pending :: "('s, 'r) engine_env \<Rightarrow> ('s, 'r) engine \<Rightarrow> py_error + ('s, 'r) engine" where
  "drain_pending env en =
     (case tq_pop (en_pending en) of
        None \<Rightarrow> Inr en
      | Some (x, _) \<Rightarrow>
          res_bind (execute_pending env (fst (fst x)) True en) (\<lambda>en'. drain_pending env en'))"
  by pat_completeness auto
termination
  by (relation "measure (\<lambda>(env, en). length (en_pending en))") (auto intro: execute_pending_pops_head)

declare drain_pending.simps [simp del]

lemma drain_pending_induct [consumes 1, case_names stop step]:
  assumes "drain_pending env en = Inr en'"
    and "\<And>en. en_pending en = [] \<Longrightarrow> P en en"
    and "\<And>en x rest en1 en'. en_pending en = x # rest \<Longrightarrow>
      execute_pending env (fst (fst x)) True en = Inr en1 \<Longrightarrow> P en1 en' \<Longrightarrow> P en en'"
  shows "P en en'"
  using assms(1)
proof (induction "length (en_pending en)" arbitrary: en rule: less_induct)
  case less
  note run = less.prems [unfolded drain_pending.simps [of env en]]
  show ?case
  proof (cases "en_pending en")
    case Nil
    with run have "en' = en" by simp
    with Nil show ?thesis using assms(2) [of en] by simp
  next
    case (Cons x rest)
    with run obtain en1 where
      1: "execute_pending env (fst (fst x)) True en = Inr en1" "drain_pending env en1 = Inr en'"
      by auto
    have "length (en_pending en1) < length (en_pending en)"
      using execute_pending_pops_head [OF _ 1(1)] Cons by simp
    with less.hyps [of en1] 1 Cons show ?thesis using assms(3) by blast
  qed
qed

definition midpoint_prices :: "('s, 'r) engine \<Rightarrow> string \<rightharpoonup> int" where
  "midpoint_prices en t =
     (case rc_book (en_recon en) t of None \<Rightarrow> None | Some b \<Rightarrow> tb_midpoint (ob_top b))"

definition run_events :: "('s, 'r) engine_env \<Rightarrow> replay_event list \<Rightarrow> ('s, 'r) engine
    \<Rightarrow> py_error + ('s, 'r) engine" where
  "run_events env events en =
     res_bind (merge_events (cf_replay_clock (ev_config env)) events) (\<lambda>ordered.
       res_bind (run_groups env ordered
           (en\<lparr>en_strategy := st_on_start (ev_strategy env) (en_context en) (en_strategy en)\<rparr>)) (\<lambda>en1.
         res_bind (drain_pending env en1) (\<lambda>en2.
           Inr (en2\<lparr>en_portfolio := fst (mark_to_market (midpoint_prices en2) (en_portfolio en2))\<rparr>))))"

section \<open>The summary\<close>

text \<open>
  The run identifier is the \<^verbatim>\<open>uuid5\<close> of the fingerprint, kept as the fingerprint itself.  The
  version strings of the reproducibility block are constants and left out.
\<close>

record run_fingerprint =
  fp_strategy :: string
  fp_seed :: int
  fp_clock :: clock_mode
  fp_event_count :: nat
  fp_first_sequence :: int
  fp_last_sequence :: int

record backtest_summary =
  su_run_id :: run_fingerprint
  su_strategy_id :: string
  su_starting_capital :: int
  su_ending_capital :: int
  su_net_pnl :: int
  su_gross_pnl :: int
  su_fees :: int
  su_order_intents :: nat
  su_accepted_orders :: nat
  su_rejected_orders :: nat
  su_fills :: nat
  su_partial_fills :: nat
  su_share_volume :: int
  su_notional_volume :: int
  su_maximum_drawdown :: int
  su_average_slippage :: "int option"
  su_fill_ratio_ppm :: int
  su_degraded_time_ppm :: int
  su_markets :: nat
  su_skipped_markets :: nat
  su_slippage_p50 :: int
  su_slippage_p95 :: int

definition fingerprint :: "('s, 'r) engine_env \<Rightarrow> replay_event list \<Rightarrow> run_fingerprint" where
  "fingerprint env events =
     \<lparr>fp_strategy = st_strategy_id (ev_strategy env), fp_seed = cf_random_seed (ev_config env),
      fp_clock = cf_replay_clock (ev_config env), fp_event_count = length events,
      fp_first_sequence = (case map re_sequence events of [] \<Rightarrow> 0 | x # xs \<Rightarrow> fold min xs x),
      fp_last_sequence = (case map re_sequence events of [] \<Rightarrow> 0 | x # xs \<Rightarrow> fold max xs x)\<rparr>"

definition summarize_run :: "('s, 'r) engine_env \<Rightarrow> replay_event list \<Rightarrow> replay_event list
    \<Rightarrow> ('s, 'r) engine \<Rightarrow> backtest_summary" where
  "summarize_run env events ordered en =
     (let pf = en_portfolio en;
          results = en_order_results en;
          ending = equity_scaled (midpoint_prices en) pf;
          fills = concat (map or_fills results);
          requested = sum_list (map (\<lambda>r. or_zero (oi_requested_shares (or_intent r))) results);
          filled = sum_list (map sf_size fills)
      in \<lparr>su_run_id = fingerprint env events, su_strategy_id = st_strategy_id (ev_strategy env),
          su_starting_capital = pf_starting_cash pf, su_ending_capital = ending,
          su_net_pnl = ending - pf_starting_cash pf,
          su_gross_pnl = ending - pf_starting_cash pf + pf_fees_paid pf,
          su_fees = pf_fees_paid pf, su_order_intents = length results,
          su_accepted_orders = length (filter (\<lambda>r. or_status r = Filled \<or> or_status r = Partial) results),
          su_rejected_orders = length (filter (\<lambda>r. or_status r = Rejected) results),
          su_fills = length fills,
          su_partial_fills = length (filter (\<lambda>r. or_status r = Partial) results),
          su_share_volume = filled, su_notional_volume = sum_list (map sf_notional fills),
          su_maximum_drawdown =
            maximum_drawdown (pf_starting_cash pf # map pe_cash (pf_events pf)),
          su_average_slippage = (if en_slippages en = [] then None
            else Some (sum_list (en_slippages en) div int (length (en_slippages en)))),
          su_fill_ratio_ppm = (if requested = 0 then 0 else filled * 1000000 div requested),
          su_degraded_time_ppm = degraded_time_ppm ordered (en_used_degraded en),
          su_markets = length (remdups (map (ob_condition_id \<circ> snd) (rc_books (en_recon en)))),
          su_skipped_markets = 0,
          su_slippage_p50 = or_zero (percentile (en_slippages en) fl_p50),
          su_slippage_p95 = or_zero (percentile (en_slippages en) fl_p95)\<rparr>)"

definition engine_run :: "('s, 'r) engine_env \<Rightarrow> replay_event list \<Rightarrow> ('s, 'r) engine
    \<Rightarrow> py_error + ('s, 'r) engine \<times> backtest_summary" where
  "engine_run env events en =
     res_bind (merge_events (cf_replay_clock (ev_config env)) events) (\<lambda>ordered.
       res_bind (run_events env events en) (\<lambda>en'.
         Inr (en', summarize_run env events ordered en')))"

end
