(* ===== verification/Strategies.thy ===== *)
theory Strategies
  imports Engine
begin

text \<open>
  The engine strategies of \<^verbatim>\<open>strategies/no_op.py\<close> and \<^verbatim>\<open>strategies/example_threshold.py\<close>, as
  records of callbacks.  Their \<^verbatim>\<open>on_timer\<close> is never called by the engine.
\<close>

section \<open>No-op (no_op.py)\<close>

definition no_op_strategy :: "unit strategy" where
  "no_op_strategy =
     \<lparr>st_strategy_id = ''no_op-v1'', st_on_start = (\<lambda>_ s. s),
      st_on_market_event = (\<lambda>_ _ s. Inr ([], s)), st_on_btc_price = (\<lambda>_ _ s. Inr ([], s)),
      st_on_trade = (\<lambda>_ _ s. Inr ([], s)), st_on_market_close = (\<lambda>_ _ s. Inr ([], s))\<rparr>"

section \<open>Example threshold (example_threshold.py)\<close>

record example_threshold =
  et_threshold_ppm :: int
  et_shares_scaled :: int
  et_previous_by_source :: "string \<rightharpoonup> int"
  et_traded_conditions :: "string set"

definition make_example_threshold :: "int \<Rightarrow> int \<Rightarrow> example_threshold" where
  "make_example_threshold threshold_ppm shares_scaled =
     \<lparr>et_threshold_ppm = threshold_ppm, et_shares_scaled = shares_scaled,
      et_previous_by_source = Map.empty, et_traded_conditions = {}\<rparr>"

definition example_threshold_id :: string where
  "example_threshold_id = ''example_threshold-v1-nonproduction''"

text \<open>\<^verbatim>\<open>sorted(candidates, key=condition_id)[0]\<close>: the first book with the least condition.\<close>

definition et_candidates :: "example_threshold \<Rightarrow> string \<Rightarrow> strategy_context \<Rightarrow> order_book list" where
  "et_candidates s target ctx =
     sort_key ob_condition_id
       (filter (\<lambda>b. ob_outcome b = target \<and> ob_condition_id b \<notin> et_traded_conditions s)
         (ctx_valid_books ctx))"

definition et_intent :: "example_threshold \<Rightarrow> order_book \<Rightarrow> string \<Rightarrow> int \<Rightarrow> int \<Rightarrow> order_intent" where
  "et_intent s b source change_ppm now =
     \<lparr>oi_order_intent_id = Given_id ''uuid4'', oi_strategy_id = example_threshold_id,
      oi_decision_timestamp_ns = now, oi_token_id = ob_token_id b,
      oi_condition_id = ob_condition_id b, oi_outcome = ob_outcome b, oi_side = BUY,
      oi_order_type = MARKETABLE_TAKER, oi_limit_price = None,
      oi_requested_shares = Some (et_shares_scaled s), oi_requested_notional = None,
      oi_time_in_force = ''IOC'',
      oi_metadata = [''demonstration_only'' \<mapsto> Meta_str ''true'', ''btc_source'' \<mapsto> Meta_str source,
        ''change_ppm'' \<mapsto> Meta_int change_ppm]\<rparr>"

definition et_on_btc_price :: "btc_price_event \<Rightarrow> strategy_context \<Rightarrow> example_threshold
    \<Rightarrow> py_error + order_intent list \<times> example_threshold" where
  "et_on_btc_price p ctx s0 =
     (let previous = et_previous_by_source s0 (bp_source p);
          s = s0\<lparr>et_previous_by_source := (et_previous_by_source s0)(bp_source p \<mapsto> bp_price_scaled p)\<rparr>
      in case previous of
           None \<Rightarrow> Inr ([], s)
         | Some old \<Rightarrow>
             if old = 0 then Inr ([], s)
             else
               let change_ppm = (bp_price_scaled p - old) * 1000000 div old in
               if \<bar>change_ppm\<bar> < et_threshold_ppm s then Inr ([], s)
               else
                 let target = (if 0 < change_ppm then ''UP'' else ''DOWN'')
                 in case et_candidates s target ctx of
                      [] \<Rightarrow> Inr ([], s)
                    | b # _ \<Rightarrow>
                        Inr ([et_intent s b (bp_source p) change_ppm (ctx_now_ns ctx)],
                          s\<lparr>et_traded_conditions := insert (ob_condition_id b) (et_traded_conditions s)\<rparr>))"

definition example_threshold_strategy :: "example_threshold strategy" where
  "example_threshold_strategy =
     \<lparr>st_strategy_id = example_threshold_id, st_on_start = (\<lambda>_ s. s),
      st_on_market_event = (\<lambda>_ _ s. Inr ([], s)), st_on_btc_price = et_on_btc_price,
      st_on_trade = (\<lambda>_ _ s. Inr ([], s)), st_on_market_close = (\<lambda>_ _ s. Inr ([], s))\<rparr>"

text \<open>The strategy trades a condition at most once.\<close>

lemma et_candidates_head:
  assumes "et_candidates s target ctx = b # bs"
  shows "ob_condition_id b \<notin> et_traded_conditions s \<and> ob_valid b \<and> ob_outcome b = target"
proof -
  have "b \<in> set (et_candidates s target ctx)" using assms by simp
  then show ?thesis by (auto simp: et_candidates_def ctx_valid_books_def)
qed

lemma et_trades_once:
  "et_on_btc_price p ctx s = Inr (is, s') \<Longrightarrow>
     et_traded_conditions s \<subseteq> et_traded_conditions s'
     \<and> (\<forall>i \<in> set is. oi_condition_id i \<notin> et_traded_conditions s
          \<and> oi_condition_id i \<in> et_traded_conditions s' \<and> oi_decision_timestamp_ns i = ctx_now_ns ctx)"
  by (auto simp: et_on_btc_price_def et_intent_def Let_def dest!: et_candidates_head
      split: option.splits if_splits list.splits)

end
