(* ===== verification/EngineFacts.thy ===== *)
theory EngineFacts
  imports Strategies
begin

text \<open>
  What a run of the engine keeps: every order gets one result, the portfolio and the books stay
  ones that their own operations reach, due orders run in order of arrival, and fills happen in
  time order and not before the decision they carry out.
\<close>

section \<open>The ledger of a run\<close>

definition run_fills :: "('s, 'r) engine \<Rightarrow> simulated_fill list" where
  "run_fills en = concat (map or_fills (en_order_results en))"

text \<open>What a fill does to cash.\<close>

definition fill_cash :: "simulated_fill \<Rightarrow> int" where
  "fill_cash f = (if sf_side f = BUY then - (sf_notional f + sf_fee f) else sf_notional f - sf_fee f)"

text \<open>A portfolio that has booked exactly these fills and these settlements.\<close>

definition run_ledger :: "simulated_fill list \<Rightarrow> market_result list \<Rightarrow> portfolio \<Rightarrow> bool" where
  "run_ledger fs ms pf \<longleftrightarrow>
     pf_available_cash pf = pf_starting_cash pf + sum_list (map fill_cash fs) + sum_list (map mr_payout ms)
     \<and> pf_fees_paid pf = sum_list (map sf_fee fs)
     \<and> reachable_portfolio pf (sum_list (map buy_fee fs))"

lemma apply_fill_books:
  assumes "apply_fill f u pf = (pf', Inr ())"
  shows "pf_available_cash pf' = pf_available_cash pf + fill_cash f \<and> pf_fees_paid pf' = pf_fees_paid pf + sf_fee f
    \<and> pf_starting_cash pf' = pf_starting_cash pf"
proof -
  obtain pf1 p where op: "open_position f u pf = (pf1, p)" by (meson surj_pair)
  then have "pf_available_cash pf1 = pf_available_cash pf" "pf_fees_paid pf1 = pf_fees_paid pf"
    "pf_starting_cash pf1 = pf_starting_cash pf"
    by (auto simp: open_position_def Let_def split: option.splits)
  with assms op show ?thesis
    by (auto simp: apply_fill_def Let_def record_fill_def fill_cash_def split: if_splits)
qed

lemma apply_plan_books:
  "apply_plan cfg i t plan b pf = (b', pf', Inr fs) \<Longrightarrow>
     pf_available_cash pf' = pf_available_cash pf + sum_list (map fill_cash fs)
     \<and> pf_fees_paid pf' = pf_fees_paid pf + sum_list (map sf_fee fs)
     \<and> pf_starting_cash pf' = pf_starting_cash pf"
proof (induction plan arbitrary: b pf fs)
  case (Cons pl plan)
  from Cons.prems obtain pf1 gs where "apply_fill (fill_of cfg i t b pl) (oi_outcome i) pf = (pf1, Inr ())"
    "apply_plan cfg i t plan (consume (opposite (oi_side i)) (pl_price pl) (pl_size pl) b) pf1 = (b', pf', Inr gs)"
    "fs = fill_of cfg i t b pl # gs"
    by (auto simp: Let_def split: prod.splits sum.splits)
  with apply_fill_books Cons.IH show ?case by fastforce
qed simp

lemma execute_taker_ledger:
  assumes "reachable_book b" "fee_config_ok cfg" "run_ledger fs ms pf"
    "execute_taker cfg i t b pf = (b', pf', Inr res)"
  shows "run_ledger (fs @ or_fills res) ms pf'"
  using execute_taker_cases [OF assms(1,2,4)]
proof (elim disjE exE conjE)
  fix reason assume "Inr res = (Inr (rejected i reason) :: py_error + _)" "pf' = pf"
  with assms(3) show ?thesis by (simp add: rejected_def)
next
  fix res'
  assume res: "Inr res = (Inr res' :: py_error + _)" "or_fills res' = plan_fills cfg i t b (order_plan i b)"
    "plan_funded cfg i (order_plan i b) pf"
    "apply_plan cfg i t (order_plan i b) b pf = (b', pf', Inr (or_fills res'))"
  from apply_plan_funded [OF assms(2) res(3), of t b "sum_list (map buy_fee fs)"] res(2,4) assms(3)
  have "reachable_portfolio pf' (sum_list (map buy_fee fs) + sum_list (map buy_fee (or_fills res')))"
    by (auto simp: run_ledger_def)
  with apply_plan_books [OF res(4)] assms(3) res(1) show ?thesis by (simp add: run_ledger_def)
qed

section \<open>The invariant of the state\<close>

definition engine_books :: "simulated_fill list \<Rightarrow> ('s, 'r) engine \<Rightarrow> bool" where
  "engine_books fs en \<longleftrightarrow> tq_inv (en_pending en)
     \<and> length (en_order_results en) + length (en_pending en) = en_counter en
     \<and> run_ledger fs (en_market_results en) (en_portfolio en) \<and> rc_inv (en_recon en)"

definition engine_inv :: "('s, 'r) engine \<Rightarrow> bool" where
  "engine_inv en \<longleftrightarrow> engine_books (run_fills en) en"

lemmas engine_inv_defs = engine_inv_def engine_books_def run_fills_def

definition env_ok :: "('s, 'r) engine_env \<Rightarrow> bool" where
  "env_ok env \<longleftrightarrow> fee_config_ok (cf_fee (ev_config env))"

lemma engine_inv_make: "make_engine env s r = Inr en \<Longrightarrow> engine_inv en"
  using reachable_portfolio.start
  by (auto simp: make_engine_def engine_inv_defs rc_inv_make run_ledger_def make_portfolio_def)

lemma engine_inv_schedule:
  "engine_inv en \<Longrightarrow> schedule_intent env i en = Inr en' \<Longrightarrow> engine_inv en'"
  by (auto simp: schedule_intent_def Let_def engine_inv_defs tq_inv_push
      split: if_splits prod.splits sum.splits)

lemma engine_inv_schedule_all:
  "engine_inv en \<Longrightarrow> schedule_all env is en = Inr en' \<Longrightarrow> engine_inv en'"
  by (induction "is" arbitrary: en) (auto dest: engine_inv_schedule)

text \<open>Executing one order, with the queue already popped.\<close>

lemma execute_order_inv:
  assumes "env_ok env" "engine_inv en"
  shows "\<exists>en' res. execute_order env t i en = Inr (en', res)
    \<and> engine_books (run_fills en @ or_fills res) en' \<and> en_pending en' = en_pending en
    \<and> en_order_results en' = en_order_results en
    \<and> (\<forall>f \<in> set (or_fills res). sf_fill_time_ns f = t \<and> 0 < sf_size f
         \<and> sf_decision_time_ns f = oi_decision_timestamp_ns i)"
proof (cases "oi_condition_id i \<in> en_resolved en \<or> rc_book (en_recon en) (oi_token_id i) = None")
  case True
  then show ?thesis
    using assms(2) by (auto simp: execute_order_def engine_inv_def rejected_def split: option.splits)
next
  case False
  then obtain b where b: "rc_book (en_recon en) (oi_token_id i) = Some b"
    and live: "oi_condition_id i \<notin> en_resolved en" by auto
  have rc: "rc_inv (en_recon en)" and ledger: "run_ledger (run_fills en) (en_market_results en) (en_portfolio en)"
    using assms(2) by (simp_all add: engine_inv_def engine_books_def)
  then have pf: "reachable_portfolio (en_portfolio en) (sum_list (map buy_fee (run_fills en)))"
    by (simp add: run_ledger_def)
  have fee: "fee_config_ok (cf_fee (ev_config env))" using assms(1) by (simp add: env_ok_def)
  have book: "reachable_book b" "ob_token_id b = oi_token_id i" using rc_bookD [OF rc b] by auto
  obtain b' pf' r where run: "execute_taker (cf_fee (ev_config env)) i t b (en_portfolio en) = (b', pf', r)"
    by (metis prod_cases3)
  obtain res where res: "r = Inr res" "reachable_book b'" "ob_token_id b' = oi_token_id i"
    "\<forall>f \<in> set (or_fills res). sf_fill_time_ns f = t \<and> 0 < sf_size f
         \<and> sf_decision_time_ns f = oi_decision_timestamp_ns i"
    using execute_taker_facts [OF book(1) fee pf run] book(2) by auto
  have "rc_inv ((en_recon en)\<lparr>rc_books := dict_put (oi_token_id i) b' (rc_books (en_recon en))\<rparr>)"
    by (rule rc_inv_put [OF rc res(2,3)])
  with b live run res assms(2) execute_taker_ledger [OF book(1) fee ledger run [unfolded res(1)]] show ?thesis
    by (auto simp: execute_order_def engine_inv_def engine_books_def)
qed

lemma execute_order_market_results:
  "execute_order env t i en = Inr (en', res) \<Longrightarrow> en_market_results en' = en_market_results en"
  by (auto simp: execute_order_def split: if_splits option.splits prod.splits sum.splits)

lemma execute_and_record_inv:
  assumes "env_ok env" "engine_inv (en\<lparr>en_pending := rest\<rparr>\<lparr>en_counter := n\<rparr>)"
    "execute_and_record env t i (en\<lparr>en_pending := rest\<rparr>) = Inr en'" "en_counter en = Suc n"
  shows "engine_inv en'
    \<and> (\<exists>res. en_order_results en' = en_order_results en @ [res] \<and>
        (\<forall>f \<in> set (or_fills res). sf_fill_time_ns f = t \<and> 0 < sf_size f
         \<and> sf_decision_time_ns f = oi_decision_timestamp_ns i))"
proof -
  have irrelevant: "execute_order env t i (en\<lparr>en_pending := rest\<rparr>\<lparr>en_counter := n\<rparr>)
      = (case execute_order env t i (en\<lparr>en_pending := rest\<rparr>) of
           Inl e \<Rightarrow> Inl e | Inr (en1, res) \<Rightarrow> Inr (en1\<lparr>en_counter := n\<rparr>, res))"
    by (auto simp: execute_order_def split: option.splits prod.splits sum.splits)
  obtain en1 res where ex: "execute_order env t i (en\<lparr>en_pending := rest\<rparr>) = Inr (en1, res)"
    and facts: "engine_books (run_fills en @ or_fills res) (en1\<lparr>en_counter := n\<rparr>)" "en_pending en1 = rest"
      "en_order_results en1 = en_order_results en"
      "\<forall>f \<in> set (or_fills res). sf_fill_time_ns f = t \<and> 0 < sf_size f
         \<and> sf_decision_time_ns f = oi_decision_timestamp_ns i"
    using execute_order_inv [OF assms(1,2), of t i] irrelevant
    by (auto simp: run_fills_def split: sum.splits)
  from ex assms(3) have en': "en_order_results en' = en_order_results en1 @ [res]"
    "en_pending en' = en_pending en1" "en_counter en' = Suc n" "en_portfolio en' = en_portfolio en1"
    "en_recon en' = en_recon en1" "en_market_results en' = en_market_results en1"
    using assms(4) by (auto simp: execute_and_record_def dest: execute_order_pending)
  have "run_fills en' = run_fills en @ or_fills res" using en'(1) facts(3) by (simp add: run_fills_def)
  with facts en' show ?thesis by (auto simp: engine_inv_def engine_books_def)
qed

lemma engine_inv_pop:
  assumes "env_ok env" "engine_inv en" "en_pending en = x # rest"
    "execute_and_record env t i (en\<lparr>en_pending := rest\<rparr>) = Inr en'"
  shows "engine_inv en'
    \<and> (\<exists>res. en_order_results en' = en_order_results en @ [res] \<and>
        (\<forall>f \<in> set (or_fills res). sf_fill_time_ns f = t \<and> 0 < sf_size f
         \<and> sf_decision_time_ns f = oi_decision_timestamp_ns i))"
proof -
  have "engine_inv (en\<lparr>en_pending := rest\<rparr>\<lparr>en_counter := en_counter en - 1\<rparr>)"
    "en_counter en = Suc (en_counter en - 1)"
    using assms(2,3) by (auto simp: engine_inv_defs)
  from execute_and_record_inv [OF assms(1) this(1) assms(4) this(2)] show ?thesis .
qed

text \<open>On a sound state a due order is always executed: the queue loop cannot raise.\<close>

lemma engine_inv_pending:
  "execute_pending env c incl en = Inr en' \<Longrightarrow> env_ok env \<Longrightarrow> engine_inv en \<Longrightarrow> engine_inv en'"
  by (induction rule: execute_pending_induct) (auto dest: engine_inv_pop)

lemma engine_inv_drain:
  "drain_pending env en = Inr en' \<Longrightarrow> env_ok env \<Longrightarrow> engine_inv en \<Longrightarrow>
     engine_inv en' \<and> en_pending en' = []"
  by (induction rule: drain_pending_induct) (auto dest: engine_inv_pending)

lemma engine_inv_frame [simp]:
  "engine_inv (en\<lparr>en_strategy := s\<rparr>) = engine_inv en"
  "engine_inv (en\<lparr>en_btc_prices := p\<rparr>) = engine_inv en"
  "engine_inv (en\<lparr>en_now_ns := t\<rparr>) = engine_inv en"
  "engine_inv (en\<lparr>en_used_degraded := u\<rparr>) = engine_inv en"
  "engine_inv (en\<lparr>en_clock := c\<rparr>) = engine_inv en"
  by (simp_all add: engine_inv_defs)

lemma engine_inv_recon:
  "engine_inv en \<Longrightarrow> rc_inv (fst result) \<Longrightarrow> with_recon result en = Inr en' \<Longrightarrow> engine_inv en'"
  by (auto simp: with_recon_def engine_inv_defs)

lemma settle_market_ledger:
  assumes "run_ledger fs ms pf" "settle_market c w t pf = (pf', payout)" "mr_payout m = payout"
  shows "run_ledger fs (ms @ [m]) pf'"
proof -
  have "reachable_portfolio pf' (sum_list (map buy_fee fs))"
    using reachable_portfolio.settled [of pf "sum_list (map buy_fee fs)" c w t] assms(1,2)
    by (simp add: run_ledger_def)
  moreover have "pf_available_cash pf' = pf_available_cash pf + payout" "pf_fees_paid pf' = pf_fees_paid pf"
    "pf_starting_cash pf' = pf_starting_cash pf"
    using assms(2) by (auto simp: settle_market_def Let_def split: prod.splits)
  ultimately show ?thesis using assms(1,3) by (simp add: run_ledger_def)
qed

lemma engine_inv_resolve:
  assumes "engine_inv en"
  shows "engine_inv (resolve_market c w u en)"
proof -
  obtain pf payout where "settle_market c w (en_now_ns en) (en_portfolio en) = (pf, payout)" by (meson surj_pair)
  with assms settle_market_ledger [OF _ this] show ?thesis
    by (auto simp: resolve_market_def engine_inv_defs settle_categorical_market_def)
qed

lemma callback_Inr: "callback f en = Inr (en', is) \<Longrightarrow>
  \<exists>s. en' = en\<lparr>en_strategy := s\<rparr> \<and> f (en_strategy en) = Inr (is, s)"
  by (auto simp: callback_def)

lemma engine_inv_apply_event:
  assumes "engine_inv en" "apply_event env e en = Inr (en', is)"
  shows "engine_inv en'"
proof -
  have rc: "rc_inv (en_recon en)" using assms(1) by (simp add: engine_inv_defs)
  show ?thesis
    using assms rc_inv_snapshot [OF rc] rc_inv_change [OF rc] rc_inv_tick [OF rc]
    by (cases "re_payload e")
      (auto simp: apply_event_def Let_def dest!: callback_Inr intro!: engine_inv_resolve
        elim!: engine_inv_recon [rotated 2])
qed

lemma engine_inv_process:
  "engine_inv en \<Longrightarrow> process_event env e en = Inr en' \<Longrightarrow> engine_inv en'"
  by (auto simp: process_event_def split: prod.splits sum.splits
      dest: engine_inv_apply_event [rotated] engine_inv_schedule_all)

lemma engine_inv_events:
  "engine_inv en \<Longrightarrow> process_events env es en = Inr en' \<Longrightarrow> engine_inv en'"
  by (induction es arbitrary: en) (auto dest: engine_inv_process)

lemma engine_inv_groups:
  "run_groups env es en = Inr en' \<Longrightarrow> env_ok env \<Longrightarrow> engine_inv en \<Longrightarrow> engine_inv en'"
proof (induction env es en rule: run_groups.induct)
  case (2 env e es en)
  let ?mode = "cf_replay_clock (ev_config env)"
  from "2.prems"(1) obtain t en1 en2 en3 where
    t: "event_timestamp ?mode e = Inr t" and
    1: "execute_pending env t False en = Inr en1" and
    2: "process_events env (takeWhile (same_time ?mode t) (e # es)) en1 = Inr en2" and
    3: "execute_pending env t True en2 = Inr en3" and
    4: "run_groups env (dropWhile (same_time ?mode t) es) en3 = Inr en'"
    by (auto simp: Let_def simp del: takeWhile.simps)
  have "engine_inv en3"
    using engine_inv_pending [OF 1] engine_inv_events [OF _ 2] engine_inv_pending [OF 3] "2.prems" by blast
  with "2.IH" [OF t refl refl 1 2 3 4] "2.prems"(2) show ?case by blast
qed simp

lemma engine_inv_run:
  assumes "run_events env events en = Inr en'" "env_ok env" "engine_inv en"
  shows "engine_inv en' \<and> en_pending en' = []"
proof -
  from assms(1) obtain ordered en1 en2 where
    "run_groups env ordered (en\<lparr>en_strategy := st_on_start (ev_strategy env) (en_context en) (en_strategy en)\<rparr>) = Inr en1"
    and d: "drain_pending env en1 = Inr en2"
    and en': "en' = en2\<lparr>en_portfolio := fst (mark_to_market (midpoint_prices en2) (en_portfolio en2))\<rparr>"
    by (auto simp: run_events_def)
  then have "engine_inv en1" using engine_inv_groups assms(2,3) by fastforce
  from engine_inv_drain [OF d assms(2) this] show ?thesis
    by (auto simp: en' engine_inv_defs run_ledger_def mark_to_market_def Let_def
        dest: reachable_portfolio.marked [of _ _ "midpoint_prices en2", unfolded mark_to_market_def Let_def])
qed

section \<open>Order of execution\<close>

lemma execute_taker_intent:
  "execute_taker cfg i t b pf = (b', pf', Inr res) \<Longrightarrow> or_intent res = i"
  by (auto simp: execute_taker_def Let_def split: if_splits prod.splits sum.splits)

lemma execute_and_record_result:
  "execute_and_record env t i en = Inr en' \<Longrightarrow>
     \<exists>res. en_order_results en' = en_order_results en @ [res] \<and> or_intent res = i"
  by (auto simp: execute_and_record_def execute_order_def dest: execute_taker_intent
      split: if_splits option.splits prod.splits sum.splits)

text \<open>In key order, what is due is a prefix of the queue.\<close>

lemma nothing_due:
  assumes "tq_inv q" "\<And>x rest. q = x # rest \<Longrightarrow> \<not> order_due c incl x"
  shows "\<forall>y \<in> set q. \<not> order_due c incl y"
proof (cases q)
  case (Cons x rest)
  then have "\<not> order_due c incl x" using assms(2) by blast
  moreover have "fst (fst x) \<le> fst (fst y)" if "y \<in> set q" for y
    using tq.head_earliest [OF assms(1), of x rest y] Cons that by (simp add: tq_pop_Some)
  ultimately show ?thesis by (force simp: order_due_def)
qed simp

lemma execute_pending_order:
  "execute_pending env c incl en = Inr en' \<Longrightarrow> tq_inv (en_pending en) \<Longrightarrow>
     en_pending en' = filter (\<lambda>x. \<not> order_due c incl x) (en_pending en)
     \<and> (\<exists>done. en_order_results en' = en_order_results en @ done
          \<and> map or_intent done = map snd (filter (order_due c incl) (en_pending en)))"
proof (induction rule: execute_pending_induct)
  case (stop en)
  have "\<forall>y \<in> set (en_pending en). \<not> order_due c incl y"
    by (rule nothing_due [OF stop(2) stop(1)])
  then show ?case by (auto simp: filter_id_conv filter_empty_conv)
next
  case (step en x rest en1 en')
  obtain res where "en_order_results en1 = en_order_results en @ [res]" "or_intent res = snd x"
    using execute_and_record_result [OF step(3)] by auto
  with step(1,2,4) step.IH step.prems show ?case by auto
qed

section \<open>Causality\<close>

text \<open>
  \<open>causal T en\<close>: what has filled did so in time order, no later than \<open>T\<close> and not before its
  decision; what waits arrives no earlier than \<open>T\<close> and than its decision.
\<close>

definition causal :: "int \<Rightarrow> ('s, 'r) engine \<Rightarrow> bool" where
  "causal T en \<longleftrightarrow> sorted (map sf_fill_time_ns (run_fills en))
     \<and> (\<forall>f \<in> set (run_fills en). sf_fill_time_ns f \<le> T \<and> sf_decision_time_ns f \<le> sf_fill_time_ns f)
     \<and> (\<forall>x \<in> set (en_pending en). T \<le> fst (fst x) \<and> oi_decision_timestamp_ns (snd x) \<le> fst (fst x))"

lemma causal_pop:
  assumes "causal T en" "env_ok env" "engine_inv en" "en_pending en = x # rest"
    "execute_and_record env (fst (fst x)) (snd x) (en\<lparr>en_pending := rest\<rparr>) = Inr en1"
    "en_pending en1 = rest"
  shows "causal (fst (fst x)) en1"
proof -
  obtain res where res: "en_order_results en1 = en_order_results en @ [res]"
    "\<forall>f \<in> set (or_fills res). sf_fill_time_ns f = fst (fst x)
       \<and> sf_decision_time_ns f = oi_decision_timestamp_ns (snd x)"
    using engine_inv_pop [OF assms(2-5)] by blast
  have "tq_inv (x # rest)" using assms(3,4) by (simp add: engine_inv_defs)
  then have later: "\<forall>y \<in> set rest. fst (fst x) \<le> fst (fst y)"
    using fst_entry_mono by auto
  have "sorted (map sf_fill_time_ns (or_fills res))"
    using res(2) by (auto simp: sorted_iff_nth_mono)
  then have "sorted (map sf_fill_time_ns (run_fills en1))"
    using assms(1,4) res by (fastforce simp: causal_def run_fills_def sorted_append)
  moreover have "sf_fill_time_ns f \<le> fst (fst x) \<and> sf_decision_time_ns f \<le> sf_fill_time_ns f"
    if "f \<in> set (run_fills en1)" for f
    using that assms(1,4) res by (fastforce simp: causal_def run_fills_def)
  moreover have "oi_decision_timestamp_ns (snd y) \<le> fst (fst y)" if "y \<in> set rest" for y
    using that assms(1,4) by (auto simp: causal_def)
  ultimately show ?thesis using later assms(6) by (simp add: causal_def)
qed

lemma causal_later:
  "causal T en \<Longrightarrow> T \<le> T' \<Longrightarrow> \<forall>x \<in> set (en_pending en). T' \<le> fst (fst x) \<Longrightarrow> causal T' en"
  by (force simp: causal_def)

lemma causal_pending:
  "execute_pending env c incl en = Inr en' \<Longrightarrow> env_ok env \<Longrightarrow> engine_inv en \<Longrightarrow> causal T en \<Longrightarrow>
     T \<le> c \<Longrightarrow> causal c en'"
proof (induction arbitrary: T rule: execute_pending_induct)
  case (stop en)
  have "\<forall>y \<in> set (en_pending en). \<not> order_due c incl y"
    by (rule nothing_due [OF _ stop(1)]) (use stop(3) in \<open>simp add: engine_inv_defs\<close>)
  then show ?case using causal_later [OF stop(4,5)] by (force simp: order_due_def)
next
  case (step en x rest en1 en')
  have "engine_inv en1" using engine_inv_pop [OF step.prems(1,2) step(1,3)] by blast
  moreover have "fst (fst x) \<le> c" using step(2) by (auto simp: order_due_def)
  ultimately show ?case
    using step.IH [of "fst (fst x)"] step.prems(1) causal_pop [OF step.prems(3,1,2) step(1,3,4)] by blast
qed

lemma causal_drain:
  "drain_pending env en = Inr en' \<Longrightarrow> env_ok env \<Longrightarrow> engine_inv en \<Longrightarrow> causal T en \<Longrightarrow> \<exists>T'. causal T' en'"
proof (induction arbitrary: T rule: drain_pending_induct)
  case (step en x rest en1 en')
  have "T \<le> fst (fst x)" using step.prems(3) step(1) by (simp add: causal_def)
  with causal_pending [OF step(2) step.prems] engine_inv_pending [OF step(2) step.prems(1,2)]
  show ?case using step.IH step.prems(1) by blast
qed blast

text \<open>A strategy that does not date its decisions before the time it is called at.\<close>

definition stamps_now :: "'s strategy \<Rightarrow> bool" where
  "stamps_now st \<longleftrightarrow>
     (\<forall>ctx s is s'.
        ((\<exists>e. st_on_market_event st e ctx s = Inr (is, s')) \<or> (\<exists>p. st_on_btc_price st p ctx s = Inr (is, s'))
         \<or> (\<exists>t. st_on_trade st t ctx s = Inr (is, s')) \<or> (\<exists>m. st_on_market_close st m ctx s = Inr (is, s')))
        \<longrightarrow> (\<forall>i \<in> set is. ctx_now_ns ctx \<le> oi_decision_timestamp_ns i))"

lemma deterministic_intent_time [simp]:
  "oi_decision_timestamp_ns (deterministic_intent env en i) = oi_decision_timestamp_ns i"
  by (simp add: deterministic_intent_def)

lemma causal_schedule:
  assumes "causal T en" "T \<le> oi_decision_timestamp_ns i" "schedule_intent env i en = Inr en'"
  shows "causal T en'"
proof (cases "oi_order_type (deterministic_intent env en i) = LIMIT_GTC_SIMULATED")
  case True
  with assms show ?thesis by (auto simp: schedule_intent_def Let_def causal_def run_fills_def)
next
  case False
  with assms(3) obtain arrival r where
    a: "schedule_arrival (ev_rng env) (cf_latency (ev_config env)) (oi_decision_timestamp_ns i) (en_rng en)
       = (Inr arrival, r)"
    and en': "en' = en\<lparr>en_counter := en_counter en + 1, en_rng := r,
       en_pending := tq_push ((arrival, en_counter en), deterministic_intent env en i) (en_pending en)\<rparr>"
    by (auto simp: schedule_intent_def Let_def split: prod.splits sum.splits)
  from schedule_arrival_not_before [OF a] assms(1,2) show ?thesis
    by (auto simp: en' causal_def run_fills_def)
qed

lemma causal_schedule_all:
  "causal T en \<Longrightarrow> \<forall>i \<in> set is. T \<le> oi_decision_timestamp_ns i \<Longrightarrow>
     schedule_all env is en = Inr en' \<Longrightarrow> causal T en'"
  by (induction "is" arbitrary: en) (auto dest: causal_schedule)

lemma causal_frame [simp]:
  "causal T (en\<lparr>en_strategy := s\<rparr>) = causal T en"
  "causal T (en\<lparr>en_portfolio := pf\<rparr>) = causal T en"
  by (simp_all add: causal_def run_fills_def)

lemma apply_event_frame:
  assumes "apply_event env e en = Inr (en', is)"
  shows "en_pending en' = en_pending en \<and> en_order_results en' = en_order_results en"
  using assms
  by (cases "re_payload e")
    (auto simp: apply_event_def with_recon_def resolve_market_def Let_def split_beta dest!: callback_Inr)

lemma apply_event_stamps:
  assumes "stamps_now (ev_strategy env)" "apply_event env e en = Inr (en', is)"
    "event_timestamp (cf_replay_clock (ev_config env)) e = Inr T"
  shows "\<forall>i \<in> set is. T \<le> oi_decision_timestamp_ns i"
proof -
  have now: "ctx_now_ns (en_context en1) = en_now_ns en1" for en1 :: "('a, 'b) engine"
    by (simp add: en_context_def)
  have keep: "en_now_ns en2 = en_now_ns en1" if "with_recon res en1 = Inr en2"
    for res :: "reconstructor \<times> (py_error + 'c)" and en1 en2 :: "('a, 'b) engine"
    using that by (auto simp: with_recon_def)
  have keep': "en_now_ns (resolve_market c w u en1) = en_now_ns en1" for c w u and en1 :: "('a, 'b) engine"
    by (simp add: resolve_market_def split_beta)
  show ?thesis
  proof (cases "re_payload e")
    case (Book_snapshot s)
    with assms(2,3) obtain en1 s' where "with_recon (apply_snapshot s (en_recon en)) (en\<lparr>en_now_ns := T\<rparr>) = Inr en1"
      "st_on_market_event (ev_strategy env) e (en_context en1) (en_strategy en1) = Inr (is, s')"
      by (auto simp: apply_event_def Let_def dest!: callback_Inr)
    with assms(1) keep [OF this(1)] show ?thesis by (force simp: stamps_now_def now)
  next
    case (Book_update c)
    with assms(2,3) obtain en1 s' where "with_recon (apply_change c (en_recon en)) (en\<lparr>en_now_ns := T\<rparr>) = Inr en1"
      "st_on_market_event (ev_strategy env) e (en_context en1) (en_strategy en1) = Inr (is, s')"
      by (auto simp: apply_event_def Let_def dest!: callback_Inr)
    with assms(1) show ?thesis by (force simp: stamps_now_def now with_recon_def)
  next
    case (Tick_size_change c)
    with assms(2,3) obtain en1 s' where
      "with_recon (apply_tick_size_change c (en_recon en)) (en\<lparr>en_now_ns := T\<rparr>) = Inr en1"
      "st_on_market_event (ev_strategy env) e (en_context en1) (en_strategy en1) = Inr (is, s')"
      by (auto simp: apply_event_def Let_def dest!: callback_Inr)
    with assms(1) show ?thesis by (force simp: stamps_now_def now with_recon_def)
  next
    case (Btc_price p)
    with assms show ?thesis
      by (force simp: apply_event_def Let_def stamps_now_def now dest!: callback_Inr)
  next
    case (Trade t)
    with assms show ?thesis
      by (force simp: apply_event_def Let_def stamps_now_def now dest!: callback_Inr)
  next
    case (Market_resolution c w u)
    with assms show ?thesis
      by (force simp: apply_event_def Let_def stamps_now_def now keep' dest!: callback_Inr)
  next
    case (Other_payload x)
    with assms show ?thesis by (simp add: apply_event_def Let_def)
  qed
qed

lemma causal_process:
  assumes "causal T en" "stamps_now (ev_strategy env)" "process_event env e en = Inr en'"
    "event_timestamp (cf_replay_clock (ev_config env)) e = Inr T"
  shows "causal T en'"
proof -
  from assms(3) obtain en1 "is" en0 where
    ap: "apply_event env e en0 = Inr (en1, is)" and sch: "schedule_all env is en1 = Inr en'"
    and en0: "en_pending en0 = en_pending en" "en_order_results en0 = en_order_results en"
    by (auto simp: process_event_def split: prod.splits sum.splits)
  have "causal T en1"
    using apply_event_frame [OF ap] en0 assms(1) by (simp add: causal_def run_fills_def)
  from causal_schedule_all [OF this apply_event_stamps [OF assms(2) ap assms(4)] sch] show ?thesis .
qed

lemma causal_events:
  "process_events env es en = Inr en' \<Longrightarrow> causal T en \<Longrightarrow> stamps_now (ev_strategy env) \<Longrightarrow>
     \<forall>e \<in> set es. same_time (cf_replay_clock (ev_config env)) T e \<Longrightarrow> causal T en'"
  by (induction es arbitrary: en) (auto simp: same_time_def dest: causal_process)

lemma dropWhile_map_sorted: "sorted (map f xs) \<Longrightarrow> sorted (map f (dropWhile P xs))"
  by (induction xs) auto

lemma causal_groups:
  "run_groups env es en = Inr en' \<Longrightarrow> env_ok env \<Longrightarrow> stamps_now (ev_strategy env) \<Longrightarrow> engine_inv en \<Longrightarrow>
     causal T en \<Longrightarrow> sorted (map (\<lambda>e. projr (event_timestamp (cf_replay_clock (ev_config env)) e)) es) \<Longrightarrow>
     (\<forall>e \<in> set es. T \<le> projr (event_timestamp (cf_replay_clock (ev_config env)) e)) \<Longrightarrow>
     \<exists>T'. causal T' en'"
proof (induction env es en arbitrary: T rule: run_groups.induct)
  case (2 env e es en)
  let ?mode = "cf_replay_clock (ev_config env)"
  let ?ts = "\<lambda>e. projr (event_timestamp ?mode e)"
  from "2.prems"(1) obtain t en1 en2 en3 where
    t: "event_timestamp ?mode e = Inr t" and
    1: "execute_pending env t False en = Inr en1" and
    2: "process_events env (takeWhile (same_time ?mode t) (e # es)) en1 = Inr en2" and
    3: "execute_pending env t True en2 = Inr en3" and
    4: "run_groups env (dropWhile (same_time ?mode t) es) en3 = Inr en'"
    by (auto simp: Let_def simp del: takeWhile.simps)
  note inv1 = engine_inv_pending [OF 1 "2.prems"(2,4)]
  note inv2 = engine_inv_events [OF inv1 2]
  note inv3 = engine_inv_pending [OF 3 "2.prems"(2) inv2]
  have "T \<le> t" using "2.prems"(7) t by force
  then have "causal t en1" using causal_pending [OF 1 "2.prems"(2,4,5)] by blast
  then have "causal t en2"
    by (rule causal_events [OF 2 _ "2.prems"(3)]) (auto dest: set_takeWhileD)
  then have c3: "causal t en3" using causal_pending [OF 3 "2.prems"(2) inv2] by blast
  have "sorted (map ?ts (dropWhile (same_time ?mode t) es))"
    using "2.prems"(6)
    by (metis dropWhile_map_sorted list.simps(9) sorted_simps(2))
  moreover have "\<forall>e \<in> set (dropWhile (same_time ?mode t) es). t \<le> ?ts e"
    using "2.prems"(6) t by (auto dest: set_dropWhileD)
  ultimately show ?case
    using "2.IH" [OF t refl refl 1 2 3 4 "2.prems"(2,3) inv3 c3] by blast
qed auto

section \<open>A run with one trade, used by the witnesses\<close>

definition demo_env :: "(example_threshold, unit) engine_env" where
  "demo_env = \<lparr>ev_config = \<lparr>cf_starting_cash = \<lparr>dec_num = 100, dec_places = 0\<rparr>, cf_replay_clock = LOCAL_RECEIVE_TIME,
     cf_reject_on_gap = True, cf_random_seed = 1729, cf_allow_negative_cash = False, cf_allow_short_positions = False,
     cf_latency = \<lparr>lc_model = Latency_constant, lc_constant_ms = 50, lc_samples_ms = [], lc_lognormal_mu = Flt 0 0, lc_lognormal_sigma = Flt 0 0\<rparr>,
     cf_fee = DEFAULT_FEE, cf_fee_version = ''v'', cf_maker_queue_model = CONSERVATIVE\<rparr>,
     ev_strategy = example_threshold_strategy, ev_rng = \<lparr>rng_choice = (\<lambda>xs r. (hd xs, r)), rng_lognormal = (\<lambda>_ _ r. (Flt 0 0, r))\<rparr>,
     ev_intervals = []\<rparr>"
definition demo_btc :: "int \<Rightarrow> int \<Rightarrow> btc_price_event" where
  "demo_btc t p = \<lparr>bp_price_event_id = [], bp_sequence = t, bp_source = ''rtds'', bp_topic = [], bp_symbol = [],
  bp_rtds_envelope_timestamp_ns = None, bp_underlying_source_timestamp_ns = None, bp_received_utc_ns = t, bp_received_monotonic_ns = t,
  bp_price_scaled = p, bp_connection_id = []\<rparr>"
definition demo_event_of :: "int \<Rightarrow> event_payload \<Rightarrow> replay_event" where
  "demo_event_of t pl = (demo_event t)\<lparr>re_payload := pl\<rparr>"
definition demo_events :: "replay_event list" where
  "demo_events = [demo_event_of 100 (Book_snapshot (demo_snapshot\<lparr>bs_outcome := ''UP''\<rparr>)),
   demo_event_of 200 (Btc_price (demo_btc 200 1000000)), demo_event_of 300 (Btc_price (demo_btc 300 1100000))]"

definition demo_engine :: "(example_threshold, unit) engine" where
  "demo_engine = \<lparr>en_now_ns = 0, en_clock = None, en_used_degraded = [],
            en_portfolio = make_portfolio 100000000 False False,
            en_recon = make_reconstructor, en_btc_prices = [], en_rng = (), en_pending = [],
            en_counter = 0, en_order_results = [], en_market_results = [], en_slippages = [],
            en_resolved = {}, en_strategy = make_example_threshold 100 3000000\<rparr>"

lemma demo_make: "make_engine demo_env (make_example_threshold 100 3000000) () = Inr demo_engine"
  by (simp add: make_engine_def demo_env_def demo_engine_def decimal_to_scaled_def)

lemma demo_merge: "merge_events LOCAL_RECEIVE_TIME demo_events = Inr demo_events"
  by (simp add: merge_events_def demo_events_def deterministic_event_key_def event_timestamp_def demo_event_of_def demo_event_def)

definition demo_UP :: order_book where
  "demo_UP = demo_book\<lparr>ob_outcome := ''UP''\<rparr>"

definition demo_after_snapshot :: "(example_threshold, unit) engine" where
  "demo_after_snapshot = demo_engine\<lparr>en_now_ns := 100, en_clock := Some 100, en_recon := \<lparr>rc_books = [(''t'', demo_UP)], rc_uncertainty = [],
      rc_effective_tick_sizes = [''t'' \<mapsto> 10000]\<rparr>\<rparr>"

definition demo_after_first :: "(example_threshold, unit) engine" where
  "demo_after_first = demo_engine\<lparr>en_now_ns := 200, en_clock := Some 200, en_recon := \<lparr>rc_books = [(''t'', demo_UP)], rc_uncertainty = [],
      rc_effective_tick_sizes = [''t'' \<mapsto> 10000]\<rparr>, en_btc_prices := [(''rtds'', demo_btc 200 1000000)],
      en_strategy := (make_example_threshold 100 3000000)\<lparr>et_previous_by_source := [''rtds'' \<mapsto> 1000000]\<rparr>\<rparr>"

lemma demo_snapshot_event: "process_event demo_env (demo_event_of 100 (Book_snapshot (demo_snapshot\<lparr>bs_outcome := ''UP''\<rparr>))) demo_engine
  = Inr demo_after_snapshot"
  by (simp add: process_event_def demo_env_def demo_event_of_def demo_event_def integrity_check_def clock_advance_def event_timestamp_def
    apply_event_def Let_def with_recon_def apply_snapshot_def resolve_tick_def demo_engine_def make_reconstructor_def demo_snapshot_def
    register_token_def rc_book_def make_book_def ob_replace_def validate_level_def validate_cross_def sd_last_def sd_first_def
    close_newest_open_def callback_def example_threshold_strategy_def demo_UP_def demo_book_def demo_after_snapshot_def)

lemma demo_first_price: "process_event demo_env (demo_event_of 200 (Btc_price (demo_btc 200 1000000))) 
  demo_after_snapshot = Inr
 demo_after_first"
  by (simp add: process_event_def demo_env_def demo_event_of_def demo_event_def integrity_check_def clock_advance_def event_timestamp_def
    apply_event_def Let_def demo_engine_def demo_btc_def
    callback_def example_threshold_strategy_def et_on_btc_price_def make_example_threshold_def
    demo_after_snapshot_def demo_after_first_def)

definition demo_order :: order_intent where
  "demo_order = (et_intent (make_example_threshold 100 3000000) demo_UP ''rtds'' 100000 300)
   \<lparr>oi_order_intent_id := Uuid5_intent example_threshold_id 300 0 ''t'',
     oi_metadata := [''demonstration_only'' \<mapsto> Meta_str ''true'', ''btc_source'' \<mapsto> Meta_str ''rtds'',
        ''change_ppm'' \<mapsto> Meta_int 100000, ''decision_reference_price_scaled'' \<mapsto> Meta_int 520000]\<rparr>"
definition demo_waiting :: "(example_threshold, unit) engine" where
  "demo_waiting = demo_engine\<lparr>en_now_ns := 300, en_clock := Some 300, en_recon := \<lparr>rc_books = [(''t'', demo_UP)], rc_uncertainty = [],
      rc_effective_tick_sizes = [''t'' \<mapsto> 10000]\<rparr>, en_btc_prices := [(''rtds'', demo_btc 300 1100000)],
      en_strategy := (make_example_threshold 100 3000000)\<lparr>et_previous_by_source := [''rtds'' \<mapsto> 1100000], et_traded_conditions := {''m''}\<rparr>,
      en_counter := 1, en_pending := [((50000300, 0), demo_order)]\<rparr>"
lemma demo_latency: "schedule_arrival g \<lparr>lc_model = Latency_constant, lc_constant_ms = 50, lc_samples_ms = [], lc_lognormal_mu = Flt 0 0, lc_lognormal_sigma = Flt 0 0\<rparr> t r
  = (Inr (t + 50000000), r)"
  by (simp add: schedule_arrival_def sample_ns_def ms_to_ns_int)

lemma demo_second_price: "process_event demo_env (demo_event_of 300 (Btc_price (demo_btc 300 1100000))) 
 demo_after_first
  = Inr demo_waiting"
  by (simp add: process_event_def demo_env_def demo_event_of_def demo_event_def integrity_check_def clock_advance_def event_timestamp_def
    apply_event_def Let_def demo_engine_def demo_btc_def demo_UP_def demo_book_def ctx_valid_books_def et_candidates_def en_context_def
    et_intent_def schedule_intent_def deterministic_intent_def decision_reference_def rc_book_def best_ask_def sd_first_def
    demo_latency demo_waiting_def demo_order_def
    callback_def example_threshold_strategy_def et_on_btc_price_def make_example_threshold_def
    demo_after_snapshot_def demo_after_first_def)

definition demo_traded :: "(example_threshold, unit) engine" where
  "demo_traded = demo_waiting\<lparr>en_pending := [], en_portfolio := fst (snd (execute_taker DEFAULT_FEE demo_order 50000300 demo_UP (make_portfolio 100000000 False False))),
     en_recon := \<lparr>rc_books = [(''t'', consume SELL 520000 3000000 demo_UP)], rc_uncertainty = [],
      rc_effective_tick_sizes = [''t'' \<mapsto> 10000]\<rparr>,
     en_order_results := [\<lparr>or_intent = demo_order, or_status = Filled, or_rejection_reason = None,
         or_fills = [fill_of DEFAULT_FEE demo_order 50000300 demo_UP
           \<lparr>pl_rank = 1, pl_price = 520000, pl_size = 3000000, pl_notional = 1560000,
            pl_displayed_after = 1000000\<rparr>]\<rparr>], en_slippages := [0]\<rparr>"

lemma demo_execution: "execute_and_record demo_env 50000300 demo_order (demo_waiting\<lparr>en_pending := []\<rparr>) =
   Inr demo_traded"
  by (simp add: execute_and_record_def execute_order_def demo_waiting_def rc_book_def demo_env_def demo_engine_def
    execute_taker_def order_plan_def demo_book_def demo_UP_def demo_order_def et_intent_def make_example_threshold_def
     opposite_def available_levels_def
      desired_size_def beyond_limit_def notional_scaled_def round_half_up_def Let_def plan_cost_def
      calculate_DEFAULT_FEE make_portfolio_def apply_fill_def open_position_def record_fill_def consume_def
      fill_of_def fully_filled_def order_slippage_def demo_traded_def)

lemma demo_groups: "run_groups demo_env demo_events demo_engine = Inr demo_waiting"
proof -
  have mode: "cf_replay_clock (ev_config demo_env) = LOCAL_RECEIVE_TIME" by (simp add: demo_env_def)
  have time: "event_timestamp LOCAL_RECEIVE_TIME (demo_event_of t pl) = Inr t" for t pl
    by (simp add: event_timestamp_def demo_event_of_def demo_event_def)
  have idle: "execute_pending demo_env c incl en = Inr en"
    if "en_pending en = [] \<or> en = demo_waiting \<and> c = 300" for c incl en
    using that by (subst execute_pending.simps) (auto simp: demo_waiting_def order_due_def)
  have pending: "en_pending demo_engine = []" "en_pending demo_after_snapshot = []" "en_pending demo_after_first = []"
    by (simp_all add: demo_engine_def demo_after_snapshot_def demo_after_first_def)
  show ?thesis
    by (simp add: demo_events_def mode time same_time_def idle pending demo_snapshot_event
        demo_first_price demo_second_price)
qed

lemma demo_drain: "drain_pending demo_env demo_waiting = Inr demo_traded"
proof -
  have pending: "en_pending demo_waiting = [((50000300, 0), demo_order)]" "en_pending demo_traded = []"
    by (simp_all add: demo_waiting_def demo_traded_def)
  have "execute_pending demo_env 50000300 True demo_waiting = Inr demo_traded"
    by (subst execute_pending.simps)
      (simp add: pending order_due_def demo_execution execute_pending.simps [of _ _ _ demo_traded])
  then show ?thesis
    by (subst drain_pending.simps) (simp add: pending drain_pending.simps [of _ demo_traded])
qed

lemma demo_run: "\<exists>pf. run_events demo_env demo_events demo_engine = Inr (demo_traded\<lparr>en_portfolio := pf\<rparr>)"
proof -
  have "cf_replay_clock (ev_config demo_env) = LOCAL_RECEIVE_TIME"
    "st_on_start (ev_strategy demo_env) ctx s = s" for ctx s
    by (simp_all add: demo_env_def example_threshold_strategy_def)
  moreover have "demo_engine\<lparr>en_strategy := en_strategy demo_engine\<rparr> = demo_engine" by simp
  ultimately show ?thesis
    by (simp add: run_events_def demo_merge demo_groups demo_drain) blast
qed

lemma demo_env_ok: "env_ok demo_env"
  by (simp add: env_ok_def demo_env_def)

lemma stamps_example_threshold: "stamps_now example_threshold_strategy"
  by (auto simp: stamps_now_def example_threshold_strategy_def dest!: et_trades_once)

lemma stamps_no_op: "stamps_now no_op_strategy"
  by (simp add: stamps_now_def no_op_strategy_def)

section \<open>Properties\<close>

text \<open>
  \<open>execute_pending\<close> runs exactly the due orders, in order of arrival (ties in order of
  scheduling): one result per due order is appended, in that order, and what is not due stays
  in the queue untouched.
\<close>

theorem due_orders_in_arrival_order:
  assumes "execute_pending env cutoff incl en = Inr en'" "tq_inv (en_pending en)"
  shows "en_pending en' = filter (\<lambda>x. \<not> order_due cutoff incl x) (en_pending en)
    \<and> (\<exists>done. en_order_results en' = en_order_results en @ done
        \<and> map or_intent done = map snd (filter (order_due cutoff incl) (en_pending en)))"
  by (rule execute_pending_order [OF assms])

theorem due_orders_in_arrival_order_witness:
  "\<exists>en'. execute_pending demo_env 50000300 True demo_waiting = Inr en' \<and> en_pending en' = []
     \<and> map or_intent (en_order_results en') = [demo_order]"
proof -
  have pending: "en_pending demo_waiting = [((50000300, 0), demo_order)]" "en_pending demo_traded = []"
    by (simp_all add: demo_waiting_def demo_traded_def)
  have run: "execute_pending demo_env 50000300 True demo_waiting = Inr demo_traded"
    by (subst execute_pending.simps)
      (simp add: pending order_due_def demo_execution execute_pending.simps [of _ _ _ demo_traded])
  have "en_order_results demo_waiting = []" by (simp add: demo_waiting_def demo_engine_def)
  with due_orders_in_arrival_order [OF run] run pending show ?thesis by (simp add: order_due_def)
qed

text \<open>
  C10. A finished run accounts for everything.  No order is left waiting and every scheduled
  order has exactly one result; available cash is starting cash less the notionals and fees of the
  recorded buys, plus the notionals less the fees of the recorded sells, plus the recorded
  payouts; the fees paid are the fees of the recorded fills; cash plus cost basis is starting cash
  plus realised profit less the fees of the recorded buys; and every book is one its own
  operations reach, filed under its token.
\<close>

theorem engine_run_accounts:
  assumes "make_engine env s r = Inr en0" "fee_config_ok (cf_fee (ev_config env))"
    and "run_events env events en0 = Inr en"
  shows "let fills = concat (map or_fills (en_order_results en)); pf = en_portfolio en in
    en_pending en = [] \<and> length (en_order_results en) = en_counter en
    \<and> pf_available_cash pf = pf_starting_cash pf
        + sum_list (map (\<lambda>f. if sf_side f = BUY then - (sf_notional f + sf_fee f) else sf_notional f - sf_fee f) fills)
        + sum_list (map mr_payout (en_market_results en))
    \<and> pf_fees_paid pf = sum_list (map sf_fee fills)
    \<and> pf_available_cash pf + total_cost (pf_positions pf) = pf_starting_cash pf + pf_realized_pnl pf
        - sum_list (map sf_fee (filter (\<lambda>f. sf_side f = BUY) fills))
    \<and> (\<forall>(t, b) \<in> set (rc_books (en_recon en)). reachable_book b \<and> ob_token_id b = t)"
proof -
  have inv: "engine_inv en" "en_pending en = []"
    using engine_inv_run [OF assms(3) _ engine_inv_make [OF assms(1)]] assms(2) by (simp_all add: env_ok_def)
  have fees: "sum_list (map buy_fee fs) = sum_list (map sf_fee (filter (\<lambda>f. sf_side f = BUY) fs))" for fs
    by (induction fs) (simp_all add: buy_fee_def)
  have ledger: "run_ledger (run_fills en) (en_market_results en) (en_portfolio en)"
    using inv(1) by (simp add: engine_inv_def engine_books_def)
  then have "accounts_ok (sum_list (map buy_fee (run_fills en))) (en_portfolio en)"
    using reachable_portfolio_inv by (auto simp: run_ledger_def portfolio_inv_def)
  with ledger inv show ?thesis
    by (simp add: run_ledger_def accounts_ok_def fees engine_inv_defs fill_cash_def [abs_def] rc_inv_def Let_def)
qed

theorem engine_run_accounts_witness:
  "\<exists>en. run_events demo_env demo_events demo_engine = Inr en \<and> length (en_order_results en) = 1
     \<and> en_pending en = []"
proof -
  obtain pf where run: "run_events demo_env demo_events demo_engine = Inr (demo_traded\<lparr>en_portfolio := pf\<rparr>)"
    using demo_run by blast
  from engine_run_accounts [OF demo_make demo_env_ok [unfolded env_ok_def] run] run show ?thesis
    by (auto simp: demo_traded_def demo_waiting_def)
qed

text \<open>
  C17. A run never fills into the past.  For a strategy that dates its decisions no earlier than
  the time it is called at, the fills of a finished run come in time order, and no order fills
  before its own decision, whatever the latency model draws.
\<close>

theorem engine_fills_causal:
  assumes "make_engine env s r = Inr en0" "fee_config_ok (cf_fee (ev_config env))"
    and "stamps_now (ev_strategy env)" "run_events env events en0 = Inr en"
  shows "sorted (map sf_fill_time_ns (concat (map or_fills (en_order_results en))))
    \<and> (\<forall>res \<in> set (en_order_results en). \<forall>f \<in> set (or_fills res).
         sf_decision_time_ns f \<le> sf_fill_time_ns f)"
proof -
  let ?mode = "cf_replay_clock (ev_config env)"
  from assms(4) obtain ordered en1 en2 where
    m: "merge_events ?mode events = Inr ordered" and
    g: "run_groups env ordered (en0\<lparr>en_strategy := st_on_start (ev_strategy env) (en_context en0) (en_strategy en0)\<rparr>) = Inr en1"
    and d: "drain_pending env en1 = Inr en2"
    and en: "en = en2\<lparr>en_portfolio := fst (mark_to_market (midpoint_prices en2) (en_portfolio en2))\<rparr>"
    by (auto simp: run_events_def)
  have ok: "env_ok env" using assms(2) by (simp add: env_ok_def)
  have inv: "engine_inv en0" by (rule engine_inv_make [OF assms(1)])
  let ?ts = "\<lambda>e. projr (event_timestamp ?mode e)"
  have start: "causal T en0" for T
    using assms(1) by (auto simp: make_engine_def causal_def run_fills_def)
  have ts: "sorted (map ?ts ordered)"
    using merge_events_sorted_times [OF m] .
  then have "\<exists>T. \<forall>e \<in> set ordered. T \<le> ?ts e" by (cases ordered) auto
  then obtain T where "\<forall>e \<in> set ordered. T \<le> ?ts e" ..
  with causal_groups [OF g ok assms(3) _ _ ts, of T] inv start obtain T1 where "causal T1 en1" by auto
  moreover have "engine_inv en1" using engine_inv_groups [OF g ok] inv by simp
  ultimately obtain T2 where "causal T2 en2" using causal_drain [OF d ok] by blast
  then show ?thesis by (auto simp: en causal_def run_fills_def)
qed

theorem engine_fills_causal_witness:
  "\<exists>en. run_events demo_env demo_events demo_engine = Inr en
     \<and> map sf_fill_time_ns (concat (map or_fills (en_order_results en))) = [50000300]
     \<and> (\<forall>res \<in> set (en_order_results en). \<forall>f \<in> set (or_fills res). sf_decision_time_ns f \<le> sf_fill_time_ns f)"
proof -
  obtain pf where run: "run_events demo_env demo_events demo_engine = Inr (demo_traded\<lparr>en_portfolio := pf\<rparr>)"
    using demo_run by blast
  have st: "stamps_now (ev_strategy demo_env)"
    using stamps_example_threshold by (simp add: demo_env_def)
  from engine_fills_causal [OF demo_make demo_env_ok [unfolded env_ok_def] st run] run show ?thesis
    by (simp add: demo_traded_def demo_waiting_def demo_engine_def)
qed

end
