(* ===== verification/Episodes.thy ===== *)
theory Episodes
  imports Fees "HOL-Library.Product_Lexorder"
begin

text \<open>
  \<^verbatim>\<open>backtest/episodes.py\<close>: from recorded facts about each market to the index of episodes a
  backtest may use.  The SQL queries stay outside; their result rows are the arguments here, and
  what the code computes from them is modelled: the settled winner, when it became known, the
  connection gaps, the venue parameters known at the open, and the gating of each episode.
\<close>

section \<open>Episodes\<close>

datatype winner_source =
  Market_resolution | Gamma | Terminal_book | Reference_price | Ambiguous

record episode =
  ep_condition_id :: string
  ep_market_slug :: string
  ep_start_utc_ns :: int
  ep_end_utc_ns :: int
  ep_up_token_id :: string
  ep_down_token_id :: string
  ep_tick_size :: int
  ep_minimum_order_size :: int
  ep_winner_token_id :: "string option"
  ep_winner_outcome :: "string option"
  ep_winner_source :: winner_source
  ep_winner_confidence :: pyfloat
  ep_terminal_up_bid :: "int option"
  ep_terminal_down_bid :: "int option"
  ep_reference_open :: "int option"
  ep_reference_close :: "int option"
  ep_reference_source :: "string option"
  ep_first_event_utc_ns :: "int option"
  ep_last_event_utc_ns :: "int option"
  ep_up_event_count :: int
  ep_down_event_count :: int
  ep_coverage_start_lead_ns :: "int option"
  ep_coverage_end_lag_ns :: "int option"
  ep_quality_error_count :: int
  ep_eligible :: bool
  ep_exclusion_reason :: "string option"
  ep_blocking_quality_error_count :: int
  ep_connection_gap_count :: nat
  ep_resolution_received_utc_ns :: "int option"
  ep_fee_rate :: "dec_literal option"
  ep_fee_exponent :: "nat option"
  ep_fee_taker_only :: "bool option"
  ep_maker_base_fee_bps :: "int option"
  ep_taker_base_fee_bps :: "int option"
  ep_taker_order_delay_ms :: "int option"
  ep_execution_metadata_source :: "string option"
  ep_execution_metadata_received_utc_ns :: "int option"

definition duration_ns :: "episode \<Rightarrow> int" where
  "duration_ns e = ep_end_utc_ns e - ep_start_utc_ns e"

definition token_outcome :: "episode \<Rightarrow> string \<Rightarrow> py_error + string" where
  "token_outcome e token_id =
     (if token_id = ep_up_token_id e then Inr ''UP''
      else if token_id = ep_down_token_id e then Inr ''DOWN''
      else Inl (KeyError token_id))"

section \<open>Query results\<close>

record market_row =
  mk_condition_id :: string
  mk_market_slug :: string
  mk_start_utc_ns :: int
  mk_end_utc_ns :: int
  mk_up_token_id :: string
  mk_down_token_id :: string
  mk_tick_size :: int
  mk_minimum_order_size :: int
  mk_winning_token_id :: "string option"
  mk_discovered_utc_ns :: "int option"
  mk_resolved_utc_ns :: "int option"

record coverage_row =
  cv_events :: int
  cv_first :: int
  cv_last :: int

record terminal_row =
  tm_bid :: "int option"
  tm_received :: "int option"

record reference_row =
  rf_source :: string
  rf_open :: int
  rf_close :: int
  rf_open_received :: int
  rf_close_received :: int

record resolution_row =
  rl_condition_id :: string
  rl_winning_token_id :: string
  rl_received_utc_ns :: int

record connection_event =
  ce_event_type :: string
  ce_event_utc_ns :: int
  ce_subscribed_token_count :: "int option"

section \<open>Reference prices\<close>

definition REFERENCE_MAX_AGE_NS :: int where "REFERENCE_MAX_AGE_NS = 60000000000"

text \<open>The first preferred source whose observations are fresh at both boundaries.\<close>

fun pick_reference :: "int \<Rightarrow> int \<Rightarrow> string list \<Rightarrow> (string \<rightharpoonup> reference_row) \<Rightarrow> reference_row option" where
  "pick_reference start_ns end_ns [] sources = None"
| "pick_reference start_ns end_ns (name # names) sources =
     (case sources name of
        None \<Rightarrow> pick_reference start_ns end_ns names sources
      | Some row \<Rightarrow>
          if REFERENCE_MAX_AGE_NS < start_ns - rf_open_received row
            \<or> REFERENCE_MAX_AGE_NS < end_ns - rf_close_received row
          then pick_reference start_ns end_ns names sources
          else Some (row\<lparr>rf_source := name\<rparr>))"

definition reference_price :: "market_row \<Rightarrow> (string \<rightharpoonup> reference_row) \<Rightarrow> reference_row option" where
  "reference_price m =
     pick_reference (mk_start_utc_ns m) (mk_end_utc_ns m) [''CHAINLINK_BTCUSD'', ''BINANCE_BTCUSDT'']"

section \<open>Recorded resolutions\<close>

record resolution =
  rs_winner :: "string option"
  rs_received :: "int option"
  rs_conflict :: bool

text \<open>The rows of one market: one winner, first received; two different winners contradict.\<close>

definition market_resolution :: "resolution_row list \<Rightarrow> resolution option" where
  "market_resolution rows =
     (case rows of
        [] \<Rightarrow> None
      | r # _ \<Rightarrow>
          if \<exists>q \<in> set rows. rl_winning_token_id q \<noteq> rl_winning_token_id r
          then Some \<lparr>rs_winner = None, rs_received = None, rs_conflict = True\<rparr>
          else Some \<lparr>rs_winner = Some (rl_winning_token_id r),
                     rs_received = Some (Min (rl_received_utc_ns ` set rows)), rs_conflict = False\<rparr>)"

definition no_resolution :: resolution where
  "no_resolution = \<lparr>rs_winner = None, rs_received = None, rs_conflict = False\<rparr>"

section \<open>The winner\<close>

definition SETTLED_BID_SCALED :: int where "SETTLED_BID_SCALED = 950000"
definition SETTLED_ASK_SCALED :: int where "SETTLED_ASK_SCALED = 50000"

definition winner_from_terminal_book :: "string \<Rightarrow> string \<Rightarrow> int option \<Rightarrow> int option \<Rightarrow> string option" where
  "winner_from_terminal_book up_token down_token up_bid down_bid =
     (let settled = (\<lambda>bid. case bid of None \<Rightarrow> False | Some b \<Rightarrow> SETTLED_BID_SCALED \<le> b);
          dead = (\<lambda>bid. case bid of None \<Rightarrow> True | Some b \<Rightarrow> b \<le> SETTLED_ASK_SCALED)
      in if settled up_bid \<and> dead down_bid then Some up_token
         else if settled down_bid \<and> dead up_bid then Some down_token
         else None)"

definition winner_from_reference :: "string \<Rightarrow> string \<Rightarrow> reference_row option \<Rightarrow> string option" where
  "winner_from_reference up_token down_token reference =
     (case reference of
        None \<Rightarrow> None
      | Some r \<Rightarrow> Some (if rf_open r \<le> rf_close r then up_token else down_token))"

text \<open>The confidences as doubles: 1, 0.99, 0.9, 0.7 and 0.\<close>

definition resolve_winner ::
  "string option \<Rightarrow> string \<Rightarrow> string \<Rightarrow> int option \<Rightarrow> int option \<Rightarrow> reference_row option
     \<Rightarrow> string option \<Rightarrow> bool \<Rightarrow> string option \<times> winner_source \<times> pyfloat" where
  "resolve_winner gamma_winner up_token down_token up_bid down_bid reference winner conflict =
     (let ambiguous = (None, Ambiguous, Flt 0 0) in
      if conflict then ambiguous
      else case winner of
        Some w \<Rightarrow> if w \<in> {up_token, down_token} then (Some w, Market_resolution, Flt 1 0) else ambiguous
      | None \<Rightarrow>
          if gamma_winner \<in> {Some up_token, Some down_token} then (gamma_winner, Gamma, Flt 1 0)
          else case (winner_from_terminal_book up_token down_token up_bid down_bid,
                     winner_from_reference up_token down_token reference) of
            (Some b, Some r) \<Rightarrow>
              if b = r then (Some b, Terminal_book, Flt 4458563631096791 (-52)) else ambiguous
          | (Some b, None) \<Rightarrow> (Some b, Terminal_book, Flt 8106479329266893 (-53))
          | (None, Some r) \<Rightarrow> (Some r, Reference_price, Flt 3152519739159347 (-52))
          | (None, None) \<Rightarrow> ambiguous)"

text \<open>When the settlement became known; \<open>post_end_ns\<close> is the window's observation time.\<close>

definition resolution_available_time ::
  "int \<Rightarrow> winner_source \<Rightarrow> int \<Rightarrow> int option \<Rightarrow> int option \<Rightarrow> int option \<Rightarrow> int option" where
  "resolution_available_time post_end_ns src market_end authoritative gamma terminal =
     (let after_close = (\<lambda>received. if market_end < received then received else market_end + post_end_ns)
      in case src of
           Market_resolution \<Rightarrow> map_option (max market_end) authoritative
         | Gamma \<Rightarrow> map_option after_close gamma
         | Terminal_book \<Rightarrow> map_option after_close terminal
         | Reference_price \<Rightarrow> Some (market_end + post_end_ns)
         | Ambiguous \<Rightarrow> None)"

section \<open>Connection gaps\<close>

definition disconnect :: string where "disconnect = ''disconnect_detected''"

definition event_time_of :: "string set \<Rightarrow> connection_event list \<Rightarrow> int option" where
  "event_time_of types es = map_option ce_event_utc_ns (find (\<lambda>e. ce_event_type e \<in> types) es)"

text \<open>Each disconnect opens a gap that ends at the recovery before the next disconnect, if any.\<close>

fun connection_gaps :: "connection_event list \<Rightarrow> (int \<times> int option) list" where
  "connection_gaps [] = []"
| "connection_gaps (e # es) =
     (if ce_event_type e \<noteq> disconnect \<or> or_zero (ce_subscribed_token_count e) = 0
      then connection_gaps es
      else
        let before_next = takeWhile (\<lambda>c. ce_event_type c \<noteq> disconnect) es;
            recovered = event_time_of {''snapshot_recovery_completed''} before_next;
            fallback = event_time_of {''subscription_acknowledged'', ''connected''} before_next
        in (ce_event_utc_ns e, if recovered \<noteq> None then recovered else fallback) # connection_gaps es)"

definition gap_count :: "(int \<times> int option) list \<Rightarrow> market_row \<Rightarrow> nat" where
  "gap_count gaps m =
     length (filter (\<lambda>(gap_start, gap_end). gap_start \<le> mk_end_utc_ns m
        \<and> (case gap_end of None \<Rightarrow> True | Some t \<Rightarrow> mk_start_utc_ns m \<le> t)) gaps)"

section \<open>Venue parameters\<close>

text \<open>
  One observation of a market's venue parameters; the delay is the one re-projected from
  the raw payload where the source is the exchange's own endpoint.
\<close>

record metadata_row =
  xm_source :: "string option"
  xm_received_utc_ns :: int
  xm_sequence :: "int option"
  xm_fee_rate :: "dec_literal option"
  xm_fee_exponent :: "nat option"
  xm_fee_taker_only :: "bool option"
  xm_maker_base_fee_bps :: "int option"
  xm_taker_base_fee_bps :: "int option"
  xm_tick_size :: "int option"
  xm_minimum_order_size :: "int option"
  xm_taker_order_delay_ms :: "int option"

text \<open>A discovery row with its parsed fee schedule.\<close>

record gamma_row =
  gm_discovered_utc_ns :: int
  gm_schedule_present :: bool
  gm_rate :: "dec_literal option"
  gm_exponent :: "nat option"
  gm_taker_only :: "bool option"
  gm_maker_base_fee :: "int option"
  gm_taker_base_fee :: "int option"

text \<open>\<^verbatim>\<open>max(rows, key=...)\<close>: the first row with the greatest key.\<close>

fun first_max :: "('a \<Rightarrow> 'k :: linorder) \<Rightarrow> 'a \<Rightarrow> 'a list \<Rightarrow> 'a" where
  "first_max key best [] = best"
| "first_max key best (x # xs) = first_max key (if key best < key x then x else best) xs"

definition observation_order :: "metadata_row \<Rightarrow> int \<times> int" where
  "observation_order r = (xm_received_utc_ns r, or_zero (xm_sequence r))"

definition is_clob :: "metadata_row \<Rightarrow> bool" where
  "is_clob r = (case xm_source r of None \<Rightarrow> False | Some s \<Rightarrow> take 9 s = ''clob_rest'')"

text \<open>The value of a field in the newest row that carries it; ties keep their order.\<close>

definition newest_value :: "(metadata_row \<Rightarrow> 'v option) \<Rightarrow> metadata_row list \<Rightarrow> 'v option" where
  "newest_value field rows =
     (case filter (\<lambda>r. field r \<noteq> None) rows of [] \<Rightarrow> None | r # rs \<Rightarrow> field (first_max observation_order r rs))"

definition or_else :: "'v option \<Rightarrow> 'v option \<Rightarrow> 'v option" where
  "or_else x y = (case x of None \<Rightarrow> y | Some v \<Rightarrow> Some v)"

definition merged_field :: "(metadata_row \<Rightarrow> 'v option) \<Rightarrow> metadata_row \<Rightarrow> metadata_row list
    \<Rightarrow> metadata_row option \<Rightarrow> 'v option" where
  "merged_field field latest clob gamma =
     or_else (or_else (newest_value field clob) (field latest))
       (case gamma of None \<Rightarrow> None | Some g \<Rightarrow> field g)"

definition observed_metadata :: "int \<Rightarrow> metadata_row list \<Rightarrow> metadata_row option" where
  "observed_metadata start rows =
     (case filter (\<lambda>r. xm_received_utc_ns r \<le> start) rows of
        [] \<Rightarrow> None
      | r0 # rs \<Rightarrow>
          let observed = r0 # rs;
              clob = filter is_clob observed;
              gammas = filter (\<lambda>r. xm_source r = Some ''gamma'') observed;
              authority = (if clob \<noteq> [] then clob else observed);
              latest = first_max observation_order (hd authority) (tl authority);
              fallback = (if clob = [] \<or> gammas = [] then None
                          else Some (first_max observation_order (hd gammas) (tl gammas)));
              details = filter (\<lambda>r. xm_source r = Some ''clob_rest_market'') clob;
              delays = (if details \<noteq> [] then details else clob)
          in Some (latest
               \<lparr>xm_fee_rate := merged_field xm_fee_rate latest clob fallback,
                xm_fee_exponent := merged_field xm_fee_exponent latest clob fallback,
                xm_fee_taker_only := merged_field xm_fee_taker_only latest clob fallback,
                xm_maker_base_fee_bps := merged_field xm_maker_base_fee_bps latest clob fallback,
                xm_taker_base_fee_bps := merged_field xm_taker_base_fee_bps latest clob fallback,
                xm_tick_size := merged_field xm_tick_size latest clob fallback,
                xm_minimum_order_size := merged_field xm_minimum_order_size latest clob fallback,
                xm_taker_order_delay_ms :=
                  (if clob = [] then xm_taker_order_delay_ms latest
                   else xm_taker_order_delay_ms (first_max observation_order (hd delays) (tl delays)))\<rparr>))"

definition gamma_metadata :: "int \<Rightarrow> gamma_row list \<Rightarrow> metadata_row option" where
  "gamma_metadata start rows =
     (case filter (\<lambda>g. gm_discovered_utc_ns g \<le> start) rows of
        [] \<Rightarrow> None
      | g0 # gs \<Rightarrow>
          let g = first_max gm_discovered_utc_ns g0 gs in
          if \<not> gm_schedule_present g then None
          else Some
            \<lparr>xm_source = Some ''gamma'', xm_received_utc_ns = gm_discovered_utc_ns g, xm_sequence = None,
             xm_fee_rate = gm_rate g, xm_fee_exponent = gm_exponent g, xm_fee_taker_only = gm_taker_only g,
             xm_maker_base_fee_bps = gm_maker_base_fee g, xm_taker_base_fee_bps = gm_taker_base_fee g,
             xm_tick_size = None, xm_minimum_order_size = None, xm_taker_order_delay_ms = None\<rparr>)"

definition execution_metadata :: "int \<Rightarrow> metadata_row list \<Rightarrow> gamma_row list \<Rightarrow> metadata_row option" where
  "execution_metadata start rows gammas = or_else (observed_metadata start rows) (gamma_metadata start gammas)"

section \<open>The index\<close>

definition exclusion_reason ::
  "winner_source \<Rightarrow> coverage_row option \<Rightarrow> coverage_row option \<Rightarrow> int option \<Rightarrow> int option \<Rightarrow> bool
     \<Rightarrow> int \<Rightarrow> nat \<Rightarrow> string option" where
  "exclusion_reason src up_cov down_cov lead lag require_full_window blocking gaps =
     (if up_cov = None \<or> down_cov = None then Some ''missing_book_data_for_one_side''
      else if src = Ambiguous then Some ''winner_not_determinable''
      else if blocking \<noteq> 0 then Some ''non_replay_eligible_quality_error''
      else if gaps \<noteq> 0 then Some ''clob_connection_gap_during_market''
      else if \<not> require_full_window then None
      else if (case lead of None \<Rightarrow> True | Some n \<Rightarrow> n < 0) then Some ''book_data_starts_after_market_open''
      else if (case lag of None \<Rightarrow> True | Some n \<Rightarrow> n < 0) then Some ''book_data_ends_before_market_close''
      else None)"

text \<open>What the queries and summaries hold about all markets.\<close>

record index_input =
  ix_post_end_ns :: int
  ix_require_full_window :: bool
  ix_coverage :: "string \<rightharpoonup> coverage_row"
  ix_terminal :: "string \<rightharpoonup> terminal_row"
  ix_reference :: "string \<rightharpoonup> (string \<rightharpoonup> reference_row)"
  ix_resolutions :: "string \<Rightarrow> resolution_row list"
  ix_quality :: "string \<rightharpoonup> int \<times> int"
  ix_gaps :: "(int \<times> int option) list"
  ix_metadata :: "string \<Rightarrow> metadata_row list"
  ix_gamma :: "string \<Rightarrow> gamma_row list"

definition covered :: "(int \<Rightarrow> int \<Rightarrow> int) \<Rightarrow> (coverage_row \<Rightarrow> int) \<Rightarrow> coverage_row option
    \<Rightarrow> coverage_row option \<Rightarrow> int option" where
  "covered pick field up_cov down_cov =
     (case (up_cov, down_cov) of
        (Some u, Some d) \<Rightarrow> Some (pick (field u) (field d))
      | (Some u, None) \<Rightarrow> Some (field u)
      | (None, Some d) \<Rightarrow> Some (field d)
      | (None, None) \<Rightarrow> None)"

definition max_received :: "terminal_row \<Rightarrow> terminal_row \<Rightarrow> int option" where
  "max_received u d =
     (case (tm_received u, tm_received d) of
        (Some a, Some b) \<Rightarrow> Some (max a b) | (Some a, None) \<Rightarrow> Some a
      | (None, Some b) \<Rightarrow> Some b | (None, None) \<Rightarrow> None)"

definition no_terminal :: terminal_row where "no_terminal = \<lparr>tm_bid = None, tm_received = None\<rparr>"

definition get_or :: "'v \<Rightarrow> 'v option \<Rightarrow> 'v" where
  "get_or dflt x = (case x of None \<Rightarrow> dflt | Some v \<Rightarrow> v)"

definition build_episode :: "index_input \<Rightarrow> market_row \<Rightarrow> episode" where
  "build_episode ix m =
     (let cid = mk_condition_id m; up = mk_up_token_id m; down = mk_down_token_id m;
          up_cov = ix_coverage ix up; down_cov = ix_coverage ix down;
          up_terminal = get_or no_terminal (ix_terminal ix up);
          down_terminal = get_or no_terminal (ix_terminal ix down);
          gamma_winner = (if mk_winning_token_id m = Some [] then None else mk_winning_token_id m);
          resolution = get_or no_resolution (market_resolution (ix_resolutions ix cid));
          reference = reference_price m (get_or Map.empty (ix_reference ix cid));
          (winner, src, confidence) = resolve_winner gamma_winner up down (tm_bid up_terminal)
             (tm_bid down_terminal) reference (rs_winner resolution) (rs_conflict resolution);
          lead = map_option (\<lambda>t. mk_start_utc_ns m - t) (covered max cv_first up_cov down_cov);
          lag = map_option (\<lambda>t. t - mk_end_utc_ns m) (covered min cv_last up_cov down_cov);
          (errors, blocking) = get_or (0, 0) (ix_quality ix cid);
          gaps = gap_count (ix_gaps ix) m;
          reason = exclusion_reason src up_cov down_cov lead lag (ix_require_full_window ix) blocking gaps;
          metadata = execution_metadata (mk_start_utc_ns m) (ix_metadata ix cid) (ix_gamma ix cid);
          discovered = (if mk_resolved_utc_ns m = None \<or> mk_resolved_utc_ns m = Some 0
                        then mk_discovered_utc_ns m else mk_resolved_utc_ns m)
      in \<lparr>ep_condition_id = cid, ep_market_slug = mk_market_slug m, ep_start_utc_ns = mk_start_utc_ns m,
          ep_end_utc_ns = mk_end_utc_ns m, ep_up_token_id = up, ep_down_token_id = down,
          ep_tick_size = mk_tick_size m, ep_minimum_order_size = mk_minimum_order_size m,
          ep_winner_token_id = winner,
          ep_winner_outcome = map_option (\<lambda>w. if w = up then ''UP'' else ''DOWN'') winner,
          ep_winner_source = src, ep_winner_confidence = confidence,
          ep_terminal_up_bid = tm_bid up_terminal, ep_terminal_down_bid = tm_bid down_terminal,
          ep_reference_open = map_option rf_open reference,
          ep_reference_close = map_option rf_close reference,
          ep_reference_source = map_option rf_source reference,
          ep_first_event_utc_ns = covered min cv_first up_cov down_cov,
          ep_last_event_utc_ns = covered max cv_last up_cov down_cov,
          ep_up_event_count = (case up_cov of None \<Rightarrow> 0 | Some c \<Rightarrow> cv_events c),
          ep_down_event_count = (case down_cov of None \<Rightarrow> 0 | Some c \<Rightarrow> cv_events c),
          ep_coverage_start_lead_ns = lead, ep_coverage_end_lag_ns = lag,
          ep_quality_error_count = errors, ep_eligible = (reason = None), ep_exclusion_reason = reason,
          ep_blocking_quality_error_count = blocking, ep_connection_gap_count = gaps,
          ep_resolution_received_utc_ns = resolution_available_time (ix_post_end_ns ix) src
            (mk_end_utc_ns m) (rs_received resolution) discovered (max_received up_terminal down_terminal),
          ep_fee_rate = Option.bind metadata xm_fee_rate,
          ep_fee_exponent = Option.bind metadata xm_fee_exponent,
          ep_fee_taker_only = Option.bind metadata xm_fee_taker_only,
          ep_maker_base_fee_bps = Option.bind metadata xm_maker_base_fee_bps,
          ep_taker_base_fee_bps = Option.bind metadata xm_taker_base_fee_bps,
          ep_taker_order_delay_ms = Option.bind metadata xm_taker_order_delay_ms,
          ep_execution_metadata_source = Option.bind metadata xm_source,
          ep_execution_metadata_received_utc_ns = map_option xm_received_utc_ns metadata\<rparr>)"

definition build_index :: "index_input \<Rightarrow> market_row list \<Rightarrow> episode list" where
  "build_index ix ms = sort_key ep_start_utc_ns (map (build_episode ix) ms)"

section \<open>Winners\<close>

lemma winner_candidates:
  "winner_from_terminal_book u d x y = Some w \<Longrightarrow> w \<in> {u, d}"
  "winner_from_reference u d r = Some w \<Longrightarrow> w \<in> {u, d}"
  by (auto simp: winner_from_terminal_book_def winner_from_reference_def Let_def
      split: if_splits option.splits)

lemma resolve_winner_sound:
  assumes "resolve_winner g u d x y ref w c = (winner, src, confidence)"
  shows "(winner = None \<longleftrightarrow> src = Ambiguous) \<and> (\<forall>t. winner = Some t \<longrightarrow> t \<in> {u, d})
    \<and> (c \<longrightarrow> src = Ambiguous)"
  using assms winner_candidates [of u d]
  by (fastforce simp: resolve_winner_def Let_def split: if_splits option.splits)

lemma available_not_before_close:
  "0 \<le> post \<Longrightarrow> resolution_available_time post src market_end a g t = Some when \<Longrightarrow> market_end \<le> when"
  by (auto simp: resolution_available_time_def Let_def split: winner_source.splits if_splits)

lemma eligible_reason:
  "exclusion_reason src u d lead lag full blocking gaps = None \<longleftrightarrow>
     u \<noteq> None \<and> d \<noteq> None \<and> src \<noteq> Ambiguous \<and> blocking = 0 \<and> gaps = 0
     \<and> (full \<longrightarrow> (\<exists>n. lead = Some n \<and> 0 \<le> n) \<and> (\<exists>n. lag = Some n \<and> 0 \<le> n))"
  by (auto simp: exclusion_reason_def split: option.splits)

text \<open>
  A disconnect that is followed by another one before any recovery has no end, so it
  counts against every later market, although the second disconnect did recover.
\<close>

lemma repeated_disconnect_never_ends:
  assumes "ce_event_type a = disconnect" "ce_event_type b = disconnect" "or_zero (ce_subscribed_token_count a) \<noteq> 0"
    and "ce_event_utc_ns a \<le> mk_end_utc_ns m"
  shows "(ce_event_utc_ns a, None) \<in> set (connection_gaps (a # b # es))
    \<and> 0 < gap_count (connection_gaps (a # b # es)) m"
proof -
  have gaps: "connection_gaps (a # b # es) = (ce_event_utc_ns a, None) # connection_gaps (b # es)"
    using assms(1-3) by (simp add: event_time_of_def Let_def)
  then show ?thesis using assms(4) by (simp add: gap_count_def)
qed

lemma contradiction_conflicts:
  assumes "r \<in> set rows" "q \<in> set rows" "rl_winning_token_id r \<noteq> rl_winning_token_id q"
  shows "\<exists>x. market_resolution rows = Some x \<and> rs_conflict x"
proof (cases rows)
  case (Cons a rs)
  have "\<exists>p \<in> set rows. rl_winning_token_id p \<noteq> rl_winning_token_id a" using assms by metis
  then show ?thesis unfolding market_resolution_def Cons list.case if_P by auto
qed (use assms in simp)

section \<open>Properties\<close>

text \<open>C35. An episode is eligible only with a settled winner and undisturbed data.  The winner is
  one of the market's two tokens, and missing exactly when its source is ambiguous; contradictory
  recorded resolutions make it ambiguous and the episode ineligible; a settlement time, when there is
  one, is not before the scheduled close; and an eligible episode has a winner, some book data on both
  sides, no blocking quality error and no connection gap.  Only when the full window is required
  do the books of both sides also cover it; without that requirement partial coverage is eligible.\<close>

theorem episode_gating_sound:
  assumes "0 \<le> ix_post_end_ns ix" "e = build_episode ix m"
  shows "(ep_winner_token_id e = None \<longleftrightarrow> ep_winner_source e = Ambiguous)
    \<and> (\<forall>w. ep_winner_token_id e = Some w \<longrightarrow> w \<in> {mk_up_token_id m, mk_down_token_id m})
    \<and> (\<forall>r \<in> set (ix_resolutions ix (mk_condition_id m)).
         \<forall>q \<in> set (ix_resolutions ix (mk_condition_id m)).
           rl_winning_token_id r \<noteq> rl_winning_token_id q \<longrightarrow> \<not> ep_eligible e)
    \<and> (\<forall>t. ep_resolution_received_utc_ns e = Some t \<longrightarrow> mk_end_utc_ns m \<le> t)
    \<and> (ep_eligible e \<longrightarrow> ep_winner_token_id e \<noteq> None
        \<and> ep_blocking_quality_error_count e = 0 \<and> gap_count (ix_gaps ix) m = 0
        \<and> (\<exists>u d. ix_coverage ix (mk_up_token_id m) = Some u \<and> ix_coverage ix (mk_down_token_id m) = Some d
            \<and> (ix_require_full_window ix \<longrightarrow> max (cv_first u) (cv_first d) \<le> mk_start_utc_ns m
                \<and> mk_end_utc_ns m \<le> min (cv_last u) (cv_last d))))"
proof -
  define res where "res = get_or no_resolution (market_resolution (ix_resolutions ix (mk_condition_id m)))"
  define up_cov where "up_cov = ix_coverage ix (mk_up_token_id m)"
  define down_cov where "down_cov = ix_coverage ix (mk_down_token_id m)"
  define up_t where "up_t = get_or no_terminal (ix_terminal ix (mk_up_token_id m))"
  define down_t where "down_t = get_or no_terminal (ix_terminal ix (mk_down_token_id m))"
  obtain errors blocking where q: "get_or (0, 0) (ix_quality ix (mk_condition_id m)) = (errors, blocking)"
    by (meson surj_pair)
  obtain w src c where win: "resolve_winner (if mk_winning_token_id m = Some [] then None else mk_winning_token_id m)
      (mk_up_token_id m) (mk_down_token_id m) (tm_bid up_t) (tm_bid down_t)
      (reference_price m (get_or Map.empty (ix_reference ix (mk_condition_id m))))
      (rs_winner res) (rs_conflict res) = (w, src, c)"
    by (meson prod_cases3)
  note sound = resolve_winner_sound [OF win]
  let ?lead = "map_option (\<lambda>t. mk_start_utc_ns m - t) (covered max cv_first up_cov down_cov)"
  let ?lag = "map_option (\<lambda>t. t - mk_end_utc_ns m) (covered min cv_last up_cov down_cov)"
  have f: "ep_winner_token_id e = w" "ep_winner_source e = src" "ep_blocking_quality_error_count e = blocking"
    "ep_eligible e \<longleftrightarrow> exclusion_reason src up_cov down_cov ?lead ?lag (ix_require_full_window ix)
       blocking (gap_count (ix_gaps ix) m) = None"
    "\<exists>a g t. ep_resolution_received_utc_ns e
       = resolution_available_time (ix_post_end_ns ix) src (mk_end_utc_ns m) a g t"
    using win q unfolding assms(2) build_episode_def Let_def
    by (auto simp: up_cov_def down_cov_def res_def up_t_def down_t_def)
  have "\<not> ep_eligible e" if "r \<in> set (ix_resolutions ix (mk_condition_id m))"
    "r' \<in> set (ix_resolutions ix (mk_condition_id m))"
    "rl_winning_token_id r \<noteq> rl_winning_token_id r'" for r r'
  proof -
    have "rs_conflict res" using contradiction_conflicts [OF that] by (auto simp: res_def get_or_def)
    with sound f(4) show ?thesis by (simp add: eligible_reason)
  qed
  moreover have "mk_end_utc_ns m \<le> t" if "ep_resolution_received_utc_ns e = Some t" for t
    using f(5) that available_not_before_close [OF assms(1)] by auto
  moreover have "w \<noteq> None \<and> blocking = 0 \<and> gap_count (ix_gaps ix) m = 0
        \<and> (\<exists>u d. up_cov = Some u \<and> down_cov = Some d
            \<and> (ix_require_full_window ix \<longrightarrow> max (cv_first u) (cv_first d) \<le> mk_start_utc_ns m
                \<and> mk_end_utc_ns m \<le> min (cv_last u) (cv_last d)))" if "ep_eligible e"
    using that sound unfolding f(4) eligible_reason by (auto simp: covered_def)
  ultimately show ?thesis using sound f(1-3) by (simp add: up_cov_def down_cov_def)
qed

definition demo_market :: market_row where
  "demo_market =
     \<lparr>mk_condition_id = ''m'', mk_market_slug = ''btc'', mk_start_utc_ns = 0, mk_end_utc_ns = 900,
      mk_up_token_id = ''t'', mk_down_token_id = ''u'', mk_tick_size = 10000,
      mk_minimum_order_size = 5000000, mk_winning_token_id = None, mk_discovered_utc_ns = Some 0,
      mk_resolved_utc_ns = None\<rparr>"

definition demo_index :: index_input where
  "demo_index =
     \<lparr>ix_post_end_ns = 60, ix_require_full_window = True,
      ix_coverage = [''t'' \<mapsto> \<lparr>cv_events = 9, cv_first = -5, cv_last = 950\<rparr>,
                     ''u'' \<mapsto> \<lparr>cv_events = 7, cv_first = -3, cv_last = 940\<rparr>],
      ix_terminal = [''t'' \<mapsto> \<lparr>tm_bid = Some 990000, tm_received = Some 905\<rparr>],
      ix_reference = Map.empty, ix_resolutions = (\<lambda>_. []), ix_quality = Map.empty, ix_gaps = [],
      ix_metadata = (\<lambda>_. []), ix_gamma = (\<lambda>_. [])\<rparr>"

lemma demo_indexed:
  "ep_eligible (build_episode demo_index demo_market)"
  "ep_winner_token_id (build_episode demo_index demo_market) = Some ''t''"
  "ep_resolution_received_utc_ns (build_episode demo_index demo_market) = Some 905"
  by code_simp+

theorem episode_gating_sound_witness:
  "ep_winner_source (build_episode demo_index demo_market) = Terminal_book
   \<and> ep_winner_token_id (build_episode demo_index demo_market) \<noteq> None
   \<and> mk_end_utc_ns demo_market \<le> 905"
proof -
  have "0 \<le> ix_post_end_ns demo_index" by (simp add: demo_index_def)
  moreover have "ep_winner_source (build_episode demo_index demo_market) = Terminal_book" by code_simp
  ultimately show ?thesis using episode_gating_sound [OF _ refl, of demo_index demo_market] demo_indexed
    by blast
qed

end
