(* ===== verification/Tape.thy ===== *)
theory Tape
  imports Reconstructor Episodes
begin

text \<open>
  \<^verbatim>\<open>backtest/tape.py\<close>: an episode's recorded book events are replayed through the reconstructor once, every accepted event becomes
  a row with the whole ladder, and every rejected one opens an interval in which the book is not
  to be traded.  SQL, Parquet and the file system stay outside: the events of an episode and its
  trades are arguments, and a loaded tape is the list of its rows rather than a record of
  columns.
\<close>

section \<open>Recorded book events\<close>

datatype event_kind = Kind_snapshot | Kind_tick | Kind_update

datatype book_side = Book_side_none | Book_side_bids | Book_side_asks

text \<open>One row of the event query; the columns another kind of event lacks are null.\<close>

record book_event =
  be_kind :: event_kind
  be_received_utc_ns :: int
  be_received_monotonic_ns :: int
  be_sequence :: int
  be_change_index :: int
  be_token_id :: string
  be_snapshot_id :: "string option"
  be_outcome :: "string option"
  be_source :: "string option"
  be_exchange_timestamp_ns :: "int option"
  be_book_hash :: "string option"
  be_tick_size :: "int option"
  be_minimum_order_size :: "int option"
  be_connection_id :: "string option"
  be_run_id :: "string option"
  be_side :: "side option"
  be_price :: "int option"
  be_new_size :: "int option"
  be_reported_best_bid :: "int option"
  be_reported_best_ask :: "int option"
  be_new_tick_size :: "int option"
  be_parent_event_id :: "string option"
  be_levels :: "book_level list \<times> book_level list"

text \<open>\<^verbatim>\<open>str(x or "")\<close>, \<^verbatim>\<open>str(x)\<close> and \<^verbatim>\<open>int(x or y)\<close> on nullable columns.\<close>

definition str_or_empty :: "string option \<Rightarrow> string" where
  "str_or_empty x = (case x of None \<Rightarrow> [] | Some s \<Rightarrow> s)"

definition py_str :: "string option \<Rightarrow> string" where
  "py_str x = (case x of None \<Rightarrow> ''None'' | Some s \<Rightarrow> s)"

definition int_or :: "int option \<Rightarrow> int \<Rightarrow> int" where
  "int_or x y = (case x of None \<Rightarrow> y | Some n \<Rightarrow> if n = 0 then y else n)"

definition snapshot_of_event :: "episode \<Rightarrow> book_event \<Rightarrow> book_snapshot" where
  "snapshot_of_event e v =
     \<lparr>bs_snapshot_id = py_str (be_snapshot_id v), bs_sequence = be_sequence v,
      bs_run_id = str_or_empty (be_run_id v), bs_connection_id = str_or_empty (be_connection_id v),
      bs_source = py_str (be_source v), bs_condition_id = ep_condition_id e,
      bs_token_id = be_token_id v, bs_outcome = str_or_empty (be_outcome v),
      bs_exchange_timestamp_ns = be_exchange_timestamp_ns v,
      bs_received_utc_ns = be_received_utc_ns v,
      bs_received_monotonic_ns = be_received_monotonic_ns v, bs_book_hash = be_book_hash v,
      bs_tick_size = int_or (be_tick_size v) (ep_tick_size e),
      bs_minimum_order_size = int_or (be_minimum_order_size v) (ep_minimum_order_size e),
      bs_last_trade_price = None, bs_neg_risk = False,
      bs_bids = fst (be_levels v), bs_asks = snd (be_levels v)\<rparr>"

text \<open>A null price or size raises in \<^verbatim>\<open>int(None)\<close>; a null side fails the model's validation.\<close>

definition change_of_event :: "episode \<Rightarrow> book_event \<Rightarrow> py_error + book_level_change" where
  "change_of_event e v =
     (case (be_price v, be_new_size v) of
        (Some price, Some new_size) \<Rightarrow>
          (case be_side v of
             None \<Rightarrow> Inl (ValueError ''BookLevelChange.side'')
           | Some s \<Rightarrow> Inr
               \<lparr>bc_parent_event_id = str_or_empty (be_parent_event_id v),
                bc_change_index = be_change_index v, bc_sequence = be_sequence v,
                bc_condition_id = ep_condition_id e, bc_token_id = be_token_id v,
                bc_outcome = str_or_empty (be_outcome v),
                bc_exchange_timestamp_ns = be_exchange_timestamp_ns v,
                bc_received_utc_ns = be_received_utc_ns v,
                bc_received_monotonic_ns = be_received_monotonic_ns v, bc_side = s,
                bc_price = price, bc_new_size = new_size, bc_book_hash = be_book_hash v,
                bc_reported_best_bid = be_reported_best_bid v,
                bc_reported_best_ask = be_reported_best_ask v,
                bc_connection_id = str_or_empty (be_connection_id v)\<rparr>)
      | _ \<Rightarrow> Inl TypeError)"

definition tick_of_event :: "episode \<Rightarrow> book_event \<Rightarrow> py_error + tick_size_change" where
  "tick_of_event e v =
     (case be_new_tick_size v of
        None \<Rightarrow> Inl TypeError
      | Some tick \<Rightarrow> Inr
          \<lparr>tc_tick_change_id = [], tc_sequence = be_sequence v, tc_condition_id = ep_condition_id e,
           tc_token_id = be_token_id v, tc_exchange_timestamp_ns = be_exchange_timestamp_ns v,
           tc_received_utc_ns = be_received_utc_ns v,
           tc_received_monotonic_ns = be_received_monotonic_ns v, tc_old_tick_size = None,
           tc_new_tick_size = tick, tc_connection_id = str_or_empty (be_connection_id v),
           tc_source = (case be_source v of None \<Rightarrow> ''clob_market_ws''
                        | Some s \<Rightarrow> if s = [] then ''clob_market_ws'' else s)\<rparr>)"

section \<open>Rows\<close>

record tape_row =
  row_received_utc_ns :: int
  row_sequence :: int
  row_token_index :: int
  row_event_kind :: event_kind
  row_event_side :: book_side
  row_event_price :: "int option"
  row_book_valid :: bool
  row_best_bid :: "int option"
  row_best_ask :: "int option"
  row_bid_size :: "int option"
  row_ask_size :: "int option"
  row_tick_size :: int
  row_bid_prices :: "int list"
  row_bid_sizes :: "int list"
  row_ask_prices :: "int list"
  row_ask_sizes :: "int list"
  row_bid_depth_beyond :: int
  row_ask_depth_beyond :: int

definition head_option :: "'a list \<Rightarrow> 'a option" where
  "head_option xs = (case xs of [] \<Rightarrow> None | x # _ \<Rightarrow> Some x)"

definition kept_levels :: "nat option \<Rightarrow> (int \<times> int) list \<Rightarrow> (int \<times> int) list" where
  "kept_levels depth ls = (case depth of None \<Rightarrow> ls | Some n \<Rightarrow> take n ls)"

text \<open>A finite depth stores lists of exactly that length, filled up with zeros.\<close>

definition padded :: "nat option \<Rightarrow> int list \<Rightarrow> int list" where
  "padded depth xs = (case depth of None \<Rightarrow> xs | Some n \<Rightarrow> xs @ replicate (n - length xs) 0)"

definition beyond :: "nat option \<Rightarrow> (int \<times> int) list \<Rightarrow> int" where
  "beyond depth ls = (case depth of None \<Rightarrow> 0 | Some n \<Rightarrow> sum_list (map snd (drop n ls)))"

definition append_row :: "nat option \<Rightarrow> book_event \<Rightarrow> int \<Rightarrow> order_book \<Rightarrow> py_error + tape_row" where
  "append_row depth v token_index b =
     (let bids = rev (ob_bids b); asks = ob_asks b;
          kept_bids = kept_levels depth bids; kept_asks = kept_levels depth asks
      in if be_kind v = Kind_update \<and> be_price v = None then Inl TypeError
         else Inr
           \<lparr>row_received_utc_ns = be_received_utc_ns v, row_sequence = be_sequence v,
            row_token_index = token_index, row_event_kind = be_kind v,
            row_event_side = (if be_kind v = Kind_update
              then (if be_side v = Some BUY then Book_side_bids else Book_side_asks)
              else Book_side_none),
            row_event_price = (if be_kind v = Kind_update then be_price v else None),
            row_book_valid = ob_valid b,
            row_best_bid = head_option (map fst kept_bids),
            row_best_ask = head_option (map fst kept_asks),
            row_bid_size = head_option (map snd kept_bids),
            row_ask_size = head_option (map snd kept_asks),
            row_tick_size = ob_tick_size b,
            row_bid_prices = padded depth (map fst kept_bids),
            row_bid_sizes = padded depth (map snd kept_bids),
            row_ask_prices = padded depth (map fst kept_asks),
            row_ask_sizes = padded depth (map snd kept_asks),
            row_bid_depth_beyond = beyond depth bids,
            row_ask_depth_beyond = beyond depth asks\<rparr>)"

section \<open>Building a tape\<close>

record tape_interval =
  ti_token_id :: string
  ti_start_utc_ns :: int
  ti_end_utc_ns :: "int option"
  ti_reason :: py_error

record tape_build =
  tp_reconstructor :: reconstructor
  tp_rows :: "tape_row list"
  tp_invalid_events :: nat
  tp_uncertainty :: "tape_interval list"
  tp_pending :: "(string \<times> tape_interval) list"

definition make_build :: tape_build where
  "make_build = \<lparr>tp_reconstructor = make_reconstructor, tp_rows = [], tp_invalid_events = 0,
     tp_uncertainty = [], tp_pending = []\<rparr>"

definition side_up :: int where "side_up = 0"
definition side_down :: int where "side_down = 1"

definition episode_tokens :: "episode \<Rightarrow> string \<rightharpoonup> int" where
  "episode_tokens e = [ep_up_token_id e \<mapsto> side_up, ep_down_token_id e \<mapsto> side_down]"

text \<open>The guarded part of the loop body: the event applied to the reconstructor.\<close>

definition apply_book_event :: "episode \<Rightarrow> book_event \<Rightarrow> reconstructor
    \<Rightarrow> reconstructor \<times> (py_error + unit)" where
  "apply_book_event e v r =
     (case be_kind v of
        Kind_snapshot \<Rightarrow> (case apply_snapshot (snapshot_of_event e v) r of
          (r', Inl x) \<Rightarrow> (r', Inl x) | (r', Inr _) \<Rightarrow> (r', Inr ()))
      | Kind_tick \<Rightarrow> (case tick_of_event e v of
          Inl x \<Rightarrow> (r, Inl x)
        | Inr c \<Rightarrow> (case apply_tick_size_change c r of
            (r', Inl x) \<Rightarrow> (r', Inl x) | (r', Inr _) \<Rightarrow> (r', Inr ())))
      | Kind_update \<Rightarrow> (case change_of_event e v of
          Inl x \<Rightarrow> (r, Inl x)
        | Inr c \<Rightarrow> (case apply_change c r of
            (r', Inl x) \<Rightarrow> (r', Inl x) | (r', Inr _) \<Rightarrow> (r', Inr ()))))"

text \<open>After a rejected event: the book is invalid and an interval is open from here on.\<close>

definition reject_event :: "book_event \<Rightarrow> py_error \<Rightarrow> reconstructor \<Rightarrow> tape_build \<Rightarrow> tape_build" where
  "reject_event v x r s =
     s\<lparr>tp_reconstructor := (case rc_book r (be_token_id v) of
          None \<Rightarrow> r
        | Some b \<Rightarrow> r\<lparr>rc_books := dict_put (be_token_id v) (b\<lparr>ob_valid := False\<rparr>) (rc_books r)\<rparr>),
       tp_invalid_events := Suc (tp_invalid_events s),
       tp_pending := (if map_of (tp_pending s) (be_token_id v) \<noteq> None then tp_pending s
          else dict_put (be_token_id v)
            \<lparr>ti_token_id = be_token_id v, ti_start_utc_ns = be_received_utc_ns v,
             ti_end_utc_ns = None, ti_reason = x\<rparr> (tp_pending s))\<rparr>"

definition close_pending :: "book_event \<Rightarrow> tape_build \<Rightarrow> tape_build" where
  "close_pending v s =
     (case map_of (tp_pending s) (be_token_id v) of
        None \<Rightarrow> s
      | Some i \<Rightarrow>
          s\<lparr>tp_pending := filter (\<lambda>(t, _). t \<noteq> be_token_id v) (tp_pending s),
            tp_uncertainty := tp_uncertainty s @ [i\<lparr>ti_end_utc_ns := Some (be_received_utc_ns v)\<rparr>]\<rparr>)"

definition build_event :: "episode \<Rightarrow> nat option \<Rightarrow> book_event \<Rightarrow> tape_build \<Rightarrow> py_error + tape_build" where
  "build_event e depth v s =
     (case episode_tokens e (be_token_id v) of
        None \<Rightarrow> Inl (KeyError (be_token_id v))
      | Some token_index \<Rightarrow>
          (case apply_book_event e v (tp_reconstructor s) of
             (r, Inl x) \<Rightarrow>
               if is_value_error x then Inr (reject_event v x r s) else Inl x
           | (r, Inr _) \<Rightarrow>
               let s1 = s\<lparr>tp_reconstructor := r\<rparr>;
                   s2 = (if be_kind v = Kind_snapshot then close_pending v s1 else s1)
               in case rc_book r (be_token_id v) of
                    None \<Rightarrow> Inr s2
                  | Some b \<Rightarrow>
                      res_bind (append_row depth v token_index b)
                        (\<lambda>row. Inr (s2\<lparr>tp_rows := tp_rows s2 @ [row]\<rparr>))))"

fun build_events :: "episode \<Rightarrow> nat option \<Rightarrow> book_event list \<Rightarrow> tape_build \<Rightarrow> py_error + tape_build" where
  "build_events e depth [] s = Inr s"
| "build_events e depth (v # vs) s = res_bind (build_event e depth v s) (build_events e depth vs)"

text \<open>The whole of \<^verbatim>\<open>build\<close>, less the files: rows, and every interval, closed ones first.\<close>

definition build_tape :: "episode \<Rightarrow> nat option \<Rightarrow> book_event list \<Rightarrow> py_error + tape_build" where
  "build_tape e depth vs =
     res_bind (build_events e depth vs make_build) (\<lambda>s.
       Inr (s\<lparr>tp_uncertainty := tp_uncertainty s @ map snd (tp_pending s)\<rparr>))"

section \<open>A loaded tape\<close>

text \<open>Absent quotes are stored as a sentinel and read back as absent.\<close>

definition NO_QUOTE :: int where "NO_QUOTE = -1"

definition fill_null :: "int \<Rightarrow> int option \<Rightarrow> int" where
  "fill_null null x = (case x of None \<Rightarrow> null | Some n \<Rightarrow> n)"

definition quote_at :: "int \<Rightarrow> int option" where
  "quote_at v = (if v = NO_QUOTE then None else Some v)"

record tape =
  tape_episode :: episode
  tape_rows :: "tape_row list"
  tape_trades :: "(int \<times> int \<times> int) list"
  tape_uncertainty :: "tape_interval list"

text \<open>\<^verbatim>\<open>load_tape\<close>: the scalar columns with their nulls filled, the ladders as stored.\<close>

definition load_row :: "tape_row \<Rightarrow> tape_row" where
  "load_row r =
     r\<lparr>row_event_price := Some (fill_null 0 (row_event_price r)),
       row_best_bid := quote_at (fill_null NO_QUOTE (row_best_bid r)),
       row_best_ask := quote_at (fill_null NO_QUOTE (row_best_ask r))\<rparr>"

definition load_tape :: "episode \<Rightarrow> tape_row list \<Rightarrow> (int \<times> int \<times> int option) list
    \<Rightarrow> tape_interval list \<Rightarrow> tape" where
  "load_tape e rows trades uncertainty =
     \<lparr>tape_episode = e, tape_rows = map load_row rows,
      tape_trades = map (\<lambda>(t, k, z). (t, k, fill_null 0 z)) trades,
      tape_uncertainty = uncertainty\<rparr>"

definition token_index_of :: "tape \<Rightarrow> string \<Rightarrow> int" where
  "token_index_of t token_id = (if token_id = ep_up_token_id (tape_episode t) then side_up else side_down)"

definition token_id_of :: "tape \<Rightarrow> int \<Rightarrow> string" where
  "token_id_of t index =
     (if index = side_up then ep_up_token_id (tape_episode t) else ep_down_token_id (tape_episode t))"

definition row_ladder :: "book_side \<Rightarrow> tape_row \<Rightarrow> (int \<times> int) list" where
  "row_ladder bs r =
     filter (\<lambda>(_, sz). 0 < sz)
       (if bs = Book_side_bids then zip (row_bid_prices r) (row_bid_sizes r)
        else zip (row_ask_prices r) (row_ask_sizes r))"

definition tape_ladder :: "tape \<Rightarrow> nat \<Rightarrow> book_side \<Rightarrow> (int \<times> int) list" where
  "tape_ladder t i bs = row_ladder bs (tape_rows t ! i)"

definition tape_taker_ladder :: "tape \<Rightarrow> nat \<Rightarrow> side \<Rightarrow> (int \<times> int) list" where
  "tape_taker_ladder t i s = tape_ladder t i (if s = BUY then Book_side_asks else Book_side_bids)"

definition is_uncertain :: "tape \<Rightarrow> string \<Rightarrow> int \<Rightarrow> bool" where
  "is_uncertain t token_id timestamp_ns \<longleftrightarrow>
     (\<exists>i \<in> set (tape_uncertainty t). ti_token_id i = token_id \<and> ti_start_utc_ns i \<le> timestamp_ns
        \<and> (case ti_end_utc_ns i of None \<Rightarrow> True | Some e \<Rightarrow> timestamp_ns \<le> e))"

section \<open>Rows and books\<close>

lemma padded_zip:
  "length xs = length ys \<Longrightarrow> \<forall>y \<in> set ys. 0 < y \<Longrightarrow>
     filter (\<lambda>(_, sz). 0 < sz) (zip (padded depth xs) (padded depth ys)) = zip xs ys"
  by (auto simp: padded_def filter_empty_conv zip_replicate split: option.split
      intro!: filter_True dest: set_zip_rightD)

lemma kept_levels_set: "set (kept_levels depth ls) \<subseteq> set ls"
  by (auto simp: kept_levels_def split: option.split dest: in_set_takeD)

lemma zip_map_fst_snd: "zip (map fst xs) (map snd xs) = xs"
  by (induction xs) auto

lemma append_row_ladders:
  assumes "append_row depth v k b = Inr r" "\<forall>(p, sz) \<in> set (ob_bids b) \<union> set (ob_asks b). 0 < sz"
  shows "row_ladder Book_side_bids r = kept_levels depth (rev (ob_bids b))"
    "row_ladder Book_side_asks r = kept_levels depth (ob_asks b)"
proof -
  have pos: "\<forall>sz \<in> set (map snd (kept_levels depth ls)). 0 < sz"
    if "set ls \<subseteq> set (ob_bids b) \<union> set (ob_asks b)" for ls
    using assms(2) that kept_levels_set [of depth ls] by fastforce
  show "row_ladder Book_side_bids r = kept_levels depth (rev (ob_bids b))"
    "row_ladder Book_side_asks r = kept_levels depth (ob_asks b)"
    using assms(1) pos [of "rev (ob_bids b)"] pos [of "ob_asks b"]
    by (auto simp: append_row_def row_ladder_def Let_def padded_zip zip_map_fst_snd split: if_splits)
qed

text \<open>What a row shows of its book.\<close>

definition row_ok :: "tape_row \<Rightarrow> bool" where
  "row_ok r \<longleftrightarrow>
     sorted_wrt (>) (map fst (row_ladder Book_side_bids r))
     \<and> sorted_wrt (<) (map fst (row_ladder Book_side_asks r))
     \<and> (\<forall>(p, sz) \<in> set (row_ladder Book_side_bids r) \<union> set (row_ladder Book_side_asks r).
          PRICE_MIN_SCALED < p \<and> p < PRICE_MAX_SCALED \<and> 0 < sz)
     \<and> row_best_bid r = head_option (map fst (row_ladder Book_side_bids r))
     \<and> row_best_ask r = head_option (map fst (row_ladder Book_side_asks r))
     \<and> (row_book_valid r \<longrightarrow>
          (\<forall>p \<in> fst ` set (row_ladder Book_side_bids r). \<forall>q \<in> fst ` set (row_ladder Book_side_asks r). p < q))"

lemma sorted_wrt_kept:
  "sorted_wrt P (map fst ls) \<Longrightarrow> sorted_wrt P (map fst (kept_levels depth ls))"
  by (auto simp: kept_levels_def take_map [symmetric] sorted_wrt_take split: option.split)

lemma append_row_ok:
  assumes "append_row depth v k b = Inr r" "reachable_book b"
  shows "row_ok r \<and> row_book_valid r = ob_valid b \<and> row_token_index r = k
    \<and> row_received_utc_ns r = be_received_utc_ns v"
proof -
  have inv: "side_ok (ob_bids b)" "side_ok (ob_asks b)" "ob_valid b \<Longrightarrow> uncrossed b"
    using reachable_book_inv [OF assms(2)] by (auto simp: book_inv_def)
  then have "\<forall>(p, sz) \<in> set (ob_bids b) \<union> set (ob_asks b). 0 < sz" by (auto simp: side_ok_def)
  note ladders = append_row_ladders [OF assms(1) this]
  have fields: "row_book_valid r = ob_valid b" "row_token_index r = k"
    "row_received_utc_ns r = be_received_utc_ns v"
    "row_best_bid r = head_option (map fst (kept_levels depth (rev (ob_bids b))))"
    "row_best_ask r = head_option (map fst (kept_levels depth (ob_asks b)))"
    using assms(1) by (auto simp: append_row_def Let_def split: if_splits)
  have sub: "set (kept_levels depth (rev (ob_bids b))) \<subseteq> set (ob_bids b)"
    "set (kept_levels depth (ob_asks b)) \<subseteq> set (ob_asks b)"
    using kept_levels_set [of depth "rev (ob_bids b)"] kept_levels_set [of depth "ob_asks b"] by auto
  have "sorted_wrt (>) (map fst (kept_levels depth (rev (ob_bids b))))"
    using inv(1) by (intro sorted_wrt_kept) (simp add: rev_map [symmetric] sorted_wrt_rev side_ok_def sd_inv_def)
  moreover have "sorted_wrt (<) (map fst (kept_levels depth (ob_asks b)))"
    using inv(2) by (intro sorted_wrt_kept) (simp add: side_ok_def sd_inv_def)
  ultimately show ?thesis
    using inv sub unfolding row_ok_def ladders fields
    by (fastforce simp: side_ok_def uncrossed_def)
qed

section \<open>The loop\<close>

definition event_message :: "episode \<Rightarrow> book_event \<Rightarrow> rc_message option" where
  "event_message e v =
     (case be_kind v of
        Kind_snapshot \<Rightarrow> Some (Msg_snapshot (snapshot_of_event e v))
      | Kind_tick \<Rightarrow> (case tick_of_event e v of Inl _ \<Rightarrow> None | Inr c \<Rightarrow> Some (Msg_tick c))
      | Kind_update \<Rightarrow> (case change_of_event e v of Inl _ \<Rightarrow> None | Inr c \<Rightarrow> Some (Msg_change c)))"

lemma apply_book_event_step:
  "apply_book_event e v r = (r', x) \<Longrightarrow>
     r' = (case event_message e v of None \<Rightarrow> r | Some m \<Rightarrow> rc_step m r)"
  by (cases "be_kind v")
    (auto simp: apply_book_event_def event_message_def split: sum.splits prod.splits)

lemma apply_book_event_inv: "apply_book_event e v r = (r', x) \<Longrightarrow> rc_inv r \<Longrightarrow> rc_inv r'"
  by (auto dest!: apply_book_event_step intro: inv_intros split: option.split)

lemma event_message_snapshot:
  "event_message e v = Some m \<Longrightarrow> snapshot_of t m \<Longrightarrow> be_kind v = Kind_snapshot \<and> be_token_id v = t"
  by (auto simp: event_message_def snapshot_of_def snapshot_of_event_def
      split: event_kind.splits sum.splits)

lemma apply_book_event_invalid:
  assumes "apply_book_event e v r = (r', x)" "\<not> rc_valid r t"
    and "\<not> (be_kind v = Kind_snapshot \<and> be_token_id v = t)"
  shows "\<not> rc_valid r' t"
proof (cases "event_message e v")
  case None
  with assms(2) apply_book_event_step [OF assms(1)] show ?thesis by simp
next
  case (Some m)
  have "\<not> snapshot_of t m" using event_message_snapshot [OF Some] assms(3) by blast
  from invalid_step [OF assms(2) this] apply_book_event_step [OF assms(1)] Some show ?thesis by simp
qed

text \<open>
  An interval and a row of the same token keep out of each other's way: a valid row is not
  strictly inside the interval.
\<close>

definition apart :: "episode \<Rightarrow> tape_row \<Rightarrow> tape_interval \<Rightarrow> bool" where
  "apart e r i \<longleftrightarrow>
     (row_book_valid r \<and> episode_tokens e (ti_token_id i) = Some (row_token_index r) \<longrightarrow>
        row_received_utc_ns r \<le> ti_start_utc_ns i
        \<or> (case ti_end_utc_ns i of None \<Rightarrow> False | Some t \<Rightarrow> t \<le> row_received_utc_ns r))"

definition rows_inv :: "int \<Rightarrow> tape_row list \<Rightarrow> bool" where
  "rows_inv now rows \<longleftrightarrow>
     (\<forall>r \<in> set rows. row_ok r \<and> row_received_utc_ns r \<le> now) \<and> sorted (map row_received_utc_ns rows)"

definition pending_inv :: "int \<Rightarrow> reconstructor \<Rightarrow> (string \<times> tape_interval) list \<Rightarrow> bool" where
  "pending_inv now rc pend \<longleftrightarrow>
     (\<forall>(t, i) \<in> set pend. ti_token_id i = t \<and> ti_end_utc_ns i = None \<and> ti_start_utc_ns i \<le> now
        \<and> \<not> rc_valid rc t)"

definition closed_inv :: "int \<Rightarrow> tape_interval list \<Rightarrow> bool" where
  "closed_inv now is \<longleftrightarrow> (\<forall>i \<in> set is. \<exists>t. ti_end_utc_ns i = Some t \<and> t \<le> now)"

definition all_apart :: "episode \<Rightarrow> tape_row list \<Rightarrow> tape_interval list \<Rightarrow> bool" where
  "all_apart e rows is \<longleftrightarrow> (\<forall>r \<in> set rows. \<forall>i \<in> set is. apart e r i)"

lemma all_apart_append: "all_apart e rows (is @ js) \<longleftrightarrow> all_apart e rows is \<and> all_apart e rows js"
  by (auto simp: all_apart_def)

lemma all_apart_mono: "set is \<subseteq> set js \<Longrightarrow> all_apart e rows js \<Longrightarrow> all_apart e rows is"
  by (auto simp: all_apart_def)

definition tape_inv :: "episode \<Rightarrow> int \<Rightarrow> tape_build \<Rightarrow> bool" where
  "tape_inv e now s \<longleftrightarrow>
     rc_inv (tp_reconstructor s) \<and> rows_inv now (tp_rows s)
     \<and> pending_inv now (tp_reconstructor s) (tp_pending s) \<and> closed_inv now (tp_uncertainty s)
     \<and> all_apart e (tp_rows s) (tp_uncertainty s @ map snd (tp_pending s))"

lemma tape_inv_make: "tape_inv e now make_build"
  by (simp add: tape_inv_def make_build_def rc_inv_make rows_inv_def pending_inv_def closed_inv_def
      all_apart_def)

lemma tape_inv_later: "tape_inv e now s \<Longrightarrow> now \<le> later \<Longrightarrow> tape_inv e later s"
  unfolding tape_inv_def rows_inv_def pending_inv_def closed_inv_def by (fastforce intro: order.trans)

lemma rc_valid_invalidated:
  "\<not> rc_valid (case rc_book r k of None \<Rightarrow> r
      | Some b \<Rightarrow> r\<lparr>rc_books := dict_put k (b\<lparr>ob_valid := False\<rparr>) (rc_books r)\<rparr>) k"
  "\<not> rc_valid r t \<Longrightarrow> \<not> rc_valid (case rc_book r k of None \<Rightarrow> r
      | Some b \<Rightarrow> r\<lparr>rc_books := dict_put k (b\<lparr>ob_valid := False\<rparr>) (rc_books r)\<rparr>) t"
  by (auto simp: rc_valid_put rc_valid_def rc_book_def split: option.splits)

lemma rc_inv_invalidated:
  "rc_inv r \<Longrightarrow> rc_inv (case rc_book r k of None \<Rightarrow> r
      | Some b \<Rightarrow> r\<lparr>rc_books := dict_put k (b\<lparr>ob_valid := False\<rparr>) (rc_books r)\<rparr>)"
  using rc_inv_put rc_bookD reachable_book.uncertain by (auto split: option.split)

lemma set_dict_put_subset: "set (dict_put k v d) \<subseteq> insert (k, v) (set d)"
  by (induction d) (auto split: if_splits)

lemma tape_inv_reject:
  assumes inv: "tape_inv e now s" and now: "be_received_utc_ns v = now"
    and run: "apply_book_event e v (tp_reconstructor s) = (r, Inl x)"
  shows "tape_inv e now (reject_event v x r s)"
proof -
  have r: "rc_inv r" using apply_book_event_inv [OF run] inv by (simp add: tape_inv_def)
  define rc where "rc = tp_reconstructor (reject_event v x r s)"
  have rc: "rc_inv rc" using rc_inv_invalidated [OF r] by (simp add: rc_def reject_event_def)
  have gone: "\<not> rc_valid rc (be_token_id v)"
    by (simp add: rc_def reject_event_def rc_valid_invalidated(1))
  have keep: "\<not> rc_valid rc t" if "\<not> rc_valid (tp_reconstructor s) t" for t
  proof (cases "t = be_token_id v")
    case False
    then have "\<not> rc_valid r t" using apply_book_event_invalid [OF run that] by blast
    then show ?thesis by (simp add: rc_def reject_event_def rc_valid_invalidated(2))
  qed (use gone in simp)
  let ?new = "(be_token_id v, \<lparr>ti_token_id = be_token_id v, ti_start_utc_ns = be_received_utc_ns v,
             ti_end_utc_ns = None, ti_reason = x\<rparr>)"
  have pend: "set (tp_pending (reject_event v x r s)) \<subseteq> insert ?new (set (tp_pending s))"
    using set_dict_put_subset [of "fst ?new" "snd ?new" "tp_pending s"] by (auto simp: reject_event_def)
  have "pending_inv now rc (tp_pending s)"
    using inv keep unfolding tape_inv_def pending_inv_def by blast
  then have "pending_inv now rc (tp_pending (reject_event v x r s))"
    using pend gone now unfolding pending_inv_def by fastforce
  moreover have "all_apart e (tp_rows s) [snd ?new]"
    using inv now by (auto simp: tape_inv_def rows_inv_def all_apart_def apart_def)
  then have "all_apart e (tp_rows s) (tp_uncertainty s @ map snd (tp_pending (reject_event v x r s)))"
    using inv pend unfolding tape_inv_def all_apart_def by fastforce
  ultimately show ?thesis
    using inv rc unfolding tape_inv_def rc_def by (simp add: reject_event_def)
qed

lemma episode_tokens_inj:
  "episode_tokens e t = Some k \<Longrightarrow> episode_tokens e u = Some k \<Longrightarrow> t = u"
  by (auto simp: episode_tokens_def side_up_def side_down_def split: if_splits)

lemma close_pending_inv:
  assumes "be_received_utc_ns v = now"
    and "pending_inv now rc0 (tp_pending s)" "closed_inv now (tp_uncertainty s)"
    and "all_apart e (tp_rows s) (tp_uncertainty s @ map snd (tp_pending s))"
    and keep: "\<And>t. \<not> rc_valid rc0 t \<Longrightarrow> t \<noteq> be_token_id v \<Longrightarrow> \<not> rc_valid rc t"
    and s': "s' = close_pending v s"
  shows "pending_inv now rc (tp_pending s')" "closed_inv now (tp_uncertainty s')"
    "all_apart e (tp_rows s') (tp_uncertainty s' @ map snd (tp_pending s'))"
proof -
  have sub: "set (tp_pending s') \<subseteq> {(t, i) \<in> set (tp_pending s). t \<noteq> be_token_id v}"
  proof (cases "map_of (tp_pending s) (be_token_id v)")
    case None
    then have "be_token_id v \<notin> fst ` set (tp_pending s)" by (simp add: map_of_eq_None_iff)
    with None show ?thesis by (force simp: s' close_pending_def)
  qed (auto simp: s' close_pending_def)
  show "pending_inv now rc (tp_pending s')"
    unfolding pending_inv_def
  proof clarify
    fix t i
    assume "(t, i) \<in> set (tp_pending s')"
    with sub have ti: "(t, i) \<in> set (tp_pending s)" "t \<noteq> be_token_id v" by auto
    with assms(2) have i: "ti_token_id i = t" "ti_end_utc_ns i = None" "ti_start_utc_ns i \<le> now"
        "\<not> rc_valid rc0 t"
      by (auto simp: pending_inv_def)
    from i keep [OF i(4) ti(2)] show "ti_token_id i = t \<and> ti_end_utc_ns i = None
        \<and> ti_start_utc_ns i \<le> now \<and> \<not> rc_valid rc t" by blast
  qed
  have unc: "tp_uncertainty s' = tp_uncertainty s
      \<or> (\<exists>i. (be_token_id v, i) \<in> set (tp_pending s)
            \<and> tp_uncertainty s' = tp_uncertainty s @ [i\<lparr>ti_end_utc_ns := Some now\<rparr>])"
    unfolding s' by (auto simp: close_pending_def assms(1) split: option.split dest: map_of_SomeD)
  then show "closed_inv now (tp_uncertainty s')"
    using assms(3) by (auto simp: closed_inv_def)
  have "apart e r (i\<lparr>ti_end_utc_ns := Some now\<rparr>)"
    if "(be_token_id v, i) \<in> set (tp_pending s)" "r \<in> set (tp_rows s)" for r i
  proof -
    have "apart e r i" "ti_end_utc_ns i = None"
      using assms(2,4) that unfolding all_apart_def pending_inv_def by force+
    then show ?thesis by (auto simp: apart_def)
  qed
  then show "all_apart e (tp_rows s') (tp_uncertainty s' @ map snd (tp_pending s'))"
  proof -
    have rows: "tp_rows s' = tp_rows s" by (auto simp: s' close_pending_def split: option.split)
    have "set (map snd (tp_pending s')) \<subseteq> set (map snd (tp_pending s))" using sub by force
    moreover have "all_apart e (tp_rows s) (tp_uncertainty s')"
      using unc assms(4) \<open>\<And>r i. \<lbrakk>(be_token_id v, i) \<in> set (tp_pending s); r \<in> set (tp_rows s)\<rbrakk>
        \<Longrightarrow> apart e r (i\<lparr>ti_end_utc_ns := Some now\<rparr>)\<close>
      by (auto simp: all_apart_def)
    ultimately show ?thesis
      using assms(4) all_apart_mono unfolding rows all_apart_append by blast
  qed
qed

lemma tape_inv_append:
  assumes "rc_inv rc" "rows_inv now rows" "pending_inv now rc pend" "closed_inv now unc"
    and "all_apart e rows (unc @ map snd pend)"
    and tok: "episode_tokens e (be_token_id v) = Some k" and now: "be_received_utc_ns v = now"
    and book: "rc_book rc (be_token_id v) = Some b" and row: "append_row depth v k b = Inr r"
  shows "rows_inv now (rows @ [r])" "all_apart e (rows @ [r]) (unc @ map snd pend)"
proof -
  have reach: "reachable_book b" using rc_bookD [OF assms(1) book] by simp
  note ok = append_row_ok [OF row reach]
  show "rows_inv now (rows @ [r])"
    using assms(2) ok now by (auto simp: rows_inv_def sorted_append)
  have "apart e r i" if "i \<in> set unc" for i
    using assms(4) that ok now by (auto simp: closed_inv_def apart_def)
  moreover have "apart e r i" if ti: "(t, i) \<in> set pend" for t i
  proof -
    have "ti_token_id i = t" "\<not> rc_valid rc t" using assms(3) ti by (auto simp: pending_inv_def)
    then show ?thesis
      using ok book episode_tokens_inj [OF tok] by (auto simp: apart_def rc_valid_def)
  qed
  ultimately show "all_apart e (rows @ [r]) (unc @ map snd pend)"
    using assms(5) by (auto simp: all_apart_def)
qed

lemma tape_inv_event:
  assumes inv: "tape_inv e now s" and now: "be_received_utc_ns v = now"
    and run: "build_event e depth v s = Inr s'"
  shows "tape_inv e now s'"
proof -
  obtain k where tok: "episode_tokens e (be_token_id v) = Some k"
    using run by (auto simp: build_event_def split: option.splits)
  obtain r x where app: "apply_book_event e v (tp_reconstructor s) = (r, x)" by (meson surj_pair)
  have r: "rc_inv r" using apply_book_event_inv [OF app] inv by (simp add: tape_inv_def)
  show ?thesis
  proof (cases x)
    case (Inl err)
    with run tok app have "s' = reject_event v err r s"
      by (auto simp: build_event_def split: if_splits)
    then show ?thesis using tape_inv_reject [OF inv now] app Inl by simp
  next
    case (Inr u)
    define s1 where "s1 = s\<lparr>tp_reconstructor := r\<rparr>"
    define s2 where "s2 = (if be_kind v = Kind_snapshot then close_pending v s1 else s1)"
    have frame: "tp_reconstructor s2 = r" "tp_rows s2 = tp_rows s"
      by (auto simp: s2_def s1_def close_pending_def split: option.split)
    have parts: "pending_inv now r (tp_pending s2)" "closed_inv now (tp_uncertainty s2)"
        "all_apart e (tp_rows s2) (tp_uncertainty s2 @ map snd (tp_pending s2))"
    proof -
      have old: "pending_inv now (tp_reconstructor s) (tp_pending s1)" "closed_inv now (tp_uncertainty s1)"
        "all_apart e (tp_rows s1) (tp_uncertainty s1 @ map snd (tp_pending s1))"
        using inv by (simp_all add: s1_def tape_inv_def)
      have "pending_inv now r (tp_pending s2) \<and> closed_inv now (tp_uncertainty s2)
        \<and> all_apart e (tp_rows s2) (tp_uncertainty s2 @ map snd (tp_pending s2))"
      proof (cases "be_kind v = Kind_snapshot")
        case True
        then have "s2 = close_pending v s1" by (simp add: s2_def)
        from close_pending_inv [OF now old _ this, of r] apply_book_event_invalid [OF app]
        show ?thesis by blast
      next
        case False
        then have "pending_inv now r (tp_pending s1)"
          using old(1) apply_book_event_invalid [OF app] unfolding pending_inv_def by blast
        with old False show ?thesis by (simp add: s2_def)
      qed
      then show "pending_inv now r (tp_pending s2)" "closed_inv now (tp_uncertainty s2)"
        "all_apart e (tp_rows s2) (tp_uncertainty s2 @ map snd (tp_pending s2))" by blast+
    qed
    have rows: "rows_inv now (tp_rows s2)" using inv by (simp add: frame tape_inv_def)
    note rest = run [unfolded build_event_def tok app Inr, simplified, folded s1_def, unfolded Let_def, folded s2_def]
    show ?thesis
    proof (cases "rc_book r (be_token_id v)")
      case None
      with rest have "s' = s2" by simp
      with parts rows r show ?thesis by (simp add: tape_inv_def frame)
    next
      case (Some b)
      with rest obtain row where row: "append_row depth v k b = Inr row"
        and s': "s' = s2\<lparr>tp_rows := tp_rows s2 @ [row]\<rparr>" by auto
      from tape_inv_append [OF r rows parts tok now Some row] parts r show ?thesis
        by (simp add: tape_inv_def s' frame)
    qed
  qed
qed

lemma tape_inv_events:
  "build_events e depth vs s = Inr s' \<Longrightarrow> tape_inv e now s \<Longrightarrow>
     sorted (now # map be_received_utc_ns vs) \<Longrightarrow> \<exists>later. tape_inv e later s'"
proof (induction vs arbitrary: now s)
  case (Cons v vs)
  obtain s1 where s1: "build_event e depth v s = Inr s1" "build_events e depth vs s1 = Inr s'"
    using Cons.prems(1) by auto
  have "tape_inv e (be_received_utc_ns v) s"
    using tape_inv_later [OF Cons.prems(2)] Cons.prems(3) by simp
  from tape_inv_event [OF this refl s1(1)] Cons.IH [OF s1(2)] Cons.prems(3) show ?case by simp
qed auto

lemma build_tape_inv:
  assumes "build_tape e depth vs = Inr s" "sorted (map be_received_utc_ns vs)"
  shows "\<exists>now. rows_inv now (tp_rows s) \<and> all_apart e (tp_rows s) (tp_uncertainty s)"
proof -
  obtain s0 where run: "build_events e depth vs make_build = Inr s0"
    and s: "s = s0\<lparr>tp_uncertainty := tp_uncertainty s0 @ map snd (tp_pending s0)\<rparr>"
    using assms(1) by (auto simp: build_tape_def)
  have "sorted ((case vs of [] \<Rightarrow> 0 | v # _ \<Rightarrow> be_received_utc_ns v) # map be_received_utc_ns vs)"
    using assms(2) by (cases vs) auto
  from tape_inv_events [OF run tape_inv_make this] obtain now where inv: "tape_inv e now s0" by blast
  then have "rows_inv now (tp_rows s) \<and> all_apart e (tp_rows s) (tp_uncertainty s)"
    by (simp add: tape_inv_def s)
  then show ?thesis ..
qed

section \<open>Storing and loading\<close>

lemma load_row_ladder: "row_ladder bs (load_row r) = row_ladder bs r"
  by (simp add: row_ladder_def load_row_def)

lemma load_row_sel [simp]:
  "row_best_bid (load_row r) = quote_at (fill_null NO_QUOTE (row_best_bid r))"
  "row_best_ask (load_row r) = quote_at (fill_null NO_QUOTE (row_best_ask r))"
  "row_token_index (load_row r) = row_token_index r" "row_book_valid (load_row r) = row_book_valid r"
  "row_received_utc_ns (load_row r) = row_received_utc_ns r"
  by (simp_all add: load_row_def)

lemma quote_roundtrip: "(case q of None \<Rightarrow> True | Some p \<Rightarrow> 0 < p) \<Longrightarrow> quote_at (fill_null NO_QUOTE q) = q"
  by (cases q) (auto simp: quote_at_def fill_null_def NO_QUOTE_def)

lemma quote_kept:
  "\<forall>x \<in> set ls. 0 < fst x \<Longrightarrow>
     quote_at (fill_null NO_QUOTE (head_option (map fst (kept_levels depth ls))))
       = head_option (map fst (kept_levels depth ls))"
  using kept_levels_set [of depth ls]
  by (intro quote_roundtrip) (auto simp: head_option_def split: option.split list.split)

lemma load_row_ok: "row_ok r \<Longrightarrow> row_ok (load_row r)"
proof -
  assume r: "row_ok r"
  have "quote_at (fill_null NO_QUOTE (head_option (map fst (row_ladder bs r))))
      = head_option (map fst (row_ladder bs r))" if "bs \<noteq> Book_side_none" for bs
    using r that by (intro quote_roundtrip)
      (cases bs; auto simp: row_ok_def head_option_def split: option.split list.split)
  from this [of Book_side_bids] this [of Book_side_asks] r show ?thesis
    by (auto simp: row_ok_def load_row_ladder)
qed

lemma kept_beyond: "sum_list (map snd (kept_levels depth ls)) + beyond depth ls = sum_list (map snd ls)"
  by (cases depth)
    (simp_all add: kept_levels_def beyond_def flip: sum_list_append map_append)

section \<open>Properties\<close>

text \<open>C13. A tape shows only sound books, in order, and never a valid one inside an interval it
  marks uncertain.  Whatever events the recording holds, in order of receipt: each row's ladders
  are strictly ordered with prices strictly between zero and one and positive sizes, its quotes are the
  tops of the ladders, a valid row is not crossed, rows follow the clock, and a valid row of a token
  is never strictly inside an uncertainty interval of that token.  Rows that are not valid may be.\<close>

theorem tape_rows_sound:
  assumes "build_tape e depth vs = Inr s" "sorted (map be_received_utc_ns vs)"
  shows "(\<forall>r \<in> set (tp_rows s). row_ok r) \<and> sorted (map row_received_utc_ns (tp_rows s))
    \<and> (\<forall>r \<in> set (tp_rows s). \<forall>i \<in> set (tp_uncertainty s).
         row_book_valid r \<longrightarrow> episode_tokens e (ti_token_id i) = Some (row_token_index r) \<longrightarrow>
         \<not> (ti_start_utc_ns i < row_received_utc_ns r
            \<and> (case ti_end_utc_ns i of None \<Rightarrow> True | Some t \<Rightarrow> row_received_utc_ns r < t)))"
  using build_tape_inv [OF assms] unfolding all_apart_def apart_def rows_inv_def
  by (auto split: option.splits) fastforce+

text \<open>C34. Storing a book as a row and loading it back loses nothing.  The ladders read from
  the loaded row are the book's, best level first (with a finite depth, its first levels, the zero padding
  removed); the quotes come back through the sentinel as the tops of those ladders, absent
  when a side is empty; and stored and left-out depth add up to the side's depth.\<close>

theorem tape_row_roundtrip:
  assumes "reachable_book b" "append_row depth v k b = Inr r"
  shows "row_ladder Book_side_bids (load_row r) = kept_levels depth (rev (ob_bids b))
    \<and> row_ladder Book_side_asks (load_row r) = kept_levels depth (ob_asks b)
    \<and> row_best_bid (load_row r) = head_option (map fst (kept_levels depth (rev (ob_bids b))))
    \<and> row_best_ask (load_row r) = head_option (map fst (kept_levels depth (ob_asks b)))
    \<and> sum_list (map snd (row_ladder Book_side_bids (load_row r))) + row_bid_depth_beyond r
        = sum_list (map snd (ob_bids b))
    \<and> sum_list (map snd (row_ladder Book_side_asks (load_row r))) + row_ask_depth_beyond r
        = sum_list (map snd (ob_asks b))"
proof -
  have ok: "side_ok (ob_bids b)" "side_ok (ob_asks b)"
    using reachable_book_inv [OF assms(1)] by (auto simp: book_inv_def)
  then have "\<forall>(p, sz) \<in> set (ob_bids b) \<union> set (ob_asks b). 0 < sz" by (auto simp: side_ok_def)
  note ladders = append_row_ladders [OF assms(2) this]
  have fields: "row_best_bid r = head_option (map fst (kept_levels depth (rev (ob_bids b))))"
    "row_best_ask r = head_option (map fst (kept_levels depth (ob_asks b)))"
    "row_bid_depth_beyond r = beyond depth (rev (ob_bids b))"
    "row_ask_depth_beyond r = beyond depth (ob_asks b)"
    using assms(2) by (auto simp: append_row_def Let_def split: if_splits)
  have "\<forall>x \<in> set (rev (ob_bids b)). 0 < fst x" "\<forall>x \<in> set (ob_asks b). 0 < fst x"
    using ok by (auto simp: side_ok_def)
  note quotes = this [THEN quote_kept]
  have "sum_list (map snd (rev (ob_bids b))) = sum_list (map snd (ob_bids b))"
    by (simp flip: rev_map)
  then show ?thesis
    using ladders fields quotes kept_beyond [of depth "rev (ob_bids b)"] kept_beyond [of depth "ob_asks b"]
    by (simp add: load_row_ladder)
qed

section \<open>A concrete recording\<close>

text \<open>A snapshot, a change that contradicts the reported top, a tick change, and a fresh snapshot.\<close>

definition demo_episode :: episode where
  "demo_episode = (build_episode demo_index demo_market)\<lparr>ep_end_utc_ns := 900000000000\<rparr>"

definition tape_demo_event :: book_event where
  "tape_demo_event =
     \<lparr>be_kind = Kind_snapshot, be_received_utc_ns = 100, be_received_monotonic_ns = 1, be_sequence = 7,
      be_change_index = 0, be_token_id = ''t'', be_snapshot_id = Some ''s1'', be_outcome = Some ''Up'',
      be_source = Some ''clob_rest'', be_exchange_timestamp_ns = None, be_book_hash = None,
      be_tick_size = Some 10000, be_minimum_order_size = None, be_connection_id = None,
      be_run_id = None, be_side = None, be_price = None, be_new_size = None,
      be_reported_best_bid = None, be_reported_best_ask = None, be_new_tick_size = None,
      be_parent_event_id = None,
      be_levels = ([\<lparr>bl_price = 500000, bl_size = 2000000\<rparr>], [\<lparr>bl_price = 520000, bl_size = 4000000\<rparr>])\<rparr>"

definition tape_demo_events :: "book_event list" where
  "tape_demo_events =
     [tape_demo_event,
      tape_demo_event\<lparr>be_kind := Kind_update, be_received_utc_ns := 120, be_sequence := 8,
        be_side := Some SELL, be_price := Some 540000, be_new_size := Some 6000000,
        be_reported_best_bid := Some 510000\<rparr>,
      tape_demo_event\<lparr>be_kind := Kind_tick, be_received_utc_ns := 130, be_sequence := 9,
        be_new_tick_size := Some 1000\<rparr>,
      tape_demo_event\<lparr>be_received_utc_ns := 140, be_sequence := 10\<rparr>]"

definition demo_build :: tape_build where
  "demo_build = (case build_tape demo_episode None tape_demo_events of Inl _ \<Rightarrow> make_build | Inr s \<Rightarrow> s)"

lemma demo_builds: "\<not> isl (build_tape demo_episode None tape_demo_events)"
  by code_simp

lemma demo_build: "build_tape demo_episode None tape_demo_events = Inr demo_build"
  using demo_builds by (auto simp: demo_build_def split: sum.split)

lemma demo_build_rows:
  "map row_received_utc_ns (tp_rows demo_build) = [100, 130, 140]"
  "map row_book_valid (tp_rows demo_build) = [True, False, True]"
  "map ti_start_utc_ns (tp_uncertainty demo_build) = [120]"
  "map ti_end_utc_ns (tp_uncertainty demo_build) = [Some 140]"
  by code_simp+

theorem tape_rows_sound_witness:
  "sorted (map row_received_utc_ns (tp_rows demo_build)) \<and> list_all row_ok (tp_rows demo_build)
   \<and> length (tp_rows demo_build) = 3"
proof -
  have "sorted (map be_received_utc_ns tape_demo_events)" by (simp add: tape_demo_events_def tape_demo_event_def)
  from tape_rows_sound [OF demo_build this] demo_build_rows(1) show ?thesis
    by (auto simp: list_all_iff dest: arg_cong [of _ _ length])
qed

definition demo_row :: tape_row where
  "demo_row = (case append_row (Some 3) tape_demo_event 0 demo_book of Inl _ \<Rightarrow> hd (tp_rows demo_build) | Inr r \<Rightarrow> r)"

theorem tape_row_roundtrip_witness:
  "row_bid_prices demo_row = [500000, 480000, 0]
   \<and> row_ladder Book_side_bids (load_row demo_row) = [(500000, 2000000), (480000, 3000000)]
   \<and> row_best_bid (load_row demo_row) = Some 500000"
proof -
  have "append_row (Some 3) tape_demo_event 0 demo_book = Inr demo_row"
    "row_bid_prices demo_row = [500000, 480000, 0]"
    by code_simp+
  with tape_row_roundtrip [OF demo_book_reachable this(1)] show ?thesis
    by (simp add: demo_book_def kept_levels_def head_option_def)
qed

end
