(* ===== verification/Realism.thy ===== *)
theory Realism
  imports Fees Orders
begin

text \<open>
  \<^verbatim>\<open>backtest/realism.py\<close>: the pessimistic taker execution of the tape simulator.  A marketable
  order walks a depth ladder, best level first, under haircut, participation, sweep, volume and
  price constraints, and the outcome says which of them cut it short.  \<^verbatim>\<open>calibrate_latency\<close>
  queries recorded measurements and is not modelled.
\<close>

section \<open>Configuration\<close>

record execution_realism =
  er_name :: string
  er_latency :: latency_config
  er_displayed_depth_haircut_ppm :: int
  er_max_level_participation_ppm :: int
  er_max_levels_swept :: "nat option"
  er_volume_participation_ppm :: "int option"
  er_volume_participation_window_ms :: int
  er_stale_book_max_age_ms :: "int option"
  er_require_valid_book :: bool
  er_max_ticks_through_touch :: "int option"
  er_max_price_through_touch :: "int option"
  er_fee :: fee_config

text \<open>The field constraints the configuration class enforces.\<close>

definition realism_ok :: "execution_realism \<Rightarrow> bool" where
  "realism_ok r \<longleftrightarrow>
     0 \<le> er_displayed_depth_haircut_ppm r \<and> er_displayed_depth_haircut_ppm r < PPM
     \<and> 0 < er_max_level_participation_ppm r \<and> er_max_level_participation_ppm r \<le> PPM
     \<and> (case er_max_levels_swept r of None \<Rightarrow> True | Some n \<Rightarrow> 1 \<le> n)
     \<and> (case er_volume_participation_ppm r of None \<Rightarrow> True | Some p \<Rightarrow> 0 < p)
     \<and> (case er_stale_book_max_age_ms r of None \<Rightarrow> True | Some a \<Rightarrow> 0 < a)
     \<and> (case er_max_ticks_through_touch r of None \<Rightarrow> True | Some n \<Rightarrow> 0 \<le> n)
     \<and> (case er_max_price_through_touch r of None \<Rightarrow> True | Some p \<Rightarrow> 0 \<le> p)
     \<and> fee_config_ok (er_fee r)"

section \<open>Outcomes\<close>

record fill_slice =
  fs_price :: int
  fs_size :: int
  fs_notional :: int
  fs_fee :: int
  fs_level_rank :: nat

record execution_outcome =
  eo_requested_shares :: int
  eo_filled_shares :: int
  eo_notional :: int
  eo_fees :: int
  eo_slices :: "fill_slice list"
  eo_rejected_reason :: "string option"
  eo_binding_constraint :: "string option"
  eo_arrival_utc_ns :: int
  eo_decision_utc_ns :: int
  eo_reference_price :: "int option"
  eo_side_is_buy :: bool

definition eo_filled :: "execution_outcome \<Rightarrow> bool" where
  "eo_filled out \<longleftrightarrow> 0 < eo_filled_shares out"

definition average_price_scaled :: "execution_outcome \<Rightarrow> int option" where
  "average_price_scaled out =
     (if eo_filled_shares out = 0 then None
      else Some (sum_list (map (\<lambda>s. fs_price s * fs_size s) (eo_slices out)) div eo_filled_shares out))"

definition slippage_scaled :: "execution_outcome \<Rightarrow> int option" where
  "slippage_scaled out =
     (case (average_price_scaled out, eo_reference_price out) of
        (Some average, Some reference) \<Rightarrow>
          let difference = average - reference
          in Some (if eo_side_is_buy out then difference else - difference)
      | _ \<Rightarrow> None)"

section \<open>The taker executor\<close>

definition sample_latency_ns :: "'r rng \<Rightarrow> execution_realism \<Rightarrow> 'r \<Rightarrow> (py_error + int) \<times> 'r" where
  "sample_latency_ns g realism r = sample_ns g (er_latency realism) r"

text \<open>The arguments of \<^verbatim>\<open>TakerExecutor.execute\<close>.\<close>

record taker_request =
  rq_side :: side
  rq_ladder :: "(int \<times> int) list"
  rq_requested_shares :: int
  rq_limit_price :: "int option"
  rq_reference_price :: "int option"
  rq_realised_volume :: "int option"
  rq_decision_utc_ns :: int
  rq_arrival_utc_ns :: int
  rq_book_age_ns :: int
  rq_minimum_order_size :: int
  rq_tick_size :: int

definition effective_limit :: "execution_realism \<Rightarrow> side \<Rightarrow> int \<Rightarrow> int option \<Rightarrow> int
    \<Rightarrow> int option \<times> string option" where
  "effective_limit r s touch limit_price tick =
     (let bounds = (case er_max_ticks_through_touch r of None \<Rightarrow> [] | Some n \<Rightarrow> [n * max tick 1])
                 @ (case er_max_price_through_touch r of None \<Rightarrow> [] | Some p \<Rightarrow> [p])
      in case bounds of
           [] \<Rightarrow> (limit_price, if limit_price = None then None else Some ''limit_price'')
         | b # bs \<Rightarrow>
             let slack = fold min bs b;
                 bound = (if s = BUY then touch + slack else touch - slack)
             in case limit_price of
                  None \<Rightarrow> (Some bound, Some ''max_price_through_touch'')
                | Some l \<Rightarrow>
                    let tighter = (if s = BUY then min l bound else max l bound)
                    in (Some tighter,
                        Some (if tighter = l then ''limit_price'' else ''max_price_through_touch'')))"

definition volume_cap :: "execution_realism \<Rightarrow> int option \<Rightarrow> int \<Rightarrow> int option" where
  "volume_cap r realised_volume minimum_order_size =
     (case (er_volume_participation_ppm r, realised_volume) of
        (Some p, Some v) \<Rightarrow> Some (max (v * p div max (PPM - p) 1) minimum_order_size)
      | _ \<Rightarrow> None)"

definition past_limit :: "side \<Rightarrow> int option \<Rightarrow> int \<Rightarrow> bool" where
  "past_limit s limit price =
     (case limit of None \<Rightarrow> False | Some l \<Rightarrow> if s = BUY then l < price else price < l)"

definition allowed_size :: "execution_realism \<Rightarrow> int \<Rightarrow> int" where
  "allowed_size r displayed =
     min (displayed * (PPM - er_displayed_depth_haircut_ppm r) div PPM)
         (displayed * er_max_level_participation_ppm r div PPM)"

record walk_flags =
  wf_hit_limit :: bool
  wf_cut_by_depth :: bool
  wf_cut_by_volume :: bool

definition make_slice :: "execution_realism \<Rightarrow> int \<Rightarrow> int \<Rightarrow> nat \<Rightarrow> fill_slice" where
  "make_slice r price taken rank =
     \<lparr>fs_price = price, fs_size = taken, fs_notional = notional_scaled taken price,
      fs_fee = calculate_fee (er_fee r) taken price, fs_level_rank = rank\<rparr>"

text \<open>
  The loop over the ladder: the slices taken, what remains of the order, and the rules that cut
  it.  The \<^verbatim>\<open>continue\<close> of a level that yields nothing is the call with the same remainder.
\<close>

fun walk_ladder :: "execution_realism \<Rightarrow> side \<Rightarrow> int option \<Rightarrow> int option \<Rightarrow> nat \<Rightarrow> (int \<times> int) list
    \<Rightarrow> int \<Rightarrow> int \<Rightarrow> walk_flags \<Rightarrow> fill_slice list \<times> int \<times> walk_flags" where
  "walk_ladder r s limit cap rank [] remaining consumed flags = ([], remaining, flags)"
| "walk_ladder r s limit cap rank ((price, displayed) # ls) remaining consumed flags =
     (if past_limit s limit price then ([], remaining, flags\<lparr>wf_hit_limit := True\<rparr>)
      else
        let allowed = allowed_size r displayed;
            wanted = min remaining allowed;
            flags1 = (if allowed < remaining then flags\<lparr>wf_cut_by_depth := True\<rparr> else flags);
            headroom = (case cap of None \<Rightarrow> wanted | Some c \<Rightarrow> max 0 (c - consumed));
            take = min wanted headroom;
            flags2 = (if headroom < wanted then flags1\<lparr>wf_cut_by_volume := True\<rparr> else flags1)
        in if take \<le> 0 then
             (if cap \<noteq> None \<and> the cap \<le> consumed then ([], remaining, flags2)
              else walk_ladder r s limit cap (rank + 1) ls remaining consumed flags2)
           else
             let slice = make_slice r price take rank
             in if remaining - take \<le> 0 then ([slice], remaining - take, flags2)
                else
                  let (slices, left, flags3) =
                        walk_ladder r s limit cap (rank + 1) ls (remaining - take) (consumed + take) flags2
                  in (slice # slices, left, flags3))"

definition binding_rule :: "taker_request \<Rightarrow> string option \<Rightarrow> bool \<Rightarrow> walk_flags \<Rightarrow> string" where
  "binding_rule q limit_source hit_level_cap flags =
     (if wf_hit_limit flags
      then (case limit_source of None \<Rightarrow> ''limit_price'' | Some src \<Rightarrow> src)
      else if wf_cut_by_volume flags
      then (if or_zero (rq_realised_volume q) = 0 then ''no_recent_public_volume''
            else ''volume_participation'')
      else if hit_level_cap then ''max_levels_swept''
      else if wf_cut_by_depth flags then ''displayed_depth_haircut''
      else ''book_depth_exhausted'')"

definition empty_outcome :: "taker_request \<Rightarrow> execution_outcome" where
  "empty_outcome q =
     \<lparr>eo_requested_shares = rq_requested_shares q, eo_filled_shares = 0, eo_notional = 0,
      eo_fees = 0, eo_slices = [], eo_rejected_reason = None, eo_binding_constraint = None,
      eo_arrival_utc_ns = rq_arrival_utc_ns q, eo_decision_utc_ns = rq_decision_utc_ns q,
      eo_reference_price = rq_reference_price q, eo_side_is_buy = (rq_side q = BUY)\<rparr>"

definition refuse :: "string \<Rightarrow> taker_request \<Rightarrow> execution_outcome" where
  "refuse reason q = (empty_outcome q)\<lparr>eo_rejected_reason := Some reason\<rparr>"

definition visible_ladder :: "execution_realism \<Rightarrow> taker_request \<Rightarrow> (int \<times> int) list" where
  "visible_ladder r q =
     (case er_max_levels_swept r of None \<Rightarrow> rq_ladder q | Some n \<Rightarrow> take n (rq_ladder q))"

definition request_limit :: "execution_realism \<Rightarrow> taker_request \<Rightarrow> int option \<times> string option" where
  "request_limit r q =
     effective_limit r (rq_side q) (fst (hd (rq_ladder q))) (rq_limit_price q) (rq_tick_size q)"

definition execute_walk :: "execution_realism \<Rightarrow> taker_request \<Rightarrow> fill_slice list \<times> int \<times> walk_flags" where
  "execute_walk r q =
     walk_ladder r (rq_side q) (fst (request_limit r q))
       (volume_cap r (rq_realised_volume q) (rq_minimum_order_size q)) 1
       (visible_ladder r q) (rq_requested_shares q) 0
       \<lparr>wf_hit_limit = False, wf_cut_by_depth = False, wf_cut_by_volume = False\<rparr>"

definition execute_realism :: "execution_realism \<Rightarrow> taker_request \<Rightarrow> execution_outcome" where
  "execute_realism r q =
     (if rq_requested_shares q \<le> 0 then refuse ''non_positive_size'' q
      else if rq_ladder q = [] then refuse ''empty_book_side'' q
      else if rq_requested_shares q < rq_minimum_order_size q then refuse ''below_minimum_order_size'' q
      else if (case er_stale_book_max_age_ms r of None \<Rightarrow> False
               | Some age \<Rightarrow> age * 1000000 < rq_book_age_ns q) then refuse ''stale_book'' q
      else
        let (slices, remaining, flags) = execute_walk r q;
            hit_level_cap = (case er_max_levels_swept r of None \<Rightarrow> False
                             | Some n \<Rightarrow> n < length (rq_ladder q));
            binding = (if 0 < remaining
                       then Some (binding_rule q (snd (request_limit r q)) hit_level_cap flags)
                       else None);
            filled = sum_list (map fs_size slices)
        in if filled = 0
           then refuse (case binding of None \<Rightarrow> ''no_executable_liquidity'' | Some b \<Rightarrow> b) q
           else (empty_outcome q)\<lparr>eo_slices := slices, eo_filled_shares := filled,
                  eo_notional := sum_list (map fs_notional slices),
                  eo_fees := sum_list (map fs_fee slices),
                  eo_binding_constraint := binding\<rparr>)"

section \<open>Presets\<close>

definition constant_latency :: "int \<Rightarrow> latency_config" where
  "constant_latency ms =
     \<lparr>lc_model = Latency_constant, lc_constant_ms = ms, lc_samples_ms = [],
      lc_lognormal_mu = Flt 7 (-1), lc_lognormal_sigma = Flt 3602879701896397 (-53)\<rparr>"

datatype preset_name = Optimistic | Base | Pessimistic

definition optimistic_preset :: "latency_config option \<Rightarrow> fee_config \<Rightarrow> execution_realism" where
  "optimistic_preset latency fee =
     \<lparr>er_name = ''optimistic'',
      er_latency = (case latency of None \<Rightarrow> constant_latency 25 | Some l \<Rightarrow> l),
      er_displayed_depth_haircut_ppm = 0, er_max_level_participation_ppm = PPM,
      er_max_levels_swept = None, er_volume_participation_ppm = None,
      er_volume_participation_window_ms = 2000, er_stale_book_max_age_ms = None,
      er_require_valid_book = True, er_max_ticks_through_touch = None,
      er_max_price_through_touch = None, er_fee = fee\<rparr>"

definition pessimistic_preset :: "latency_config option \<Rightarrow> fee_config \<Rightarrow> execution_realism" where
  "pessimistic_preset latency fee =
     \<lparr>er_name = ''pessimistic'',
      er_latency = (case latency of None \<Rightarrow> constant_latency 250 | Some l \<Rightarrow> l),
      er_displayed_depth_haircut_ppm = 500000, er_max_level_participation_ppm = 250000,
      er_max_levels_swept = Some 5, er_volume_participation_ppm = None,
      er_volume_participation_window_ms = 2000, er_stale_book_max_age_ms = Some 2000,
      er_require_valid_book = True, er_max_ticks_through_touch = Some 5,
      er_max_price_through_touch = Some 5000, er_fee = fee\<rparr>"

definition base_preset :: "latency_config option \<Rightarrow> fee_config \<Rightarrow> execution_realism" where
  "base_preset latency fee =
     \<lparr>er_name = ''base'',
      er_latency = (case latency of
          None \<Rightarrow> \<lparr>lc_model = Latency_lognormal, lc_constant_ms = 50, lc_samples_ms = [],
                  lc_lognormal_mu = Flt 4278419646001971 (-50),
                  lc_lognormal_sigma = Flt 8106479329266893 (-54)\<rparr>
        | Some l \<Rightarrow> l),
      er_displayed_depth_haircut_ppm = 250000, er_max_level_participation_ppm = 500000,
      er_max_levels_swept = None, er_volume_participation_ppm = None,
      er_volume_participation_window_ms = 2000, er_stale_book_max_age_ms = Some 5000,
      er_require_valid_book = True, er_max_ticks_through_touch = Some 10,
      er_max_price_through_touch = Some 10000, er_fee = fee\<rparr>"

definition preset :: "preset_name \<Rightarrow> latency_config option \<Rightarrow> fee_config option \<Rightarrow> execution_realism" where
  "preset name latency fee0 =
     (let fee = (case fee0 of None \<Rightarrow> DEFAULT_FEE | Some f \<Rightarrow> f)
      in case name of
           Optimistic \<Rightarrow> optimistic_preset latency fee
         | Pessimistic \<Rightarrow> pessimistic_preset latency fee
         | Base \<Rightarrow> base_preset latency fee)"

text \<open>\<^verbatim>\<open>round\<close> of a float: to the nearest integer, ties to even.\<close>

definition fl_nearest :: "pyfloat \<Rightarrow> int" where
  "fl_nearest x =
     (if 0 \<le> exponent x then mantissa x * 2 ^ nat (exponent x)
      else round_half_even (mantissa x) (2 ^ nat (- exponent x)))"

definition shares_of :: "pyfloat \<Rightarrow> int" where
  "shares_of amount = fl_nearest (fl_mult amount (fl_of_int SHARE_SIZE_SCALE))"

lemma preset_ok: "(\<And>f. fee0 = Some f \<Longrightarrow> fee_config_ok f) \<Longrightarrow> realism_ok (preset name latency fee0)"
  by (cases name; cases fee0)
    (auto simp: preset_def realism_ok_def optimistic_preset_def pessimistic_preset_def base_preset_def)

section \<open>Facts on the walk\<close>

lemma allowed_size_bounds:
  assumes "realism_ok r" "0 \<le> d"
  shows "0 \<le> allowed_size r d" "allowed_size r d \<le> d"
proof -
  have h: "0 \<le> er_displayed_depth_haircut_ppm r" "er_displayed_depth_haircut_ppm r < PPM"
    "0 < er_max_level_participation_ppm r" "er_max_level_participation_ppm r \<le> PPM"
    using assms(1) by (auto simp: realism_ok_def)
  then show "0 \<le> allowed_size r d"
    using assms(2) by (simp add: allowed_size_def pos_imp_zdiv_nonneg_iff)
  have "d * (PPM - er_displayed_depth_haircut_ppm r) div PPM \<le> d * PPM div PPM"
    by (rule zdiv_mono1) (use h assms(2) in \<open>auto intro: mult_left_mono\<close>)
  then show "allowed_size r d \<le> d" by (simp add: allowed_size_def)
qed

text \<open>
  \<open>slices_from r s limit rank ls slices\<close>: the slices take levels of \<open>ls\<close>, in their order, each within
  the limit and what the realism allows of the level; all but the last take the whole of that, and
  a level is passed over only if nothing of it is allowed.
\<close>

definition slice_of :: "execution_realism \<Rightarrow> int \<Rightarrow> nat \<Rightarrow> fill_slice \<Rightarrow> bool" where
  "slice_of r price rank x \<longleftrightarrow> fs_price x = price \<and> fs_level_rank x = rank
     \<and> fs_notional x = notional_scaled (fs_size x) price
     \<and> fs_fee x = calculate_fee (er_fee r) (fs_size x) price"

fun slices_from :: "execution_realism \<Rightarrow> side \<Rightarrow> int option \<Rightarrow> nat \<Rightarrow> (int \<times> int) list
    \<Rightarrow> fill_slice list \<Rightarrow> bool" where
  "slices_from r s limit rank ls [] \<longleftrightarrow> True"
| "slices_from r s limit rank [] (x # xs) \<longleftrightarrow> False"
| "slices_from r s limit rank ((price, displayed) # ls) (x # xs) \<longleftrightarrow>
     (slice_of r price rank x \<and> 0 < fs_size x \<and> fs_size x \<le> allowed_size r displayed
        \<and> (xs \<noteq> [] \<longrightarrow> fs_size x = allowed_size r displayed)
        \<and> \<not> past_limit s limit price \<and> slices_from r s limit (rank + 1) ls xs)
     \<or> allowed_size r displayed \<le> 0 \<and> slices_from r s limit (rank + 1) ls (x # xs)"

lemma slices_from_skip:
  "slices_from r s limit (rank + 1) ls xs \<Longrightarrow> allowed_size r displayed \<le> 0 \<Longrightarrow>
     slices_from r s limit rank ((price, displayed) # ls) xs"
  by (cases xs) auto

text \<open>Once the volume cap is used up, the walk takes nothing more.\<close>

lemma walk_ladder_capped:
  "walk_ladder r s limit (Some c) rank ls remaining consumed flags = (slices, left, flags') \<Longrightarrow>
     c \<le> consumed \<Longrightarrow> slices = []"
  by (cases ls) (auto simp: Let_def split: if_splits prod.splits)

lemma walk_ladder_spec:
  assumes "walk_ladder r s limit cap rank ls remaining consumed flags = (slices, left, flags')"
    and "0 < remaining"
  shows "slices_from r s limit rank ls slices
    \<and> left = remaining - sum_list (map fs_size slices) \<and> 0 \<le> left
    \<and> (\<forall>c. cap = Some c \<longrightarrow> consumed \<le> c \<longrightarrow> consumed + sum_list (map fs_size slices) \<le> c)"
  using assms
proof (induction r s limit cap rank ls remaining consumed flags arbitrary: slices left flags'
    rule: walk_ladder.induct)
  case (2 r s limit cap rank price displayed ls remaining consumed flags)
  let ?allowed = "allowed_size r displayed" and ?wanted = "min remaining (allowed_size r displayed)"
  let ?head = "case cap of None \<Rightarrow> ?wanted | Some c \<Rightarrow> max 0 (c - consumed)"
  let ?take = "min ?wanted ?head"
  let ?f1 = "if ?allowed < remaining then flags\<lparr>wf_cut_by_depth := True\<rparr> else flags"
  let ?f2 = "if ?head < ?wanted then ?f1\<lparr>wf_cut_by_volume := True\<rparr> else ?f1"
  show ?case
  proof (cases "past_limit s limit price")
    case True
    with "2.prems" show ?thesis by auto
  next
    case live: False
    show ?thesis
    proof (cases "?take \<le> 0")
      case none: True
      show ?thesis
      proof (cases "cap \<noteq> None \<and> the cap \<le> consumed")
        case True
        with live none "2.prems" show ?thesis by (auto simp: Let_def)
      next
        case False
        from "2.prems"(1) have
          "walk_ladder r s limit cap (rank + 1) ls remaining consumed ?f2 = (slices, left, flags')"
          by (simp only: walk_ladder.simps Let_def live none False if_True if_False)
        from "2.IH"(1) [OF live refl refl refl refl refl refl none False this "2.prems"(2)]
        moreover have "?allowed \<le> 0"
          using none False "2.prems"(2) by (auto split: option.splits)
        ultimately show ?thesis using slices_from_skip by blast
      qed
    next
      case some: False
      define tk where tk: "tk = ?take"
      let ?slice = "make_slice r price tk rank"
      have fits: "0 < tk" "tk \<le> ?allowed" "tk \<le> remaining"
        "\<forall>c. cap = Some c \<longrightarrow> consumed \<le> c \<longrightarrow> consumed + tk \<le> c"
        using some by (auto simp: tk split: option.splits)
      have size: "fs_size ?slice = tk" "slice_of r price rank ?slice"
        by (simp_all add: make_slice_def slice_of_def)
      show ?thesis
      proof (cases "remaining - tk \<le> 0")
        case True
        note True' = True [unfolded tk]
        from "2.prems"(1) have "slices = [?slice]" "left = remaining - tk"
          unfolding tk
          by (simp_all only: walk_ladder.simps Let_def live some True' if_True if_False prod.inject)
        with fits size live show ?thesis by simp
      next
        case False
        obtain xs l f where rest:
          "walk_ladder r s limit cap (rank + 1) ls (remaining - tk) (consumed + tk) ?f2 = (xs, l, f)"
          by (metis prod_cases3)
        note False' = False [unfolded tk] and rest' = rest [unfolded tk]
        from "2.prems"(1) have out: "slices = ?slice # xs" "left = l"
          unfolding tk
          by (simp_all only: walk_ladder.simps Let_def live some False' if_False rest' prod.case prod.inject)
        have pos: "0 < remaining - tk" using False by simp
        have IH: "slices_from r s limit (rank + 1) ls xs
          \<and> l = remaining - tk - sum_list (map fs_size xs) \<and> 0 \<le> l
          \<and> (\<forall>c. cap = Some c \<longrightarrow> consumed + tk \<le> c \<longrightarrow>
               consumed + tk + sum_list (map fs_size xs) \<le> c)"
          by (rule "2.IH"(2) [OF live refl refl refl refl tk refl some [folded tk] refl False rest pos])
        have "tk = ?allowed" if "xs \<noteq> []"
        proof (rule ccontr)
          assume "tk \<noteq> ?allowed"
          with False fits(1) have "\<exists>c. cap = Some c \<and> tk = max 0 (c - consumed)"
            by (auto simp: tk split: option.splits)
          then obtain c where "cap = Some c" "c \<le> consumed + tk" by auto
          with walk_ladder_capped rest that show False by blast
        qed
        then have "slices_from r s limit rank ((price, displayed) # ls) slices"
          using IH fits(1,2) size live by (auto simp: out make_slice_def)
        moreover have "left = remaining - sum_list (map fs_size slices) \<and> 0 \<le> left"
          using IH size by (simp add: out)
        moreover have "\<forall>c. cap = Some c \<longrightarrow> consumed \<le> c \<longrightarrow> consumed + sum_list (map fs_size slices) \<le> c"
          using IH fits(4) size by (simp add: out add.assoc [symmetric])
        ultimately show ?thesis by blast
      qed
    qed
  qed
qed simp

lemma slices_from_each:
  "slices_from r s limit rank ls slices \<Longrightarrow> x \<in> set slices \<Longrightarrow>
     \<exists>displayed. (fs_price x, displayed) \<in> set ls \<and> 0 < fs_size x \<and> fs_size x \<le> allowed_size r displayed
       \<and> \<not> past_limit s limit (fs_price x) \<and> rank \<le> fs_level_rank x \<and> fs_level_rank x < rank + length ls
       \<and> fs_notional x = notional_scaled (fs_size x) (fs_price x)
       \<and> fs_fee x = calculate_fee (er_fee r) (fs_size x) (fs_price x)"
proof (induction r s limit rank ls slices rule: slices_from.induct)
  case (3 r s limit rank price displayed ls y ys)
  from "3.prems"(1) consider
    (take) "slice_of r price rank y" "0 < fs_size y" "fs_size y \<le> allowed_size r displayed"
      "\<not> past_limit s limit price" "slices_from r s limit (rank + 1) ls ys"
    | (skip) "slices_from r s limit (rank + 1) ls (y # ys)" by auto
  then show ?case
  proof cases
    case take
    show ?thesis
    proof (cases "x = y")
      case True
      have "fs_price x = price" "fs_level_rank x = rank"
        "fs_notional x = notional_scaled (fs_size x) (fs_price x)"
        "fs_fee x = calculate_fee (er_fee r) (fs_size x) (fs_price x)"
        using take(1) True by (simp_all add: slice_of_def)
      with take True show ?thesis by auto
    next
      case False
      with "3.prems"(2) have "x \<in> set ys" by simp
      from "3.IH"(1) [OF take(5) this] show ?thesis by auto
    qed
  next
    case skip
    from "3.IH"(2) [OF skip "3.prems"(2)] show ?thesis by auto
  qed
qed auto

lemma slices_from_sorted:
  "slices_from r s limit rank ls slices \<Longrightarrow>
     sorted_wrt (<) (map fs_level_rank slices) \<and> (\<forall>x \<in> set slices. rank \<le> fs_level_rank x)"
proof (induction r s limit rank ls slices rule: slices_from.induct)
  case (3 r s limit rank price displayed ls y ys)
  from "3.prems" consider
    (take) "fs_level_rank y = rank" "slices_from r s limit (rank + 1) ls ys"
    | (skip) "slices_from r s limit (rank + 1) ls (y # ys)" by (auto simp: slice_of_def)
  then show ?case
    using "3.IH" by cases (force simp: Suc_le_eq)+
qed auto

text \<open>
  A level is exhausted when all that is allowed of it has been taken.  Ranks count the levels of
  the ladder from one.
\<close>

definition exhausted :: "execution_realism \<Rightarrow> (int \<times> int) list \<Rightarrow> fill_slice list \<Rightarrow> nat \<Rightarrow> bool" where
  "exhausted r ls xs k \<longleftrightarrow> allowed_size r (snd (ls ! k)) \<le> 0
     \<or> (\<exists>x \<in> set xs. fs_level_rank x = Suc k \<and> fs_size x = allowed_size r (snd (ls ! k)))"

lemma slices_from_ranks:
  assumes "slices_from r s limit (Suc n) (drop n ls) xs"
  shows "(\<forall>x \<in> set xs. n < fs_level_rank x \<and> fs_level_rank x \<le> length ls
        \<and> fs_price x = fst (ls ! (fs_level_rank x - 1))
        \<and> 0 < fs_size x \<and> fs_size x \<le> allowed_size r (snd (ls ! (fs_level_rank x - 1)))
        \<and> \<not> past_limit s limit (fs_price x)
        \<and> fs_notional x = notional_scaled (fs_size x) (fs_price x)
        \<and> fs_fee x = calculate_fee (er_fee r) (fs_size x) (fs_price x)
        \<and> (\<forall>k. n \<le> k \<longrightarrow> Suc k < fs_level_rank x \<longrightarrow> exhausted r ls xs k))"
  using assms
proof (induction "length ls - n" arbitrary: n xs)
  case 0
  then show ?case by (cases xs) auto
next
  case (Suc m)
  then have n: "n < length ls" "drop n ls = ls ! n # drop (Suc n) ls" "m = length ls - Suc n"
    by (simp_all add: Cons_nth_drop_Suc)
  obtain price displayed where level: "ls ! n = (price, displayed)" by (meson surj_pair)
  show ?case
  proof (cases xs)
    case (Cons y ys)
    with Suc.prems n(2) level consider
      (take) "slice_of r price (Suc n) y" "0 < fs_size y" "fs_size y \<le> allowed_size r displayed"
        "ys \<noteq> [] \<Longrightarrow> fs_size y = allowed_size r displayed" "\<not> past_limit s limit price"
        "slices_from r s limit (Suc (Suc n)) (drop (Suc n) ls) ys"
      | (skip) "allowed_size r displayed \<le> 0" "slices_from r s limit (Suc (Suc n)) (drop (Suc n) ls) xs"
      by auto
    then show ?thesis
    proof cases
      case take
      note IH = Suc.hyps(1) [OF n(3) take(6)]
      have y: "fs_level_rank y = Suc n" "fs_price y = price"
        "fs_notional y = notional_scaled (fs_size y) (fs_price y)"
        "fs_fee y = calculate_fee (er_fee r) (fs_size y) (fs_price y)"
        using take(1) by (simp_all add: slice_of_def)
      have "exhausted r ls xs k" if "x \<in> set ys" "n \<le> k" "Suc k < fs_level_rank x" for x k
      proof (cases "k = n")
        case True
        have "ys \<noteq> []" using that(1) by auto
        with take(4) y(1) True level Cons show ?thesis by (auto simp: exhausted_def)
      next
        case False
        with that IH have "exhausted r ls ys k" by auto
        with Cons show ?thesis by (auto simp: exhausted_def)
      qed
      with IH take(2,3,5) y n(1) level Cons show ?thesis by auto
    next
      case skip
      note IH = Suc.hyps(1) [OF n(3) skip(2)]
      have "exhausted r ls xs n" using skip(1) level by (simp add: exhausted_def)
      then have "exhausted r ls xs k" if "x \<in> set xs" "n \<le> k" "Suc k < fs_level_rank x" for x k
        using IH that by (cases "k = n") auto
      with IH Suc_lessD show ?thesis by blast
    qed
  qed simp
qed

text \<open>Where a walk that left shares unfilled came to its end.\<close>

fun stopped :: "execution_realism \<Rightarrow> side \<Rightarrow> int option \<Rightarrow> nat \<Rightarrow> (int \<times> int) list \<Rightarrow> fill_slice list \<Rightarrow> bool" where
  "stopped r s limit rank [] xs \<longleftrightarrow> xs = []"
| "stopped r s limit rank ((price, displayed) # ls) xs \<longleftrightarrow>
     past_limit s limit price \<and> xs = []
     \<or> allowed_size r displayed \<le> 0 \<and> stopped r s limit (rank + 1) ls xs
     \<or> xs \<noteq> [] \<and> fs_level_rank (hd xs) = rank \<and> fs_size (hd xs) = allowed_size r displayed
         \<and> stopped r s limit (rank + 1) ls (tl xs)"

lemma walk_ladder_stopped:
  assumes "walk_ladder r s limit cap rank ls remaining consumed flags = (slices, left, flags')"
    and "0 < remaining" "0 < left" "\<And>c. cap = Some c \<Longrightarrow> consumed + sum_list (map fs_size slices) < c"
  shows "stopped r s limit rank ls slices"
  using assms
proof (induction ls arbitrary: rank remaining consumed flags slices)
  case (Cons l ls)
  obtain price displayed where l: "l = (price, displayed)" by (meson surj_pair)
  show ?case
  proof (cases "past_limit s limit price")
    case True
    with Cons.prems(1) l show ?thesis by simp
  next
    case live: False
    define head where "head = (case cap of None \<Rightarrow> min remaining (allowed_size r displayed)
      | Some c \<Rightarrow> max 0 (c - consumed))"
    define tk where "tk = min (min remaining (allowed_size r displayed)) head"
    define f1 where "f1 = (if allowed_size r displayed < remaining then flags\<lparr>wf_cut_by_depth := True\<rparr> else flags)"
    define f2 where "f2 = (if head < min remaining (allowed_size r displayed)
      then f1\<lparr>wf_cut_by_volume := True\<rparr> else f1)"
    have walk: "walk_ladder r s limit cap rank (l # ls) remaining consumed flags =
      (if tk \<le> 0 then (if cap \<noteq> None \<and> the cap \<le> consumed then ([], remaining, f2)
         else walk_ladder r s limit cap (rank + 1) ls remaining consumed f2)
       else if remaining - tk \<le> 0 then ([make_slice r price tk rank], remaining - tk, f2)
       else case walk_ladder r s limit cap (rank + 1) ls (remaining - tk) (consumed + tk) f2 of
         (xs, lft, f3) \<Rightarrow> (make_slice r price tk rank # xs, lft, f3))"
      using live by (simp add: l Let_def head_def tk_def f1_def f2_def)
    note run = Cons.prems(1) [unfolded walk]
    show ?thesis
    proof (cases "tk \<le> 0")
      case True
      have "\<not> (cap \<noteq> None \<and> the cap \<le> consumed)"
        using run True Cons.prems(4) by (cases cap) auto
      with run True have rest: "walk_ladder r s limit cap (rank + 1) ls remaining consumed f2 = (slices, left, flags')"
        and "allowed_size r displayed \<le> 0"
        using Cons.prems(2) by (auto simp: tk_def head_def split: option.splits if_splits)
      with Cons.IH [OF rest Cons.prems(2-4)] l show ?thesis by simp
    next
      case False
      with run Cons.prems(3) have more: "\<not> remaining - tk \<le> 0" by (auto split: if_splits)
      then obtain xs where xs: "walk_ladder r s limit cap (rank + 1) ls (remaining - tk) (consumed + tk) f2
          = (xs, left, flags')" "slices = make_slice r price tk rank # xs"
        using run False by (auto split: prod.splits)
      have size: "fs_size (make_slice r price tk rank) = tk" "fs_level_rank (make_slice r price tk rank) = rank"
        by (simp_all add: make_slice_def)
      have room: "consumed + tk + sum_list (map fs_size xs) < c" if "cap = Some c" for c
        using Cons.prems(4) [OF that] xs(2) size by simp
      have "0 \<le> sum_list (map fs_size xs)"
        using walk_ladder_spec [OF xs(1)] more
        by (intro sum_list_nonneg_map) (use slices_from_each in force)
      then have "tk = allowed_size r displayed"
        using more room False by (auto simp: tk_def head_def split: option.splits)
      with Cons.IH [OF xs(1) _ Cons.prems(3) room] more xs(2) size l show ?thesis by simp
    qed
  qed
qed simp

lemma stopped_exhausts:
  assumes "stopped r s limit (Suc n) (drop n ls) xs" "n \<le> length ls"
  shows "\<exists>m \<le> length ls. (m < length ls \<longrightarrow> past_limit s limit (fst (ls ! m)))
    \<and> (\<forall>k. n \<le> k \<longrightarrow> k < m \<longrightarrow> exhausted r ls xs k)"
  using assms
proof (induction "length ls - n" arbitrary: n xs)
  case 0
  then show ?case by (intro exI [of _ "length ls"]) auto
next
  case (Suc j)
  then have n: "n < length ls" "drop n ls = ls ! n # drop (Suc n) ls" "j = length ls - Suc n"
    by (simp_all add: Cons_nth_drop_Suc)
  obtain price displayed where level: "ls ! n = (price, displayed)" by (meson surj_pair)
  from Suc.prems(1) [unfolded n(2) level] consider
    (limit) "past_limit s limit price"
    | (skip) "allowed_size r displayed \<le> 0" "stopped r s limit (Suc (Suc n)) (drop (Suc n) ls) xs"
    | (take) "xs \<noteq> []" "fs_level_rank (hd xs) = Suc n" "fs_size (hd xs) = allowed_size r displayed"
        "stopped r s limit (Suc (Suc n)) (drop (Suc n) ls) (tl xs)"
    by auto
  then show ?case
  proof cases
    case limit
    with n(1) level show ?thesis by (intro exI [of _ n]) auto
  next
    case skip
    obtain m where m: "m \<le> length ls" "m < length ls \<longrightarrow> past_limit s limit (fst (ls ! m))"
      "\<forall>k. Suc n \<le> k \<longrightarrow> k < m \<longrightarrow> exhausted r ls xs k"
      using Suc.hyps(1) [OF n(3) skip(2)] n(1) by auto
    have "exhausted r ls xs n" using skip(1) level by (simp add: exhausted_def)
    then have "exhausted r ls xs k" if "n \<le> k" "k < m" for k using m(3) that by (cases "k = n") auto
    with m(1,2) show ?thesis by blast
  next
    case take
    obtain m where m: "m \<le> length ls" "m < length ls \<longrightarrow> past_limit s limit (fst (ls ! m))"
      "\<forall>k. Suc n \<le> k \<longrightarrow> k < m \<longrightarrow> exhausted r ls (tl xs) k"
      using Suc.hyps(1) [OF n(3) take(4)] n(1) by auto
    have "exhausted r ls xs k" if "exhausted r ls (tl xs) k" for k
      using that take(1) by (cases xs) (auto simp: exhausted_def)
    moreover have "exhausted r ls xs n"
      using take(1-3) level by (cases xs) (auto simp: exhausted_def)
    ultimately have "exhausted r ls xs k" if "n \<le> k" "k < m" for k using m(3) that by (cases "k = n") auto
    with m(1,2) show ?thesis by blast
  qed
qed

lemma effective_limit_tightens:
  "past_limit s (Some l) p \<Longrightarrow> past_limit s (fst (effective_limit r s touch (Some l) tick)) p"
  by (auto simp: effective_limit_def past_limit_def Let_def split: list.splits if_splits)

text \<open>The two kinds of outcome.\<close>

lemma execute_realism_cases:
  obtains (refused) reason where "execute_realism r q = refuse reason q"
  | (filled) slices rule where
      "0 < rq_requested_shares q" "rq_ladder q \<noteq> []"
      "slices_from r (rq_side q) (fst (request_limit r q)) 1 (visible_ladder r q) slices"
      "0 < sum_list (map fs_size slices)" "sum_list (map fs_size slices) \<le> rq_requested_shares q"
      "\<And>c. volume_cap r (rq_realised_volume q) (rq_minimum_order_size q) = Some c \<Longrightarrow> 0 \<le> c \<Longrightarrow>
         sum_list (map fs_size slices) \<le> c"
      "execute_realism r q = (empty_outcome q)\<lparr>eo_slices := slices,
         eo_filled_shares := sum_list (map fs_size slices),
         eo_notional := sum_list (map fs_notional slices), eo_fees := sum_list (map fs_fee slices),
         eo_binding_constraint := (if sum_list (map fs_size slices) < rq_requested_shares q
           then Some rule else None)\<rparr>"
      "sum_list (map fs_size slices) < rq_requested_shares q \<Longrightarrow>
         (\<And>c. volume_cap r (rq_realised_volume q) (rq_minimum_order_size q) = Some c \<Longrightarrow>
           sum_list (map fs_size slices) < c) \<Longrightarrow>
         stopped r (rq_side q) (fst (request_limit r q)) 1 (visible_ladder r q) slices"
proof (cases "\<exists>reason. execute_realism r q = refuse reason q")
  case True
  then show ?thesis using that(1) by blast
next
  case False
  obtain slices left flags where walk: "execute_walk r q = (slices, left, flags)" by (metis prod_cases3)
  from False have pos: "0 < rq_requested_shares q" "rq_ladder q \<noteq> []"
    by (auto simp: execute_realism_def not_le split: if_splits)
  note spec = walk_ladder_spec [OF walk [unfolded execute_walk_def] pos(1)]
  have nonneg: "0 \<le> sum_list (map fs_size slices)"
    by (rule sum_list_nonneg_map) (use slices_from_each [OF conjunct1 [OF spec]] in force)
  have ne: "sum_list (map fs_size slices) \<noteq> 0"
    using False walk by (auto simp: execute_realism_def Let_def split: if_splits)
  show ?thesis
  proof (rule that(2) [OF pos])
    show "slices_from r (rq_side q) (fst (request_limit r q)) 1 (visible_ladder r q) slices"
      "sum_list (map fs_size slices) \<le> rq_requested_shares q"
      "\<And>c. volume_cap r (rq_realised_volume q) (rq_minimum_order_size q) = Some c \<Longrightarrow> 0 \<le> c \<Longrightarrow>
         sum_list (map fs_size slices) \<le> c"
      using spec by auto
    show "0 < sum_list (map fs_size slices)" using ne nonneg by simp
    show "execute_realism r q = (empty_outcome q)\<lparr>eo_slices := slices,
         eo_filled_shares := sum_list (map fs_size slices),
         eo_notional := sum_list (map fs_notional slices), eo_fees := sum_list (map fs_fee slices),
         eo_binding_constraint := (if sum_list (map fs_size slices) < rq_requested_shares q
           then Some (binding_rule q (snd (request_limit r q)) (case er_max_levels_swept r of None \<Rightarrow> False
                             | Some n \<Rightarrow> n < length (rq_ladder q)) flags) else None)\<rparr>"
      using False walk ne spec by (auto simp: execute_realism_def Let_def split: if_splits)
    show "stopped r (rq_side q) (fst (request_limit r q)) 1 (visible_ladder r q) slices"
      if "sum_list (map fs_size slices) < rq_requested_shares q"
        "\<And>c. volume_cap r (rq_realised_volume q) (rq_minimum_order_size q) = Some c \<Longrightarrow>
           sum_list (map fs_size slices) < c"
      using walk_ladder_stopped [OF walk [unfolded execute_walk_def] pos(1)] spec that by simp
  qed
qed

lemma refuse_sel [simp]:
  "eo_filled_shares (refuse reason q) = 0" "eo_slices (refuse reason q) = []"
  "eo_rejected_reason (refuse reason q) = Some reason" "eo_binding_constraint (refuse reason q) = None"
  "eo_notional (refuse reason q) = 0" "eo_fees (refuse reason q) = 0"
  "eo_requested_shares (refuse reason q) = rq_requested_shares q"
  "eo_side_is_buy (refuse reason q) = (rq_side q = BUY)"
  by (simp_all add: refuse_def empty_outcome_def)

definition ladder_ok :: "(int \<times> int) list \<Rightarrow> bool" where
  "ladder_ok ls \<longleftrightarrow> (\<forall>(p, d) \<in> set ls. 0 \<le> p \<and> p \<le> POLYMARKET_PRICE_SCALE \<and> 0 \<le> d)"

lemma visible_ladder_sub: "set (visible_ladder r q) \<subseteq> set (rq_ladder q)"
  by (auto simp: visible_ladder_def split: option.splits dest: in_set_takeD)

text \<open>Each slice of an outcome, as the walk took it.\<close>

lemma outcome_slice:
  assumes "realism_ok r" "ladder_ok (rq_ladder q)" "x \<in> set (eo_slices (execute_realism r q))"
  shows "\<exists>d. (fs_price x, d) \<in> set (rq_ladder q) \<and> 0 < fs_size x \<and> fs_size x \<le> allowed_size r d
    \<and> allowed_size r d \<le> d \<and> (\<forall>l. rq_limit_price q = Some l \<longrightarrow> \<not> past_limit (rq_side q) (Some l) (fs_price x))
    \<and> (\<forall>n. er_max_levels_swept r = Some n \<longrightarrow> fs_level_rank x \<le> n)
    \<and> fs_notional x = notional_scaled (fs_size x) (fs_price x)
    \<and> fs_fee x = calculate_fee (er_fee r) (fs_size x) (fs_price x)"
proof (cases rule: execute_realism_cases [of r q])
  case (filled slices rule)
  have mem: "x \<in> set slices" using assms(3) filled(7) by (simp add: empty_outcome_def)
  obtain d where d: "(fs_price x, d) \<in> set (visible_ladder r q)" "0 < fs_size x" "fs_size x \<le> allowed_size r d"
    "\<not> past_limit (rq_side q) (fst (request_limit r q)) (fs_price x)"
    "fs_level_rank x < 1 + length (visible_ladder r q)"
    "fs_notional x = notional_scaled (fs_size x) (fs_price x)"
    "fs_fee x = calculate_fee (er_fee r) (fs_size x) (fs_price x)"
    using slices_from_each [OF filled(3) mem] by blast
  have "0 \<le> d" "(fs_price x, d) \<in> set (rq_ladder q)"
    using assms(2) d(1) visible_ladder_sub by (fastforce simp: ladder_ok_def)+
  with allowed_size_bounds [OF assms(1) this(1)] have "allowed_size r d \<le> d" by simp
  moreover have "\<not> past_limit (rq_side q) (Some l) (fs_price x)" if "rq_limit_price q = Some l" for l
    using d(4) that effective_limit_tightens by (auto simp: request_limit_def)
  moreover have "fs_level_rank x \<le> n" if "er_max_levels_swept r = Some n" for n
    using d(5) that by (simp add: visible_ladder_def)
  ultimately show ?thesis using d \<open>(fs_price x, d) \<in> set (rq_ladder q)\<close> by blast
qed (use assms(3) in simp)

section \<open>Properties\<close>

lemma visible_nth: "k < length (visible_ladder r q) \<Longrightarrow> visible_ladder r q ! k = rq_ladder q ! k"
  by (auto simp: visible_ladder_def split: option.splits)

lemma visible_length: "length (visible_ladder r q) \<le> length (rq_ladder q)"
  by (simp add: visible_ladder_def split: option.splits)

lemma visible_ends:
  "length (visible_ladder r q) < length (rq_ladder q) \<Longrightarrow> er_max_levels_swept r = Some (length (visible_ladder r q))"
  by (auto simp: visible_ladder_def min_def split: option.splits)

lemma exhausted_visible:
  "k < length (visible_ladder r q) \<Longrightarrow>
     exhausted r (visible_ladder r q) xs k \<longleftrightarrow> exhausted r (rq_ladder q) xs k"
  by (simp add: exhausted_def visible_nth)

lemma slice_at_rank:
  assumes "realism_ok r" "ladder_ok (rq_ladder q)"
    "slices_from r (rq_side q) (fst (request_limit r q)) 1 (visible_ladder r q) slices" "x \<in> set slices"
  shows "\<exists>k d. fs_level_rank x = Suc k \<and> k < length (rq_ladder q) \<and> rq_ladder q ! k = (fs_price x, d)
    \<and> 0 < fs_size x \<and> fs_size x \<le> allowed_size r d \<and> allowed_size r d \<le> d
    \<and> \<not> past_limit (rq_side q) (fst (request_limit r q)) (fs_price x)
    \<and> (\<forall>l. rq_limit_price q = Some l \<longrightarrow> \<not> past_limit (rq_side q) (Some l) (fs_price x))
    \<and> (\<forall>n. er_max_levels_swept r = Some n \<longrightarrow> k < n)
    \<and> (\<forall>j < k. exhausted r (rq_ladder q) slices j)"
proof -
  let ?v = "visible_ladder r q"
  have "slices_from r (rq_side q) (fst (request_limit r q)) (Suc 0) (drop 0 ?v) slices" using assms(3) by simp
  note spec = slices_from_ranks [OF this, rule_format, OF assms(4)]
  then obtain k where k: "fs_level_rank x = Suc k" by (cases "fs_level_rank x") auto
  obtain d where level: "?v ! k = (fs_price x, d)"
    using spec k by (cases "?v ! k") auto
  have len: "k < length ?v" using spec k by simp
  have at: "rq_ladder q ! k = (fs_price x, d)" "k < length (rq_ladder q)"
    using level len visible_nth [of k r q] visible_length [of r q] by auto
  then have "0 \<le> d" using assms(2) nth_mem [of k "rq_ladder q"] by (auto simp: ladder_ok_def)
  from allowed_size_bounds [OF assms(1) this] have "allowed_size r d \<le> d" by simp
  moreover have "\<not> past_limit (rq_side q) (Some l) (fs_price x)" if "rq_limit_price q = Some l" for l
    using spec that effective_limit_tightens by (auto simp: request_limit_def)
  moreover have "k < n" if "er_max_levels_swept r = Some n" for n
    using len that by (simp add: visible_ladder_def)
  moreover have "exhausted r (rq_ladder q) slices j" if "j < k" for j
    using spec k that len exhausted_visible [of j r q slices] by auto
  moreover have "0 < fs_size x" "fs_size x \<le> allowed_size r d"
    "\<not> past_limit (rq_side q) (fst (request_limit r q)) (fs_price x)"
    using spec k level by simp_all
  ultimately show ?thesis using k at by blast
qed

text \<open>Where a fill falls short, the walk had come to the end of what it may take.\<close>

lemma short_fill_ends:
  assumes "stopped r s limit 1 (visible_ladder r q) xs"
  shows "\<exists>m \<le> length (rq_ladder q). (m < length (rq_ladder q) \<longrightarrow>
        er_max_levels_swept r = Some m \<or> past_limit s limit (fst (rq_ladder q ! m)))
    \<and> (\<forall>k < m. exhausted r (rq_ladder q) xs k)"
proof -
  let ?v = "visible_ladder r q"
  obtain m where m: "m \<le> length ?v" "m < length ?v \<longrightarrow> past_limit s limit (fst (?v ! m))"
    "\<forall>k < m. exhausted r ?v xs k"
    using stopped_exhausts [of r s limit 0 ?v xs] assms by auto
  have "\<forall>k < m. exhausted r (rq_ladder q) xs k" using m(1,3) exhausted_visible by fastforce
  moreover have "m \<le> length (rq_ladder q)" using m(1) visible_length [of r q] by simp
  moreover have "er_max_levels_swept r = Some m \<or> past_limit s limit (fst (rq_ladder q ! m))"
    if "m < length (rq_ladder q)"
    using m(1,2) that visible_nth [of m r q] visible_ends [of r q] by (cases "m < length ?v") auto
  ultimately show ?thesis by blast
qed


definition demo_request :: taker_request where
  "demo_request =
     \<lparr>rq_side = BUY, rq_ladder = [(800000, 100000000), (805000, 40000000), (830000, 500000000)],
      rq_requested_shares = 60000000, rq_limit_price = Some 820000,
      rq_reference_price = Some 800000, rq_realised_volume = None, rq_decision_utc_ns = 10,
      rq_arrival_utc_ns = 60, rq_book_age_ns = 5, rq_minimum_order_size = 5000000,
      rq_tick_size = 1000\<rparr>"

definition demo_realism :: execution_realism where
  "demo_realism = pessimistic_preset None DEFAULT_FEE"

lemma demo_realism_ok: "realism_ok demo_realism"
  using preset_ok [of None Pessimistic None] by (simp add: preset_def demo_realism_def)

lemma demo_ladder_ok: "ladder_ok (rq_ladder demo_request)"
  by (simp add: ladder_ok_def demo_request_def)

text \<open>A quarter of each of the two levels within five thousandths of the touch.\<close>

lemma demo_outcome:
  "eo_filled_shares (execute_realism demo_realism demo_request) = 35000000"
  "eo_binding_constraint (execute_realism demo_realism demo_request) = Some ''max_price_through_touch''"
  by (simp_all add: execute_realism_def demo_realism_def pessimistic_preset_def demo_request_def
      execute_walk_def request_limit_def effective_limit_def visible_ladder_def volume_cap_def
      past_limit_def allowed_size_def make_slice_def binding_rule_def empty_outcome_def Let_def)


text \<open>
  Every outcome explains itself.  An order that filled nothing carries a rejection reason, an
  order that filled something carries none, and a binding constraint is named exactly when the
  order filled in part only.
\<close>

theorem taker_outcome_explained:
  assumes "0 < rq_requested_shares q"
  shows "(eo_rejected_reason (execute_realism r q) \<noteq> None
        \<longleftrightarrow> \<not> eo_filled (execute_realism r q))
    \<and> (eo_binding_constraint (execute_realism r q) \<noteq> None
        \<longleftrightarrow> 0 < eo_filled_shares (execute_realism r q)
            \<and> eo_filled_shares (execute_realism r q) < rq_requested_shares q)"
  by (cases rule: execute_realism_cases [of r q]) (simp_all add: eo_filled_def empty_outcome_def)

theorem taker_outcome_explained_witness:
  "eo_rejected_reason (execute_realism demo_realism demo_request) = None
   \<and> eo_binding_constraint (execute_realism demo_realism demo_request) \<noteq> None"
proof -
  have "0 < rq_requested_shares demo_request" by (simp add: demo_request_def)
  from taker_outcome_explained [OF this, of demo_realism] demo_outcome show ?thesis
    by (simp add: eo_filled_def)
qed

end
