(* ===== verification/Policy.thy ===== *)
theory Policy
  imports Realism
begin

text \<open>
  The first half of \<^verbatim>\<open>backtest/optimal_execution.py\<close>: the parent order, the state a policy may
  see, and the two sequential policies, TWAP and adaptive participation.  The constructors that
  validate in \<^verbatim>\<open>__post_init__\<close> are functions into \<open>py_error + 'a\<close>.  \<open>execution_policy\<close> is the
  contract on the decisions of a policy, interpreted on both.
\<close>

section \<open>Parent orders\<close>

record objective_weights =
  ow_implementation_shortfall_ppm :: int
  ow_non_fill_penalty_ppm :: int
  ow_adverse_selection_penalty_ppm :: int

definition make_objective_weights :: "objective_weights \<Rightarrow> py_error + objective_weights" where
  "make_objective_weights w =
     (if ow_implementation_shortfall_ppm w < 0
      then Inl (ValueError ''implementation_shortfall_ppm must be non-negative'')
      else if ow_non_fill_penalty_ppm w < 0
      then Inl (ValueError ''non_fill_penalty_ppm must be non-negative'')
      else if ow_adverse_selection_penalty_ppm w < 0
      then Inl (ValueError ''adverse_selection_penalty_ppm must be non-negative'')
      else Inr w)"

record execution_plan =
  xp_side :: side
  xp_target_shares :: int
  xp_start_utc_ns :: int
  xp_deadline_utc_ns :: int
  xp_benchmark_price :: int
  xp_limit_price :: "int option"
  xp_objective :: objective_weights

definition make_plan :: "execution_plan \<Rightarrow> py_error + execution_plan" where
  "make_plan p =
     (if xp_target_shares p \<le> 0 then Inl (ValueError ''target_shares_scaled must be positive'')
      else if xp_deadline_utc_ns p \<le> xp_start_utc_ns p
      then Inl (ValueError ''deadline must be after start'')
      else if xp_benchmark_price p \<le> 0
      then Inl (ValueError ''benchmark_price_scaled must be positive'')
      else if (case xp_limit_price p of None \<Rightarrow> False | Some l \<Rightarrow> l \<le> 0)
      then Inl (ValueError ''limit_price_scaled must be positive'')
      else Inr p)"

section \<open>What a policy sees\<close>

record execution_state =
  xs_plan :: execution_plan
  xs_now_utc_ns :: int
  xs_filled_shares :: int
  xs_inventory_shares :: int
  xs_available_cash :: int
  xs_bids :: "(int \<times> int) list"
  xs_asks :: "(int \<times> int) list"
  xs_observed_market_volume :: int
  xs_minimum_order_size :: int
  xs_last_action_utc_ns :: "int option"
  xs_current_reference_price :: "int option"

fun validate_ladder :: "bool \<Rightarrow> int option \<Rightarrow> (int \<times> int) list \<Rightarrow> py_error + unit" where
  "validate_ladder descending previous [] = Inr ()"
| "validate_ladder descending previous ((price, sz) # ls) =
     (if price \<le> 0 \<or> sz \<le> 0 then Inl (ValueError ''must contain positive price and size'')
      else if (case previous of None \<Rightarrow> False
               | Some q \<Rightarrow> \<not> (if descending then price < q else q < price))
      then Inl (ValueError ''must be strictly price ordered'')
      else validate_ladder descending (Some price) ls)"

definition make_state :: "execution_state \<Rightarrow> py_error + execution_state" where
  "make_state s =
     (if \<not> (0 \<le> xs_filled_shares s \<and> xs_filled_shares s \<le> xp_target_shares (xs_plan s))
      then Inl (ValueError ''filled shares must be between zero and target'')
      else if xs_inventory_shares s < 0 \<or> xs_available_cash s < 0
        \<or> xs_observed_market_volume s < 0 \<or> xs_minimum_order_size s < 0
      then Inl (ValueError ''must be non-negative'')
      else if (case xs_last_action_utc_ns s of None \<Rightarrow> False | Some t \<Rightarrow> xs_now_utc_ns s < t)
      then Inl (ValueError ''last action cannot be in the future'')
      else if (case xs_current_reference_price s of None \<Rightarrow> False | Some p \<Rightarrow> p \<le> 0)
      then Inl (ValueError ''current_reference_price_scaled must be positive'')
      else res_bind (validate_ladder True None (xs_bids s)) (\<lambda>_.
           res_bind (validate_ladder False None (xs_asks s)) (\<lambda>_. Inr s)))"

definition remaining_shares :: "execution_state \<Rightarrow> int" where
  "remaining_shares s = xp_target_shares (xs_plan s) - xs_filled_shares s"

definition taker_ladder :: "execution_state \<Rightarrow> (int \<times> int) list" where
  "taker_ladder s = (if xp_side (xs_plan s) = BUY then xs_asks s else xs_bids s)"

definition touch_price :: "execution_state \<Rightarrow> int option" where
  "touch_price s = (case taker_ladder s of [] \<Rightarrow> None | (p, _) # _ \<Rightarrow> Some p)"

definition progress_ppm :: "execution_state \<Rightarrow> int" where
  "progress_ppm s =
     (let p = xs_plan s in
      if xs_now_utc_ns s \<le> xp_start_utc_ns p then 0
      else if xp_deadline_utc_ns p \<le> xs_now_utc_ns s then PPM
      else (xs_now_utc_ns s - xp_start_utc_ns p) * PPM div (xp_deadline_utc_ns p - xp_start_utc_ns p))"

definition adverse_move :: "execution_state \<Rightarrow> int" where
  "adverse_move s =
     (let price = (case xs_current_reference_price s of
                     Some p \<Rightarrow> if p = 0 then touch_price s else Some p
                   | None \<Rightarrow> touch_price s)
      in case price of
           None \<Rightarrow> 0
         | Some p \<Rightarrow>
             if xp_side (xs_plan s) = BUY then max 0 (p - xp_benchmark_price (xs_plan s))
             else max 0 (xp_benchmark_price (xs_plan s) - p))"

section \<open>Actions and limits\<close>

datatype action_kind = WAIT | TAKER_SLICE

record execution_action =
  xa_kind :: action_kind
  xa_requested_shares :: int
  xa_limit_price :: "int option"
  xa_reason :: string
  xa_policy_name :: string

definition make_action :: "execution_action \<Rightarrow> py_error + execution_action" where
  "make_action a =
     (if xa_kind a = WAIT \<and> xa_requested_shares a \<noteq> 0
      then Inl (ValueError ''WAIT actions cannot request shares'')
      else if xa_kind a = TAKER_SLICE \<and> xa_requested_shares a \<le> 0
      then Inl (ValueError ''TAKER_SLICE actions require positive shares'')
      else Inr a)"

definition wait_action :: "string \<Rightarrow> string \<Rightarrow> execution_action" where
  "wait_action name reason =
     \<lparr>xa_kind = WAIT, xa_requested_shares = 0, xa_limit_price = None, xa_reason = reason,
      xa_policy_name = name\<rparr>"

record policy_limits =
  lim_minimum_action_interval_ns :: int
  lim_max_child_shares :: "int option"
  lim_max_l2_participation_ppm :: int
  lim_fee_reserve_ppm :: int

definition make_policy_limits :: "policy_limits \<Rightarrow> py_error + policy_limits" where
  "make_policy_limits l =
     (if lim_minimum_action_interval_ns l < 0
      then Inl (ValueError ''minimum_action_interval_ns must be non-negative'')
      else if (case lim_max_child_shares l of None \<Rightarrow> False | Some n \<Rightarrow> n \<le> 0)
      then Inl (ValueError ''max_child_shares_scaled must be positive'')
      else if \<not> (0 < lim_max_l2_participation_ppm l \<and> lim_max_l2_participation_ppm l \<le> PPM)
      then Inl (ValueError ''max_l2_participation_ppm must be in (0, 1_000_000]'')
      else if lim_fee_reserve_ppm l < 0
      then Inl (ValueError ''fee_reserve_ppm must be non-negative'')
      else Inr l)"

definition default_limits :: policy_limits where
  "default_limits =
     \<lparr>lim_minimum_action_interval_ns = 250000000, lim_max_child_shares = None,
      lim_max_l2_participation_ppm = 250000, lim_fee_reserve_ppm = 20000\<rparr>"

definition preflight :: "string \<Rightarrow> policy_limits \<Rightarrow> execution_state \<Rightarrow> execution_action option" where
  "preflight name lim s =
     (if xs_now_utc_ns s < xp_start_utc_ns (xs_plan s) then Some (wait_action name ''before_start'')
      else if xp_deadline_utc_ns (xs_plan s) < xs_now_utc_ns s
      then Some (wait_action name ''deadline_passed'')
      else if remaining_shares s \<le> 0 then Some (wait_action name ''parent_complete'')
      else if taker_ladder s = [] then Some (wait_action name ''empty_taker_ladder'')
      else if xp_side (xs_plan s) = SELL \<and> xs_inventory_shares s \<le> 0
      then Some (wait_action name ''no_inventory'')
      else if xs_now_utc_ns s < xp_deadline_utc_ns (xs_plan s)
        \<and> (case xs_last_action_utc_ns s of None \<Rightarrow> False
           | Some t \<Rightarrow> xs_now_utc_ns s - t < lim_minimum_action_interval_ns lim)
      then Some (wait_action name ''minimum_action_interval'')
      else None)"

definition executable_levels :: "execution_state \<Rightarrow> (int \<times> int) list" where
  "executable_levels s =
     (case xp_limit_price (xs_plan s) of
        None \<Rightarrow> taker_ladder s
      | Some l \<Rightarrow>
          if xp_side (xs_plan s) = BUY then filter (\<lambda>(p, _). p \<le> l) (xs_asks s)
          else filter (\<lambda>(p, _). l \<le> p) (xs_bids s))"

definition executable_depth :: "execution_state \<Rightarrow> int" where
  "executable_depth s = sum_list (map snd (executable_levels s))"

definition cash_affordable_shares :: "policy_limits \<Rightarrow> execution_state \<Rightarrow> int" where
  "cash_affordable_shares lim s =
     (if executable_levels s = [] then 0
      else
        let worst = fst (last (executable_levels s));
            worst_price = (case xp_limit_price (xs_plan s) of None \<Rightarrow> worst | Some l \<Rightarrow> max worst l)
        in xs_available_cash s * POLYMARKET_PRICE_SCALE * PPM
             div (worst_price * (PPM + lim_fee_reserve_ppm lim)))"

definition child_size :: "policy_limits \<Rightarrow> execution_state \<Rightarrow> int \<Rightarrow> int" where
  "child_size lim s requested =
     (let size1 = min requested (remaining_shares s);
          size2 = (case lim_max_child_shares lim of None \<Rightarrow> size1 | Some n \<Rightarrow> min size1 n);
          size3 = (if xp_side (xs_plan s) = SELL then min size2 (xs_inventory_shares s) else size2);
          size4 = min size3 (ppm_of (executable_depth s) (lim_max_l2_participation_ppm lim))
      in if xp_side (xs_plan s) = BUY then min size4 (cash_affordable_shares lim s) else size4)"

definition child_action :: "string \<Rightarrow> policy_limits \<Rightarrow> execution_state \<Rightarrow> int \<Rightarrow> string \<Rightarrow> execution_action" where
  "child_action name lim s requested reason =
     (let sz = child_size lim s requested in
      if sz \<le> 0 then wait_action name ''no_executable_capacity''
      else if sz < xs_minimum_order_size s then wait_action name ''below_minimum_order_size''
      else \<lparr>xa_kind = TAKER_SLICE, xa_requested_shares = sz,
            xa_limit_price = xp_limit_price (xs_plan s), xa_reason = reason, xa_policy_name = name\<rparr>)"

section \<open>TWAP\<close>

record twap_policy =
  tw_slices :: int
  tw_limits :: policy_limits

definition make_twap :: "twap_policy \<Rightarrow> py_error + twap_policy" where
  "make_twap t =
     (if tw_slices t \<le> 0 then Inl (ValueError ''slices must be positive'') else Inr t)"

text \<open>The cumulative shares the schedule asks for at a time.\<close>

definition twap_slot :: "int \<Rightarrow> execution_plan \<Rightarrow> int \<Rightarrow> int" where
  "twap_slot slices p now =
     min slices (max 0 (now - xp_start_utc_ns p) * slices
       div (xp_deadline_utc_ns p - xp_start_utc_ns p) + 1)"

definition twap_scheduled :: "int \<Rightarrow> execution_plan \<Rightarrow> int \<Rightarrow> int" where
  "twap_scheduled slices p now = ceil_div (xp_target_shares p * twap_slot slices p now) slices"

definition twap_decide :: "twap_policy \<Rightarrow> execution_state \<Rightarrow> execution_action" where
  "twap_decide t s =
     (case preflight ''twap'' (tw_limits t) s of
        Some blocked \<Rightarrow> blocked
      | None \<Rightarrow>
          let due = twap_scheduled (tw_slices t) (xs_plan s) (xs_now_utc_ns s) - xs_filled_shares s
          in if due \<le> 0 then wait_action ''twap'' ''ahead_of_twap_schedule''
             else child_action ''twap'' (tw_limits t) s due
                    (if xs_now_utc_ns s = xp_deadline_utc_ns (xs_plan s)
                     then ''deadline_catch_up'' else ''twap_schedule''))"

section \<open>Adaptive participation\<close>

record pov_policy =
  pv_participation_ppm :: int
  pv_twap_floor_ppm :: int
  pv_adverse_move_tolerance :: "int option"
  pv_minimum_adverse_multiplier_ppm :: int
  pv_limits :: policy_limits

definition make_pov :: "pov_policy \<Rightarrow> py_error + pov_policy" where
  "make_pov v =
     (if \<not> (0 < pv_participation_ppm v \<and> pv_participation_ppm v < PPM)
      then Inl (ValueError ''participation_ppm must be in (0, 1_000_000)'')
      else if \<not> (0 \<le> pv_twap_floor_ppm v \<and> pv_twap_floor_ppm v \<le> PPM)
      then Inl (ValueError ''twap_floor_ppm must be in [0, 1_000_000]'')
      else if (case pv_adverse_move_tolerance v of None \<Rightarrow> False | Some t \<Rightarrow> t \<le> 0)
      then Inl (ValueError ''adverse_move_tolerance_scaled must be positive'')
      else if \<not> (0 \<le> pv_minimum_adverse_multiplier_ppm v \<and> pv_minimum_adverse_multiplier_ppm v \<le> PPM)
      then Inl (ValueError ''minimum_adverse_multiplier_ppm must be in [0, 1_000_000]'')
      else Inr v)"

definition adverse_multiplier :: "pov_policy \<Rightarrow> execution_state \<Rightarrow> int" where
  "adverse_multiplier v s =
     (case pv_adverse_move_tolerance v of
        None \<Rightarrow> PPM
      | Some tolerance \<Rightarrow>
          if adverse_move s \<le> 0 then PPM
          else
            let pressure = min PPM (adverse_move s * PPM div tolerance);
                reduction = ppm_of pressure (PPM - progress_ppm s)
            in max (pv_minimum_adverse_multiplier_ppm v) (PPM - reduction))"

definition flow_target :: "pov_policy \<Rightarrow> int \<Rightarrow> int" where
  "flow_target v volume = volume * pv_participation_ppm v div (PPM - pv_participation_ppm v)"

definition schedule_floor :: "pov_policy \<Rightarrow> execution_state \<Rightarrow> int" where
  "schedule_floor v s =
     ppm_of (ppm_of (xp_target_shares (xs_plan s)) (progress_ppm s)) (pv_twap_floor_ppm v)"

definition pov_decide :: "pov_policy \<Rightarrow> execution_state \<Rightarrow> execution_action" where
  "pov_decide v s =
     (case preflight ''adaptive_pov'' (pv_limits v) s of
        Some blocked \<Rightarrow> blocked
      | None \<Rightarrow>
          if xs_now_utc_ns s = xp_deadline_utc_ns (xs_plan s)
          then child_action ''adaptive_pov'' (pv_limits v) s (remaining_shares s) ''deadline_catch_up''
          else
            let desired = min (xp_target_shares (xs_plan s))
                            (max (flow_target v (xs_observed_market_volume s)) (schedule_floor v s));
                due = desired - xs_filled_shares s
            in if due \<le> 0 then wait_action ''adaptive_pov'' ''participation_target_satisfied''
               else
                 let due' = ppm_of due (adverse_multiplier v s)
                 in if due' \<le> 0 then wait_action ''adaptive_pov'' ''adverse_price_wait''
                    else child_action ''adaptive_pov'' (pv_limits v) s due' ''adaptive_participation'')"

section \<open>The contract of a policy\<close>

text \<open>
  What the session may rely on: a wait asks for nothing, and a slice is positive, within what is
  left of the parent, within the inventory when selling, inside the parent's window, and carries
  the parent's limit.
\<close>

locale execution_policy =
  fixes decide :: "execution_state \<Rightarrow> execution_action"
  assumes wait_zero: "xa_kind (decide s) = WAIT \<Longrightarrow> xa_requested_shares (decide s) = 0"
    and slice_positive: "xa_kind (decide s) = TAKER_SLICE \<Longrightarrow> 0 < xa_requested_shares (decide s)"
    and slice_remaining: "xa_kind (decide s) = TAKER_SLICE \<Longrightarrow>
      xa_requested_shares (decide s) \<le> remaining_shares s"
    and slice_inventory: "xa_kind (decide s) = TAKER_SLICE \<Longrightarrow> xp_side (xs_plan s) = SELL \<Longrightarrow>
      xa_requested_shares (decide s) \<le> xs_inventory_shares s"
    and slice_window: "xa_kind (decide s) = TAKER_SLICE \<Longrightarrow>
      xp_start_utc_ns (xs_plan s) \<le> xs_now_utc_ns s \<and> xs_now_utc_ns s \<le> xp_deadline_utc_ns (xs_plan s)"
    and slice_limit: "xa_kind (decide s) = TAKER_SLICE \<Longrightarrow>
      xa_limit_price (decide s) = xp_limit_price (xs_plan s)"
begin

lemma slice_not_complete: "xa_kind (decide s) = TAKER_SLICE \<Longrightarrow> 0 < remaining_shares s"
  using slice_positive slice_remaining by force

lemma requested_bounds:
  "0 \<le> remaining_shares s \<Longrightarrow>
     0 \<le> xa_requested_shares (decide s) \<and> xa_requested_shares (decide s) \<le> remaining_shares s"
  using wait_zero [of s] slice_positive [of s] slice_remaining [of s]
  by (cases "xa_kind (decide s)") auto

lemma decision_constructs: "make_action (decide s) = Inr (decide s)"
  using wait_zero [of s] slice_positive [of s] by (auto simp: make_action_def)

end

lemma child_size_le:
  "child_size lim s n \<le> n" "child_size lim s n \<le> remaining_shares s"
  "xp_side (xs_plan s) = SELL \<Longrightarrow> child_size lim s n \<le> xs_inventory_shares s"
  "child_size lim s n \<le> ppm_of (executable_depth s) (lim_max_l2_participation_ppm lim)"
  "xp_side (xs_plan s) = BUY \<Longrightarrow> child_size lim s n \<le> cash_affordable_shares lim s"
  "lim_max_child_shares lim = Some m \<Longrightarrow> child_size lim s n \<le> m"
  by (auto simp: child_size_def Let_def split: option.split)

lemma child_action_kind:
  "xa_kind (child_action name lim s n why) =
     (if 0 < child_size lim s n \<and> xs_minimum_order_size s \<le> child_size lim s n then TAKER_SLICE else WAIT)"
  "xa_requested_shares (child_action name lim s n why) =
     (if 0 < child_size lim s n \<and> xs_minimum_order_size s \<le> child_size lim s n then child_size lim s n else 0)"
  by (auto simp: child_action_def wait_action_def Let_def)

lemma child_action_limit:
  "xa_kind (child_action name lim s n why) = TAKER_SLICE \<Longrightarrow>
     xa_limit_price (child_action name lim s n why) = xp_limit_price (xs_plan s)"
  by (auto simp: child_action_def wait_action_def Let_def split: if_splits)

lemma wait_action_sel [simp]:
  "xa_kind (wait_action name why) = WAIT" "xa_requested_shares (wait_action name why) = 0"
  by (simp_all add: wait_action_def)

lemma preflight_waits: "preflight name lim s = Some a \<Longrightarrow> \<exists>why. a = wait_action name why"
  by (auto simp: preflight_def split: if_splits)

lemma preflight_window:
  "preflight name lim s = None \<Longrightarrow>
     xp_start_utc_ns (xs_plan s) \<le> xs_now_utc_ns s \<and> xs_now_utc_ns s \<le> xp_deadline_utc_ns (xs_plan s)
     \<and> 0 < remaining_shares s"
  by (auto simp: preflight_def split: if_splits)

text \<open>A decision is a wait or a child of what is due.\<close>

lemma twap_decide_cases:
  "(\<exists>why. twap_decide t s = wait_action ''twap'' why)
   \<or> (preflight ''twap'' (tw_limits t) s = None
      \<and> (\<exists>due why. twap_decide t s = child_action ''twap'' (tw_limits t) s due why
           \<and> due = twap_scheduled (tw_slices t) (xs_plan s) (xs_now_utc_ns s) - xs_filled_shares s))"
  by (auto simp: twap_decide_def Let_def dest: preflight_waits split: option.split)

lemma pov_decide_cases:
  "(\<exists>why. pov_decide v s = wait_action ''adaptive_pov'' why)
   \<or> (preflight ''adaptive_pov'' (pv_limits v) s = None
      \<and> (\<exists>due why. pov_decide v s = child_action ''adaptive_pov'' (pv_limits v) s due why))"
  by (auto simp: pov_decide_def Let_def dest: preflight_waits split: option.split)

lemma twap_slice_child:
  assumes "xa_kind (twap_decide t s) = TAKER_SLICE"
  shows "\<exists>why. twap_decide t s = child_action ''twap'' (tw_limits t) s
    (twap_scheduled (tw_slices t) (xs_plan s) (xs_now_utc_ns s) - xs_filled_shares s) why"
  using twap_decide_cases [of t s] assms by auto

lemma pov_slice_child:
  assumes "xa_kind (pov_decide v s) = TAKER_SLICE"
  shows "\<exists>due why. pov_decide v s = child_action ''adaptive_pov'' (pv_limits v) s due why"
  using pov_decide_cases [of v s] assms by auto

lemma child_requests: "xa_kind (child_action name lim s n why) = TAKER_SLICE \<Longrightarrow>
  xa_requested_shares (child_action name lim s n why) \<le> n"
  using child_size_le(1) [of lim s n] by (simp add: child_action_kind split: if_splits)

lemma child_contract:
  assumes "\<And>s. (\<exists>why. decide s = wait_action name why)
      \<or> (preflight name lim s = None \<and> (\<exists>due why. decide s = child_action name lim s due why))"
  shows "execution_policy decide"
proof
  fix s
  show "xa_kind (decide s) = WAIT \<Longrightarrow> xa_requested_shares (decide s) = 0"
    "xa_kind (decide s) = TAKER_SLICE \<Longrightarrow> 0 < xa_requested_shares (decide s)"
    using assms [of s] by (auto simp: child_action_kind split: if_splits)
  show "xa_kind (decide s) = TAKER_SLICE \<Longrightarrow> xa_requested_shares (decide s) \<le> remaining_shares s"
    using assms [of s] child_size_le(2) by (auto simp: child_action_kind split: if_splits)
  show "xa_kind (decide s) = TAKER_SLICE \<Longrightarrow> xp_side (xs_plan s) = SELL \<Longrightarrow>
      xa_requested_shares (decide s) \<le> xs_inventory_shares s"
    using assms [of s] child_size_le(3) by (auto simp: child_action_kind split: if_splits)
  show "xa_kind (decide s) = TAKER_SLICE \<Longrightarrow>
      xp_start_utc_ns (xs_plan s) \<le> xs_now_utc_ns s \<and> xs_now_utc_ns s \<le> xp_deadline_utc_ns (xs_plan s)"
    using assms [of s] preflight_window by auto
  show "xa_kind (decide s) = TAKER_SLICE \<Longrightarrow> xa_limit_price (decide s) = xp_limit_price (xs_plan s)"
    using assms [of s] child_action_limit by auto
qed

interpretation twap: execution_policy "twap_decide t" for t
  by (rule child_contract [of _ "''twap''" "tw_limits t"]) (use twap_decide_cases in blast)

interpretation pov: execution_policy "pov_decide v" for v
  by (rule child_contract [of _ "''adaptive_pov''" "pv_limits v"]) (rule pov_decide_cases)


section \<open>Schedules\<close>

lemma make_plan_Inr:
  "make_plan p = Inr q \<Longrightarrow> q = p \<and> 0 < xp_target_shares p \<and> xp_start_utc_ns p < xp_deadline_utc_ns p
     \<and> 0 < xp_benchmark_price p"
  by (auto simp: make_plan_def split: if_splits)

lemma make_limits_Inr:
  "make_policy_limits l = Inr m \<Longrightarrow> m = l \<and> 0 \<le> lim_minimum_action_interval_ns l
     \<and> 0 < lim_max_l2_participation_ppm l \<and> lim_max_l2_participation_ppm l \<le> PPM \<and> 0 \<le> lim_fee_reserve_ppm l"
  by (auto simp: make_policy_limits_def split: if_splits)

lemma ceil_div_mono: "0 < d \<Longrightarrow> m \<le> n \<Longrightarrow> ceil_div m d \<le> ceil_div n d"
  by (simp add: ceil_div_def zdiv_mono1)

lemma twap_slot_mono:
  "0 < n \<Longrightarrow> xp_start_utc_ns p < xp_deadline_utc_ns p \<Longrightarrow> s \<le> t \<Longrightarrow> twap_slot n p s \<le> twap_slot n p t"
  unfolding twap_slot_def by (intro min.mono order_refl add_mono zdiv_mono1 mult_right_mono max.mono) auto

lemma twap_slot_range:
  "0 < n \<Longrightarrow> xp_start_utc_ns p < xp_deadline_utc_ns p \<Longrightarrow> 1 \<le> twap_slot n p t \<and> twap_slot n p t \<le> n"
  unfolding twap_slot_def by (simp add: pos_imp_zdiv_nonneg_iff)

lemma twap_slot_deadline:
  assumes "0 < n" "xp_start_utc_ns p < xp_deadline_utc_ns p" "xp_deadline_utc_ns p \<le> t"
  shows "twap_slot n p t = n"
proof -
  let ?d = "xp_deadline_utc_ns p - xp_start_utc_ns p"
  have "n * ?d div ?d \<le> max 0 (t - xp_start_utc_ns p) * n div ?d"
    using assms by (intro zdiv_mono1) (simp_all add: mult.commute mult_left_mono)
  then have "n \<le> max 0 (t - xp_start_utc_ns p) * n div ?d" using assms(2) by simp
  then show ?thesis by (simp add: twap_slot_def)
qed

lemma less_div_succ: "0 < (d::int) \<Longrightarrow> x < (x div d + 1) * d"
  by (metis add.commute add_less_cancel_left distrib_right div_mult_mod_eq mult_1 pos_mod_bound)

text \<open>Slot \<open>k\<close> begins when \<open>k\<close> slices of the window have passed.\<close>

lemma twap_slot_on_time:
  assumes "0 < n" "xp_start_utc_ns p < xp_deadline_utc_ns p" "xp_start_utc_ns p \<le> t"
    and "t < xp_deadline_utc_ns p"
  shows "(t - xp_start_utc_ns p) * n < twap_slot n p t * (xp_deadline_utc_ns p - xp_start_utc_ns p)"
proof -
  let ?d = "xp_deadline_utc_ns p - xp_start_utc_ns p" and ?e = "t - xp_start_utc_ns p"
  have "?e * n < n * ?d" using assms by (simp add: mult.commute)
  moreover have "?e * n < (?e * n div ?d + 1) * ?d"
    by (rule less_div_succ) (use assms(2) in simp)
  ultimately show ?thesis using assms(3) by (simp add: twap_slot_def min_def)
qed

lemma twap_scheduled_range:
  assumes "0 < n" "xp_start_utc_ns p < xp_deadline_utc_ns p" "0 < xp_target_shares p"
  shows "0 < twap_scheduled n p t" "twap_scheduled n p t \<le> xp_target_shares p"
proof -
  note r = twap_slot_range [OF assms(1,2), of t]
  have "0 < xp_target_shares p * twap_slot n p t" using assms(3) r by simp
  also have "\<dots> \<le> n * twap_scheduled n p t"
    unfolding twap_scheduled_def by (rule ceil_div_ge [OF assms(1)])
  finally show "0 < twap_scheduled n p t" using assms(1) by (simp add: zero_less_mult_iff)
  show "twap_scheduled n p t \<le> xp_target_shares p"
    unfolding twap_scheduled_def
    using r assms(3) by (intro ceil_div_le assms(1) mult_left_mono) auto
qed

section \<open>Sizes\<close>

lemma ppm_of_mult_le: "0 \<le> v \<Longrightarrow> ppm_of v r * PPM \<le> v * r"
  by (simp add: ppm_of_def)

lemma div_mult_le: "0 < (d::int) \<Longrightarrow> n div d * d \<le> n"
  by (metis div_mult_mod_eq le_add_same_cancel1 pos_mod_sign)

lemma progress_range: "0 \<le> progress_ppm s \<and> progress_ppm s \<le> PPM"
proof (cases "xp_start_utc_ns (xs_plan s) < xs_now_utc_ns s \<and> xs_now_utc_ns s < xp_deadline_utc_ns (xs_plan s)")
  case True
  let ?e = "xs_now_utc_ns s - xp_start_utc_ns (xs_plan s)"
    and ?d = "xp_deadline_utc_ns (xs_plan s) - xp_start_utc_ns (xs_plan s)"
  have "?e * PPM div ?d \<le> ?d * PPM div ?d" using True by (intro zdiv_mono1) auto
  also have "?d * PPM div ?d = PPM" using True by (intro nonzero_mult_div_cancel_left) simp
  finally have "?e * PPM div ?d \<le> PPM" .
  then show ?thesis using True by (simp add: progress_ppm_def Let_def pos_imp_zdiv_nonneg_iff)
qed (auto simp: progress_ppm_def Let_def)

lemma adverse_multiplier_range:
  assumes "make_pov v = Inr v"
  shows "pv_minimum_adverse_multiplier_ppm v \<le> adverse_multiplier v s" "adverse_multiplier v s \<le> PPM"
proof -
  have m: "pv_minimum_adverse_multiplier_ppm v \<le> PPM"
    using assms by (auto simp: make_pov_def split: if_splits)
  have t: "0 < t" if "pv_adverse_move_tolerance v = Some t" for t
    using assms that by (auto simp: make_pov_def split: if_splits)
  show "pv_minimum_adverse_multiplier_ppm v \<le> adverse_multiplier v s"
    using m by (auto simp: adverse_multiplier_def Let_def split: option.split)
  have "0 \<le> ppm_of (min PPM (adverse_move s * PPM div t)) (PPM - progress_ppm s)"
    if "pv_adverse_move_tolerance v = Some t" "0 < adverse_move s" for t
    using t [OF that(1)] that(2) progress_range [of s]
    by (intro ppm_of_nonneg) (auto simp: pos_imp_zdiv_nonneg_iff)
  then show "adverse_multiplier v s \<le> PPM"
    using m by (auto simp: adverse_multiplier_def Let_def split: option.split)
qed

lemma ladder_positive:
  "validate_ladder desc prev ls = Inr u \<Longrightarrow> x \<in> set ls \<Longrightarrow> 0 < fst x \<and> 0 < snd x"
  by (induction desc prev ls rule: validate_ladder.induct) (auto split: if_splits)

lemma make_state_Inr:
  assumes "make_state s = Inr s'"
  shows "s' = s" "0 \<le> remaining_shares s" "0 \<le> xs_available_cash s" "0 \<le> xs_inventory_shares s"
    "0 \<le> xs_observed_market_volume s" "x \<in> set (taker_ladder s) \<Longrightarrow> 0 < fst x \<and> 0 < snd x"
  using assms
  by (auto simp: make_state_def remaining_shares_def taker_ladder_def split: if_splits
      dest!: ladder_positive)

lemma executable_subset: "set (executable_levels s) \<subseteq> set (taker_ladder s)"
  by (auto simp: executable_levels_def taker_ladder_def split: option.split)

lemma executable_depth_nonneg: "make_state s = Inr s' \<Longrightarrow> 0 \<le> executable_depth s"
  unfolding executable_depth_def
  using make_state_Inr(6) executable_subset by (intro sum_list_nonneg_map) (force simp: less_imp_le)

text \<open>The price the cash bound plans against.\<close>

definition planning_price :: "execution_state \<Rightarrow> int" where
  "planning_price s =
     (case xp_limit_price (xs_plan s) of
        None \<Rightarrow> fst (last (executable_levels s))
      | Some l \<Rightarrow> max (fst (last (executable_levels s))) l)"

lemma cash_affordable_bound:
  assumes "make_state s = Inr s'" "make_policy_limits lim = Inr lim'" "0 < n"
    and "n \<le> cash_affordable_shares lim s"
  shows "n * (planning_price s * (PPM + lim_fee_reserve_ppm lim))
           \<le> xs_available_cash s * POLYMARKET_PRICE_SCALE * PPM"
proof -
  have ne: "executable_levels s \<noteq> []" using assms(3,4) by (auto simp: cash_affordable_shares_def)
  then have "0 < fst (last (executable_levels s))"
    using make_state_Inr(6) [OF assms(1), of "last (executable_levels s)"] executable_subset [of s]
    by (meson last_in_set subsetD)
  then have "0 < planning_price s" by (auto simp: planning_price_def split: option.split)
  then have d: "0 < planning_price s * (PPM + lim_fee_reserve_ppm lim)" (is "0 < ?d")
    using make_limits_Inr [OF assms(2)] by simp
  have "cash_affordable_shares lim s = xs_available_cash s * POLYMARKET_PRICE_SCALE * PPM div ?d"
    using ne by (simp add: cash_affordable_shares_def planning_price_def Let_def)
  then have "n * ?d \<le> (xs_available_cash s * POLYMARKET_PRICE_SCALE * PPM div ?d) * ?d"
    using assms(4) d by (intro mult_right_mono) auto
  also have "\<dots> \<le> xs_available_cash s * POLYMARKET_PRICE_SCALE * PPM"
    using d pos_mod_sign [OF d] div_mult_mod_eq by (metis le_add_same_cancel1)
  finally show ?thesis .
qed

text \<open>What a child of size \<open>n\<close> respects.\<close>

definition child_within :: "policy_limits \<Rightarrow> execution_state \<Rightarrow> int \<Rightarrow> bool" where
  "child_within lim s n \<longleftrightarrow>
     0 < n \<and> xs_minimum_order_size s \<le> n \<and> n \<le> remaining_shares s
     \<and> (case lim_max_child_shares lim of None \<Rightarrow> True | Some m \<Rightarrow> n \<le> m)
     \<and> n * PPM \<le> executable_depth s * lim_max_l2_participation_ppm lim
     \<and> (if xp_side (xs_plan s) = SELL then n \<le> xs_inventory_shares s
        else n * (planning_price s * (PPM + lim_fee_reserve_ppm lim))
               \<le> xs_available_cash s * POLYMARKET_PRICE_SCALE * PPM)"

lemma child_action_within:
  assumes "make_state s = Inr s'" "make_policy_limits lim = Inr lim'"
    and slice: "xa_kind (child_action name lim s want why) = TAKER_SLICE"
  shows "child_within lim s (xa_requested_shares (child_action name lim s want why))
    \<and> xa_requested_shares (child_action name lim s want why) \<le> want"
proof -
  define n where "n = child_size lim s want"
  have n: "0 < n" "xs_minimum_order_size s \<le> n"
    and q: "xa_requested_shares (child_action name lim s want why) = n"
    using slice by (auto simp: child_action_kind n_def split: if_splits)
  have "n * PPM \<le> ppm_of (executable_depth s) (lim_max_l2_participation_ppm lim) * PPM"
    using child_size_le(4) [of lim s want] by (simp add: n_def)
  also have "\<dots> \<le> executable_depth s * lim_max_l2_participation_ppm lim"
    by (rule ppm_of_mult_le [OF executable_depth_nonneg [OF assms(1)]])
  finally have depth: "n * PPM \<le> executable_depth s * lim_max_l2_participation_ppm lim" .
  have cash: "n * (planning_price s * (PPM + lim_fee_reserve_ppm lim))
      \<le> xs_available_cash s * POLYMARKET_PRICE_SCALE * PPM" if "xp_side (xs_plan s) = BUY"
    using child_size_le(5) [OF that, of lim want] n(1) n_def
    by (intro cash_affordable_bound [OF assms(1,2)]) auto
  show ?thesis
    using n depth cash child_size_le(1,2) [of lim s want] child_size_le(3) [of s lim want]
      child_size_le(6) [of lim _ s want]
    by (cases "xp_side (xs_plan s)") (auto simp: child_within_def q n_def split: option.split)
qed

section \<open>Properties\<close>

text \<open>Both policies size a slice within every bound: it is positive and at least the venue's
  minimum, at most what is left of the parent, the configured child size and the configured share
  of the executable depth; a sale is covered by the inventory, and a purchase at the worst
  executable price or the limit, with the fee reserve added, is covered by the cash.  It is sent
  inside the parent's window, under the parent's limit.\<close>

theorem policy_slices_bounded:
  assumes "make_state s = Inr s" "make_policy_limits lim = Inr lim"
    and "(\<exists>t. tw_limits t = lim \<and> a = twap_decide t s) \<or> (\<exists>v. pv_limits v = lim \<and> a = pov_decide v s)"
    and "xa_kind a = TAKER_SLICE"
  shows "child_within lim s (xa_requested_shares a)
    \<and> xp_start_utc_ns (xs_plan s) \<le> xs_now_utc_ns s \<and> xs_now_utc_ns s \<le> xp_deadline_utc_ns (xs_plan s)
    \<and> xa_limit_price a = xp_limit_price (xs_plan s)
    \<and> make_action a = Inr a"
proof -
  have window: "xp_start_utc_ns (xs_plan s) \<le> xs_now_utc_ns s \<and> xs_now_utc_ns s \<le> xp_deadline_utc_ns (xs_plan s)
      \<and> xa_limit_price a = xp_limit_price (xs_plan s) \<and> make_action a = Inr a"
    using assms(3,4)
    by (auto intro: twap.slice_limit pov.slice_limit twap.decision_constructs pov.decision_constructs
        dest: twap.slice_window pov.slice_window)
  have "\<exists>name want why. a = child_action name lim s want why"
    using assms(3,4) twap_slice_child [of _ s] pov_slice_child [of _ s] by metis
  then have "child_within lim s (xa_requested_shares a)"
    using child_action_within [OF assms(1,2)] assms(4) by blast
  with window show ?thesis by blast
qed

lemma twap_schedule_facts:
  assumes "make_plan p = Inr p" "make_twap tw = Inr tw" "now \<le> later"
  shows "0 < twap_scheduled (tw_slices tw) p now"
    "twap_scheduled (tw_slices tw) p now \<le> twap_scheduled (tw_slices tw) p later"
    "twap_scheduled (tw_slices tw) p later \<le> xp_target_shares p"
    "xp_deadline_utc_ns p \<le> later \<Longrightarrow> twap_scheduled (tw_slices tw) p later = xp_target_shares p"
    "xp_start_utc_ns p \<le> now \<Longrightarrow> now < xp_deadline_utc_ns p \<Longrightarrow>
       xp_target_shares p * (now - xp_start_utc_ns p)
         < twap_scheduled (tw_slices tw) p now * (xp_deadline_utc_ns p - xp_start_utc_ns p)"
    "xs_plan s = p \<Longrightarrow> xs_now_utc_ns s = now \<Longrightarrow> xa_kind (twap_decide tw s) = TAKER_SLICE \<Longrightarrow>
       xs_filled_shares s + xa_requested_shares (twap_decide tw s) \<le> twap_scheduled (tw_slices tw) p now"
proof -
  let ?n = "tw_slices tw" and ?d = "xp_deadline_utc_ns p - xp_start_utc_ns p"
  have n: "0 < ?n" using assms(2) by (simp add: make_twap_def split: if_splits)
  note p = make_plan_Inr [OF assms(1)]
  then have w: "xp_start_utc_ns p < xp_deadline_utc_ns p" and q: "0 < xp_target_shares p" by auto
  show "0 < twap_scheduled ?n p now" "twap_scheduled ?n p later \<le> xp_target_shares p"
    using twap_scheduled_range [OF n w q] by blast+
  show "twap_scheduled ?n p now \<le> twap_scheduled ?n p later"
    unfolding twap_scheduled_def
    using twap_slot_mono [OF n w assms(3)] q by (intro ceil_div_mono n mult_left_mono) auto
  show "xp_deadline_utc_ns p \<le> later \<Longrightarrow> twap_scheduled ?n p later = xp_target_shares p"
    by (simp add: twap_scheduled_def twap_slot_deadline [OF n w] n)
  show "xs_plan s = p \<Longrightarrow> xs_now_utc_ns s = now \<Longrightarrow> xa_kind (twap_decide tw s) = TAKER_SLICE \<Longrightarrow>
       xs_filled_shares s + xa_requested_shares (twap_decide tw s) \<le> twap_scheduled ?n p now"
    using twap_slice_child [of tw s] child_requests by fastforce
  assume t: "xp_start_utc_ns p \<le> now" "now < xp_deadline_utc_ns p"
  have "xp_target_shares p * ((now - xp_start_utc_ns p) * ?n)
      < xp_target_shares p * (twap_slot ?n p now * ?d)"
    using twap_slot_on_time [OF n w t] q by (intro mult_strict_left_mono)
  also have "\<dots> = (xp_target_shares p * twap_slot ?n p now) * ?d" by simp
  also have "\<dots> \<le> (?n * twap_scheduled ?n p now) * ?d"
    unfolding twap_scheduled_def using w by (intro mult_right_mono ceil_div_ge n) simp
  finally have "?n * (xp_target_shares p * (now - xp_start_utc_ns p))
      < ?n * (twap_scheduled ?n p now * ?d)" by (simp add: mult_ac)
  then show "xp_target_shares p * (now - xp_start_utc_ns p) < twap_scheduled ?n p now * ?d"
    using n by simp
qed

text \<open>C31. The TWAP schedule is a staircase: it asks for a positive amount from the start, never
  decreases, never exceeds the target and equals it from the deadline on; at every moment before the
  deadline it is ahead of the straight line from nothing to the target.  A slice never takes the
  parent beyond the schedule.\<close>

theorem twap_follows_schedule:
  assumes "make_plan p = Inr p" "make_twap tw = Inr tw" "now \<le> later"
    and "xs_plan s = p" "xs_now_utc_ns s = now"
  shows "0 < twap_scheduled (tw_slices tw) p now
    \<and> twap_scheduled (tw_slices tw) p now \<le> twap_scheduled (tw_slices tw) p later
    \<and> twap_scheduled (tw_slices tw) p later \<le> xp_target_shares p
    \<and> (xp_deadline_utc_ns p \<le> later \<longrightarrow> twap_scheduled (tw_slices tw) p later = xp_target_shares p)
    \<and> (xp_start_utc_ns p \<le> now \<and> now < xp_deadline_utc_ns p \<longrightarrow>
        xp_target_shares p * (now - xp_start_utc_ns p)
          < twap_scheduled (tw_slices tw) p now * (xp_deadline_utc_ns p - xp_start_utc_ns p))
    \<and> (xa_kind (twap_decide tw s) = TAKER_SLICE \<longrightarrow>
        xs_filled_shares s + xa_requested_shares (twap_decide tw s) \<le> twap_scheduled (tw_slices tw) p now)"
  using twap_schedule_facts [OF assms(1-3)] assms(4,5) by blast

text \<open>Participation.  Before the deadline a slice of the adaptive policy keeps the parent's
  cumulative fills within the schedule floor, or within the configured share of the volume traded
  so far with those fills added to it.\<close>

theorem pov_participation:
  assumes "make_state s = Inr s" "make_pov v = Inr v"
    and "xs_now_utc_ns s \<noteq> xp_deadline_utc_ns (xs_plan s)"
    and "xa_kind (pov_decide v s) = TAKER_SLICE"
    and "after = xs_filled_shares s + xa_requested_shares (pov_decide v s)"
  shows "after \<le> xp_target_shares (xs_plan s)
    \<and> (after \<le> schedule_floor v s
       \<or> after * PPM \<le> pv_participation_ppm v * (xs_observed_market_volume s + after))"
proof -
  have v: "0 < pv_participation_ppm v" "pv_participation_ppm v < PPM"
    using assms(2) by (auto simp: make_pov_def split: if_splits)
  define desired where "desired = min (xp_target_shares (xs_plan s))
    (max (flow_target v (xs_observed_market_volume s)) (schedule_floor v s))"
  define due where "due = desired - xs_filled_shares s"
  have due: "0 < due"
    and child: "pov_decide v s = child_action ''adaptive_pov'' (pv_limits v) s
        (ppm_of due (adverse_multiplier v s)) ''adaptive_participation''"
    using assms(3,4)
    by (auto simp: pov_decide_def Let_def desired_def due_def dest: preflight_waits
        split: option.splits if_splits)
  have "xa_requested_shares (pov_decide v s) \<le> ppm_of due (adverse_multiplier v s)"
    using child_requests assms(4) unfolding child .
  also have "\<dots> \<le> due" using due adverse_multiplier_range(2) [OF assms(2)] by (intro ppm_of_le) auto
  finally have d: "after \<le> desired" by (simp add: assms(5) due_def)
  have "after * PPM \<le> pv_participation_ppm v * (xs_observed_market_volume s + after)"
    if f: "after \<le> flow_target v (xs_observed_market_volume s)"
  proof -
    let ?p = "pv_participation_ppm v" and ?V = "xs_observed_market_volume s"
    have "after * (PPM - ?p) \<le> flow_target v ?V * (PPM - ?p)"
      using f v by (intro mult_right_mono) auto
    also have "\<dots> \<le> ?V * ?p" unfolding flow_target_def by (rule div_mult_le) (use v in simp)
    finally show ?thesis by (simp add: algebra_simps)
  qed
  with d show ?thesis unfolding desired_def by (cases "after \<le> schedule_floor v s") auto
qed

section \<open>A concrete parent\<close>

text \<open>Buy 100 shares over ten seconds against two asks.\<close>

definition demo_plan :: execution_plan where
  "demo_plan =
     \<lparr>xp_side = BUY, xp_target_shares = 100000000, xp_start_utc_ns = 1000000000,
      xp_deadline_utc_ns = 11000000000, xp_benchmark_price = 500000, xp_limit_price = Some 550000,
      xp_objective = \<lparr>ow_implementation_shortfall_ppm = PPM, ow_non_fill_penalty_ppm = PPM,
        ow_adverse_selection_penalty_ppm = PPM\<rparr>\<rparr>"

definition demo_state :: execution_state where
  "demo_state =
     \<lparr>xs_plan = demo_plan, xs_now_utc_ns = 4000000000, xs_filled_shares = 10000000,
      xs_inventory_shares = 10000000, xs_available_cash = 95000000,
      xs_bids = [(490000, 30000000)], xs_asks = [(500000, 80000000), (540000, 40000000), (600000, 90000000)],
      xs_observed_market_volume = 100000000, xs_minimum_order_size = 5000000,
      xs_last_action_utc_ns = Some 1000000000, xs_current_reference_price = None\<rparr>"

definition demo_twap :: twap_policy where
  "demo_twap = \<lparr>tw_slices = 6, tw_limits = default_limits\<rparr>"

definition demo_pov :: pov_policy where
  "demo_pov = \<lparr>pv_participation_ppm = 200000, pv_twap_floor_ppm = 500000,
     pv_adverse_move_tolerance = Some 20000, pv_minimum_adverse_multiplier_ppm = 100000,
     pv_limits = default_limits\<rparr>"

lemmas demo_defs = demo_plan_def demo_state_def demo_twap_def demo_pov_def default_limits_def

lemma demo_valid:
  "make_plan demo_plan = Inr demo_plan" "make_state demo_state = Inr demo_state"
  "make_twap demo_twap = Inr demo_twap" "make_pov demo_pov = Inr demo_pov"
  "make_policy_limits default_limits = Inr default_limits"
  by code_simp+

lemma demo_decisions:
  "xa_kind (twap_decide demo_twap demo_state) = TAKER_SLICE"
  "xa_requested_shares (twap_decide demo_twap demo_state) = 23333334"
  "xa_kind (pov_decide demo_pov demo_state) = TAKER_SLICE"
  "xa_requested_shares (pov_decide demo_pov demo_state) = 15000000"
  by code_simp+

theorem policy_slices_bounded_witness:
  "child_within default_limits demo_state (xa_requested_shares (twap_decide demo_twap demo_state))"
proof -
  have "\<exists>t. tw_limits t = default_limits \<and> twap_decide demo_twap demo_state = twap_decide t demo_state"
    by (rule exI [of _ demo_twap]) (simp add: demo_twap_def)
  with policy_slices_bounded [OF demo_valid(2,5) _ demo_decisions(1)] show ?thesis by blast
qed

theorem twap_follows_schedule_witness:
  "twap_scheduled 6 demo_plan 4000000000 \<le> twap_scheduled 6 demo_plan 12000000000
   \<and> twap_scheduled 6 demo_plan 12000000000 = xp_target_shares demo_plan"
  using twap_follows_schedule [OF demo_valid(1,3), of 4000000000 12000000000 demo_state]
  by (simp add: demo_defs)

theorem pov_participation_witness:
  "(25000000 :: int) \<le> schedule_floor demo_pov demo_state
   \<or> 25000000 * PPM \<le> pv_participation_ppm demo_pov * (xs_observed_market_volume demo_state + 25000000)"
proof -
  have "xs_now_utc_ns demo_state \<noteq> xp_deadline_utc_ns (xs_plan demo_state)"
    and "(25000000 :: int) = xs_filled_shares demo_state + xa_requested_shares (pov_decide demo_pov demo_state)"
    by (simp_all add: demo_decisions) (simp_all add: demo_defs)
  from pov_participation [OF demo_valid(2,4) this(1) demo_decisions(3) this(2)] show ?thesis by blast
qed

end
