(* ===== verification/Session.thy ===== *)
theory Session
  imports Policy
begin

text \<open>
  The second half of \<^verbatim>\<open>backtest/optimal_execution.py\<close>: the fills of a parent order and the
  objective that scores them, the cursor that reads public volume without looking ahead, and the
  session that carries one parent order from decision to outcome.  The session's lemmas are
  stated inside the contract \<open>execution_policy\<close> where they need it, and hold for any policy
  where they do not.
\<close>

section \<open>Fills and the deadline objective\<close>

record execution_fill =
  ef_timestamp_utc_ns :: int
  ef_shares :: int
  ef_price :: int
  ef_fee :: int

definition make_fill :: "execution_fill \<Rightarrow> py_error + execution_fill" where
  "make_fill f =
     (if ef_shares f \<le> 0 \<or> ef_price f \<le> 0
      then Inl (ValueError ''fill shares and price must be positive'')
      else if ef_fee f < 0 then Inl (ValueError ''fill fee cannot be negative'')
      else Inr f)"

record objective_result =
  jr_filled_shares :: int
  jr_unfilled_shares :: int
  jr_fill_rate_ppm :: int
  jr_raw_implementation_shortfall :: int
  jr_implementation_shortfall :: int
  jr_non_fill_penalty :: int
  jr_adverse_selection_penalty :: int
  jr_total_objective :: int
  jr_deadline_mark_price :: "int option"

definition fills_shares :: "execution_fill list \<Rightarrow> int" where
  "fills_shares fs = sum_list (map ef_shares fs)"

definition raw_shortfall :: "execution_plan \<Rightarrow> execution_fill list \<Rightarrow> int" where
  "raw_shortfall p fs =
     (let benchmark_filled = notional_scaled (fills_shares fs) (xp_benchmark_price p);
          actual_notional = sum_list (map (\<lambda>f. notional_scaled (ef_shares f) (ef_price f)) fs);
          fees = sum_list (map ef_fee fs)
      in if xp_side p = BUY then actual_notional + fees - benchmark_filled
         else benchmark_filled - (actual_notional - fees))"

definition adverse_base :: "execution_plan \<Rightarrow> execution_fill list \<Rightarrow> int option \<Rightarrow> int" where
  "adverse_base p fs mark =
     (case mark of
        None \<Rightarrow> 0
      | Some m \<Rightarrow>
          sum_list (map (\<lambda>f. notional_scaled (ef_shares f)
            (if xp_side p = BUY then max 0 (ef_price f - m) else max 0 (m - ef_price f))) fs))"

definition evaluate_execution_objective ::
  "execution_plan \<Rightarrow> execution_fill list \<Rightarrow> int \<Rightarrow> int option \<Rightarrow> py_error + objective_result" where
  "evaluate_execution_objective p fs evaluation_utc_ns mark =
     (if evaluation_utc_ns < xp_deadline_utc_ns p
      then Inl (ValueError ''execution objective cannot be evaluated before the deadline'')
      else if ow_adverse_selection_penalty_ppm (xp_objective p) \<noteq> 0
        \<and> (case mark of None \<Rightarrow> True | Some m \<Rightarrow> m \<le> 0)
      then Inl (ValueError ''a positive deadline mark is required for adverse-selection scoring'')
      else if \<exists>f \<in> set fs. xp_deadline_utc_ns p < ef_timestamp_utc_ns f
      then Inl (ValueError ''fills after the parent deadline are invalid'')
      else if xp_target_shares p < fills_shares fs
      then Inl (ValueError ''fills exceed the parent target'')
      else
        let filled = fills_shares fs;
            unfilled = xp_target_shares p - filled;
            raw = raw_shortfall p fs;
            w = xp_objective p;
            shortfall = ppm_of raw (ow_implementation_shortfall_ppm w);
            penalty = ppm_of (notional_scaled unfilled (xp_benchmark_price p)) (ow_non_fill_penalty_ppm w);
            adverse = ppm_of (adverse_base p fs mark) (ow_adverse_selection_penalty_ppm w)
        in Inr
          \<lparr>jr_filled_shares = filled, jr_unfilled_shares = unfilled,
           jr_fill_rate_ppm = filled * PPM div xp_target_shares p,
           jr_raw_implementation_shortfall = raw, jr_implementation_shortfall = shortfall,
           jr_non_fill_penalty = penalty, jr_adverse_selection_penalty = adverse,
           jr_total_objective = shortfall + penalty + adverse, jr_deadline_mark_price = mark\<rparr>)"

section \<open>The causal volume cursor\<close>

record volume_cursor =
  vc_timestamps :: "int list"
  vc_tokens :: "int list"
  vc_sizes :: "int list"
  vc_token_index :: int
  vc_position :: nat
  vc_last_utc_ns :: int
  vc_volume :: int

definition make_cursor ::
  "int list \<Rightarrow> int list \<Rightarrow> int list \<Rightarrow> int \<Rightarrow> int \<Rightarrow> py_error + volume_cursor" where
  "make_cursor timestamps tokens sizes token_index start =
     (if \<not> (length timestamps = length tokens \<and> length tokens = length sizes)
      then Inl (ValueError ''trade arrays must have equal lengths'')
      else if \<exists>(left, right) \<in> set (zip timestamps (tl timestamps)). right < left
      then Inl (ValueError ''trade timestamps must be sorted'')
      else if \<exists>z \<in> set sizes. z < 0
      then Inl (ValueError ''trade sizes must be non-negative'')
      else Inr \<lparr>vc_timestamps = timestamps, vc_tokens = tokens, vc_sizes = sizes,
                vc_token_index = token_index, vc_position = bisect_left timestamps start,
                vc_last_utc_ns = start - 1, vc_volume = 0\<rparr>)"

definition advance :: "volume_cursor \<Rightarrow> int \<Rightarrow> py_error + (volume_cursor \<times> int)" where
  "advance c now =
     (if now < vc_last_utc_ns c
      then Inl (ValueError ''causal volume cursor cannot move backwards'')
      else
        let last_index = bisect_right_from (vc_timestamps c) now (vc_position c);
            volume = vc_volume c
              + sum_list (map ((!) (vc_sizes c))
                  (filter (\<lambda>i. vc_tokens c ! i = vc_token_index c) [vc_position c..<last_index]))
        in Inr (c\<lparr>vc_volume := volume, vc_position := last_index, vc_last_utc_ns := now\<rparr>, volume))"

section \<open>The session\<close>

record session =
  se_plan :: execution_plan
  se_cursor :: volume_cursor
  se_cash :: int
  se_inventory_shares :: int
  se_filled_shares :: int
  se_fills :: "execution_fill list"
  se_last_action_utc_ns :: "int option"
  se_last_decision_utc_ns :: "int option"
  se_next_decision_not_before :: int
  se_pending_action :: "execution_action option"
  se_pending_decision_utc_ns :: "int option"

definition make_session :: "execution_plan \<Rightarrow> volume_cursor \<Rightarrow> int \<Rightarrow> int \<Rightarrow> py_error + session" where
  "make_session p cursor initial_cash initial_inventory =
     (if initial_cash < 0 then Inl (ValueError ''initial_cash_scaled must be non-negative'')
      else if initial_inventory < 0
      then Inl (ValueError ''initial_inventory_shares_scaled must be non-negative'')
      else if xp_side p = SELL \<and> initial_inventory < xp_target_shares p
      then Inl (ValueError ''sell parent target exceeds initial inventory'')
      else Inr
        \<lparr>se_plan = p, se_cursor = cursor, se_cash = initial_cash,
         se_inventory_shares = initial_inventory, se_filled_shares = 0, se_fills = [],
         se_last_action_utc_ns = None, se_last_decision_utc_ns = None,
         se_next_decision_not_before = xp_start_utc_ns p,
         se_pending_action = None, se_pending_decision_utc_ns = None\<rparr>)"

definition session_remaining :: "session \<Rightarrow> int" where
  "session_remaining s = xp_target_shares (se_plan s) - se_filled_shares s"

text \<open>A call of \<^verbatim>\<open>decide\<close>: the book of the moment and the two optional arguments.\<close>

record decide_call =
  dc_now_utc_ns :: int
  dc_bids :: "(int \<times> int) list"
  dc_asks :: "(int \<times> int) list"
  dc_minimum_order_size :: int
  dc_reference_price :: "int option"

definition observed_state :: "decide_call \<Rightarrow> int \<Rightarrow> session \<Rightarrow> execution_state" where
  "observed_state d volume s =
     \<lparr>xs_plan = se_plan s, xs_now_utc_ns = dc_now_utc_ns d, xs_filled_shares = se_filled_shares s,
      xs_inventory_shares = se_inventory_shares s, xs_available_cash = se_cash s,
      xs_bids = dc_bids d, xs_asks = dc_asks d, xs_observed_market_volume = volume,
      xs_minimum_order_size = dc_minimum_order_size d,
      xs_last_action_utc_ns = se_last_action_utc_ns s,
      xs_current_reference_price = dc_reference_price d\<rparr>"

definition session_decide ::
  "string \<Rightarrow> (execution_state \<Rightarrow> execution_action) \<Rightarrow> decide_call \<Rightarrow> session
     \<Rightarrow> session \<times> (py_error + execution_action)" where
  "session_decide name policy d s =
     (if (case se_last_decision_utc_ns s of None \<Rightarrow> False | Some t \<Rightarrow> dc_now_utc_ns d < t)
      then (s, Inl (ValueError ''execution session cannot decide backwards in time''))
      else case advance (se_cursor s) (dc_now_utc_ns d) of
        Inl e \<Rightarrow> (s, Inl e)
      | Inr (cursor, volume) \<Rightarrow>
          let s1 = s\<lparr>se_cursor := cursor, se_last_decision_utc_ns := Some (dc_now_utc_ns d)\<rparr>
          in if se_pending_action s1 \<noteq> None
             then (s1, Inr (wait_action name ''child_outstanding''))
             else if dc_now_utc_ns d < se_next_decision_not_before s1
             then (s1, Inr (wait_action name ''previous_child_not_arrived''))
             else case make_state (observed_state d volume s1) of
               Inl e \<Rightarrow> (s1, Inl e)
             | Inr st \<Rightarrow>
                 let action = policy st
                 in if xa_kind action = TAKER_SLICE
                    then (s1\<lparr>se_pending_action := Some action,
                             se_pending_decision_utc_ns := Some (dc_now_utc_ns d),
                             se_last_action_utc_ns := Some (dc_now_utc_ns d)\<rparr>, Inr action)
                    else (s1, Inr action))"

definition require_pending :: "session \<Rightarrow> py_error + (execution_action \<times> int)" where
  "require_pending s =
     (case (se_pending_action s, se_pending_decision_utc_ns s) of
        (Some a, Some t) \<Rightarrow> Inr (a, t)
      | _ \<Rightarrow> Inl (ValueError ''there is no pending child action''))"

definition apply_fills :: "execution_fill list \<Rightarrow> int \<Rightarrow> int \<Rightarrow> session \<Rightarrow> py_error + session" where
  "apply_fills fs notional_total fee_total s =
     res_bind (require_pending s) (\<lambda>(action, _).
       let added = fills_shares fs in
       if xa_requested_shares action < added
       then Inl (ValueError ''fills exceed the pending child request'')
       else if session_remaining s < added
       then Inl (ValueError ''fills exceed the parent remainder'')
       else
         let booked = (\<lambda>cash inventory.
               s\<lparr>se_cash := cash, se_inventory_shares := inventory,
                 se_filled_shares := se_filled_shares s + added, se_fills := se_fills s @ fs\<rparr>)
         in if xp_side (se_plan s) = BUY then
              (if se_cash s < notional_total + fee_total
               then Inl (ValueError ''fill notional plus fees exceeds available cash'')
               else Inr (booked (se_cash s - (notional_total + fee_total)) (se_inventory_shares s + added)))
            else if se_inventory_shares s < added
            then Inl (ValueError ''sell fills exceed available inventory'')
            else if se_cash s + notional_total - fee_total < 0
            then Inl (ValueError ''sell fees would make available cash negative'')
            else Inr (booked (se_cash s + notional_total - fee_total) (se_inventory_shares s - added)))"

definition complete_pending :: "int \<Rightarrow> session \<Rightarrow> session" where
  "complete_pending arrival s =
     s\<lparr>se_next_decision_not_before := max (se_next_decision_not_before s) arrival,
       se_pending_action := None, se_pending_decision_utc_ns := None\<rparr>"

text \<open>The fills of an outcome, each through the validating constructor.\<close>

fun outcome_fills :: "int \<Rightarrow> fill_slice list \<Rightarrow> py_error + execution_fill list" where
  "outcome_fills arrival [] = Inr []"
| "outcome_fills arrival (x # xs) =
     res_bind (make_fill \<lparr>ef_timestamp_utc_ns = arrival, ef_shares = fs_size x, ef_price = fs_price x,
                          ef_fee = fs_fee x\<rparr>) (\<lambda>f.
     res_bind (outcome_fills arrival xs) (\<lambda>fs. Inr (f # fs)))"

definition record_outcome :: "execution_outcome \<Rightarrow> session \<Rightarrow> py_error + session" where
  "record_outcome out s =
     res_bind (require_pending s) (\<lambda>(action, decision).
       if eo_requested_shares out \<noteq> xa_requested_shares action
       then Inl (ValueError ''outcome requested size does not match pending child'')
       else if eo_decision_utc_ns out \<noteq> decision
       then Inl (ValueError ''outcome decision timestamp does not match pending child'')
       else if eo_arrival_utc_ns out < decision
       then Inl (ValueError ''outcome arrival cannot precede its decision'')
       else if xp_deadline_utc_ns (se_plan s) < eo_arrival_utc_ns out \<and> eo_filled out
       then Inl (ValueError ''a child arriving after the parent deadline cannot fill'')
       else if sum_list (map fs_size (eo_slices out)) \<noteq> eo_filled_shares out
       then Inl (ValueError ''outcome slices do not equal aggregate filled shares'')
       else if sum_list (map fs_notional (eo_slices out)) \<noteq> eo_notional out
       then Inl (ValueError ''outcome slices do not equal aggregate notional'')
       else if sum_list (map fs_fee (eo_slices out)) \<noteq> eo_fees out
       then Inl (ValueError ''outcome slices do not equal aggregate fees'')
       else
         res_bind (outcome_fills (eo_arrival_utc_ns out) (eo_slices out)) (\<lambda>fs.
         res_bind (apply_fills fs (eo_notional out) (eo_fees out) s) (\<lambda>s1.
         Inr (complete_pending (eo_arrival_utc_ns out) s1))))"

definition record_fill :: "execution_fill \<Rightarrow> session \<Rightarrow> py_error + session" where
  "record_fill f s =
     res_bind (require_pending s) (\<lambda>(_, decision).
       if ef_timestamp_utc_ns f < decision then Inl (ValueError ''fill cannot precede its decision'')
       else if xp_deadline_utc_ns (se_plan s) < ef_timestamp_utc_ns f
       then Inl (ValueError ''a child arriving after the parent deadline cannot fill'')
       else
         res_bind (apply_fills [f] (notional_scaled (ef_shares f) (ef_price f)) (ef_fee f) s) (\<lambda>s1.
         Inr (complete_pending (ef_timestamp_utc_ns f) s1)))"

definition record_no_fill :: "int \<Rightarrow> session \<Rightarrow> py_error + session" where
  "record_no_fill arrival s =
     res_bind (require_pending s) (\<lambda>(_, decision).
       if arrival < decision then Inl (ValueError ''arrival cannot precede its decision'')
       else Inr (complete_pending arrival s))"

definition session_evaluate :: "int \<Rightarrow> int option \<Rightarrow> session \<Rightarrow> py_error + objective_result" where
  "session_evaluate evaluation_utc_ns mark s =
     (if se_pending_action s \<noteq> None
      then Inl (ValueError ''cannot evaluate while a child outcome is outstanding'')
      else evaluate_execution_objective (se_plan s) (se_fills s) evaluation_utc_ns mark)"

section \<open>The cursor reads the past only\<close>

text \<open>What the cursor is for: the volume of one token printed in \<open>[start, now]\<close>.\<close>

definition traded_volume :: "(int \<times> int \<times> int) list \<Rightarrow> int \<Rightarrow> int \<Rightarrow> int \<Rightarrow> int" where
  "traded_volume prints token_index start now =
     sum_list (map (\<lambda>(_, _, z). z)
       (filter (\<lambda>(t, k, _). start \<le> t \<and> t \<le> now \<and> k = token_index) prints))"

definition cursor_prints :: "volume_cursor \<Rightarrow> (int \<times> int \<times> int) list" where
  "cursor_prints c = zip (vc_timestamps c) (zip (vc_tokens c) (vc_sizes c))"

inductive cursor_reach :: "volume_cursor \<Rightarrow> volume_cursor \<Rightarrow> bool" for c0 where
  cursor_start: "cursor_reach c0 c0"
| cursor_advance: "cursor_reach c0 c \<Longrightarrow> advance c now = Inr (c', v) \<Longrightarrow> cursor_reach c0 c'"

definition cursor_inv :: "int \<Rightarrow> volume_cursor \<Rightarrow> bool" where
  "cursor_inv start c \<longleftrightarrow>
     sorted (vc_timestamps c)
     \<and> length (vc_tokens c) = length (vc_timestamps c) \<and> length (vc_sizes c) = length (vc_timestamps c)
     \<and> bisect_left (vc_timestamps c) start \<le> vc_position c \<and> vc_position c \<le> length (vc_timestamps c)
     \<and> start - 1 \<le> vc_last_utc_ns c
     \<and> (\<forall>i < vc_position c. vc_timestamps c ! i \<le> vc_last_utc_ns c)
     \<and> (\<forall>i. vc_position c \<le> i \<longrightarrow> i < length (vc_timestamps c) \<longrightarrow> vc_last_utc_ns c < vc_timestamps c ! i)
     \<and> vc_volume c = sum_list (map ((!) (vc_sizes c))
         (filter (\<lambda>i. vc_tokens c ! i = vc_token_index c)
           [bisect_left (vc_timestamps c) start..<vc_position c]))"

lemma pairwise_sorted: "(\<forall>(l, r) \<in> set (zip xs (tl xs)). l \<le> r) \<longleftrightarrow> sorted xs"
  by (induction xs rule: induct_list012) (auto intro: order.trans)

lemma make_cursor_inv: "make_cursor ts toks szs k start = Inr c \<Longrightarrow>
    cursor_inv start c \<and> cursor_prints c = zip ts (zip toks szs) \<and> vc_token_index c = k"
  using bisect_left_spec [of ts start] pairwise_sorted [of ts]
  by (auto simp: make_cursor_def cursor_inv_def cursor_prints_def split: if_splits)
     (force simp: not_less)+

text \<open>A suffix search counts the whole list when the skipped prefix is not above the key.\<close>

lemma bisect_right_from_spec:
  assumes "sorted xs" "lo \<le> length xs" "\<forall>i < lo. xs ! i \<le> x"
  shows "lo \<le> bisect_right_from xs x lo \<and> bisect_right_from xs x lo \<le> length xs
    \<and> (\<forall>i < bisect_right_from xs x lo. xs ! i \<le> x)
    \<and> (\<forall>i. bisect_right_from xs x lo \<le> i \<longrightarrow> i < length xs \<longrightarrow> x < xs ! i)"
  unfolding bisect_right_from_def using bisect_right_in_spec [OF assms(1,2) order_refl] assms(3) by simp

lemma advance_Inr:
  assumes "advance c now = Inr (c', v)"
  defines "p \<equiv> bisect_right_from (vc_timestamps c) now (vc_position c)"
  shows "vc_last_utc_ns c \<le> now"
    "c' = c\<lparr>vc_volume := v, vc_position := p, vc_last_utc_ns := now\<rparr>"
    "v = vc_volume c + sum_list (map ((!) (vc_sizes c))
           (filter (\<lambda>i. vc_tokens c ! i = vc_token_index c) [vc_position c..<p]))"
  using assms by (auto simp: advance_def Let_def split: if_splits)

lemma upt_split: "i \<le> j \<Longrightarrow> j \<le> k \<Longrightarrow> [i..<k] = [i..<j] @ [j..<k]"
  by (metis le_add_diff_inverse upt_add_eq_append)

lemma advance_inv:
  assumes inv: "cursor_inv start c" and adv: "advance c now = Inr (c', v)"
  shows "cursor_inv start c'"
proof -
  define p where "p = bisect_right_from (vc_timestamps c) now (vc_position c)"
  note a = advance_Inr [OF adv, folded p_def]
  have p: "vc_position c \<le> p" "p \<le> length (vc_timestamps c)"
    "\<forall>i < p. vc_timestamps c ! i \<le> now"
    "\<forall>i. p \<le> i \<longrightarrow> i < length (vc_timestamps c) \<longrightarrow> now < vc_timestamps c ! i"
    unfolding p_def using bisect_right_from_spec [of "vc_timestamps c" "vc_position c" now] inv a(1)
    by (auto simp: cursor_inv_def intro: order.trans)
  have "[bisect_left (vc_timestamps c) start..<p]
      = [bisect_left (vc_timestamps c) start..<vc_position c] @ [vc_position c..<p]"
    using inv p(1) by (intro upt_split) (auto simp: cursor_inv_def)
  then show ?thesis
    using inv p a(1,3) unfolding cursor_inv_def a(2) by (auto simp: cursor_inv_def)
qed

lemma advance_frame:
  "advance c now = Inr (c', v) \<Longrightarrow> cursor_prints c' = cursor_prints c
     \<and> vc_token_index c' = vc_token_index c \<and> vc_volume c' = v \<and> vc_last_utc_ns c' = now"
  by (auto simp: cursor_prints_def dest!: advance_Inr(2))

lemma cursor_reach_inv:
  "cursor_reach c0 c \<Longrightarrow> cursor_inv start c0 \<Longrightarrow>
     cursor_inv start c \<and> cursor_prints c = cursor_prints c0 \<and> vc_token_index c = vc_token_index c0"
  by (induction rule: cursor_reach.induct) (auto dest: advance_inv advance_frame)

lemma filter_nth:
  "map f (filter P xs) = map (\<lambda>i. f (xs ! i)) (filter (\<lambda>i. P (xs ! i)) [0..<length xs])"
proof -
  have "filter P xs = filter P (map ((!) xs) [0..<length xs])" by (simp add: map_nth)
  then show ?thesis by (simp add: filter_map comp_def)
qed

lemma cursor_volume:
  assumes "cursor_inv start c"
  shows "vc_volume c = traded_volume (cursor_prints c) (vc_token_index c) start (vc_last_utc_ns c)"
proof -
  let ?ts = "vc_timestamps c" and ?n = "length (vc_timestamps c)"
  let ?lo = "bisect_left ?ts start" and ?hi = "vc_position c"
  let ?in = "\<lambda>i. start \<le> ?ts ! i \<and> ?ts ! i \<le> vc_last_utc_ns c \<and> vc_tokens c ! i = vc_token_index c"
  have b: "sorted ?ts" "?lo \<le> ?hi" "?hi \<le> ?n" "length (vc_tokens c) = ?n" "length (vc_sizes c) = ?n"
    using assms by (auto simp: cursor_inv_def)
  have split: "[0..<?n] = [0..<?lo] @ [?lo..<?hi] @ [?hi..<?n]"
    using b(2,3) by (metis append_assoc le0 order.trans upt_split)
  have "filter ?in [0..<?lo] = []"
    using bisect_left_spec [OF b(1), of start] by (auto simp: filter_empty_conv)
  moreover have "filter ?in [?hi..<?n] = []"
    using assms by (auto simp: filter_empty_conv cursor_inv_def)
  moreover have "filter ?in [?lo..<?hi] = filter (\<lambda>i. vc_tokens c ! i = vc_token_index c) [?lo..<?hi]"
    using assms bisect_left_spec [OF b(1), of start] b(2,3)
    by (intro filter_cong) (auto simp: cursor_inv_def)
  ultimately have "filter ?in [0..<?n] = filter (\<lambda>i. vc_tokens c ! i = vc_token_index c) [?lo..<?hi]"
    by (simp add: split)
  moreover have "traded_volume (cursor_prints c) (vc_token_index c) start (vc_last_utc_ns c)
      = sum_list (map ((!) (vc_sizes c)) (filter ?in [0..<?n]))"
    unfolding traded_volume_def cursor_prints_def using b(4,5)
    by (subst filter_nth) (auto intro!: arg_cong [of _ _ sum_list] map_cong filter_cong)
  ultimately show ?thesis using assms by (simp add: cursor_inv_def)
qed

section \<open>Runs of a session\<close>

text \<open>An outcome whose slices carry their notional, as those of the reference executor do.\<close>

definition outcome_priced :: "execution_outcome \<Rightarrow> bool" where
  "outcome_priced out \<longleftrightarrow>
     (\<forall>x \<in> set (eo_slices out). fs_notional x = notional_scaled (fs_size x) (fs_price x))"

inductive session_step ::
  "string \<Rightarrow> (execution_state \<Rightarrow> execution_action) \<Rightarrow> session \<Rightarrow> session \<Rightarrow> bool" for name policy where
  step_decide: "session_decide name policy d s = (s', r) \<Longrightarrow> session_step name policy s s'"
| step_outcome: "outcome_priced out \<Longrightarrow> record_outcome out s = Inr s' \<Longrightarrow> session_step name policy s s'"
| step_fill: "make_fill f = Inr f \<Longrightarrow> record_fill f s = Inr s' \<Longrightarrow> session_step name policy s s'"
| step_no_fill: "record_no_fill arrival s = Inr s' \<Longrightarrow> session_step name policy s s'"

inductive session_run ::
  "string \<Rightarrow> (execution_state \<Rightarrow> execution_action) \<Rightarrow> session \<Rightarrow> session \<Rightarrow> bool" for name policy s0 where
  run_start: "session_run name policy s0 s0"
| run_step: "session_run name policy s0 s \<Longrightarrow> session_step name policy s s' \<Longrightarrow> session_run name policy s0 s'"

definition fills_notional :: "execution_fill list \<Rightarrow> int" where
  "fills_notional fs = sum_list (map (\<lambda>f. notional_scaled (ef_shares f) (ef_price f)) fs)"

definition fills_fees :: "execution_fill list \<Rightarrow> int" where
  "fills_fees fs = sum_list (map ef_fee fs)"

lemma fills_append [simp]:
  "fills_shares (fs @ gs) = fills_shares fs + fills_shares gs"
  "fills_notional (fs @ gs) = fills_notional fs + fills_notional gs"
  "fills_fees (fs @ gs) = fills_fees fs + fills_fees gs"
  by (simp_all add: fills_shares_def fills_notional_def fills_fees_def)

lemma make_fill_Inr: "make_fill f = Inr g \<longleftrightarrow> g = f \<and> 0 < ef_shares f \<and> 0 < ef_price f \<and> 0 \<le> ef_fee f"
  by (auto simp: make_fill_def)

lemma member_le_sum_list_int:
  "x \<in> set xs \<Longrightarrow> \<forall>y \<in> set xs. 0 \<le> f y \<Longrightarrow> (f x :: int) \<le> sum_list (map f xs)"
  by (induction xs) (auto intro: add_increasing add_increasing2 sum_list_nonneg_map)

lemma fills_shares_nonneg: "\<forall>f \<in> set fs. 0 < ef_shares f \<Longrightarrow> 0 \<le> fills_shares fs"
  unfolding fills_shares_def by (intro sum_list_nonneg_map) (auto intro: less_imp_le)

text \<open>The books of a session that began with given cash and inventory.\<close>

definition session_inv :: "int \<Rightarrow> int \<Rightarrow> session \<Rightarrow> bool" where
  "session_inv cash0 inventory0 s \<longleftrightarrow>
     0 \<le> se_cash s \<and> 0 \<le> se_inventory_shares s
     \<and> se_filled_shares s = fills_shares (se_fills s)
     \<and> 0 \<le> se_filled_shares s \<and> se_filled_shares s \<le> xp_target_shares (se_plan s)
     \<and> (\<forall>f \<in> set (se_fills s). make_fill f = Inr f \<and> ef_timestamp_utc_ns f \<le> xp_deadline_utc_ns (se_plan s))
     \<and> (if xp_side (se_plan s) = BUY
        then se_inventory_shares s = inventory0 + se_filled_shares s
          \<and> se_cash s = cash0 - fills_notional (se_fills s) - fills_fees (se_fills s)
        else se_inventory_shares s = inventory0 - se_filled_shares s
          \<and> se_cash s = cash0 + fills_notional (se_fills s) - fills_fees (se_fills s))
     \<and> (se_pending_action s = None \<longleftrightarrow> se_pending_decision_utc_ns s = None)"

lemma make_session_inv:
  "make_plan p = Inr p \<Longrightarrow> make_session p c cash0 inventory0 = Inr s \<Longrightarrow>
     session_inv cash0 inventory0 s \<and> se_plan s = p \<and> se_cursor s = c"
  by (auto simp: make_session_def session_inv_def fills_shares_def fills_notional_def fills_fees_def
      dest!: make_plan_Inr split: if_splits)

lemma require_pending_Inr:
  "require_pending s = Inr (a, t) \<longleftrightarrow> se_pending_action s = Some a \<and> se_pending_decision_utc_ns s = Some t"
  by (auto simp: require_pending_def split: option.split)

lemma apply_fills_inv:
  assumes inv: "session_inv cash0 inventory0 s"
    and app: "apply_fills fs (fills_notional fs) (fills_fees fs) s = Inr s'"
    and fs: "\<forall>f \<in> set fs. make_fill f = Inr f \<and> ef_timestamp_utc_ns f \<le> xp_deadline_utc_ns (se_plan s)"
  shows "session_inv cash0 inventory0 s' \<and> se_plan s' = se_plan s"
proof -
  have "0 \<le> fills_shares fs" using fs fills_shares_nonneg by (auto simp: make_fill_Inr)
  with app inv fs show ?thesis
    by (auto simp: apply_fills_def Let_def session_inv_def session_remaining_def split: if_splits)
qed

lemma complete_pending_inv:
  "session_inv cash0 inventory0 s \<Longrightarrow> session_inv cash0 inventory0 (complete_pending t s)"
  by (simp add: complete_pending_def session_inv_def)

lemma outcome_fills_Inr:
  "outcome_fills t xs = Inr fs \<Longrightarrow>
     fills_shares fs = sum_list (map fs_size xs) \<and> fills_fees fs = sum_list (map fs_fee xs)
     \<and> (\<forall>f \<in> set fs. make_fill f = Inr f \<and> ef_timestamp_utc_ns f = t)
     \<and> ((\<forall>x \<in> set xs. fs_notional x = notional_scaled (fs_size x) (fs_price x)) \<longrightarrow>
          fills_notional fs = sum_list (map fs_notional xs))"
  by (induction xs arbitrary: fs)
     (auto simp: make_fill_Inr fills_shares_def fills_fees_def fills_notional_def)

lemma record_outcome_inv:
  assumes inv: "session_inv cash0 inventory0 s" and "outcome_priced out"
    and rec: "record_outcome out s = Inr s'"
  shows "session_inv cash0 inventory0 s' \<and> se_plan s' = se_plan s"
proof -
  from rec obtain a t fs s1 where
      late: "\<not> (xp_deadline_utc_ns (se_plan s) < eo_arrival_utc_ns out \<and> eo_filled out)"
    and sums: "sum_list (map fs_size (eo_slices out)) = eo_filled_shares out"
      "sum_list (map fs_notional (eo_slices out)) = eo_notional out"
      "sum_list (map fs_fee (eo_slices out)) = eo_fees out"
    and fs: "outcome_fills (eo_arrival_utc_ns out) (eo_slices out) = Inr fs"
    and app: "apply_fills fs (eo_notional out) (eo_fees out) s = Inr s1"
    and fin: "s' = complete_pending (eo_arrival_utc_ns out) s1"
    by (auto simp: record_outcome_def split: if_splits)
  note f = outcome_fills_Inr [OF fs]
  have agg: "eo_notional out = fills_notional fs" "eo_fees out = fills_fees fs"
      "fills_shares fs = eo_filled_shares out"
    using f sums assms(2) by (simp_all add: outcome_priced_def)
  have "ef_timestamp_utc_ns g \<le> xp_deadline_utc_ns (se_plan s)" if g: "g \<in> set fs" for g
  proof -
    have "0 < ef_shares g" using f g by (auto simp: make_fill_Inr)
    also have "ef_shares g \<le> fills_shares fs"
      unfolding fills_shares_def using f g
      by (intro member_le_sum_list_int) (auto simp: make_fill_Inr intro: less_imp_le)
    finally show ?thesis using late f g agg(3) by (auto simp: eo_filled_def)
  qed
  with f have "\<forall>g \<in> set fs. make_fill g = Inr g \<and> ef_timestamp_utc_ns g \<le> xp_deadline_utc_ns (se_plan s)"
    by blast
  from apply_fills_inv [OF inv app [unfolded agg(1,2)] this] show ?thesis
    by (simp add: fin complete_pending_inv) (simp add: complete_pending_def)
qed

lemma session_fill_inv:
  assumes inv: "session_inv cash0 inventory0 s" and "make_fill f = Inr f"
    and rec: "record_fill f s = Inr s'"
  shows "session_inv cash0 inventory0 s' \<and> se_plan s' = se_plan s"
proof -
  from rec obtain s1 where late: "ef_timestamp_utc_ns f \<le> xp_deadline_utc_ns (se_plan s)"
    and app: "apply_fills [f] (fills_notional [f]) (fills_fees [f]) s = Inr s1"
    and fin: "s' = complete_pending (ef_timestamp_utc_ns f) s1"
    by (auto simp: record_fill_def fills_notional_def fills_fees_def split: if_splits)
  from apply_fills_inv [OF inv app] late assms(2) show ?thesis
    by (simp add: fin complete_pending_inv) (simp add: complete_pending_def)
qed

lemma session_decide_frame:
  assumes "session_decide name policy d s = (s', r)"
  shows "se_plan s' = se_plan s \<and> se_cash s' = se_cash s \<and> se_inventory_shares s' = se_inventory_shares s
    \<and> se_filled_shares s' = se_filled_shares s \<and> se_fills s' = se_fills s
    \<and> se_next_decision_not_before s' = se_next_decision_not_before s"
  using assms
  by (auto simp: session_decide_def Let_def split: if_splits sum.splits option.splits)

lemma session_decide_pending:
  assumes "session_decide name policy d s = (s', r)"
    and "se_pending_action s = None \<longleftrightarrow> se_pending_decision_utc_ns s = None"
  shows "se_pending_action s' = None \<longleftrightarrow> se_pending_decision_utc_ns s' = None"
  using assms
  by (auto simp: session_decide_def Let_def split: if_splits sum.splits option.splits)

lemma session_step_inv:
  assumes "session_step name policy s s'" "session_inv cash0 inventory0 s"
  shows "session_inv cash0 inventory0 s' \<and> se_plan s' = se_plan s"
  using assms(1)
proof (cases rule: session_step.cases)
  case (step_decide d r)
  then show ?thesis
    using session_decide_frame [OF step_decide] session_decide_pending [OF step_decide] assms(2)
    by (simp add: session_inv_def)
next
  case (step_outcome out)
  then show ?thesis using record_outcome_inv [OF assms(2)] by blast
next
  case (step_fill f)
  then show ?thesis using session_fill_inv [OF assms(2)] by blast
next
  case (step_no_fill arrival)
  then show ?thesis using assms(2) complete_pending_inv
    by (auto simp: record_no_fill_def split: if_splits) (simp add: complete_pending_def)
qed

lemma session_run_inv:
  "session_run name policy s0 s \<Longrightarrow> session_inv cash0 inventory0 s0 \<Longrightarrow>
     session_inv cash0 inventory0 s \<and> se_plan s = se_plan s0"
  by (induction rule: session_run.induct) (auto dest: session_step_inv)

section \<open>What the policy's contract adds\<close>

text \<open>The outstanding child is one the parent can take whole.\<close>

definition pending_ok :: "session \<Rightarrow> bool" where
  "pending_ok s \<longleftrightarrow>
     (case se_pending_action s of
        None \<Rightarrow> True
      | Some a \<Rightarrow>
          0 < xa_requested_shares a \<and> xa_requested_shares a \<le> session_remaining s
          \<and> (xp_side (se_plan s) = SELL \<longrightarrow> xa_requested_shares a \<le> se_inventory_shares s)
          \<and> xa_limit_price a = xp_limit_price (se_plan s)
          \<and> (case se_pending_decision_utc_ns s of
               None \<Rightarrow> False
             | Some t \<Rightarrow> xp_start_utc_ns (se_plan s) \<le> t \<and> t \<le> xp_deadline_utc_ns (se_plan s)))"

lemma pending_none_ok: "se_pending_action s = None \<Longrightarrow> pending_ok s"
  by (simp add: pending_ok_def)

lemma record_completes:
  "record_outcome out s = Inr s' \<Longrightarrow> se_pending_action s' = None"
  "record_fill f s = Inr s' \<Longrightarrow> se_pending_action s' = None"
  "record_no_fill t s = Inr s' \<Longrightarrow> se_pending_action s' = None"
  by (auto simp: record_outcome_def record_fill_def record_no_fill_def complete_pending_def
      split: if_splits)

text \<open>A decision either leaves the outstanding child alone or is a fresh slice of the policy.\<close>

lemma session_decide_cases:
  assumes "session_decide name policy d s = (s', r)"
  obtains (kept) "se_pending_action s' = se_pending_action s"
      "se_pending_decision_utc_ns s' = se_pending_decision_utc_ns s"
    | (sent) cursor volume s1 where
      "advance (se_cursor s) (dc_now_utc_ns d) = Inr (cursor, volume)"
      "s1 = s\<lparr>se_cursor := cursor, se_last_decision_utc_ns := Some (dc_now_utc_ns d)\<rparr>"
      "se_pending_action s = None" "se_next_decision_not_before s \<le> dc_now_utc_ns d"
      "make_state (observed_state d volume s1) = Inr (observed_state d volume s1)"
      "xa_kind (policy (observed_state d volume s1)) = TAKER_SLICE"
      "r = Inr (policy (observed_state d volume s1))"
      "s' = s1\<lparr>se_pending_action := Some (policy (observed_state d volume s1)),
         se_pending_decision_utc_ns := Some (dc_now_utc_ns d),
         se_last_action_utc_ns := Some (dc_now_utc_ns d)\<rparr>"
proof (cases "advance (se_cursor s) (dc_now_utc_ns d)")
  case (Inl e)
  with assms have "s' = s" by (simp add: session_decide_def split: if_splits)
  then show ?thesis using that(1) by simp
next
  case (Inr cv)
  obtain cursor volume where adv: "advance (se_cursor s) (dc_now_utc_ns d) = Inr (cursor, volume)"
    using Inr by (cases cv) simp
  define s1 where "s1 = s\<lparr>se_cursor := cursor, se_last_decision_utc_ns := Some (dc_now_utc_ns d)\<rparr>"
  note body = assms [unfolded session_decide_def adv, simplified, folded s1_def, unfolded Let_def]
  show ?thesis
  proof (cases "make_state (observed_state d volume s1)")
    case (Inl e)
    with body show ?thesis using that(1) s1_def by (auto split: if_splits)
  next
    case state: (Inr st)
    then have st: "st = observed_state d volume s1" by (rule make_state_Inr(1))
    show ?thesis
    proof (cases "s' = s \<or> s' = s1")
      case True
      then show ?thesis using that(1) s1_def by auto
    next
      case False
      with body state show ?thesis
        by (intro that(2) [OF adv s1_def]) (auto simp: st s1_def split: if_splits)
    qed
  qed
qed

context execution_policy
begin

lemma decide_pending_ok:
  assumes "session_decide name decide d s = (s', r)" "pending_ok s"
  shows "pending_ok s'"
  using assms(1)
proof (cases rule: session_decide_cases)
  case kept
  with assms(2) session_decide_frame [OF assms(1)] show ?thesis
    by (auto simp: pending_ok_def session_remaining_def split: option.splits)
next
  case (sent cursor volume s1)
  let ?st = "observed_state d volume s1"
  have "xs_plan ?st = se_plan s" "xs_now_utc_ns ?st = dc_now_utc_ns d"
    "remaining_shares ?st = session_remaining s" "xs_inventory_shares ?st = se_inventory_shares s"
    using sent(2) by (simp_all add: observed_state_def remaining_shares_def session_remaining_def)
  with slice_positive [OF sent(6)] slice_remaining [OF sent(6)] slice_inventory [OF sent(6)]
    slice_window [OF sent(6)] slice_limit [OF sent(6)] sent(2,8)
  show ?thesis by (simp add: pending_ok_def session_remaining_def)
qed

lemma step_pending_ok: "session_step name decide s s' \<Longrightarrow> pending_ok s \<Longrightarrow> pending_ok s'"
  by (cases rule: session_step.cases) (auto intro: decide_pending_ok pending_none_ok dest: record_completes)

lemma run_pending_ok: "session_run name decide s0 s \<Longrightarrow> pending_ok s0 \<Longrightarrow> pending_ok s"
  by (induction rule: session_run.induct) (auto intro: step_pending_ok)

end

section \<open>The reference executor's outcomes\<close>

lemma apply_fills_filled:
  "apply_fills fs n f s = Inr s' \<Longrightarrow> se_filled_shares s' = se_filled_shares s + fills_shares fs"
  by (auto simp: apply_fills_def Let_def split: if_splits)

lemma record_outcome_filled:
  "record_outcome out s = Inr s' \<Longrightarrow> se_filled_shares s' = se_filled_shares s + eo_filled_shares out"
  by (auto simp: record_outcome_def complete_pending_def dest!: apply_fills_filled outcome_fills_Inr
      split: if_splits)

lemma outcome_fills_total:
  "\<forall>x \<in> set xs. 0 < fs_size x \<and> 0 < fs_price x \<and> 0 \<le> fs_fee x \<Longrightarrow> \<exists>fs. outcome_fills t xs = Inr fs"
  by (induction xs) (auto simp: make_fill_Inr)

lemma reference_totals:
  "eo_filled_shares (execute_realism r q) = sum_list (map fs_size (eo_slices (execute_realism r q)))"
  "eo_notional (execute_realism r q) = sum_list (map fs_notional (eo_slices (execute_realism r q)))"
  "eo_fees (execute_realism r q) = sum_list (map fs_fee (eo_slices (execute_realism r q)))"
  "eo_requested_shares (execute_realism r q) = rq_requested_shares q"
  "eo_decision_utc_ns (execute_realism r q) = rq_decision_utc_ns q"
  "eo_arrival_utc_ns (execute_realism r q) = rq_arrival_utc_ns q"
  "0 < rq_requested_shares q \<Longrightarrow> eo_filled_shares (execute_realism r q) \<le> rq_requested_shares q"
  by (cases rule: execute_realism_cases [of r q]; simp add: empty_outcome_def refuse_def)+

lemma reference_slices:
  assumes "realism_ok r" "ladder_ok (rq_ladder q)" "\<forall>(p, d) \<in> set (rq_ladder q). 0 < p"
  shows "outcome_priced (execute_realism r q)"
    "\<exists>fs. outcome_fills t (eo_slices (execute_realism r q)) = Inr fs"
proof -
  have each: "0 < fs_size x \<and> 0 < fs_price x \<and> 0 \<le> fs_fee x
      \<and> fs_notional x = notional_scaled (fs_size x) (fs_price x)"
    if x: "x \<in> set (eo_slices (execute_realism r q))" for x
  proof -
    from outcome_slice [OF assms(1,2) x] obtain d where d: "(fs_price x, d) \<in> set (rq_ladder q)"
        "0 < fs_size x" "fs_notional x = notional_scaled (fs_size x) (fs_price x)"
        "fs_fee x = calculate_fee (er_fee r) (fs_size x) (fs_price x)" by blast
    have "0 < fs_price x" using assms(3) d(1) by blast
    moreover have "0 \<le> fs_fee x" using d(4) assms(1) fee_nonneg by (simp add: realism_ok_def)
    ultimately show ?thesis using d by blast
  qed
  then show "outcome_priced (execute_realism r q)" by (simp add: outcome_priced_def)
  from each show "\<exists>fs. outcome_fills t (eo_slices (execute_realism r q)) = Inr fs"
    by (intro outcome_fills_total) blast
qed

text \<open>The wallet can pay for an outcome.\<close>

definition outcome_affordable :: "session \<Rightarrow> execution_outcome \<Rightarrow> bool" where
  "outcome_affordable s out \<longleftrightarrow>
     (if xp_side (se_plan s) = BUY then eo_notional out + eo_fees out \<le> se_cash s
      else eo_fees out \<le> se_cash s + eo_notional out)"

lemma apply_fills_total:
  assumes "se_pending_action s = Some a" "se_pending_decision_utc_ns s = Some t"
    and "fills_shares fs \<le> xa_requested_shares a" "fills_shares fs \<le> session_remaining s"
    and "xp_side (se_plan s) = SELL \<Longrightarrow> fills_shares fs \<le> se_inventory_shares s"
    and "if xp_side (se_plan s) = BUY then n + f \<le> se_cash s else f \<le> se_cash s + n"
  shows "\<exists>s'. apply_fills fs n f s = Inr s'"
  using assms by (cases "xp_side (se_plan s)") (simp_all add: apply_fills_def require_pending_def Let_def)

lemma reference_outcome_accepted:
  assumes "pending_ok s" "se_pending_action s = Some a" "se_pending_decision_utc_ns s = Some t"
    and r: "realism_ok r" "ladder_ok (rq_ladder q)" "\<forall>(p, d) \<in> set (rq_ladder q). 0 < p"
    and q: "rq_requested_shares q = xa_requested_shares a" "rq_decision_utc_ns q = t"
      "t \<le> rq_arrival_utc_ns q" "rq_arrival_utc_ns q \<le> xp_deadline_utc_ns (se_plan s)"
    and cash: "outcome_affordable s (execute_realism r q)"
  shows "\<exists>s'. record_outcome (execute_realism r q) s = Inr s'"
proof -
  let ?out = "execute_realism r q"
  note tot = reference_totals [where r = r and q = q]
  have a: "0 < xa_requested_shares a" "xa_requested_shares a \<le> session_remaining s"
    "xp_side (se_plan s) = SELL \<Longrightarrow> xa_requested_shares a \<le> se_inventory_shares s"
    using assms(1-3) by (simp_all add: pending_ok_def)
  obtain fs where fs: "outcome_fills (rq_arrival_utc_ns q) (eo_slices ?out) = Inr fs"
    using reference_slices(2) [OF r] by blast
  have filled: "fills_shares fs \<le> xa_requested_shares a"
    using outcome_fills_Inr [OF fs] tot(1,7) q(1) a(1) by simp
  obtain s1 where "apply_fills fs (eo_notional ?out) (eo_fees ?out) s = Inr s1"
    using apply_fills_total [OF assms(2,3) filled] filled a cash
    by (force simp: outcome_affordable_def)
  with fs assms(2,3) q tot(1-6) show ?thesis
    by (simp add: record_outcome_def require_pending_def)
qed

section \<open>Properties\<close>

lemma session_books:
  assumes "make_plan p = Inr p" "make_session p c cash0 inventory0 = Inr s0"
    and "session_run name policy s0 s"
  shows "se_plan s = p" "0 \<le> se_cash s \<and> 0 \<le> se_inventory_shares s"
    "se_filled_shares s = fills_shares (se_fills s)"
    "0 \<le> se_filled_shares s" "se_filled_shares s \<le> xp_target_shares p"
    "\<forall>f \<in> set (se_fills s). 0 < ef_shares f \<and> ef_timestamp_utc_ns f \<le> xp_deadline_utc_ns p"
    "if xp_side p = BUY
       then se_inventory_shares s = inventory0 + se_filled_shares s
         \<and> se_cash s = cash0 - fills_notional (se_fills s) - fills_fees (se_fills s)
       else se_inventory_shares s = inventory0 - se_filled_shares s
         \<and> se_cash s = cash0 + fills_notional (se_fills s) - fills_fees (se_fills s)"
proof -
  have inv: "session_inv cash0 inventory0 s" and plan: "se_plan s = p"
    using session_run_inv [OF assms(3)] make_session_inv [OF assms(1,2)] by auto
  show "se_plan s = p" by (rule plan)
  note i = inv [unfolded session_inv_def make_fill_Inr plan]
  show "0 \<le> se_cash s \<and> 0 \<le> se_inventory_shares s"
    "se_filled_shares s = fills_shares (se_fills s)"
    "0 \<le> se_filled_shares s" "se_filled_shares s \<le> xp_target_shares p"
    using i by blast+
  show "\<forall>f \<in> set (se_fills s). 0 < ef_shares f \<and> ef_timestamp_utc_ns f \<le> xp_deadline_utc_ns p"
    using i by blast
  show "if xp_side p = BUY
       then se_inventory_shares s = inventory0 + se_filled_shares s
         \<and> se_cash s = cash0 - fills_notional (se_fills s) - fills_fees (se_fills s)
       else se_inventory_shares s = inventory0 - se_filled_shares s
         \<and> se_cash s = cash0 + fills_notional (se_fills s) - fills_fees (se_fills s)"
    using i by (elim conjE)
qed

text \<open>C32. The books of an execution session balance, whatever policy drives it.  In every session
  reached from a fresh one, through decisions, outcomes, fills and empty children in any order, cash and
  inventory are never negative, the parent is never overfilled, the fills add up to what is filled and
  none is later than the deadline, and cash and inventory differ from their initial values by exactly the
  notional, the fees and the shares of those fills.\<close>

theorem session_books_balance:
  assumes "make_plan p = Inr p" "make_session p c cash0 inventory0 = Inr s0"
    and "session_run name policy s0 s"
  shows "0 \<le> se_cash s \<and> 0 \<le> se_inventory_shares s
    \<and> se_filled_shares s = fills_shares (se_fills s)
    \<and> 0 \<le> se_filled_shares s \<and> se_filled_shares s \<le> xp_target_shares p
    \<and> (\<forall>f \<in> set (se_fills s). 0 < ef_shares f \<and> ef_timestamp_utc_ns f \<le> xp_deadline_utc_ns p)
    \<and> (if xp_side p = BUY
       then se_inventory_shares s = inventory0 + se_filled_shares s
         \<and> se_cash s = cash0 - fills_notional (se_fills s) - fills_fees (se_fills s)
       else se_inventory_shares s = inventory0 - se_filled_shares s
         \<and> se_cash s = cash0 + fills_notional (se_fills s) - fills_fees (se_fills s))"
  using session_books [OF assms] by (elim conjE) (intro conjI; assumption)

text \<open>C33. The volume a decision sees is causal.  After any number of earlier readings, the cursor
  returns exactly the volume of its token printed from the start up to now; two tapes that
  agree on every print up to now give the same reading, whatever they print later.\<close>

theorem volume_cursor_causal:
  assumes "make_cursor ts toks sizes k start = Inr c0" "cursor_reach c0 c" "advance c now = Inr (c1, v)"
    and "make_cursor ts' toks' sizes' k start = Inr d0" "cursor_reach d0 d" "advance d now = Inr (d1, w)"
    and "filter (\<lambda>(t, _). t \<le> now) (zip ts (zip toks sizes))
       = filter (\<lambda>(t, _). t \<le> now) (zip ts' (zip toks' sizes'))"
  shows "v = traded_volume (zip ts (zip toks sizes)) k start now \<and> v = w"
proof -
  have read: "u = traded_volume (zip xs (zip ys zs)) k start now"
    if "make_cursor xs ys zs k start = Inr e0" "cursor_reach e0 e" "advance e now = Inr (e1, u)"
    for xs ys zs e0 e e1 u
  proof -
    note m = make_cursor_inv [OF that(1)]
    with cursor_reach_inv [OF that(2)] have e: "cursor_inv start e" "cursor_prints e = zip xs (zip ys zs)"
      "vc_token_index e = k" by auto
    from cursor_volume [OF advance_inv [OF e(1) that(3)]] advance_frame [OF that(3)] e show ?thesis
      by simp
  qed
  have upto: "traded_volume ps k start now
      = sum_list (map (\<lambda>(_, _, z). z) (filter (\<lambda>(t, j, _). start \<le> t \<and> j = k)
          (filter (\<lambda>(t, _). t \<le> now) ps)))" for ps
    unfolding traded_volume_def filter_filter
    by (intro arg_cong [of _ _ "\<lambda>xs. sum_list (map (\<lambda>(_, _, z). z) xs)"] filter_cong) auto
  have "v = traded_volume (zip ts (zip toks sizes)) k start now" by (rule read [OF assms(1-3)])
  moreover have "w = traded_volume (zip ts' (zip toks' sizes')) k start now" by (rule read [OF assms(4-6)])
  moreover have "traded_volume (zip ts (zip toks sizes)) k start now
      = traded_volume (zip ts' (zip toks' sizes')) k start now"
    by (simp only: upto assms(7))
  ultimately show ?thesis by simp
qed

text \<open>One child at a time.  A session sends a slice only when none is outstanding and the
  previous one has arrived, and until its outcome is recorded every later decision waits; once an
  outcome is recorded, no slice is sent before its arrival.\<close>

theorem one_child_at_a_time:
  assumes "session_decide name policy d s = (s', Inr a)" "xa_kind a = TAKER_SLICE"
  shows "se_pending_action s = None \<and> se_next_decision_not_before s \<le> dc_now_utc_ns d
    \<and> se_pending_action s' = Some a \<and> se_pending_decision_utc_ns s' = Some (dc_now_utc_ns d)
    \<and> (\<forall>later b s''. session_decide name policy later s' = (s'', Inr b) \<longrightarrow>
          xa_kind b = WAIT \<and> se_pending_action s'' = Some a)
    \<and> (\<forall>out s''. record_outcome out s' = Inr s'' \<longrightarrow>
          se_pending_action s'' = None \<and> eo_arrival_utc_ns out \<le> se_next_decision_not_before s'')"
proof -
  have slice: "se_pending_action s = None \<and> se_next_decision_not_before s \<le> dc_now_utc_ns d
      \<and> se_pending_action s' = Some a \<and> se_pending_decision_utc_ns s' = Some (dc_now_utc_ns d)"
    using assms
    by (auto simp: session_decide_def Let_def split: if_splits sum.splits)
  have "xa_kind b = WAIT \<and> se_pending_action s'' = Some a"
    if "session_decide name policy later s' = (s'', Inr b)" for later b s''
    using that slice
    by (auto simp: session_decide_def Let_def split: if_splits sum.splits option.splits)
  moreover have "eo_arrival_utc_ns out \<le> se_next_decision_not_before s''"
    if "record_outcome out s' = Inr s''" for out s''
    using that by (auto simp: record_outcome_def complete_pending_def split: if_splits)
  ultimately show ?thesis using slice record_completes(1) by blast
qed

text \<open>Under either policy a session never refuses the reference executor.  Whatever happened
  before, an outstanding child can be filled whole: it fits in what is left of the parent and, when
  selling, in the inventory, and was sent in the parent's window; so the executor's outcome for that
  child, arriving by the deadline and within the wallet, is accepted.\<close>

theorem session_accepts_reference_outcome:
  assumes "make_plan p = Inr p" "make_session p c cash0 inventory0 = Inr s0"
    and "(\<exists>t. policy = twap_decide t) \<or> (\<exists>v. policy = pov_decide v)"
    and "session_run name policy s0 s"
    and "se_pending_action s = Some a" "se_pending_decision_utc_ns s = Some t"
    and "realism_ok r" "ladder_ok (rq_ladder q)" "\<forall>(price, d) \<in> set (rq_ladder q). 0 < price"
    and "rq_requested_shares q = xa_requested_shares a" "rq_decision_utc_ns q = t"
      "t \<le> rq_arrival_utc_ns q" "rq_arrival_utc_ns q \<le> xp_deadline_utc_ns p"
    and "outcome_affordable s (execute_realism r q)"
  shows "xp_start_utc_ns p \<le> t \<and> xa_requested_shares a \<le> session_remaining s
    \<and> (\<exists>s'. record_outcome (execute_realism r q) s = Inr s' \<and> session_step name policy s s'
         \<and> se_pending_action s' = None
         \<and> se_filled_shares s' = se_filled_shares s + eo_filled_shares (execute_realism r q))"
proof -
  have inv: "session_inv cash0 inventory0 s" and plan: "se_plan s = p"
    using session_run_inv [OF assms(4)] make_session_inv [OF assms(1,2)] by auto
  have "pending_ok s0" using assms(2) by (intro pending_none_ok) (auto simp: make_session_def split: if_splits)
  then have ok: "pending_ok s" using assms(3,4) twap.run_pending_ok pov.run_pending_ok by blast
  obtain s' where s': "record_outcome (execute_realism r q) s = Inr s'"
    using reference_outcome_accepted [OF ok assms(5-12) _ assms(14)] assms(13) plan by blast
  have "session_step name policy s s'"
    using reference_slices(1) [OF assms(7-9)] s' by (rule step_outcome)
  with s' record_completes(1) [OF s'] record_outcome_filled [OF s'] ok plan assms(5,6) show ?thesis
    by (simp add: pending_ok_def)
qed

text \<open>The deadline objective is the ledger.  A session with nothing outstanding can
  always be scored at or after its deadline with a positive mark; the score reports what is filled and
  what is missing, its raw shortfall is the cash the session spent (or failed to collect) beyond the
  benchmark value of the filled shares, the two penalties are not negative, and the total is the sum of
  the three weighted terms.\<close>

theorem session_objective_is_ledger:
  assumes "make_plan p = Inr p" "make_objective_weights (xp_objective p) = Inr (xp_objective p)"
    and "make_session p c cash0 inventory0 = Inr s0" "session_run name policy s0 s"
    and "se_pending_action s = None" "xp_deadline_utc_ns p \<le> now" "0 < mark"
  shows "\<exists>j. session_evaluate now (Some mark) s = Inr j
    \<and> jr_filled_shares j = se_filled_shares s \<and> jr_unfilled_shares j = session_remaining s
    \<and> 0 \<le> jr_fill_rate_ppm j \<and> jr_fill_rate_ppm j \<le> PPM
    \<and> jr_raw_implementation_shortfall j =
        (if xp_side p = BUY
         then (cash0 - se_cash s) - notional_scaled (se_filled_shares s) (xp_benchmark_price p)
         else notional_scaled (se_filled_shares s) (xp_benchmark_price p) - (se_cash s - cash0))
    \<and> 0 \<le> jr_non_fill_penalty j \<and> 0 \<le> jr_adverse_selection_penalty j
    \<and> (session_remaining s = 0 \<longrightarrow> jr_non_fill_penalty j = 0)
    \<and> jr_total_objective j = jr_implementation_shortfall j + jr_non_fill_penalty j
        + jr_adverse_selection_penalty j"
proof -
  let ?fs = "se_fills s" and ?w = "xp_objective p"
  note books = session_books [OF assms(1,3,4)]
  have plan: "0 < xp_target_shares p" "0 < xp_benchmark_price p" using make_plan_Inr [OF assms(1)] by auto
  have w: "0 \<le> ow_non_fill_penalty_ppm ?w" "0 \<le> ow_adverse_selection_penalty_ppm ?w"
    using assms(2) by (auto simp: make_objective_weights_def split: if_splits)
  have "0 \<le> adverse_base p ?fs (Some mark)"
    unfolding adverse_base_def option.case
    using books(6) by (intro sum_list_nonneg_map notional_nonneg) (auto intro: less_imp_le)
  note pen = ppm_of_nonneg [OF this w(2)]
  have "0 \<le> notional_scaled (session_remaining s) (xp_benchmark_price p)"
    using books(1,5) plan by (intro notional_nonneg) (auto simp: session_remaining_def)
  note miss = ppm_of_nonneg [OF this w(1)]
  have "se_filled_shares s * PPM div xp_target_shares p \<le> PPM"
    using zdiv_mono1 [of "se_filled_shares s * PPM" "xp_target_shares p * PPM" "xp_target_shares p"]
      books(5) plan by simp
  then have rate: "0 \<le> se_filled_shares s * PPM div xp_target_shares p"
      "se_filled_shares s * PPM div xp_target_shares p \<le> PPM"
    using books(4) plan by (simp_all add: pos_imp_zdiv_nonneg_iff)
  have raw: "raw_shortfall p ?fs = (if xp_side p = BUY
         then (cash0 - se_cash s) - notional_scaled (se_filled_shares s) (xp_benchmark_price p)
         else notional_scaled (se_filled_shares s) (xp_benchmark_price p) - (se_cash s - cash0))"
    using books(3,7) by (simp add: raw_shortfall_def Let_def fills_notional_def fills_fees_def)
  have ev: "session_evaluate now (Some mark) s = evaluate_execution_objective p ?fs now (Some mark)"
    using assms(5) books(1) by (simp add: session_evaluate_def)
  have late: "\<not> (\<exists>f \<in> set ?fs. xp_deadline_utc_ns p < ef_timestamp_utc_ns f)"
    using books(6) by auto
  show ?thesis
    unfolding ev evaluate_execution_objective_def Let_def raw
    using assms(6,7) late books(1,3,5) pen miss rate
    by (simp add: session_remaining_def)
qed

section \<open>A concrete session\<close>

text \<open>The demo parent, traded by TWAP: one decision, one partial outcome, and the score.\<close>

definition demo_cursor :: volume_cursor where
  "demo_cursor =
     \<lparr>vc_timestamps = [500000000, 2000000000, 3000000000, 9000000000], vc_tokens = [1, 1, 0, 1],
      vc_sizes = [7, 40000000, 5, 11], vc_token_index = 1, vc_position = 1,
      vc_last_utc_ns = 999999999, vc_volume = 0\<rparr>"

definition demo_session :: session where
  "demo_session =
     \<lparr>se_plan = demo_plan, se_cursor = demo_cursor, se_cash = 95000000, se_inventory_shares = 0,
      se_filled_shares = 0, se_fills = [], se_last_action_utc_ns = None,
      se_last_decision_utc_ns = None, se_next_decision_not_before = 1000000000,
      se_pending_action = None, se_pending_decision_utc_ns = None\<rparr>"

definition demo_decision :: decide_call where
  "demo_decision =
     \<lparr>dc_now_utc_ns = 4000000000, dc_bids = [(490000, 30000000)],
      dc_asks = [(500000, 80000000), (540000, 40000000)], dc_minimum_order_size = 5000000,
      dc_reference_price = None\<rparr>"

definition demo_child :: taker_request where
  "demo_child =
     \<lparr>rq_side = BUY, rq_ladder = [(500000, 80000000), (540000, 40000000)],
      rq_requested_shares = 30000000, rq_limit_price = Some 550000,
      rq_reference_price = Some 500000, rq_realised_volume = None, rq_decision_utc_ns = 4000000000,
      rq_arrival_utc_ns = 4050000000, rq_book_age_ns = 5, rq_minimum_order_size = 5000000,
      rq_tick_size = 1000\<rparr>"

definition demo_sent :: session where
  "demo_sent = fst (session_decide ''twap'' (twap_decide demo_twap) demo_decision demo_session)"

definition demo_filled :: session where
  "demo_filled =
     (case record_outcome (execute_realism demo_realism demo_child) demo_sent of
        Inl e \<Rightarrow> demo_sent | Inr s \<Rightarrow> s)"

definition demo_action :: execution_action where
  "demo_action =
     \<lparr>xa_kind = TAKER_SLICE, xa_requested_shares = 30000000, xa_limit_price = Some 550000,
      xa_reason = ''twap_schedule'', xa_policy_name = ''twap''\<rparr>"

text \<open>A second tape that agrees with the first on the first four seconds only.\<close>

definition other_cursor :: volume_cursor where
  "other_cursor = demo_cursor\<lparr>vc_timestamps := [500000000, 2000000000, 3000000000, 5000000000],
     vc_sizes := [7, 40000000, 5, 99]\<rparr>"

lemma demo_cursor_made:
  "make_cursor [500000000, 2000000000, 3000000000, 9000000000] [1, 1, 0, 1] [7, 40000000, 5, 11] 1 1000000000
     = Inr demo_cursor"
  "make_cursor [500000000, 2000000000, 3000000000, 5000000000] [1, 1, 0, 1] [7, 40000000, 5, 99] 1 1000000000
     = Inr other_cursor"
  by code_simp+

lemma demo_advances:
  "advance demo_cursor 4000000000
     = Inr (demo_cursor\<lparr>vc_volume := 40000000, vc_position := 3, vc_last_utc_ns := 4000000000\<rparr>, 40000000)"
  "advance other_cursor 4000000000
     = Inr (other_cursor\<lparr>vc_volume := 40000000, vc_position := 3, vc_last_utc_ns := 4000000000\<rparr>, 40000000)"
  by code_simp+

lemma demo_session_made:
  "make_session demo_plan demo_cursor 95000000 0 = Inr demo_session"
  "make_objective_weights (xp_objective demo_plan) = Inr (xp_objective demo_plan)"
  by code_simp+

lemma demo_sends:
  "session_decide ''twap'' (twap_decide demo_twap) demo_decision demo_session = (demo_sent, Inr demo_action)"
  by code_simp

lemma demo_sent_sel:
  "se_pending_action demo_sent = Some demo_action" "se_pending_decision_utc_ns demo_sent = Some 4000000000"
  "se_plan demo_sent = demo_plan" "se_cash demo_sent = 95000000"
  by code_simp+

lemma demo_child_outcome:
  "eo_filled_shares (execute_realism demo_realism demo_child) = 20000000"
  "eo_notional (execute_realism demo_realism demo_child) = 10000000"
  "eo_fees (execute_realism demo_realism demo_child) = 350000"
  "record_outcome (execute_realism demo_realism demo_child) demo_sent = Inr demo_filled"
  "se_pending_action demo_filled = None" "se_filled_shares demo_filled = 20000000"
  "se_cash demo_filled = 84650000"
  by code_simp+

lemma demo_child_ladder:
  "ladder_ok (rq_ladder demo_child)" "\<forall>(p, d) \<in> set (rq_ladder demo_child). 0 < p"
  by (simp_all add: ladder_ok_def demo_child_def)

lemma demo_session_run:
  "session_run ''twap'' (twap_decide demo_twap) demo_session demo_sent"
  "session_run ''twap'' (twap_decide demo_twap) demo_session demo_filled"
proof -
  show sent: "session_run ''twap'' (twap_decide demo_twap) demo_session demo_sent"
    by (rule run_step [OF run_start step_decide [OF demo_sends]])
  show "session_run ''twap'' (twap_decide demo_twap) demo_session demo_filled"
    by (rule run_step [OF sent step_outcome [OF reference_slices(1) [OF demo_realism_ok demo_child_ladder]
          demo_child_outcome(4)]])
qed

theorem session_books_balance_witness:
  "se_cash demo_filled = 95000000 - fills_notional (se_fills demo_filled) - fills_fees (se_fills demo_filled)
   \<and> fills_shares (se_fills demo_filled) = 20000000"
  using session_books_balance [OF demo_valid(1) demo_session_made(1) demo_session_run(2)] demo_child_outcome(6)
  by (simp add: demo_plan_def)

theorem one_child_at_a_time_witness:
  "se_pending_action demo_session = None \<and> se_pending_action demo_sent = Some demo_action
   \<and> 4050000000 \<le> se_next_decision_not_before demo_filled"
proof -
  have "xa_kind demo_action = TAKER_SLICE" by (simp add: demo_action_def)
  note one = one_child_at_a_time [OF demo_sends this]
  have "eo_arrival_utc_ns (execute_realism demo_realism demo_child) = 4050000000"
    by (simp add: reference_totals demo_child_def)
  with one demo_child_outcome(4) show ?thesis by force
qed

theorem session_accepts_reference_outcome_witness:
  "\<exists>s'. record_outcome (execute_realism demo_realism demo_child) demo_sent = Inr s'
     \<and> se_filled_shares s' = se_filled_shares demo_sent + 20000000"
proof -
  have policy: "(\<exists>t. twap_decide demo_twap = twap_decide t) \<or> (\<exists>v. twap_decide demo_twap = pov_decide v)"
    by blast
  have q: "rq_requested_shares demo_child = xa_requested_shares demo_action"
    "rq_decision_utc_ns demo_child = 4000000000" "4000000000 \<le> rq_arrival_utc_ns demo_child"
    "rq_arrival_utc_ns demo_child \<le> xp_deadline_utc_ns demo_plan"
    by (simp_all add: demo_child_def demo_action_def demo_plan_def)
  have "outcome_affordable demo_sent (execute_realism demo_realism demo_child)"
    using demo_child_outcome demo_sent_sel by (simp add: outcome_affordable_def demo_plan_def)
  from session_accepts_reference_outcome [OF demo_valid(1) demo_session_made(1) policy demo_session_run(1)
      demo_sent_sel(1,2) demo_realism_ok demo_child_ladder q this] demo_child_outcome(1)
  show ?thesis by auto
qed

theorem session_objective_is_ledger_witness:
  "\<exists>j. session_evaluate 11000000000 (Some 510000) demo_filled = Inr j
     \<and> jr_raw_implementation_shortfall j = 10350000 - notional_scaled 20000000 500000"
proof -
  have "xp_deadline_utc_ns demo_plan \<le> 11000000000" "0 < (510000 :: int)"
    by (simp_all add: demo_plan_def)
  from session_objective_is_ledger [OF demo_valid(1) demo_session_made(2,1) demo_session_run(2)
      demo_child_outcome(5) this] demo_child_outcome(6,7)
  show ?thesis by (auto simp: demo_plan_def)
qed

theorem volume_cursor_causal_witness:
  "traded_volume [(500000000, 1, 7), (2000000000, 1, 40000000), (3000000000, 0, 5), (9000000000, 1, 11)]
     1 1000000000 4000000000 = 40000000"
proof -
  have "filter (\<lambda>(t, _). t \<le> 4000000000)
       (zip [500000000, 2000000000, 3000000000, 9000000000 :: int]
         (zip [1, 1, 0, 1 :: int] [7, 40000000, 5, 11 :: int]))
     = filter (\<lambda>(t, _). t \<le> 4000000000)
       (zip [500000000, 2000000000, 3000000000, 5000000000] (zip [1, 1, 0, 1] [7, 40000000, 5, 99]))"
    by simp
  from volume_cursor_causal [OF demo_cursor_made(1) cursor_start demo_advances(1)
      demo_cursor_made(2) cursor_start demo_advances(2) this]
  show ?thesis by simp
qed

end
