(* ===== verification/Threshold.thy ===== *)
theory Threshold
  imports EngineFacts Episodes Numerics
begin

text \<open>
  The threshold-and-hold strategy: its parameters with the constraints
  \<^verbatim>\<open>backtest/threshold_hold.py\<close> enforces, and its implementation for the event engine in
  \<^verbatim>\<open>strategies/threshold_hold_strategy.py\<close> as a record of callbacks.  The descriptive label that
  becomes part of the strategy's identity is an argument.
\<close>

section \<open>Parameters (threshold_hold.py)\<close>

datatype side_selection = Select_favoured | Select_up | Select_down

datatype entry_execution_policy = Policy_immediate | Policy_twap | Policy_adaptive_pov

record threshold_params =
  th_entry_from_minute :: pyfloat
  th_entry_to_minute :: pyfloat
  th_entry_trigger_price :: int
  th_entry_limit_price :: int
  th_side_selection :: side_selection
  th_order_shares :: "int option"
  th_order_notional :: "int option"
  th_allow_partial_entry :: bool
  th_max_entries_per_episode :: int
  th_reentry_cooldown_seconds :: pyfloat
  th_entry_execution_policy :: entry_execution_policy
  th_execution_horizon_seconds :: pyfloat
  th_execution_slices :: int
  th_execution_participation_ppm :: int
  th_stop_loss_price :: "int option"
  th_stop_loss_from_minute :: "pyfloat option"
  th_stop_loss_fraction_ppm :: int
  th_take_profit_price :: "int option"
  th_take_profit_fraction_ppm :: int
  th_stop_retry_limit :: int
  th_stop_retry_interval_ms :: int
  th_flatten_before_end_seconds :: "pyfloat option"
  th_hold_to_settlement :: bool

text \<open>Comparing floats exactly, at the smaller of the two exponents.\<close>

definition fl_less :: "pyfloat \<Rightarrow> pyfloat \<Rightarrow> bool" where
  "fl_less x y =
     (let e = min (exponent x) (exponent y)
      in mantissa x * 2 ^ nat (exponent x - e) < mantissa y * 2 ^ nat (exponent y - e))"

definition fl_le :: "pyfloat \<Rightarrow> pyfloat \<Rightarrow> bool" where
  "fl_le x y \<longleftrightarrow> \<not> fl_less y x"

definition opt_all :: "('a \<Rightarrow> bool) \<Rightarrow> 'a option \<Rightarrow> bool" where
  "opt_all p x = (case x of None \<Rightarrow> True | Some a \<Rightarrow> p a)"

lemma opt_all_simps [simp]: "opt_all p None" "opt_all p (Some a) \<longleftrightarrow> p a"
  by (simp_all add: opt_all_def)

text \<open>The bounds declared on the fields.\<close>

definition entry_fields_ok :: "threshold_params \<Rightarrow> bool" where
  "entry_fields_ok p \<longleftrightarrow>
     fl_le (Flt 0 0) (th_entry_from_minute p) \<and> fl_less (Flt 0 0) (th_entry_to_minute p)
     \<and> 0 < th_entry_trigger_price p \<and> th_entry_trigger_price p < POLYMARKET_PRICE_SCALE
     \<and> 0 < th_entry_limit_price p \<and> th_entry_limit_price p \<le> POLYMARKET_PRICE_SCALE
     \<and> opt_all (\<lambda>n. 0 < n) (th_order_shares p) \<and> opt_all (\<lambda>n. 0 < n) (th_order_notional p)
     \<and> 1 \<le> th_max_entries_per_episode p \<and> fl_le (Flt 0 0) (th_reentry_cooldown_seconds p)
     \<and> fl_less (Flt 0 0) (th_execution_horizon_seconds p)
     \<and> fl_le (th_execution_horizon_seconds p) (Flt 60 0)
     \<and> 1 \<le> th_execution_slices p \<and> th_execution_slices p \<le> 100
     \<and> 0 < th_execution_participation_ppm p \<and> th_execution_participation_ppm p < 1000000"

definition exit_fields_ok :: "threshold_params \<Rightarrow> bool" where
  "exit_fields_ok p \<longleftrightarrow>
     opt_all (\<lambda>n. 0 < n \<and> n < POLYMARKET_PRICE_SCALE) (th_stop_loss_price p)
     \<and> opt_all (fl_le (Flt 0 0)) (th_stop_loss_from_minute p)
     \<and> 0 < th_stop_loss_fraction_ppm p \<and> th_stop_loss_fraction_ppm p \<le> 1000000
     \<and> opt_all (\<lambda>n. 0 < n \<and> n \<le> POLYMARKET_PRICE_SCALE) (th_take_profit_price p)
     \<and> 0 < th_take_profit_fraction_ppm p \<and> th_take_profit_fraction_ppm p \<le> 1000000
     \<and> 0 \<le> th_stop_retry_limit p \<and> 0 < th_stop_retry_interval_ms p
     \<and> opt_all (fl_le (Flt 0 0)) (th_flatten_before_end_seconds p)"

text \<open>The cross-field validator \<^verbatim>\<open>_check\<close>, after the field constraints.\<close>

definition make_params :: "threshold_params \<Rightarrow> py_error + threshold_params" where
  "make_params p =
     (if \<not> (entry_fields_ok p \<and> exit_fields_ok p) then Inl (ValueError ''field constraint'')
      else if fl_le (th_entry_to_minute p) (th_entry_from_minute p)
      then Inl (ValueError ''entry_to_minute must exceed entry_from_minute'')
      else if th_entry_limit_price p < th_entry_trigger_price p
      then Inl (ValueError ''entry_limit_price_scaled must be at least the trigger price'')
      else if (th_order_shares p = None) = (th_order_notional p = None)
      then Inl (ValueError ''exactly one of order_shares_scaled or order_notional_scaled'')
      else if \<not> opt_all (\<lambda>s. s < th_entry_trigger_price p) (th_stop_loss_price p)
      then Inl (ValueError ''stop_loss_price_scaled must be below the entry trigger'')
      else if \<not> opt_all (\<lambda>s. th_entry_trigger_price p < s) (th_take_profit_price p)
      then Inl (ValueError ''take_profit_price_scaled must be above the entry trigger'')
      else if th_stop_loss_from_minute p \<noteq> None \<and> th_stop_loss_price p = None
      then Inl (ValueError ''stop_loss_from_minute needs a stop_loss_price_scaled to arm'')
      else if th_entry_execution_policy p \<noteq> Policy_immediate \<and> \<not> th_allow_partial_entry p
      then Inl (ValueError ''sequential entry execution requires allow_partial_entry'')
      else Inr p)"

text \<open>\<^verbatim>\<open>int(minutes * 60e9)\<close> and \<^verbatim>\<open>int(seconds * 1e9)\<close>.\<close>

definition minutes_to_ns :: "pyfloat \<Rightarrow> int" where
  "minutes_to_ns m = fl_trunc (fl_mult m (fl_of_int 60000000000))"

definition seconds_to_ns :: "pyfloat \<Rightarrow> int" where
  "seconds_to_ns s = fl_trunc (fl_mult s (fl_of_int 1000000000))"

section \<open>The engine strategy (threshold_hold_strategy.py)\<close>

record threshold_strategy =
  ts_params :: threshold_params
  ts_episode :: episode
  ts_strategy_id :: string
  ts_entry_from_ns :: int
  ts_entry_to_ns :: int
  ts_entries :: int
  ts_position_token :: "string option"
  ts_stop_sent :: bool

definition make_threshold_strategy :: "string \<Rightarrow> threshold_params \<Rightarrow> episode \<Rightarrow> threshold_strategy" where
  "make_threshold_strategy label p e =
     \<lparr>ts_params = p, ts_episode = e, ts_strategy_id = ''threshold_hold-threshold-hold-v1-'' @ label,
      ts_entry_from_ns = ep_start_utc_ns e + minutes_to_ns (th_entry_from_minute p),
      ts_entry_to_ns = ep_start_utc_ns e + minutes_to_ns (th_entry_to_minute p),
      ts_entries = 0, ts_position_token = None, ts_stop_sent = False\<rparr>"

definition candidate_tokens :: "threshold_params \<Rightarrow> episode \<Rightarrow> string list" where
  "candidate_tokens p e =
     (case th_side_selection p of
        Select_up \<Rightarrow> [ep_up_token_id e]
      | Select_down \<Rightarrow> [ep_down_token_id e]
      | Select_favoured \<Rightarrow> [ep_up_token_id e, ep_down_token_id e])"

definition entry_size :: "threshold_params \<Rightarrow> int \<Rightarrow> py_error + int" where
  "entry_size p ask =
     (case th_order_shares p of
        Some n \<Rightarrow> Inr n
      | None \<Rightarrow>
          (case th_order_notional p of
             None \<Rightarrow> Inl AssertionError
           | Some n \<Rightarrow> Inr (n * 1000000 div max ask 1)))"

definition entry_intent :: "threshold_strategy \<Rightarrow> int \<Rightarrow> string \<Rightarrow> int \<Rightarrow> string \<Rightarrow> int \<Rightarrow> order_intent" where
  "entry_intent s now token_id ask outcome requested =
     \<lparr>oi_order_intent_id = Given_id ''uuid4'', oi_strategy_id = ts_strategy_id s,
      oi_decision_timestamp_ns = now, oi_token_id = token_id,
      oi_condition_id = ep_condition_id (ts_episode s), oi_outcome = outcome, oi_side = BUY,
      oi_order_type = MARKETABLE_TAKER,
      oi_limit_price = Some (th_entry_limit_price (ts_params s)),
      oi_requested_shares = Some requested, oi_requested_notional = None,
      oi_time_in_force = ''IOC'',
      oi_metadata = [''trigger_ask_scaled'' \<mapsto> Meta_int ask, ''kind'' \<mapsto> Meta_str ''entry'']\<rparr>"

text \<open>The loop over the candidate tokens: the first one whose ask is inside the trigger and limit.\<close>

definition entry_ask :: "threshold_params \<Rightarrow> strategy_context \<Rightarrow> string \<Rightarrow> int option" where
  "entry_ask p ctx token_id =
     (case ctx_book ctx token_id of
        None \<Rightarrow> None
      | Some b \<Rightarrow>
          if \<not> ob_valid b then None
          else case best_ask b of
            None \<Rightarrow> None
          | Some ask \<Rightarrow>
              if ask < th_entry_trigger_price p \<or> th_entry_limit_price p < ask then None else Some ask)"

fun find_entry :: "threshold_params \<Rightarrow> strategy_context \<Rightarrow> string list \<Rightarrow> (string \<times> int) option" where
  "find_entry p ctx [] = None"
| "find_entry p ctx (t # ts) =
     (case entry_ask p ctx t of None \<Rightarrow> find_entry p ctx ts | Some ask \<Rightarrow> Some (t, ask))"

definition stop_intent :: "threshold_strategy \<Rightarrow> int \<Rightarrow> string \<Rightarrow> int option \<Rightarrow> string \<Rightarrow> int \<Rightarrow> order_intent" where
  "stop_intent s now token_id bid outcome held =
     \<lparr>oi_order_intent_id = Given_id ''uuid4'', oi_strategy_id = ts_strategy_id s,
      oi_decision_timestamp_ns = now, oi_token_id = token_id,
      oi_condition_id = ep_condition_id (ts_episode s), oi_outcome = outcome, oi_side = SELL,
      oi_order_type = MARKETABLE_TAKER, oi_limit_price = None,
      oi_requested_shares = Some (held * th_stop_loss_fraction_ppm (ts_params s) div 1000000),
      oi_requested_notional = None, oi_time_in_force = ''IOC'',
      oi_metadata =
        [''trigger_bid_scaled'' \<mapsto> (case bid of None \<Rightarrow> Meta_str ''None'' | Some b \<Rightarrow> Meta_int b),
         ''kind'' \<mapsto> Meta_str ''stop_loss'']\<rparr>"

definition exit_intents :: "strategy_context \<Rightarrow> int \<Rightarrow> string \<Rightarrow> threshold_strategy
    \<Rightarrow> py_error + order_intent list \<times> threshold_strategy" where
  "exit_intents ctx now token_id s =
     (if ts_stop_sent s then Inr ([], s)
      else case th_stop_loss_price (ts_params s) of
        None \<Rightarrow> Inr ([], s)
      | Some stop \<Rightarrow>
          let held = inventory (ctx_portfolio ctx) token_id in
          if held \<le> 0 then Inr ([], s)
          else case ctx_book ctx token_id of
            None \<Rightarrow> Inr ([], s)
          | Some b \<Rightarrow>
              if (case best_bid b of None \<Rightarrow> False | Some bid \<Rightarrow> stop < bid) then Inr ([], s)
              else
                res_bind (token_outcome (ts_episode s) token_id) (\<lambda>outcome.
                  Inr ([stop_intent s now token_id (best_bid b) outcome held], s\<lparr>ts_stop_sent := True\<rparr>)))"

definition ts_on_market_event :: "replay_event \<Rightarrow> strategy_context \<Rightarrow> threshold_strategy
    \<Rightarrow> py_error + order_intent list \<times> threshold_strategy" where
  "ts_on_market_event ev ctx s =
     (let now = ctx_now_ns ctx; p = ts_params s in
      if ep_end_utc_ns (ts_episode s) < now then Inr ([], s)
      else case ts_position_token s of
        Some token_id \<Rightarrow> exit_intents ctx now token_id s
      | None \<Rightarrow>
          if th_max_entries_per_episode p \<le> ts_entries s then Inr ([], s)
          else if \<not> (ts_entry_from_ns s \<le> now \<and> now \<le> ts_entry_to_ns s) then Inr ([], s)
          else case find_entry p ctx (candidate_tokens p (ts_episode s)) of
            None \<Rightarrow> Inr ([], s)
          | Some (token_id, ask) \<Rightarrow>
              res_bind (token_outcome (ts_episode s) token_id) (\<lambda>outcome.
              res_bind (entry_size p ask) (\<lambda>requested.
                Inr ([entry_intent s now token_id ask outcome requested],
                     s\<lparr>ts_entries := ts_entries s + 1, ts_position_token := Some token_id\<rparr>))))"

definition threshold_hold_strategy :: "string \<Rightarrow> threshold_strategy strategy" where
  "threshold_hold_strategy label =
     \<lparr>st_strategy_id = ''threshold_hold-threshold-hold-v1-'' @ label, st_on_start = (\<lambda>_ s. s),
      st_on_market_event = ts_on_market_event, st_on_btc_price = (\<lambda>_ _ s. Inr ([], s)),
      st_on_trade = (\<lambda>_ _ s. Inr ([], s)), st_on_market_close = (\<lambda>_ _ s. Inr ([], s))\<rparr>"

section \<open>What a sequence of market events makes it do\<close>

text \<open>The calls of the engine, one after the other, with the intents of each next to its context.\<close>

fun ts_calls :: "(replay_event \<times> strategy_context) list \<Rightarrow> threshold_strategy
    \<Rightarrow> py_error + (strategy_context \<times> order_intent) list \<times> threshold_strategy" where
  "ts_calls [] s = Inr ([], s)"
| "ts_calls ((ev, ctx) # calls) s =
     res_bind (ts_on_market_event ev ctx s) (\<lambda>(is, s1).
     res_bind (ts_calls calls s1) (\<lambda>(rest, s2). Inr (map (Pair ctx) is @ rest, s2)))"

definition entry_seen :: "threshold_strategy \<Rightarrow> strategy_context \<Rightarrow> order_intent \<Rightarrow> bool" where
  "entry_seen s ctx i \<longleftrightarrow>
     ts_entry_from_ns s \<le> ctx_now_ns ctx \<and> ctx_now_ns ctx \<le> ts_entry_to_ns s
     \<and> oi_limit_price i = Some (th_entry_limit_price (ts_params s))
     \<and> oi_token_id i \<in> set (candidate_tokens (ts_params s) (ts_episode s))
     \<and> (\<exists>b ask. ctx_book ctx (oi_token_id i) = Some b \<and> ob_valid b \<and> best_ask b = Some ask
          \<and> th_entry_trigger_price (ts_params s) \<le> ask \<and> ask \<le> th_entry_limit_price (ts_params s))"

definition stop_seen :: "threshold_strategy \<Rightarrow> strategy_context \<Rightarrow> order_intent \<Rightarrow> bool" where
  "stop_seen s ctx i \<longleftrightarrow>
     (\<exists>stop b n. th_stop_loss_price (ts_params s) = Some stop \<and> ctx_book ctx (oi_token_id i) = Some b
        \<and> opt_all (\<lambda>bid. bid \<le> stop) (best_bid b)
        \<and> oi_requested_shares i = Some n \<and> 0 \<le> n \<and> n \<le> inventory (ctx_portfolio ctx) (oi_token_id i))"

lemma find_entry_Some:
  "find_entry p ctx ts = Some (t, ask) \<Longrightarrow> t \<in> set ts \<and> entry_ask p ctx t = Some ask"
  by (induction ts) (auto split: option.splits)

lemma entry_ask_Some:
  "entry_ask p ctx t = Some ask \<Longrightarrow> \<exists>b. ctx_book ctx t = Some b \<and> ob_valid b \<and> best_ask b = Some ask
     \<and> th_entry_trigger_price p \<le> ask \<and> ask \<le> th_entry_limit_price p"
  by (auto simp: entry_ask_def split: option.splits if_splits)

lemma candidates_belong: "t \<in> set (candidate_tokens p e) \<Longrightarrow> \<exists>out. token_outcome e t = Inr out"
  by (auto simp: candidate_tokens_def token_outcome_def split: side_selection.splits)

lemma params_facts:
  assumes "make_params p = Inr q"
  shows "q = p" "entry_fields_ok p" "exit_fields_ok p" "th_entry_trigger_price p \<le> th_entry_limit_price p"
    "(th_order_shares p = None) \<noteq> (th_order_notional p = None)"
    "opt_all (\<lambda>s. s < th_entry_trigger_price p) (th_stop_loss_price p)"
    "th_entry_execution_policy p = Policy_immediate \<or> th_allow_partial_entry p"
  using assms unfolding make_params_def by (auto split: if_splits simp: opt_all_def)

lemma entry_size_ok: "make_params p = Inr q \<Longrightarrow> \<exists>n. entry_size p ask = Inr n"
  using params_facts(5) [of p q] by (auto simp: entry_size_def split: option.splits)

text \<open>The three things one event can lead to: nothing, the entry, or the stop.\<close>

lemma ts_event_cases:
  assumes "make_params (ts_params s) = Inr q"
    and "\<And>t. ts_position_token s = Some t \<Longrightarrow> \<exists>out. token_outcome (ts_episode s) t = Inr out"
  obtains
    (nothing) "ts_on_market_event ev ctx s = Inr ([], s)"
  | (enter) i where "ts_position_token s = None"
      "ts_on_market_event ev ctx s
         = Inr ([i], s\<lparr>ts_entries := ts_entries s + 1, ts_position_token := Some (oi_token_id i)\<rparr>)"
      "oi_side i = BUY" "oi_decision_timestamp_ns i = ctx_now_ns ctx" "entry_seen s ctx i"
  | (stop) i where "ts_position_token s = Some (oi_token_id i)" "\<not> ts_stop_sent s"
      "ts_on_market_event ev ctx s = Inr ([i], s\<lparr>ts_stop_sent := True\<rparr>)"
      "oi_side i = SELL" "oi_decision_timestamp_ns i = ctx_now_ns ctx" "stop_seen s ctx i"
proof (cases "ts_position_token s")
  case None
  show thesis
  proof (cases "ep_end_utc_ns (ts_episode s) < ctx_now_ns ctx
      \<or> th_max_entries_per_episode (ts_params s) \<le> ts_entries s
      \<or> \<not> (ts_entry_from_ns s \<le> ctx_now_ns ctx \<and> ctx_now_ns ctx \<le> ts_entry_to_ns s)
      \<or> find_entry (ts_params s) ctx (candidate_tokens (ts_params s) (ts_episode s)) = None")
    case True
    then have "ts_on_market_event ev ctx s = Inr ([], s)"
      using None by (auto simp: ts_on_market_event_def Let_def)
    then show thesis by (rule nothing)
  next
    case False
    then obtain t ask where f: "find_entry (ts_params s) ctx (candidate_tokens (ts_params s) (ts_episode s)) = Some (t, ask)"
      by auto
    from find_entry_Some [OF f] have t: "t \<in> set (candidate_tokens (ts_params s) (ts_episode s))"
      and a: "entry_ask (ts_params s) ctx t = Some ask" by auto
    obtain out n where "token_outcome (ts_episode s) t = Inr out" "entry_size (ts_params s) ask = Inr n"
      using candidates_belong [OF t] entry_size_ok [OF assms(1)] by blast
    then show thesis using None False f t entry_ask_Some [OF a]
      by (intro enter [of "entry_intent s (ctx_now_ns ctx) t ask out n"])
        (auto simp: ts_on_market_event_def Let_def entry_intent_def entry_seen_def)
  qed
next
  case (Some t)
  then obtain out where out: "token_outcome (ts_episode s) t = Inr out" using assms(2) by blast
  show thesis
  proof (cases "ts_on_market_event ev ctx s = Inr ([], s)")
    case False
    with Some out obtain stop b where b: "\<not> ts_stop_sent s" "th_stop_loss_price (ts_params s) = Some stop"
      "0 < inventory (ctx_portfolio ctx) t" "ctx_book ctx t = Some b" "opt_all (\<lambda>bid. bid \<le> stop) (best_bid b)"
      "ts_on_market_event ev ctx s = Inr ([stop_intent s (ctx_now_ns ctx) t (best_bid b) out
         (inventory (ctx_portfolio ctx) t)], s\<lparr>ts_stop_sent := True\<rparr>)"
      by (auto simp: ts_on_market_event_def exit_intents_def Let_def opt_all_def split: if_splits option.splits)
    let ?h = "inventory (ctx_portfolio ctx) t" and ?f = "th_stop_loss_fraction_ppm (ts_params s)"
    have f: "0 < ?f" "?f \<le> 1000000" using params_facts(3) [OF assms(1)] by (auto simp: exit_fields_ok_def)
    have "0 \<le> ?h * ?f div 1000000" using b(3) f by (simp add: pos_imp_zdiv_nonneg_iff)
    moreover have "?h * ?f div 1000000 \<le> ?h"
      using ppm_of_le [of ?h ?f] b(3) f by (simp add: ppm_of_def)
    ultimately show thesis using Some b
      by (intro stop [OF _ _ b(6)]) (auto simp: stop_intent_def stop_seen_def)
  qed (rule nothing)
qed

text \<open>What a call leaves alone, and how the phases follow one another.\<close>

lemma stop_seen_cong: "ts_params s' = ts_params s \<Longrightarrow> stop_seen s' = stop_seen s"
  by (simp add: stop_seen_def fun_eq_iff)

lemma calls_stopped:
  assumes "ts_position_token s = Some t" "ts_stop_sent s"
  shows "ts_calls calls s = Inr ([], s)"
proof (induction calls)
  case (Cons c cs)
  moreover have "ts_on_market_event ev ctx s = Inr ([], s)" for ev ctx
    using assms by (auto simp: ts_on_market_event_def exit_intents_def Let_def)
  ultimately show ?case by (cases c) simp
qed simp

lemma calls_holding:
  assumes "make_params (ts_params s) = Inr q" "ts_position_token s = Some t"
    "token_outcome (ts_episode s) t = Inr out" "\<not> ts_stop_sent s"
  shows "\<exists>is s'. ts_calls calls s = Inr (is, s')
    \<and> (is = [] \<or> (\<exists>ctx i. is = [(ctx, i)] \<and> oi_side i = SELL \<and> oi_token_id i = t
         \<and> oi_decision_timestamp_ns i = ctx_now_ns ctx \<and> stop_seen s ctx i))"
proof (induction calls)
  case (Cons c cs)
  obtain ev ctx where c: "c = (ev, ctx)" by force
  show ?case
  proof (rule ts_event_cases [OF assms(1), of ev ctx])
    show "\<exists>out. token_outcome (ts_episode s) t' = Inr out" if "ts_position_token s = Some t'" for t'
      using that assms(2,3) by simp
  next
    assume "ts_on_market_event ev ctx s = Inr ([], s)"
    with Cons c show ?thesis by auto
  next
    fix i assume i: "ts_position_token s = Some (oi_token_id i)" "oi_side i = SELL"
      "ts_on_market_event ev ctx s = Inr ([i], s\<lparr>ts_stop_sent := True\<rparr>)"
      "oi_decision_timestamp_ns i = ctx_now_ns ctx" "stop_seen s ctx i"
    have "ts_calls cs (s\<lparr>ts_stop_sent := True\<rparr>) = Inr ([], s\<lparr>ts_stop_sent := True\<rparr>)"
      using assms(2) by (intro calls_stopped) auto
    with i c assms(2) show ?thesis by simp
  qed (use assms(2) in simp)
qed simp

lemma calls_waiting:
  assumes "make_params (ts_params s) = Inr q" "ts_position_token s = None" "\<not> ts_stop_sent s"
  shows "\<exists>is s'. ts_calls calls s = Inr (is, s')
    \<and> (is = [] \<or> (\<exists>ctx i rest. is = (ctx, i) # rest \<and> oi_side i = BUY
         \<and> oi_decision_timestamp_ns i = ctx_now_ns ctx \<and> entry_seen s ctx i
         \<and> (rest = [] \<or> (\<exists>ctx' j. rest = [(ctx', j)] \<and> oi_side j = SELL \<and> oi_token_id j = oi_token_id i
              \<and> oi_decision_timestamp_ns j = ctx_now_ns ctx' \<and> stop_seen s ctx' j))))"
proof (induction calls)
  case (Cons c cs)
  obtain ev ctx where c: "c = (ev, ctx)" by force
  show ?case
  proof (rule ts_event_cases [OF assms(1), of ev ctx])
    show "\<exists>out. token_outcome (ts_episode s) t' = Inr out" if "ts_position_token s = Some t'" for t'
      using that assms(2) by simp
  next
    assume "ts_on_market_event ev ctx s = Inr ([], s)"
    with Cons c show ?thesis by auto
  next
    fix i assume i: "oi_side i = BUY" "oi_decision_timestamp_ns i = ctx_now_ns ctx" "entry_seen s ctx i"
      "ts_on_market_event ev ctx s
         = Inr ([i], s\<lparr>ts_entries := ts_entries s + 1, ts_position_token := Some (oi_token_id i)\<rparr>)"
    let ?s1 = "s\<lparr>ts_entries := ts_entries s + 1, ts_position_token := Some (oi_token_id i)\<rparr>"
    obtain out where "token_outcome (ts_episode s) (oi_token_id i) = Inr out"
      using candidates_belong i(3) unfolding entry_seen_def by blast
    then have "\<exists>is s'. ts_calls cs ?s1 = Inr (is, s')
      \<and> (is = [] \<or> (\<exists>ctx' j. is = [(ctx', j)] \<and> oi_side j = SELL \<and> oi_token_id j = oi_token_id i
           \<and> oi_decision_timestamp_ns j = ctx_now_ns ctx' \<and> stop_seen s ctx' j))"
      using calls_holding [of ?s1 q "oi_token_id i" out cs] assms
      by (simp add: stop_seen_cong [of ?s1 s])
    with i c show ?thesis by fastforce
  qed (use assms in simp)
qed simp

text \<open>The engine's causality theorem covers this strategy.\<close>

lemma threshold_stamps_now: "stamps_now (threshold_hold_strategy label)"
  by (auto simp: stamps_now_def threshold_hold_strategy_def ts_on_market_event_def exit_intents_def
      entry_intent_def stop_intent_def Let_def split: option.splits if_splits)

text \<open>The arming minute of the stop is read nowhere: a state that differs only in it behaves the same.\<close>

definition rearmed :: "pyfloat option \<Rightarrow> threshold_strategy \<Rightarrow> threshold_strategy" where
  "rearmed m s = s\<lparr>ts_params := (ts_params s)\<lparr>th_stop_loss_from_minute := m\<rparr>\<rparr>"

lemma rearmed_simps [simp]:
  "ts_episode (rearmed m s) = ts_episode s" "ts_position_token (rearmed m s) = ts_position_token s"
  "ts_entries (rearmed m s) = ts_entries s" "ts_stop_sent (rearmed m s) = ts_stop_sent s"
  "ts_entry_from_ns (rearmed m s) = ts_entry_from_ns s" "ts_entry_to_ns (rearmed m s) = ts_entry_to_ns s"
  "ts_params (rearmed m s) = (ts_params s)\<lparr>th_stop_loss_from_minute := m\<rparr>"
  "(rearmed m s)\<lparr>ts_stop_sent := b\<rparr> = rearmed m (s\<lparr>ts_stop_sent := b\<rparr>)"
  "(rearmed m s)\<lparr>ts_entries := n, ts_position_token := t\<rparr> = rearmed m (s\<lparr>ts_entries := n, ts_position_token := t\<rparr>)"
  "entry_intent (rearmed m s) = entry_intent s" "stop_intent (rearmed m s) = stop_intent s"
  by (simp_all add: rearmed_def entry_intent_def stop_intent_def fun_eq_iff)

lemma rearmed_entry [simp]:
  "entry_size (p\<lparr>th_stop_loss_from_minute := m\<rparr>) ask = entry_size p ask"
  "candidate_tokens (p\<lparr>th_stop_loss_from_minute := m\<rparr>) = candidate_tokens p"
  "find_entry (p\<lparr>th_stop_loss_from_minute := m\<rparr>) ctx ts = find_entry p ctx ts"
proof -
  show "entry_size (p\<lparr>th_stop_loss_from_minute := m\<rparr>) ask = entry_size p ask"
    by (simp add: entry_size_def split: option.split)
  show "candidate_tokens (p\<lparr>th_stop_loss_from_minute := m\<rparr>) = candidate_tokens p"
    by (simp add: candidate_tokens_def fun_eq_iff)
  have "entry_ask (p\<lparr>th_stop_loss_from_minute := m\<rparr>) ctx t = entry_ask p ctx t" for t
    by (simp add: entry_ask_def split: option.split)
  then show "find_entry (p\<lparr>th_stop_loss_from_minute := m\<rparr>) ctx ts = find_entry p ctx ts"
    by (induction ts) (simp_all split: option.split)
qed

lemma rearmed_event:
  "ts_on_market_event ev ctx (rearmed m s)
     = (case ts_on_market_event ev ctx s of Inl x \<Rightarrow> Inl x | Inr (is, s') \<Rightarrow> Inr (is, rearmed m s'))"
  by (auto simp: ts_on_market_event_def exit_intents_def Let_def res_bind_def split: option.split sum.split)

lemma rearmed_calls:
  "ts_calls calls s = Inr (is, s') \<Longrightarrow> ts_calls calls (rearmed m s) = Inr (is, rearmed m s')"
proof (induction calls arbitrary: s "is")
  case (Cons c cs)
  obtain ev ctx where c: "c = (ev, ctx)" by force
  from Cons.prems c obtain is1 s1 is2 where "ts_on_market_event ev ctx s = Inr (is1, s1)"
    "ts_calls cs s1 = Inr (is2, s')" "is = map (Pair ctx) is1 @ is2"
    by (auto simp: res_bind_def split: sum.splits)
  with Cons.IH c show ?case by (simp add: rearmed_event)
qed simp

section \<open>Properties\<close>


definition demo_params :: threshold_params where
  "demo_params =
     \<lparr>th_entry_from_minute = Flt 12 0, th_entry_to_minute = Flt 14 0,
      th_entry_trigger_price = 800000, th_entry_limit_price = 850000,
      th_side_selection = Select_favoured, th_order_shares = Some 100000000, th_order_notional = None,
      th_allow_partial_entry = True, th_max_entries_per_episode = 1,
      th_reentry_cooldown_seconds = Flt 30 0, th_entry_execution_policy = Policy_immediate,
      th_execution_horizon_seconds = Flt 2 0, th_execution_slices = 4,
      th_execution_participation_ppm = 200000, th_stop_loss_price = Some 750000,
      th_stop_loss_from_minute = None, th_stop_loss_fraction_ppm = 1000000,
      th_take_profit_price = None, th_take_profit_fraction_ppm = 1000000, th_stop_retry_limit = 3,
      th_stop_retry_interval_ms = 250, th_flatten_before_end_seconds = None,
      th_hold_to_settlement = True\<rparr>"

lemma demo_params_ok: "make_params demo_params = Inr demo_params"
proof -
  have "\<not> isl (make_params demo_params)" by code_simp
  then show ?thesis using params_facts(1) [of demo_params] by (cases "make_params demo_params") auto
qed

definition hold_episode :: episode where
  "hold_episode = (build_episode demo_index demo_market)\<lparr>ep_end_utc_ns := 900000000000\<rparr>"

definition hold_context :: strategy_context where
  "hold_context =
     \<lparr>ctx_portfolio = make_portfolio 0 False False, ctx_now_ns = 780000000000,
      ctx_books = [(''t'', demo_book\<lparr>ob_bids := [(810000, 2000000)], ob_asks := [(820000, 4000000)]\<rparr>)],
      ctx_btc_prices = []\<rparr>"

lemma hold_minutes:
  "minutes_to_ns (th_entry_from_minute demo_params) = 720000000000"
  "minutes_to_ns (th_entry_to_minute demo_params) = 840000000000"
  by (simp_all add: minutes_to_ns_def demo_params_def fl_mult_def fl_of_int_def fl_round_exact fl_trunc_def)

lemma hold_facts:
  "find_entry demo_params hold_context (candidate_tokens demo_params hold_episode) = Some (''t'', 820000)"
  "token_outcome hold_episode ''t'' = Inr ''UP''"
  "entry_size demo_params 820000 = Inr 100000000"
  "ep_start_utc_ns hold_episode = 0" "ep_end_utc_ns hold_episode = 900000000000"
  "ctx_now_ns hold_context = 780000000000" "th_max_entries_per_episode demo_params = 1"
  by code_simp+

lemma hold_sides:
  "\<exists>i s'. ts_calls [(demo_event 0, hold_context)] (make_threshold_strategy ''x'' demo_params hold_episode)
     = Inr ([(hold_context, i)], s') \<and> oi_side i = BUY"
  by (simp add: ts_on_market_event_def make_threshold_strategy_def hold_minutes hold_facts Let_def entry_intent_def)


end
