(* ===== verification/Fastsim.thy ===== *)
theory Fastsim
  imports Tape Session Threshold
begin

text \<open>
  The order path of the tape simulator, \<^verbatim>\<open>backtest/fastsim.py\<close>: which book an arriving order
  meets, the depth its own earlier orders have taken from it, what a budget affords, and \<^verbatim>\<open>_send\<close>,
  which every entry and exit goes through.  The executor's seeded generator is a parameter.
  \<^verbatim>\<open>decision_minute\<close>, a rounded float for reports, is left out of the order record.
\<close>

section \<open>Orders sent by the simulator\<close>

datatype sent_kind = Kind_entry | Kind_stop_loss | Kind_take_profit | Kind_flatten

record simulated_order =
  so_kind :: sent_kind
  so_side :: side
  so_decision_utc_ns :: int
  so_arrival_utc_ns :: int
  so_trigger_price :: "int option"
  so_requested_shares :: int
  so_filled_shares :: int
  so_notional :: int
  so_fees :: int
  so_average_price :: "int option"
  so_slippage :: "int option"
  so_levels_consumed :: nat
  so_rejected_reason :: "string option"
  so_binding_constraint :: "string option"

definition order_from_outcome :: "sent_kind \<Rightarrow> side \<Rightarrow> execution_outcome \<Rightarrow> int option \<Rightarrow> simulated_order" where
  "order_from_outcome kind s out trigger =
     \<lparr>so_kind = kind, so_side = s, so_decision_utc_ns = eo_decision_utc_ns out,
      so_arrival_utc_ns = eo_arrival_utc_ns out, so_trigger_price = trigger,
      so_requested_shares = eo_requested_shares out, so_filled_shares = eo_filled_shares out,
      so_notional = eo_notional out, so_fees = eo_fees out,
      so_average_price = average_price_scaled out, so_slippage = slippage_scaled out,
      so_levels_consumed = length (eo_slices out), so_rejected_reason = eo_rejected_reason out,
      so_binding_constraint = eo_binding_constraint out\<rparr>"

section \<open>Finding the book an order meets\<close>

text \<open>Row indices and receipt times of one token, in tape order.\<close>

definition row_of :: "tape \<Rightarrow> int \<Rightarrow> tape_row" where
  "row_of t row = tape_rows t ! nat row"

definition token_rows :: "tape \<Rightarrow> int \<Rightarrow> int list \<times> int list" where
  "token_rows t token_index =
     (let rows = map int (filter (\<lambda>i. row_token_index (tape_rows t ! i) = token_index) [0..<length (tape_rows t)])
      in (rows, map (\<lambda>i. row_received_utc_ns (row_of t i)) rows))"

definition row_at :: "int list \<times> int list \<Rightarrow> int \<Rightarrow> int option" where
  "row_at rs timestamp_ns =
     (let position = bisect_right (snd rs) timestamp_ns
      in if position = 0 then None else Some (fst rs ! (position - 1)))"

section \<open>The depth an order has already taken\<close>

type_synonym impact_key = "int \<times> book_side \<times> int"

text \<open>
  What survives from one send to the next: the generator, the depth taken per token, side and
  price, and per token the last tape row up to which replenishment has been applied.
\<close>

record 'r sim =
  sm_rng :: 'r
  sm_consumed :: "(impact_key \<times> int) list"
  sm_cursor :: "int \<rightharpoonup> int"

definition reconcile_event :: "tape \<Rightarrow> int \<Rightarrow> int \<Rightarrow> (impact_key \<times> int) list \<Rightarrow> (impact_key \<times> int) list" where
  "reconcile_event t token_index event_row consumed =
     (let r = row_of t event_row
      in case row_event_kind r of
           Kind_snapshot \<Rightarrow> filter (\<lambda>(key, _). fst key \<noteq> token_index) consumed
         | Kind_update \<Rightarrow>
             filter (\<lambda>(key, _). key \<noteq> (token_index, row_event_side r, fill_null 0 (row_event_price r))) consumed
         | Kind_tick \<Rightarrow> consumed)"

definition reconcile_self_impact :: "tape \<Rightarrow> int \<Rightarrow> int list \<Rightarrow> int \<Rightarrow> 'r sim \<Rightarrow> 'r sim" where
  "reconcile_self_impact t token_index rows through_row s =
     (let last_row = (case sm_cursor s token_index of None \<Rightarrow> -1 | Some row \<Rightarrow> row)
      in if through_row \<le> last_row then s
         else
           let first = bisect_right rows last_row;
               stop = bisect_right rows through_row
           in s\<lparr>sm_consumed := fold (reconcile_event t token_index) (drop first (take stop rows)) (sm_consumed s),
                sm_cursor := (sm_cursor s)(token_index \<mapsto> through_row)\<rparr>)"

definition impact_of :: "int \<Rightarrow> book_side \<Rightarrow> (impact_key \<times> int) list \<Rightarrow> (int \<times> int) list" where
  "impact_of token_index bs consumed =
     map (\<lambda>((_, _, price), sz). (price, sz))
       (filter (\<lambda>((token, taken_side, _), _). token = token_index \<and> taken_side = bs) consumed)"

definition dict_get :: "('k \<times> int) list \<Rightarrow> 'k \<Rightarrow> int" where
  "dict_get d k = (case map_of d k of None \<Rightarrow> 0 | Some v \<Rightarrow> v)"

definition apply_self_impact :: "(int \<times> int) list \<Rightarrow> (int \<times> int) list \<Rightarrow> (int \<times> int) list" where
  "apply_self_impact ladder taken =
     (if taken = [] then ladder
      else filter (\<lambda>(_, left). 0 < left) (map (\<lambda>(price, sz). (price, sz - dict_get taken price)) ladder))"

definition impacted_ladder :: "tape \<Rightarrow> int \<Rightarrow> book_side \<Rightarrow> int \<Rightarrow> (impact_key \<times> int) list \<Rightarrow> (int \<times> int) list" where
  "impacted_ladder t token_index bs row consumed =
     apply_self_impact (tape_ladder t (nat row) bs) (impact_of token_index bs consumed)"

definition consume_slice :: "int \<Rightarrow> book_side \<Rightarrow> fill_slice \<Rightarrow> (impact_key \<times> int) list \<Rightarrow> (impact_key \<times> int) list" where
  "consume_slice token_index bs x consumed =
     (let key = (token_index, bs, fs_price x)
      in dict_put key (dict_get consumed key + fs_size x) consumed)"

section \<open>What a budget affords\<close>

text \<open>The binary search of \<^verbatim>\<open>_max_affordable_shares\<close>, on an interval that shrinks every round.\<close>

function afford_search :: "fee_config \<Rightarrow> int \<Rightarrow> int \<Rightarrow> int \<Rightarrow> int \<Rightarrow> int" where
  "afford_search fee spend price low high =
     (if low < high then
        (let middle = (low + high + 1) div 2
         in if buy_cost fee middle price \<le> spend then afford_search fee spend price middle high
            else afford_search fee spend price low (middle - 1))
      else low)"
  by pat_completeness auto
termination
  by (relation "measure (\<lambda>(fee, spend, price, low, high). nat (high - low))") auto

declare afford_search.simps [simp del]

definition max_affordable_shares :: "int \<Rightarrow> int \<Rightarrow> fee_config \<Rightarrow> int option \<Rightarrow> int" where
  "max_affordable_shares spend price fee upper =
     (if spend \<le> 0 \<or> price \<le> 0 then 0
      else afford_search fee spend price 0
        (case upper of None \<Rightarrow> spend * POLYMARKET_PRICE_SCALE div price + 1 | Some u \<Rightarrow> u))"

text \<open>The loop of \<^verbatim>\<open>_cap_buy_to_spend\<close>: the slices that fit, the last one trimmed.\<close>

fun cap_slices :: "execution_realism \<Rightarrow> fill_slice list \<Rightarrow> int \<Rightarrow> fill_slice list \<times> bool" where
  "cap_slices r [] remaining = ([], False)"
| "cap_slices r (x # xs) remaining =
     (let cost = fs_notional x + fs_fee x
      in if cost \<le> remaining then
           (let (kept, bound) = cap_slices r xs (remaining - cost) in (x # kept, bound))
         else
           let sz = max_affordable_shares remaining (fs_price x) (er_fee r) (Some (fs_size x))
           in (if 0 < sz then [make_slice r (fs_price x) sz (fs_level_rank x)] else [], True))"

definition cap_buy_to_spend :: "execution_realism \<Rightarrow> int \<Rightarrow> execution_outcome \<Rightarrow> execution_outcome \<times> bool" where
  "cap_buy_to_spend r spend out =
     (let (kept, stopped) = cap_slices r (eo_slices out) (max 0 spend);
          cash_bound = (stopped \<or> length kept < length (eo_slices out));
          out1 = out\<lparr>eo_slices := kept, eo_filled_shares := sum_list (map fs_size kept),
                     eo_notional := sum_list (map fs_notional kept),
                     eo_fees := sum_list (map fs_fee kept)\<rparr>;
          out2 = (if cash_bound then out1\<lparr>eo_binding_constraint := Some ''cash_budget''\<rparr> else out1);
          out3 = (if eo_filled out2 then out2
                  else out2\<lparr>eo_rejected_reason := Some ''insufficient_cash_including_fees''\<rparr>)
      in (out3, cash_bound))"

section \<open>Sending an order\<close>

text \<open>\<^verbatim>\<open>CashAvailability\<close>: a wallet's balance as a function of time; a fixed balance is constant.\<close>

type_synonym cash_source = "(int \<Rightarrow> int) option"

definition cash_at :: "cash_source \<Rightarrow> int \<Rightarrow> int option" where
  "cash_at source timestamp_ns = map_option (\<lambda>f. max 0 (f timestamp_ns)) source"

record send_request =
  sq_token_index :: int
  sq_side :: side
  sq_decision_ns :: int
  sq_shares :: int
  sq_max_spend :: "int option"
  sq_available_cash :: cash_source
  sq_require_full_fill :: bool
  sq_limit_price :: "int option"
  sq_reference_price :: "int option"
  sq_taker_delay_ns :: int
  sq_deadline_ns :: "int option"

definition rejected_outcome :: "string \<Rightarrow> int \<Rightarrow> send_request \<Rightarrow> execution_outcome" where
  "rejected_outcome reason arrival_ns q =
     \<lparr>eo_requested_shares = sq_shares q, eo_filled_shares = 0, eo_notional = 0, eo_fees = 0,
      eo_slices = [], eo_rejected_reason = Some reason, eo_binding_constraint = None,
      eo_arrival_utc_ns = arrival_ns, eo_decision_utc_ns = sq_decision_ns q,
      eo_reference_price = sq_reference_price q, eo_side_is_buy = (sq_side q = BUY)\<rparr>"

definition taker_book_side :: "side \<Rightarrow> book_side" where
  "taker_book_side s = (if s = BUY then Book_side_asks else Book_side_bids)"

definition spend_cap :: "send_request \<Rightarrow> int option \<Rightarrow> int option" where
  "spend_cap q cash_available =
     (if sq_side q = BUY \<and> sq_max_spend q = None then cash_available else sq_max_spend q)"

text \<open>The executor's request at the matched row; a notional-sized buy asks for what its budget affords.\<close>

definition match_request :: "execution_realism \<Rightarrow> tape \<Rightarrow> send_request \<Rightarrow> (int \<times> int) list \<Rightarrow> int \<Rightarrow> int \<Rightarrow> taker_request" where
  "match_request r t q ladder row arrival_ns =
     \<lparr>rq_side = sq_side q, rq_ladder = ladder,
      rq_requested_shares =
        (case sq_max_spend q of
           Some m \<Rightarrow>
             if sq_side q = BUY \<and> ladder \<noteq> [] then max_affordable_shares m (fst (hd ladder)) (er_fee r) None
             else sq_shares q
         | None \<Rightarrow> sq_shares q),
      rq_limit_price = sq_limit_price q, rq_reference_price = sq_reference_price q,
      rq_realised_volume = None, rq_decision_utc_ns = sq_decision_ns q, rq_arrival_utc_ns = arrival_ns,
      rq_book_age_ns = arrival_ns - row_received_utc_ns (row_of t row),
      rq_minimum_order_size = ep_minimum_order_size (tape_episode t),
      rq_tick_size = ep_tick_size (tape_episode t)\<rparr>"

definition match_outcome :: "execution_realism \<Rightarrow> send_request \<Rightarrow> int option \<Rightarrow> execution_outcome \<Rightarrow> execution_outcome" where
  "match_outcome r q cap out0 =
     (let (out, cash_bound) =
            (case cap of
               Some c \<Rightarrow> if sq_side q = BUY \<and> eo_filled out0 then cap_buy_to_spend r c out0 else (out0, False)
             | None \<Rightarrow> (out0, False));
          notional_sized = (sq_side q = BUY \<and> sq_max_spend q \<noteq> None);
          full_fill = (eo_filled_shares out = eo_requested_shares out \<or> (notional_sized \<and> cash_bound))
      in if sq_require_full_fill q \<and> eo_filled out \<and> \<not> full_fill
         then out\<lparr>eo_slices := [], eo_filled_shares := 0, eo_notional := 0, eo_fees := 0,
                  eo_rejected_reason := Some ''partial_entry_disallowed''\<rparr>
         else out)"

definition match_order :: "execution_realism \<Rightarrow> tape \<Rightarrow> send_request \<Rightarrow> int option \<Rightarrow> int \<Rightarrow> int \<Rightarrow> 'r sim
    \<Rightarrow> execution_outcome \<times> 'r sim" where
  "match_order r t q cash_available row arrival_ns s0 =
     (let tok = sq_token_index q; bs = taker_book_side (sq_side q);
          s = reconcile_self_impact t tok (fst (token_rows t tok)) row s0;
          ladder = impacted_ladder t tok bs row (sm_consumed s);
          out = match_outcome r q (spend_cap q cash_available)
                  (execute_realism r (match_request r t q ladder row arrival_ns))
      in (out, if eo_filled out
               then s\<lparr>sm_consumed := fold (consume_slice tok bs) (eo_slices out) (sm_consumed s)\<rparr> else s))"

text \<open>Why the cash at arrival refuses a buy: none at all, or less than a notional order asks to spend.\<close>

definition cash_refused :: "send_request \<Rightarrow> int option \<Rightarrow> bool" where
  "cash_refused q cash_available \<longleftrightarrow>
     sq_side q = BUY \<and> (case cash_available of
         None \<Rightarrow> False
       | Some c \<Rightarrow> c \<le> 0 \<or> (case sq_max_spend q of None \<Rightarrow> False | Some m \<Rightarrow> c < m))"

definition send_at :: "execution_realism \<Rightarrow> tape \<Rightarrow> send_request \<Rightarrow> int \<Rightarrow> 'r sim \<Rightarrow> execution_outcome \<times> 'r sim" where
  "send_at r t q arrival_ns s =
     (let cash_available = cash_at (sq_available_cash q) arrival_ns;
          tok = sq_token_index q
      in if (case sq_deadline_ns q of None \<Rightarrow> False | Some d \<Rightarrow> d < arrival_ns)
         then (rejected_outcome ''parent_deadline_elapsed'' arrival_ns q, s)
         else if ep_end_utc_ns (tape_episode t) \<le> arrival_ns
         then (rejected_outcome ''market_closed_at_arrival'' arrival_ns q, s)
         else if cash_refused q cash_available
         then (rejected_outcome ''insufficient_available_cash'' arrival_ns q, s)
         else case row_at (token_rows t tok) arrival_ns of
           None \<Rightarrow> (rejected_outcome ''no_book_at_arrival'' arrival_ns q, s)
         | Some row \<Rightarrow>
             if er_require_valid_book r
               \<and> (\<not> row_book_valid (row_of t row) \<or> is_uncertain t (token_id_of t tok) arrival_ns)
             then (rejected_outcome ''book_state_uncertain'' arrival_ns q, s)
             else match_order r t q cash_available row arrival_ns s)"

definition send :: "'r rng \<Rightarrow> execution_realism \<Rightarrow> tape \<Rightarrow> send_request \<Rightarrow> 'r sim
    \<Rightarrow> py_error + execution_outcome \<times> 'r sim" where
  "send g r t q s =
     (case sample_latency_ns g r (sm_rng s) of
        (Inl e, _) \<Rightarrow> Inl e
      | (Inr latency, rng') \<Rightarrow>
          Inr (send_at r t q (sq_decision_ns q + latency + sq_taker_delay_ns q) (s\<lparr>sm_rng := rng'\<rparr>)))"

section \<open>The budget search\<close>

lemma afford_search_spec:
  assumes "fee_config_ok fee" "0 \<le> price" "price \<le> POLYMARKET_PRICE_SCALE" "low \<le> high"
    "buy_cost fee low price \<le> spend" "\<And>m. high < m \<Longrightarrow> m \<le> bnd \<Longrightarrow> spend < buy_cost fee m price"
  shows "low \<le> afford_search fee spend price low high \<and> afford_search fee spend price low high \<le> high
    \<and> buy_cost fee (afford_search fee spend price low high) price \<le> spend
    \<and> (\<forall>m. afford_search fee spend price low high < m \<longrightarrow> m \<le> bnd \<longrightarrow> spend < buy_cost fee m price)"
  using assms
proof (induction fee spend price low high rule: afford_search.induct)
  case (1 fee spend price low high)
  note step = afford_search.simps [of fee spend price low high]
  let ?mid = "(low + high + 1) div 2"
  show ?case
  proof (cases "low < high")
    case False
    then have "afford_search fee spend price low high = low" by (simp add: step)
    with False "1.prems" show ?thesis by simp
  next
    case True
    then have mid: "low < ?mid" "?mid \<le> high" by auto
    show ?thesis
    proof (cases "buy_cost fee ?mid price \<le> spend")
      case fits: True
      have "?mid \<le> afford_search fee spend price ?mid high \<and> afford_search fee spend price ?mid high \<le> high
        \<and> buy_cost fee (afford_search fee spend price ?mid high) price \<le> spend
        \<and> (\<forall>m. afford_search fee spend price ?mid high < m \<longrightarrow> m \<le> bnd \<longrightarrow> spend < buy_cost fee m price)"
        by (rule "1.IH"(1) [OF True refl fits]) (use mid fits "1.prems" in auto)
      with mid show ?thesis using True fits by (simp add: step)
    next
      case over: False
      have above: "spend < buy_cost fee m price" if "?mid - 1 < m" "m \<le> bnd" for m
      proof -
        have "?mid \<le> m" using that by simp
        then have "buy_cost fee ?mid price \<le> buy_cost fee m price"
          by (rule buy_cost_mono [OF "1.prems"(1,2,3)])
        with over show ?thesis by simp
      qed
      have "low \<le> afford_search fee spend price low (?mid - 1)
        \<and> afford_search fee spend price low (?mid - 1) \<le> ?mid - 1
        \<and> buy_cost fee (afford_search fee spend price low (?mid - 1)) price \<le> spend
        \<and> (\<forall>m. afford_search fee spend price low (?mid - 1) < m \<longrightarrow> m \<le> bnd \<longrightarrow> spend < buy_cost fee m price)"
        by (rule "1.IH"(2) [OF True refl over]) (use mid above "1.prems" in auto)
      with mid show ?thesis using True over by (simp add: step)
    qed
  qed
qed

text \<open>The bound the search starts from when none is given.\<close>

definition search_bound :: "int \<Rightarrow> int \<Rightarrow> int option \<Rightarrow> int" where
  "search_bound spend price upper =
     (case upper of None \<Rightarrow> spend * POLYMARKET_PRICE_SCALE div price + 1 | Some u \<Rightarrow> u)"

lemma max_affordable_spec:
  assumes "fee_config_ok fee" "price \<le> POLYMARKET_PRICE_SCALE" "opt_all (\<lambda>u. 0 \<le> u) upper"
    "n = max_affordable_shares spend price fee upper"
  shows "0 \<le> n" "buy_cost fee n price \<le> max 0 spend"
    "upper = Some u \<Longrightarrow> n \<le> u"
    "0 < spend \<Longrightarrow> 0 < price \<Longrightarrow> n < m \<Longrightarrow> m \<le> search_bound spend price upper \<Longrightarrow> spend < buy_cost fee m price"
proof -
  have "0 \<le> n \<and> buy_cost fee n price \<le> max 0 spend \<and> (\<forall>u. upper = Some u \<longrightarrow> n \<le> u)
    \<and> (0 < spend \<longrightarrow> 0 < price \<longrightarrow>
         (\<forall>m. n < m \<longrightarrow> m \<le> search_bound spend price upper \<longrightarrow> spend < buy_cost fee m price))"
  proof (cases "spend \<le> 0 \<or> price \<le> 0")
    case True
    with assms(3,4) show ?thesis by (auto simp: max_affordable_shares_def)
  next
    case False
    then have pos: "0 < spend" "0 < price" by auto
    have b: "0 \<le> search_bound spend price upper"
      using assms(3) pos by (auto simp: search_bound_def pos_imp_zdiv_nonneg_iff split: option.split)
    have n: "n = afford_search fee spend price 0 (search_bound spend price upper)"
      using assms(4) pos by (simp add: max_affordable_shares_def search_bound_def)
    have "0 \<le> n \<and> n \<le> search_bound spend price upper \<and> buy_cost fee n price \<le> spend
      \<and> (\<forall>m. n < m \<longrightarrow> m \<le> search_bound spend price upper \<longrightarrow> spend < buy_cost fee m price)"
      unfolding n by (rule afford_search_spec [OF assms(1) _ assms(2) b]) (use pos in auto)
    with pos show ?thesis by (auto simp: search_bound_def)
  qed
  then show "0 \<le> n" "buy_cost fee n price \<le> max 0 spend"
    "upper = Some u \<Longrightarrow> n \<le> u"
    "0 < spend \<Longrightarrow> 0 < price \<Longrightarrow> n < m \<Longrightarrow> m \<le> search_bound spend price upper \<Longrightarrow> spend < buy_cost fee m price"
    by blast+
qed

text \<open>Beyond the default bound, the notional with a single unit of fee is over the budget.\<close>

lemma beyond_default_bound:
  assumes "0 < price" "search_bound spend price None < m"
  shows "spend \<le> notional_scaled m price"
proof -
  have "spend * POLYMARKET_PRICE_SCALE div price + 1 < m" using assms(2) by (simp add: search_bound_def)
  then have "price * (spend * POLYMARKET_PRICE_SCALE div price + 1) \<le> price * m"
    using assms(1) by (intro mult_left_mono) auto
  moreover have "spend * POLYMARKET_PRICE_SCALE < price * (spend * POLYMARKET_PRICE_SCALE div price + 1)"
    using mult_div_mod_eq [of price "spend * POLYMARKET_PRICE_SCALE"]
      pos_mod_bound [OF assms(1), of "spend * POLYMARKET_PRICE_SCALE"]
    unfolding distrib_left by linarith
  ultimately have "spend * POLYMARKET_PRICE_SCALE \<le> m * price" by (simp add: mult.commute)
  then show ?thesis unfolding notional_scaled_def by (intro round_half_up_ge) auto
qed

section \<open>Outcomes drawn from a ladder\<close>

text \<open>
  The slices take distinct levels of a ladder, each no more than the level shows, priced and
  charged as the fee schedule says, and the totals are their sums.
\<close>

definition slice_in :: "execution_realism \<Rightarrow> (int \<times> int) list \<Rightarrow> fill_slice \<Rightarrow> bool" where
  "slice_in r ladder x \<longleftrightarrow>
     (\<exists>d. (fs_price x, d) \<in> set ladder \<and> fs_size x \<le> d) \<and> 0 < fs_size x
     \<and> 0 < fs_price x \<and> fs_price x \<le> POLYMARKET_PRICE_SCALE
     \<and> fs_notional x = notional_scaled (fs_size x) (fs_price x)
     \<and> fs_fee x = calculate_fee (er_fee r) (fs_size x) (fs_price x)"

definition outcome_from :: "execution_realism \<Rightarrow> (int \<times> int) list \<Rightarrow> execution_outcome \<Rightarrow> bool" where
  "outcome_from r ladder out \<longleftrightarrow>
     (\<forall>x \<in> set (eo_slices out). slice_in r ladder x) \<and> distinct (map fs_price (eo_slices out))
     \<and> eo_filled_shares out = sum_list (map fs_size (eo_slices out))
     \<and> eo_notional out = sum_list (map fs_notional (eo_slices out))
     \<and> eo_fees out = sum_list (map fs_fee (eo_slices out))
     \<and> eo_filled_shares out \<le> max 0 (eo_requested_shares out)
     \<and> (eo_filled_shares out = 0 \<longrightarrow> eo_rejected_reason out \<noteq> None)"

definition ladder_sane :: "(int \<times> int) list \<Rightarrow> bool" where
  "ladder_sane ls \<longleftrightarrow> distinct (map fst ls)
     \<and> (\<forall>(p, d) \<in> set ls. 0 < p \<and> p < POLYMARKET_PRICE_SCALE \<and> 0 < d)"

lemma ladder_sane_ok: "ladder_sane ls \<Longrightarrow> ladder_ok ls"
  by (force simp: ladder_sane_def ladder_ok_def)

lemma slices_from_prices:
  "slices_from r s limit rank ls xs \<Longrightarrow> distinct (map fst ls) \<Longrightarrow>
     distinct (map fs_price xs) \<and> set (map fs_price xs) \<subseteq> set (map fst ls)"
proof (induction r s limit rank ls xs rule: slices_from.induct)
  case (3 r s limit rank price displayed ls y ys)
  then consider "fs_price y = price" "slices_from r s limit (rank + 1) ls ys"
    | "slices_from r s limit (rank + 1) ls (y # ys)" by (auto simp: slice_of_def)
  then show ?case using "3.IH" "3.prems"(2) by cases auto
qed auto

lemma visible_distinct: "distinct (map fst (rq_ladder q)) \<Longrightarrow> distinct (map fst (visible_ladder r q))"
  by (auto simp: visible_ladder_def take_map [symmetric] split: option.split)

lemma execute_from:
  assumes "realism_ok r" "ladder_sane (rq_ladder q)"
  shows "outcome_from r (rq_ladder q) (execute_realism r q)"
proof -
  let ?out = "execute_realism r q"
  have each: "slice_in r (rq_ladder q) x" if "x \<in> set (eo_slices ?out)" for x
    using outcome_slice [OF assms(1) ladder_sane_ok [OF assms(2)] that] assms(2)
    by (fastforce simp: slice_in_def ladder_sane_def)
  show ?thesis
  proof (cases rule: execute_realism_cases [of r q])
    case (refused reason)
    then show ?thesis by (simp add: outcome_from_def)
  next
    case (filled slices rule)
    have "distinct (map fs_price slices)"
      using slices_from_prices [OF filled(3)] visible_distinct [of q r] assms(2)
      by (simp add: ladder_sane_def)
    with filled each show ?thesis by (simp add: outcome_from_def empty_outcome_def)
  qed
qed

lemma sum_list_pos_map: "(\<And>x. x \<in> set xs \<Longrightarrow> 0 < (f x :: int)) \<Longrightarrow> xs \<noteq> [] \<Longrightarrow> 0 < sum_list (map f xs)"
  using sum_list_nonneg_map [of "tl xs" f] by (cases xs) (fastforce dest: order.strict_implies_order)+

lemma outcome_from_filled: "outcome_from r ladder out \<Longrightarrow> eo_filled out \<longleftrightarrow> eo_slices out \<noteq> []"
  using sum_list_pos_map [of "eo_slices out" fs_size]
  by (auto simp: outcome_from_def eo_filled_def slice_in_def)

lemma slice_in_costs:
  "slice_in r ladder x \<Longrightarrow> realism_ok r \<Longrightarrow> 0 \<le> fs_notional x \<and> 0 \<le> fs_fee x"
  by (auto simp: slice_in_def realism_ok_def intro: notional_nonneg fee_nonneg)

text \<open>Trimming to a budget keeps all this and fits the budget.\<close>

lemma cap_slices_spec:
  assumes "cap_slices r xs remaining = (kept, bound)" "realism_ok r" "0 \<le> remaining"
    "\<forall>x \<in> set xs. slice_in r ladder x" "distinct (map fs_price xs)"
  shows "(\<forall>x \<in> set kept. slice_in r ladder x) \<and> distinct (map fs_price kept)
    \<and> set (map fs_price kept) \<subseteq> set (map fs_price xs)
    \<and> sum_list (map fs_size kept) \<le> sum_list (map fs_size xs)
    \<and> sum_list (map fs_notional kept) + sum_list (map fs_fee kept) \<le> remaining
    \<and> (\<not> bound \<longrightarrow> kept = xs)"
  using assms
proof (induction xs arbitrary: remaining kept bound)
  case (Cons x xs)
  let ?cost = "fs_notional x + fs_fee x"
  show ?case
  proof (cases "?cost \<le> remaining")
    case True
    obtain k b where rec: "cap_slices r xs (remaining - ?cost) = (k, b)" by force
    from Cons.prems(1) True rec have out: "kept = x # k" "bound = b" by auto
    have "0 \<le> remaining - ?cost" using True by simp
    from Cons.IH [OF rec Cons.prems(2) this] Cons.prems(4,5) show ?thesis
      by (auto simp: out)
  next
    case False
    define sz where "sz = max_affordable_shares remaining (fs_price x) (er_fee r) (Some (fs_size x))"
    have x: "slice_in r ladder x" using Cons.prems(4) by simp
    note spec = max_affordable_spec [OF _ _ _ sz_def]
    have sz: "0 \<le> sz" "buy_cost (er_fee r) sz (fs_price x) \<le> max 0 remaining" "sz \<le> fs_size x"
      using spec x Cons.prems(2) by (auto simp: slice_in_def realism_ok_def)
    have rest: "0 \<le> sum_list (map fs_size xs)"
      by (rule sum_list_nonneg_map) (use Cons.prems(4) in \<open>auto simp: slice_in_def intro: less_imp_le\<close>)
    have out: "kept = (if 0 < sz then [make_slice r (fs_price x) sz (fs_level_rank x)] else [])" "bound"
      using Cons.prems(1) False by (auto simp: Let_def sz_def)
    show ?thesis
      using x sz rest out(2) Cons.prems(3)
      by (auto simp: out(1) make_slice_def slice_in_def buy_cost_def)
  qed
qed auto

lemma cap_buy_from:
  assumes "cap_buy_to_spend r spend out = (out', bound)" "realism_ok r" "outcome_from r ladder out"
  shows "outcome_from r ladder out' \<and> eo_notional out' + eo_fees out' \<le> max 0 spend
    \<and> eo_requested_shares out' = eo_requested_shares out
    \<and> eo_decision_utc_ns out' = eo_decision_utc_ns out \<and> eo_arrival_utc_ns out' = eo_arrival_utc_ns out
    \<and> (bound \<longrightarrow> eo_binding_constraint out' = Some ''cash_budget'')"
proof -
  obtain kept stopped where k: "cap_slices r (eo_slices out) (max 0 spend) = (kept, stopped)" by force
  from assms(3) have prem: "\<forall>x \<in> set (eo_slices out). slice_in r ladder x" "distinct (map fs_price (eo_slices out))"
    by (auto simp: outcome_from_def)
  have "0 \<le> max 0 spend" by simp
  note spec = cap_slices_spec [OF k assms(2) this prem]
  from assms(1) k have "eo_slices out' = kept" "eo_filled_shares out' = sum_list (map fs_size kept)"
    "eo_notional out' = sum_list (map fs_notional kept)" "eo_fees out' = sum_list (map fs_fee kept)"
    "eo_requested_shares out' = eo_requested_shares out"
    "eo_decision_utc_ns out' = eo_decision_utc_ns out" "eo_arrival_utc_ns out' = eo_arrival_utc_ns out"
    "\<not> eo_filled out' \<longrightarrow> eo_rejected_reason out' \<noteq> None"
    "bound \<longrightarrow> eo_binding_constraint out' = Some ''cash_budget''"
    by (auto simp: cap_buy_to_spend_def Let_def eo_filled_def split: if_splits)
  with spec assms(3) show ?thesis by (auto simp: outcome_from_def eo_filled_def)
qed

lemma rejected_from: "outcome_from r ladder (rejected_outcome reason arrival q)"
  by (simp add: outcome_from_def rejected_outcome_def)

lemma outcome_from_empty:
  "outcome_from r ladder out \<Longrightarrow> \<not> eo_filled out \<Longrightarrow> eo_notional out = 0 \<and> eo_fees out = 0 \<and> eo_filled_shares out = 0"
  using outcome_from_filled [of r ladder out] by (auto simp: outcome_from_def)

lemma match_outcome_from:
  assumes "realism_ok r" "outcome_from r ladder out0" "out = match_outcome r q cap out0"
  shows "outcome_from r ladder out"
    "eo_requested_shares out = eo_requested_shares out0"
    "eo_decision_utc_ns out = eo_decision_utc_ns out0" "eo_arrival_utc_ns out = eo_arrival_utc_ns out0"
    "sq_side q = BUY \<Longrightarrow> cap = Some c \<Longrightarrow> eo_notional out + eo_fees out \<le> max 0 c"
    "sq_require_full_fill q \<Longrightarrow> eo_filled out \<Longrightarrow> eo_filled_shares out = eo_requested_shares out
       \<or> sq_max_spend q \<noteq> None \<and> eo_binding_constraint out = Some ''cash_budget''"
proof -
  define mid where "mid = (case cap of
               Some c \<Rightarrow> if sq_side q = BUY \<and> eo_filled out0 then cap_buy_to_spend r c out0 else (out0, False)
             | None \<Rightarrow> (out0, False))"
  obtain o1 bound where m: "mid = (o1, bound)" by force
  have o1: "outcome_from r ladder o1 \<and> eo_requested_shares o1 = eo_requested_shares out0
    \<and> eo_decision_utc_ns o1 = eo_decision_utc_ns out0 \<and> eo_arrival_utc_ns o1 = eo_arrival_utc_ns out0
    \<and> (\<forall>c. sq_side q = BUY \<longrightarrow> cap = Some c \<longrightarrow> eo_notional o1 + eo_fees o1 \<le> max 0 c)
    \<and> (bound \<longrightarrow> eo_binding_constraint o1 = Some ''cash_budget'')"
  proof (cases "sq_side q = BUY \<and> eo_filled out0 \<and> cap \<noteq> None")
    case True
    then obtain c where c: "cap = Some c" "cap_buy_to_spend r c out0 = (o1, bound)"
      using m by (auto simp: mid_def)
    from cap_buy_from [OF c(2) assms(1,2)] c(1) show ?thesis by simp
  next
    case False
    then have "o1 = out0" "\<not> bound" using m by (auto simp: mid_def split: option.splits if_splits)
    with False assms(2) outcome_from_empty [OF assms(2)] show ?thesis by auto
  qed
  define cancelled where "cancelled = (sq_require_full_fill q \<and> eo_filled o1
     \<and> \<not> (eo_filled_shares o1 = eo_requested_shares o1 \<or> (sq_side q = BUY \<and> sq_max_spend q \<noteq> None) \<and> bound))"
  have out: "out = (if cancelled
         then o1\<lparr>eo_slices := [], eo_filled_shares := 0, eo_notional := 0, eo_fees := 0,
                  eo_rejected_reason := Some ''partial_entry_disallowed''\<rparr>
         else o1)"
    using m unfolding assms(3) match_outcome_def mid_def cancelled_def
    by (cases "sq_side q = BUY \<and> sq_max_spend q \<noteq> None \<and> bound") (auto simp: Let_def)
  have "outcome_from r ladder out \<and> eo_requested_shares out = eo_requested_shares out0
    \<and> eo_decision_utc_ns out = eo_decision_utc_ns out0 \<and> eo_arrival_utc_ns out = eo_arrival_utc_ns out0
    \<and> (\<forall>c. sq_side q = BUY \<longrightarrow> cap = Some c \<longrightarrow> eo_notional out + eo_fees out \<le> max 0 c)
    \<and> (sq_require_full_fill q \<longrightarrow> eo_filled out \<longrightarrow> eo_filled_shares out = eo_requested_shares out
       \<or> sq_max_spend q \<noteq> None \<and> eo_binding_constraint out = Some ''cash_budget'')"
  proof (cases cancelled)
    case True
    with o1 show ?thesis by (simp add: out outcome_from_def eo_filled_def)
  next
    case False
    with o1 show ?thesis by (auto simp: out cancelled_def)
  qed
  then show "outcome_from r ladder out" "eo_requested_shares out = eo_requested_shares out0"
    "eo_decision_utc_ns out = eo_decision_utc_ns out0" "eo_arrival_utc_ns out = eo_arrival_utc_ns out0"
    "sq_side q = BUY \<Longrightarrow> cap = Some c \<Longrightarrow> eo_notional out + eo_fees out \<le> max 0 c"
    "sq_require_full_fill q \<Longrightarrow> eo_filled out \<Longrightarrow> eo_filled_shares out = eo_requested_shares out
       \<or> sq_max_spend q \<noteq> None \<and> eo_binding_constraint out = Some ''cash_budget''"
    by blast+
qed

section \<open>The book an order meets\<close>

definition tape_ok :: "tape \<Rightarrow> bool" where
  "tape_ok t \<longleftrightarrow> (\<forall>r \<in> set (tape_rows t). row_ok r) \<and> sorted (map row_received_utc_ns (tape_rows t))"

definition token_indices :: "tape \<Rightarrow> int \<Rightarrow> nat list" where
  "token_indices t token_index =
     filter (\<lambda>i. row_token_index (tape_rows t ! i) = token_index) [0..<length (tape_rows t)]"

lemma token_rows_indices:
  "token_rows t k = (map int (token_indices t k), map (\<lambda>i. row_received_utc_ns (tape_rows t ! i)) (token_indices t k))"
  by (simp add: token_rows_def token_indices_def row_of_def Let_def)

lemma token_indices_sorted: "sorted_wrt (<) (token_indices t k)"
  unfolding token_indices_def by (intro sorted_wrt_filter) (rule sorted_wrt_upt)

lemma stamps_sorted: "tape_ok t \<Longrightarrow> sorted (snd (token_rows t k))"
proof -
  assume "tape_ok t"
  then have "row_received_utc_ns (tape_rows t ! i) \<le> row_received_utc_ns (tape_rows t ! j)"
    if "i < j" "j < length (tape_rows t)" for i j
    using that sorted_nth_mono [of "map row_received_utc_ns (tape_rows t)" i j] by (simp add: tape_ok_def)
  moreover have "\<forall>j \<in> set (token_indices t k). j < length (tape_rows t)" by (auto simp: token_indices_def)
  ultimately show ?thesis using token_indices_sorted [of t k]
    by (simp add: token_rows_indices sorted_wrt_map) (auto elim!: sorted_wrt_mono_rel [rotated])
qed

lemma row_at_spec:
  assumes "tape_ok t" "row_at (token_rows t k) ts = Some row"
  shows "0 \<le> row" "nat row < length (tape_rows t)" "row_token_index (row_of t row) = k"
    "row_received_utc_ns (row_of t row) \<le> ts" "row_ok (row_of t row)"
    "\<And>j. nat row < j \<Longrightarrow> j < length (tape_rows t) \<Longrightarrow> row_token_index (tape_rows t ! j) = k \<Longrightarrow>
       ts < row_received_utc_ns (tape_rows t ! j)"
proof -
  let ?is = "token_indices t k"
  let ?st = "map (\<lambda>i. row_received_utc_ns (tape_rows t ! i)) ?is"
  define n where "n = bisect_right ?st ts"
  have n: "n \<noteq> 0" "row = map int ?is ! (n - 1)"
    using assms(2) by (auto simp: row_at_def token_rows_indices Let_def n_def split: if_splits)
  have spec: "n \<le> length ?is" "\<forall>i < n. ?st ! i \<le> ts" "\<forall>i. n \<le> i \<longrightarrow> i < length ?is \<longrightarrow> ts < ?st ! i"
    using bisect_right_spec [OF stamps_sorted [OF assms(1), of k], of ts]
    by (auto simp: token_rows_indices n_def)
  have lt: "n - 1 < length ?is" using n(1) spec(1) by simp
  then have row: "row = int (?is ! (n - 1))" using n(2) by simp
  have mem: "?is ! (n - 1) \<in> set ?is" using lt by simp
  then show "0 \<le> row" "nat row < length (tape_rows t)" "row_token_index (row_of t row) = k"
    by (auto simp: row row_of_def token_indices_def)
  then show "row_ok (row_of t row)" using assms(1) by (simp add: tape_ok_def row_of_def)
  show "row_received_utc_ns (row_of t row) \<le> ts" using spec(2) n(1) lt by (force simp: row row_of_def)
  show "ts < row_received_utc_ns (tape_rows t ! j)"
    if j: "nat row < j" "j < length (tape_rows t)" "row_token_index (tape_rows t ! j) = k" for j
  proof -
    have "j \<in> set ?is" using j by (simp add: token_indices_def)
    then obtain i where i: "i < length ?is" "?is ! i = j" by (auto simp: in_set_conv_nth)
    have "n \<le> i"
    proof (rule ccontr)
      assume "\<not> n \<le> i"
      then have "i = n - 1 \<or> i < n - 1" by auto
      then have "j \<le> ?is ! (n - 1)"
        using sorted_wrt_nth_less [OF token_indices_sorted [of t k], of i "n - 1"] i lt by auto
      with j(1) row show False by simp
    qed
    then show ?thesis using spec(3) i by auto
  qed
qed

section \<open>Depth already taken\<close>

lemma dict_get_put: "dict_get (dict_put k v d) j = (if j = k then v else dict_get d j)"
  by (simp add: dict_get_def)

lemma dict_get_impact: "dict_get (impact_of k bs consumed) p = dict_get consumed (k, bs, p)"
proof -
  have "map_of (impact_of k bs consumed) p = map_of consumed (k, bs, p)"
    by (induction consumed) (auto simp: impact_of_def)
  then show ?thesis by (simp add: dict_get_def)
qed

lemma descending_distinct: "sorted_wrt (>) (ps :: int list) \<Longrightarrow> distinct ps"
  by (induction ps) auto

lemma row_ladder_sane: "row_ok r \<Longrightarrow> bs \<noteq> Book_side_none \<Longrightarrow> ladder_sane (row_ladder bs r)"
  by (cases bs) (auto simp: row_ok_def ladder_sane_def strict_sorted_iff dest: descending_distinct)

lemma apply_self_impact_in:
  "(p, left) \<in> set (apply_self_impact ladder taken) \<Longrightarrow>
     \<exists>d. (p, d) \<in> set ladder \<and> left = d - dict_get taken p"
  by (force simp: apply_self_impact_def dict_get_def split: if_splits)

lemma apply_self_impact_sane: "ladder_sane ladder \<Longrightarrow> ladder_sane (apply_self_impact ladder taken)"
proof -
  assume l: "ladder_sane ladder"
  let ?left = "map (\<lambda>(price, sz). (price, sz - dict_get taken price)) ladder"
  have prices: "map fst ?left = map fst ladder" by (induction ladder) auto
  have "distinct (map fst (filter P ?left))" for P
    using l prices unfolding ladder_sane_def by (metis distinct_map_filter)
  with l show ?thesis by (auto simp: apply_self_impact_def ladder_sane_def)
qed

lemma impacted_ladder_sane:
  "row_ok (row_of t row) \<Longrightarrow> bs \<noteq> Book_side_none \<Longrightarrow> ladder_sane (impacted_ladder t k bs row consumed)"
  unfolding impacted_ladder_def tape_ladder_def row_of_def by (intro apply_self_impact_sane row_ladder_sane)

lemma taker_book_side_some [simp]: "taker_book_side s \<noteq> Book_side_none"
  by (simp add: taker_book_side_def)

text \<open>What the slices of one order add to the depth taken: each to its own level, once.\<close>

lemma dict_get_consume:
  "dict_get (consume_slice k bs x consumed) key
     = dict_get consumed key + (if key = (k, bs, fs_price x) then fs_size x else 0)"
  by (simp add: consume_slice_def dict_get_put Let_def)

lemma consume_other:
  "\<forall>x \<in> set xs. key \<noteq> (k, bs, fs_price x) \<Longrightarrow>
     dict_get (fold (consume_slice k bs) xs consumed) key = dict_get consumed key"
  by (induction xs arbitrary: consumed) (simp_all add: dict_get_consume)

lemma consume_own:
  "distinct (map fs_price xs) \<Longrightarrow> x \<in> set xs \<Longrightarrow>
     dict_get (fold (consume_slice k bs) xs consumed) (k, bs, fs_price x)
       = dict_get consumed (k, bs, fs_price x) + fs_size x"
proof (induction xs arbitrary: consumed)
  case (Cons y ys)
  show ?case
  proof (cases "x = y")
    case True
    with Cons.prems have "\<forall>z \<in> set ys. (k, bs, fs_price x) \<noteq> (k, bs, fs_price z)" by auto
    from consume_other [OF this] True show ?thesis by (simp add: dict_get_consume)
  next
    case False
    with Cons.prems have "x \<in> set ys" "fs_price x \<noteq> fs_price y" by (auto, metis image_eqI)
    with Cons show ?thesis by (simp add: dict_get_consume)
  qed
qed simp

section \<open>What a send yields\<close>

lemma reconcile_frame [simp]: "sm_rng (reconcile_self_impact t k rows row s) = sm_rng s"
  by (simp add: reconcile_self_impact_def Let_def)

lemma match_order_spec:
  assumes "realism_ok r" "row_ok (row_of t row)" "match_order r t q cash row arrival s = (out, s')"
  defines "bs \<equiv> taker_book_side (sq_side q)"
  defines "s1 \<equiv> reconcile_self_impact t (sq_token_index q) (fst (token_rows t (sq_token_index q))) row s"
  shows "outcome_from r (impacted_ladder t (sq_token_index q) bs row (sm_consumed s1)) out"
    "sq_max_spend q = None \<Longrightarrow> eo_requested_shares out = sq_shares q"
    "eo_decision_utc_ns out = sq_decision_ns q" "eo_arrival_utc_ns out = arrival"
    "sq_side q = BUY \<Longrightarrow> spend_cap q cash = Some c \<Longrightarrow> eo_notional out + eo_fees out \<le> max 0 c"
    "sq_require_full_fill q \<Longrightarrow> eo_filled out \<Longrightarrow> eo_filled_shares out = eo_requested_shares out
       \<or> sq_max_spend q \<noteq> None \<and> eo_binding_constraint out = Some ''cash_budget''"
    "s' = (if eo_filled out
           then s1\<lparr>sm_consumed := fold (consume_slice (sq_token_index q) bs) (eo_slices out) (sm_consumed s1)\<rparr>
           else s1)"
proof -
  define ladder where "ladder = impacted_ladder t (sq_token_index q) bs row (sm_consumed s1)"
  define rq where "rq = match_request r t q ladder row arrival"
  have out: "out = match_outcome r q (spend_cap q cash) (execute_realism r rq)"
    and s': "s' = (if eo_filled out
           then s1\<lparr>sm_consumed := fold (consume_slice (sq_token_index q) bs) (eo_slices out) (sm_consumed s1)\<rparr>
           else s1)"
    using assms(3) by (auto simp: match_order_def Let_def bs_def s1_def ladder_def rq_def)
  have "ladder_sane ladder"
    unfolding ladder_def bs_def by (rule impacted_ladder_sane [OF assms(2) taker_book_side_some])
  then have ex: "outcome_from r ladder (execute_realism r rq)"
    using execute_from [OF assms(1), of rq] by (simp add: rq_def match_request_def)
  note mo = match_outcome_from [OF assms(1) ex out]
  show "outcome_from r (impacted_ladder t (sq_token_index q) bs row (sm_consumed s1)) out"
    using mo(1) by (simp add: ladder_def)
  show "sq_max_spend q = None \<Longrightarrow> eo_requested_shares out = sq_shares q"
    "eo_decision_utc_ns out = sq_decision_ns q" "eo_arrival_utc_ns out = arrival"
    using mo(2-4) reference_totals(4-6) [of r rq] by (auto simp: rq_def match_request_def)
  show "sq_side q = BUY \<Longrightarrow> spend_cap q cash = Some c \<Longrightarrow> eo_notional out + eo_fees out \<le> max 0 c"
    by (rule mo(5))
  show "sq_require_full_fill q \<Longrightarrow> eo_filled out \<Longrightarrow> eo_filled_shares out = eo_requested_shares out
       \<or> sq_max_spend q \<noteq> None \<and> eo_binding_constraint out = Some ''cash_budget''"
    by (rule mo(6))
  show "s' = (if eo_filled out
           then s1\<lparr>sm_consumed := fold (consume_slice (sq_token_index q) bs) (eo_slices out) (sm_consumed s1)\<rparr>
           else s1)" by (rule s')
qed

text \<open>A send either refuses before matching, touching nothing, or matches the row of its arrival.\<close>

lemma send_at_cases:
  assumes "send_at r t q arrival s = (out, s')"
  obtains (refused) reason where "out = rejected_outcome reason arrival q" "s' = s"
  | (matched) row where "opt_all (\<lambda>d. arrival \<le> d) (sq_deadline_ns q)" "arrival < ep_end_utc_ns (tape_episode t)"
      "\<not> cash_refused q (cash_at (sq_available_cash q) arrival)"
      "row_at (token_rows t (sq_token_index q)) arrival = Some row"
      "er_require_valid_book r \<Longrightarrow> row_book_valid (row_of t row)
         \<and> \<not> is_uncertain t (token_id_of t (sq_token_index q)) arrival"
      "match_order r t q (cash_at (sq_available_cash q) arrival) row arrival s = (out, s')"
proof (cases "row_at (token_rows t (sq_token_index q)) arrival")
  case None
  with assms show ?thesis using refused by (auto simp: send_at_def Let_def split: if_splits)
next
  case (Some row)
  let ?late = "case sq_deadline_ns q of None \<Rightarrow> False | Some d \<Rightarrow> d < arrival"
  let ?closed = "ep_end_utc_ns (tape_episode t) \<le> arrival"
  let ?poor = "cash_refused q (cash_at (sq_available_cash q) arrival)"
  let ?bad = "er_require_valid_book r
     \<and> (\<not> row_book_valid (row_of t row) \<or> is_uncertain t (token_id_of t (sq_token_index q)) arrival)"
  show ?thesis
  proof (cases "?late \<or> ?closed \<or> ?poor \<or> ?bad")
    case True
    with assms Some show ?thesis using refused by (auto simp: send_at_def Let_def split: if_splits)
  next
    case False
    then have "opt_all (\<lambda>d. arrival \<le> d) (sq_deadline_ns q)" by (auto simp: opt_all_def split: option.splits)
    with False assms Some show ?thesis
      by (intro matched [of row]) (auto simp: send_at_def Let_def split: if_splits)
  qed
qed

lemma loaded_tape_ok:
  assumes "build_tape e depth vs = Inr s" "sorted (map be_received_utc_ns vs)"
  shows "tape_ok (load_tape e (tp_rows s) trades uncertainty)"
proof -
  obtain now where "rows_inv now (tp_rows s)" using build_tape_inv [OF assms] by blast
  then show ?thesis
    by (auto simp: tape_ok_def load_tape_def rows_inv_def comp_def intro: load_row_ok)
qed

lemma send_split:
  assumes "send g r t q s = Inr (out, s')"
  obtains arrival s1 where "sq_decision_ns q + sq_taker_delay_ns q \<le> arrival"
    "send_at r t q arrival s1 = (out, s')" "sm_consumed s1 = sm_consumed s" "sm_cursor s1 = sm_cursor s"
  using assms sample_ns_nonneg [of g "er_latency r" "sm_rng s"]
  by (auto simp: send_def sample_latency_ns_def split: prod.splits sum.splits
      intro: that [of "sq_decision_ns q + _ + sq_taker_delay_ns q" "s\<lparr>sm_rng := _\<rparr>"])

lemma send_at_stamps:
  assumes "realism_ok r" "tape_ok t" "send_at r t q arrival s = (out, s')"
  shows "eo_decision_utc_ns out = sq_decision_ns q" "eo_arrival_utc_ns out = arrival"
    "sq_max_spend q = None \<Longrightarrow> eo_requested_shares out = sq_shares q"
    "\<exists>ladder. outcome_from r ladder out"
proof -
  have "eo_decision_utc_ns out = sq_decision_ns q \<and> eo_arrival_utc_ns out = arrival
    \<and> (sq_max_spend q = None \<longrightarrow> eo_requested_shares out = sq_shares q) \<and> (\<exists>ladder. outcome_from r ladder out)"
    using assms(3)
  proof (cases rule: send_at_cases)
    case (refused reason)
    then show ?thesis using rejected_from by (auto simp: rejected_outcome_def)
  next
    case (matched row)
    from match_order_spec [OF assms(1) row_at_spec(5) [OF assms(2) matched(4)] matched(6)]
    show ?thesis by blast
  qed
  then show "eo_decision_utc_ns out = sq_decision_ns q" "eo_arrival_utc_ns out = arrival"
    "sq_max_spend q = None \<Longrightarrow> eo_requested_shares out = sq_shares q"
    "\<exists>ladder. outcome_from r ladder out"
    by auto
qed

text \<open>What a buy spends, whichever branch it took.\<close>

lemma send_at_budget:
  assumes "realism_ok r" "tape_ok t" "send_at r t q arrival s = (out, s')" "sq_side q = BUY"
  shows "cash_at (sq_available_cash q) arrival = Some c \<Longrightarrow> eo_notional out + eo_fees out \<le> c"
    "sq_max_spend q = Some m \<Longrightarrow> eo_notional out + eo_fees out \<le> max 0 m"
proof -
  have "(\<forall>c. cash_at (sq_available_cash q) arrival = Some c \<longrightarrow> eo_notional out + eo_fees out \<le> c)
    \<and> (\<forall>m. sq_max_spend q = Some m \<longrightarrow> eo_notional out + eo_fees out \<le> max 0 m)"
    using assms(3)
  proof (cases rule: send_at_cases)
    case (refused reason)
    then show ?thesis by (auto simp: rejected_outcome_def cash_at_def)
  next
    case (matched row)
    note spend = match_order_spec(5) [OF assms(1) row_at_spec(5) [OF assms(2) matched(4)] matched(6) assms(4)]
    show ?thesis
    proof (intro conjI allI impI)
      fix m assume m: "sq_max_spend q = Some m"
      then show "eo_notional out + eo_fees out \<le> max 0 m" using spend by (simp add: spend_cap_def)
    next
      fix c assume c: "cash_at (sq_available_cash q) arrival = Some c"
      have pos: "0 < c" "opt_all (\<lambda>m. m \<le> c) (sq_max_spend q)"
        using matched(3) assms(4) c by (auto simp: cash_refused_def split: option.splits)
      show "eo_notional out + eo_fees out \<le> c"
        using spend [of c] spend [of "the (sq_max_spend q)"] c pos assms(4)
        by (cases "sq_max_spend q") (auto simp: spend_cap_def)
    qed
  qed
  then show "cash_at (sq_available_cash q) arrival = Some c \<Longrightarrow> eo_notional out + eo_fees out \<le> c"
    "sq_max_spend q = Some m \<Longrightarrow> eo_notional out + eo_fees out \<le> max 0 m"
    by blast+
qed

section \<open>Every order sent so far\<close>

text \<open>
  A book event of the token gives the depth of a level back: a snapshot that of every level, an
  update that of the level it names.
\<close>

definition replenishes :: "tape \<Rightarrow> impact_key \<Rightarrow> int \<Rightarrow> bool" where
  "replenishes t key row \<longleftrightarrow>
     (case row_event_kind (row_of t row) of
        Kind_snapshot \<Rightarrow> True
      | Kind_update \<Rightarrow> snd key = (row_event_side (row_of t row), fill_null 0 (row_event_price (row_of t row)))
      | Kind_tick \<Rightarrow> False)"

text \<open>Whether that happened at a row of the key's token after \<open>a\<close> and up to \<open>b\<close>.\<close>

definition replenished :: "tape \<Rightarrow> impact_key \<Rightarrow> int \<Rightarrow> int \<Rightarrow> bool" where
  "replenished t key a b \<longleftrightarrow>
     (\<exists>row \<in> set (fst (token_rows t (fst key))). a < row \<and> row \<le> b \<and> replenishes t key row)"

text \<open>
  An order of the history: what was asked, what came of it, and the last row of its token that any
  order has been matched at, this one included.
\<close>

record sent =
  sn_request :: send_request
  sn_outcome :: execution_outcome
  sn_reached :: int

definition cursor_at :: "'r sim \<Rightarrow> int \<Rightarrow> int" where
  "cursor_at s k = (case sm_cursor s k of None \<Rightarrow> -1 | Some row \<Rightarrow> row)"

lemma cursor_at_rng [simp]: "cursor_at (s\<lparr>sm_rng := u\<rparr>) k = cursor_at s k"
  by (simp add: cursor_at_def)

definition sent_as :: "send_request \<Rightarrow> execution_outcome \<Rightarrow> 'r sim \<Rightarrow> sent" where
  "sent_as q out s = \<lparr>sn_request = q, sn_outcome = out, sn_reached = cursor_at s (sq_token_index q)\<rparr>"

text \<open>
  The states a simulation passes through, with its orders so far: it starts with no depth taken, and
  between two orders it may draw from its generator.
\<close>

inductive sends_made :: "'r rng \<Rightarrow> execution_realism \<Rightarrow> tape \<Rightarrow> sent list \<Rightarrow> 'r sim \<Rightarrow> bool"
  for g r t where
  fresh: "sends_made g r t [] \<lparr>sm_rng = u, sm_consumed = [], sm_cursor = Map.empty\<rparr>"
| drawn: "sends_made g r t es s \<Longrightarrow> sends_made g r t es (s\<lparr>sm_rng := u\<rparr>)"
| sent_next: "sends_made g r t es s \<Longrightarrow> send g r t q s = Inr (out, s') \<Longrightarrow>
    sends_made g r t (es @ [sent_as q out s']) s'"

text \<open>What an order took at a level, and what all orders took there that was not given back since.\<close>

definition taken_by :: "impact_key \<Rightarrow> send_request \<Rightarrow> execution_outcome \<Rightarrow> int" where
  "taken_by key q out =
     sum_list (map fs_size (filter (\<lambda>x. (sq_token_index q, taker_book_side (sq_side q), fs_price x) = key)
       (eo_slices out)))"

definition taken_since :: "tape \<Rightarrow> impact_key \<Rightarrow> int \<Rightarrow> sent list \<Rightarrow> int" where
  "taken_since t key now es =
     sum_list (map (\<lambda>e. if replenished t key (sn_reached e) now then 0
       else taken_by key (sn_request e) (sn_outcome e)) es)"

definition reached_before :: "int \<Rightarrow> sent list \<Rightarrow> int" where
  "reached_before k es =
     fold (\<lambda>e reached. if sq_token_index (sn_request e) = k then sn_reached e else reached) es (-1)"

lemma consume_total:
  "dict_get (fold (consume_slice k bs) xs consumed) key
     = dict_get consumed key + sum_list (map fs_size (filter (\<lambda>x. (k, bs, fs_price x) = key) xs))"
  by (induction xs arbitrary: consumed) (auto simp: dict_get_consume)

lemma map_of_filter_key: "map_of (filter (\<lambda>(k, _). P k) d) k = (if P k then map_of d k else None)"
  by (induction d) auto

lemma reconcile_event_get:
  "dict_get (reconcile_event t (fst key) row c) key = (if replenishes t key row then 0 else dict_get c key)"
  "fst key \<noteq> k \<Longrightarrow> dict_get (reconcile_event t k row c) key = dict_get c key"
  by (cases key; auto simp: reconcile_event_def replenishes_def dict_get_def Let_def map_of_filter_key
        split: event_kind.split)+

lemma reconcile_events_get:
  "dict_get (fold (reconcile_event t (fst key)) rows c) key
     = (if \<exists>row \<in> set rows. replenishes t key row then 0 else dict_get c key)"
  "fst key \<noteq> k \<Longrightarrow> dict_get (fold (reconcile_event t k) rows c) key = dict_get c key"
  by (induction rows arbitrary: c) (auto simp: reconcile_event_get)

text \<open>The rows a reconciliation passes over are those after the cursor, up to the matched one.\<close>

lemma window_rows:
  assumes "sorted rows"
  shows "set (drop (bisect_right rows a) (take (bisect_right rows b) rows))
    = {x \<in> set rows. a < x \<and> x \<le> (b :: int)}"
proof -
  let ?m = "bisect_right rows a" and ?n = "bisect_right rows b"
  note A = bisect_right_spec [OF assms, of a] and B = bisect_right_spec [OF assms, of b]
  have lo: "?m \<le> i \<longleftrightarrow> a < rows ! i" if "i < length rows" for i
    using A that leD [of "rows ! i" a] by (cases "?m \<le> i") auto
  have hi: "i < ?n \<longleftrightarrow> rows ! i \<le> b" if "i < length rows" for i
    using B that leD [of "rows ! i" b] by (cases "i < ?n") auto
  have "x \<in> set (drop ?m (take ?n rows)) \<longleftrightarrow> (\<exists>i < length rows. ?m \<le> i \<and> i < ?n \<and> rows ! i = x)" for x
  proof
    assume "x \<in> set (drop ?m (take ?n rows))"
    then obtain i where i: "i < length (drop ?m (take ?n rows))" "drop ?m (take ?n rows) ! i = x"
      by (auto simp only: in_set_conv_nth)
    moreover from i(1) have "?m \<le> length (take ?n rows)" unfolding length_drop by arith
    ultimately have "i < min (length rows) ?n - ?m" "rows ! (?m + i) = x" using nth_drop by auto
    then show "\<exists>i < length rows. ?m \<le> i \<and> i < ?n \<and> rows ! i = x" by (intro exI [of _ "?m + i"]) auto
  next
    assume "\<exists>i < length rows. ?m \<le> i \<and> i < ?n \<and> rows ! i = x"
    then obtain i where i: "i < length rows" "?m \<le> i" "i < ?n" "rows ! i = x" by blast
    then have "drop ?m (take ?n rows) ! (i - ?m) = x" "i - ?m < length (drop ?m (take ?n rows))" by auto
    then show "x \<in> set (drop ?m (take ?n rows))" using nth_mem by metis
  qed
  with lo hi show ?thesis by (auto simp only: in_set_conv_nth mem_Collect_eq set_eq_iff)
qed

lemma token_rows_sorted: "sorted (fst (token_rows t k))"
  using token_indices_sorted [of t k] strict_sorted_imp_sorted [of "token_indices t k"]
  by (simp add: token_rows_indices sorted_map sorted_wrt_map)

lemma not_replenished: "b \<le> a \<Longrightarrow> \<not> replenished t key a b"
  by (auto simp: replenished_def)

lemma reconcile_get:
  assumes "s1 = reconcile_self_impact t k (fst (token_rows t k)) row s"
  shows "cursor_at s1 j = (if j = k then max row (cursor_at s k) else cursor_at s j)"
    "dict_get (sm_consumed s1) key
      = (if replenished t key (cursor_at s (fst key)) (cursor_at s1 (fst key)) then 0
         else dict_get (sm_consumed s) key)"
proof -
  show cur: "cursor_at s1 j = (if j = k then max row (cursor_at s k) else cursor_at s j)" for j
    by (auto simp: assms reconcile_self_impact_def cursor_at_def Let_def)
  show "dict_get (sm_consumed s1) key
      = (if replenished t key (cursor_at s (fst key)) (cursor_at s1 (fst key)) then 0
         else dict_get (sm_consumed s) key)"
  proof (cases "row \<le> cursor_at s k")
    case True
    then have "s1 = s" by (simp add: assms reconcile_self_impact_def cursor_at_def Let_def)
    then show ?thesis by (simp add: not_replenished)
  next
    case False
    let ?rows = "fst (token_rows t k)"
    have c: "sm_consumed s1 = fold (reconcile_event t k)
        (drop (bisect_right ?rows (cursor_at s k)) (take (bisect_right ?rows row) ?rows)) (sm_consumed s)"
      using False by (simp add: assms reconcile_self_impact_def cursor_at_def Let_def)
    show ?thesis
    proof (cases "fst key = k")
      case same: True
      have "max row (cursor_at s k) = row" using False by simp
      then show ?thesis
        unfolding c same [symmetric] reconcile_events_get(1)
        by (auto simp: same window_rows [OF token_rows_sorted] replenished_def cur)
    next
      case other: False
      then show ?thesis by (simp add: c reconcile_events_get(2) cur not_replenished)
    qed
  qed
qed

text \<open>What one order does to the depth on record, wherever it ends.\<close>

lemma send_effect:
  assumes "realism_ok r" "tape_ok t" "send g r t q s = Inr (out, s')"
  shows "dict_get (sm_consumed s') key
      = (if replenished t key (cursor_at s (fst key)) (cursor_at s' (fst key)) then 0
         else dict_get (sm_consumed s) key) + taken_by key q out"
    "cursor_at s k \<le> cursor_at s' k" "k \<noteq> sq_token_index q \<Longrightarrow> cursor_at s' k = cursor_at s k"
proof -
  let ?k = "sq_token_index q" and ?bs = "taker_book_side (sq_side q)"
  from assms(3) obtain arrival s1 where a: "send_at r t q arrival s1 = (out, s')"
    and same: "sm_consumed s1 = sm_consumed s" "sm_cursor s1 = sm_cursor s" by (rule send_split)
  have cur: "cursor_at s1 j = cursor_at s j" for j by (simp add: cursor_at_def same)
  have "dict_get (sm_consumed s') key
      = (if replenished t key (cursor_at s (fst key)) (cursor_at s' (fst key)) then 0
         else dict_get (sm_consumed s) key) + taken_by key q out
    \<and> (\<forall>k. cursor_at s k \<le> cursor_at s' k \<and> (k \<noteq> ?k \<longrightarrow> cursor_at s' k = cursor_at s k))"
    using a
  proof (cases rule: send_at_cases)
    case (refused reason)
    then show ?thesis
      by (simp add: cur same not_replenished taken_by_def rejected_outcome_def)
  next
    case (matched row)
    note mo = match_order_spec [OF assms(1) row_at_spec(5) [OF assms(2) matched(4)] matched(6)]
    define s2 where "s2 = reconcile_self_impact t ?k (fst (token_rows t ?k)) row s1"
    have "eo_slices out = []" if "\<not> eo_filled out" using outcome_from_filled [OF mo(1)] that by simp
    then have c: "sm_consumed s' = fold (consume_slice ?k ?bs) (eo_slices out) (sm_consumed s2)"
      and "sm_cursor s' = sm_cursor s2" using mo(7) by (auto simp: s2_def)
    then have cur': "cursor_at s' j = cursor_at s2 j" for j by (simp add: cursor_at_def)
    show ?thesis
      using reconcile_get [OF s2_def]
      by (simp add: c cur cur' consume_total taken_by_def same)
  qed
  then show "dict_get (sm_consumed s') key
      = (if replenished t key (cursor_at s (fst key)) (cursor_at s' (fst key)) then 0
         else dict_get (sm_consumed s) key) + taken_by key q out"
    "cursor_at s k \<le> cursor_at s' k" "k \<noteq> sq_token_index q \<Longrightarrow> cursor_at s' k = cursor_at s k"
    by blast+
qed

lemma replenished_steps:
  "a \<le> b \<Longrightarrow> b \<le> c \<Longrightarrow> replenished t key a c \<longleftrightarrow> replenished t key a b \<or> replenished t key b c"
proof -
  assume "a \<le> b" "b \<le> c"
  then have "a < row \<and> row \<le> c \<longleftrightarrow> a < row \<and> row \<le> b \<or> b < row \<and> row \<le> c" for row by auto
  then show ?thesis unfolding replenished_def by blast
qed

lemma reached_before_snoc [simp]:
  "reached_before k [] = -1"
  "reached_before k (es @ [e]) = (if sq_token_index (sn_request e) = k then sn_reached e else reached_before k es)"
  by (simp_all add: reached_before_def)

text \<open>The depth on record is what the orders sent so far took and no event has given back.\<close>

lemma taken_since_snoc [simp]:
  "taken_since t key now [] = 0"
  "taken_since t key now (es @ [e]) = taken_since t key now es
     + (if replenished t key (sn_reached e) now then 0 else taken_by key (sn_request e) (sn_outcome e))"
  by (simp_all add: taken_since_def)

lemma taken_since_step:
  assumes "a \<le> b" "\<forall>e \<in> set es. sq_token_index (sn_request e) = fst key \<longrightarrow> sn_reached e \<le> a"
  shows "taken_since t key b es = (if replenished t key a b then 0 else taken_since t key a es)"
  using assms(2)
proof (induction es rule: rev_induct)
  case (snoc e es)
  have other: "taken_by key (sn_request e) (sn_outcome e) = 0" if "sq_token_index (sn_request e) \<noteq> fst key"
    using that by (cases key) (auto simp: taken_by_def)
  show ?case
  proof (cases "sq_token_index (sn_request e) = fst key")
    case True
    with snoc.prems have "sn_reached e \<le> a" by simp
    with snoc replenished_steps [OF this assms(1), of t key] show ?thesis by simp
  next
    case False
    with snoc other show ?thesis by simp
  qed
qed simp

lemma sends_made_ledger:
  assumes "sends_made g r t es s" "realism_ok r" "tape_ok t"
  shows "dict_get (sm_consumed s) key = taken_since t key (cursor_at s (fst key)) es"
    "cursor_at s k = reached_before k es"
    "\<forall>e \<in> set es. sq_token_index (sn_request e) = k \<longrightarrow> sn_reached e \<le> cursor_at s k"
proof -
  have "(\<forall>key. dict_get (sm_consumed s) key = taken_since t key (cursor_at s (fst key)) es)
    \<and> (\<forall>k. cursor_at s k = reached_before k es
        \<and> (\<forall>e \<in> set es. sq_token_index (sn_request e) = k \<longrightarrow> sn_reached e \<le> cursor_at s k))"
    using assms(1)
  proof (induction rule: sends_made.induct)
    case (fresh u)
    then show ?case by (simp add: dict_get_def cursor_at_def)
  next
    case (drawn es s u)
    have "sm_consumed (s\<lparr>sm_rng := u\<rparr>) = sm_consumed s" by simp
    then show ?case using drawn.IH unfolding cursor_at_rng by metis
  next
    case (sent_next es s q out s')
    let ?e = "sent_as q out s'"
    note eff = send_effect [OF assms(2,3) sent_next(2)]
    have e: "sn_request ?e = q" "sn_outcome ?e = out" "sn_reached ?e = cursor_at s' (sq_token_index q)"
      by (simp_all add: sent_as_def)
    have "dict_get (sm_consumed s') key = taken_since t key (cursor_at s' (fst key)) (es @ [?e])" for key
    proof -
      have "\<forall>x \<in> set es. sq_token_index (sn_request x) = fst key \<longrightarrow> sn_reached x \<le> cursor_at s (fst key)"
        using sent_next.IH by blast
      note old = taken_since_step [OF eff(2) this, of t]
      have "taken_by key q out = 0" if "sq_token_index q \<noteq> fst key"
        using that by (cases key) (auto simp: taken_by_def)
      then have "(if replenished t key (sn_reached ?e) (cursor_at s' (fst key)) then 0
          else taken_by key (sn_request ?e) (sn_outcome ?e)) = taken_by key q out"
        by (cases "sq_token_index q = fst key") (simp_all add: e not_replenished)
      then have "taken_since t key (cursor_at s' (fst key)) (es @ [?e])
          = taken_since t key (cursor_at s' (fst key)) es + taken_by key q out"
        by (simp only: taken_since_snoc)
      with eff(1) [of key] old sent_next.IH show ?thesis by presburger
    qed
    moreover have "cursor_at s' k = reached_before k (es @ [?e])" for k
      using sent_next.IH eff(3) [of k] by (auto simp: e)
    moreover have "sn_reached x \<le> cursor_at s' k"
      if "x \<in> set (es @ [?e])" "sq_token_index (sn_request x) = k" for x k
    proof (cases "x = ?e")
      case True
      with that show ?thesis by (simp add: e)
    next
      case False
      with that have "x \<in> set es" by simp
      with that(2) have "sn_reached x \<le> cursor_at s k" using sent_next.IH by blast
      then show ?thesis using eff(2) [of k] by (rule order_trans)
    qed
    ultimately show ?case by blast
  qed
  then show "dict_get (sm_consumed s) key = taken_since t key (cursor_at s (fst key)) es"
    "cursor_at s k = reached_before k es"
    "\<forall>e \<in> set es. sq_token_index (sn_request e) = k \<longrightarrow> sn_reached e \<le> cursor_at s k"
    by blast+
qed

section \<open>Properties\<close>

text \<open>C21. The budget search finds the largest affordable order among those it may return.  For any
  admissible fee schedule the result is affordable, notional and fee together, and at most the given
  upper bound, and no larger size up to that bound is affordable.  Without a bound the search stops at
  what the notional alone would allow, and one more: then no larger size up to there is affordable,
  and beyond it none that pays a fee.  A size that pays no fee can be affordable beyond it, because the
  notional is rounded; the lemma below has one.\<close>

theorem max_affordable_is_largest:
  assumes "fee_config_ok fee" "0 < price" "price \<le> POLYMARKET_PRICE_SCALE" "0 < spend"
    "opt_all (\<lambda>u. 0 \<le> u) upper"
  shows "0 \<le> max_affordable_shares spend price fee upper
    \<and> buy_cost fee (max_affordable_shares spend price fee upper) price \<le> spend
    \<and> opt_all (\<lambda>u. max_affordable_shares spend price fee upper \<le> u) upper
    \<and> (\<forall>m. max_affordable_shares spend price fee upper < m
         \<and> (case upper of Some u \<Rightarrow> m \<le> u
            | None \<Rightarrow> m \<le> spend * POLYMARKET_PRICE_SCALE div price + 1 \<or> 0 < calculate_fee fee m price)
         \<longrightarrow> spend < buy_cost fee m price)"
proof -
  note spec = max_affordable_spec [where spend = spend, OF assms(1,3,5) refl]
  have "spend < buy_cost fee m price"
    if "max_affordable_shares spend price fee upper < m" "upper = None" "0 < calculate_fee fee m price" for m
    using spec(4) [OF assms(4,2) that(1)] beyond_default_bound [OF assms(2), of spend m] that(2,3)
    by (cases "m \<le> search_bound spend price upper") (auto simp: buy_cost_def)
  with spec assms(2,4) show ?thesis
    by (cases upper) (auto simp: search_bound_def)
qed

text \<open>Without fees the default bound is not the largest affordable size: rounding leaves room.\<close>

lemma default_bound_not_largest:
  "max_affordable_shares 1 10000 (DEFAULT_FEE\<lparr>fc_formula := Zero_fee\<rparr>) None = 101
   \<and> buy_cost (DEFAULT_FEE\<lparr>fc_formula := Zero_fee\<rparr>) 149 10000 \<le> 1"
  by code_simp

theorem max_affordable_is_largest_witness:
  "max_affordable_shares 1000000 500000 DEFAULT_FEE None = 1932368
   \<and> buy_cost DEFAULT_FEE (max_affordable_shares 1000000 500000 DEFAULT_FEE None) 500000 \<le> 1000000"
proof -
  have "max_affordable_shares 1000000 500000 DEFAULT_FEE None = 1932368" by code_simp
  with max_affordable_is_largest [OF DEFAULT_FEE_ok, of 500000 1000000 None] show ?thesis by simp
qed

text \<open>C15. No order of the simulator exceeds what it was given.  Whatever the book and the depth taken
  before, the outcome's totals are the sums over its slices, never more shares than requested; a buy's
  notional and fees together stay within the cash at its arrival and within its own spending limit; an
  order that must fill whole fills whole, or spends its whole budget, or not at all; an empty outcome
  says why; and no order arrives before its decision.\<close>

theorem send_within_budget:
  assumes "realism_ok r" "tape_ok t" "0 \<le> sq_taker_delay_ns q" "send g r t q s = Inr (out, s')"
  shows "eo_filled_shares out = sum_list (map fs_size (eo_slices out))
    \<and> eo_notional out = sum_list (map fs_notional (eo_slices out))
    \<and> eo_fees out = sum_list (map fs_fee (eo_slices out))
    \<and> eo_filled_shares out \<le> max 0 (eo_requested_shares out)
    \<and> (sq_max_spend q = None \<longrightarrow> eo_requested_shares out = sq_shares q)
    \<and> (sq_side q = BUY \<longrightarrow>
         opt_all (\<lambda>c. eo_notional out + eo_fees out \<le> c) (cash_at (sq_available_cash q) (eo_arrival_utc_ns out))
         \<and> opt_all (\<lambda>m. eo_notional out + eo_fees out \<le> max 0 m) (sq_max_spend q))
    \<and> (sq_require_full_fill q \<longrightarrow> eo_filled_shares out \<in> {0, eo_requested_shares out}
         \<or> sq_max_spend q \<noteq> None \<and> eo_binding_constraint out = Some ''cash_budget'')
    \<and> (eo_filled_shares out = 0 \<longrightarrow> eo_rejected_reason out \<noteq> None)
    \<and> eo_decision_utc_ns out \<le> eo_arrival_utc_ns out"
proof -
  from assms(4) obtain arrival s1 where a: "sq_decision_ns q + sq_taker_delay_ns q \<le> arrival"
    "send_at r t q arrival s1 = (out, s')" by (rule send_split)
  note st = send_at_stamps [OF assms(1,2) a(2)]
  obtain ladder where o: "outcome_from r ladder out" using st(4) by blast
  have full: "eo_filled_shares out \<in> {0, eo_requested_shares out}
         \<or> sq_max_spend q \<noteq> None \<and> eo_binding_constraint out = Some ''cash_budget''"
    if "sq_require_full_fill q"
    using a(2)
  proof (cases rule: send_at_cases)
    case (refused reason)
    then show ?thesis by (simp add: rejected_outcome_def)
  next
    case (matched row)
    from match_order_spec(6) [OF assms(1) row_at_spec(5) [OF assms(2) matched(4)] matched(6) that]
      outcome_from_empty [OF o] show ?thesis by blast
  qed
  have spend: "opt_all (\<lambda>c. eo_notional out + eo_fees out \<le> c) (cash_at (sq_available_cash q) (eo_arrival_utc_ns out))
         \<and> opt_all (\<lambda>m. eo_notional out + eo_fees out \<le> max 0 m) (sq_max_spend q)" if "sq_side q = BUY"
    using send_at_budget [OF assms(1,2) a(2) that] st(2) by (auto simp: opt_all_def split: option.splits)
  show ?thesis
    using o st(1-3) full spend a(1) assms(3) by (simp add: outcome_from_def)
qed

text \<open>C20. An order that fills met the right book and only depth that was still there.  It arrived before
  its deadline and before the market closed; the row it matched was published no later than its
  arrival, is the last such row of its token, and is valid where validity is required.  At every level
  it took, everything that this and the earlier orders of the simulation took there, and no
  snapshot or update of that level up to the latest row reached has given back since, is together
  within what the row displays.  The latest row reached is the matched one, or an earlier order's
  where orders arrive out of turn.\<close>

theorem send_meets_live_depth_once:
  assumes "realism_ok r" "tape_ok t" "sends_made g r t earlier s" "send g r t q s = Inr (out, s')" "eo_filled out"
  shows "\<exists>row. opt_all (\<lambda>d. eo_arrival_utc_ns out \<le> d) (sq_deadline_ns q)
    \<and> eo_arrival_utc_ns out < ep_end_utc_ns (tape_episode t)
    \<and> row < length (tape_rows t) \<and> row_token_index (tape_rows t ! row) = sq_token_index q
    \<and> row_received_utc_ns (tape_rows t ! row) \<le> eo_arrival_utc_ns out
    \<and> (\<forall>j. row < j \<longrightarrow> j < length (tape_rows t) \<longrightarrow> row_token_index (tape_rows t ! j) = sq_token_index q \<longrightarrow>
          eo_arrival_utc_ns out < row_received_utc_ns (tape_rows t ! j))
    \<and> (er_require_valid_book r \<longrightarrow> row_book_valid (tape_rows t ! row)
          \<and> \<not> is_uncertain t (token_id_of t (sq_token_index q)) (eo_arrival_utc_ns out))
    \<and> sn_reached (sent_as q out s') = max (int row) (reached_before (sq_token_index q) earlier)
    \<and> (\<forall>x \<in> set (eo_slices out). \<exists>displayed.
          (fs_price x, displayed) \<in> set (tape_taker_ladder t row (sq_side q)) \<and> 0 < fs_size x
          \<and> taken_since t (sq_token_index q, taker_book_side (sq_side q), fs_price x)
              (sn_reached (sent_as q out s')) (earlier @ [sent_as q out s']) \<le> displayed)"
proof -
  let ?k = "sq_token_index q" and ?bs = "taker_book_side (sq_side q)"
  note made = sends_made_ledger [OF sends_made.sent_next [OF assms(3,4)] assms(1,2)]
  from assms(4) obtain arrival s1 where a: "send_at r t q arrival s1 = (out, s')" "sm_cursor s1 = sm_cursor s"
    by (rule send_split)
  note st = send_at_stamps [OF assms(1,2) a(1)]
  from a(1) show ?thesis
  proof (cases rule: send_at_cases)
    case (refused reason)
    with assms(5) show ?thesis by (simp add: rejected_outcome_def eo_filled_def)
  next
    case (matched row)
    note at = row_at_spec [OF assms(2) matched(4)]
    note mo = match_order_spec [OF assms(1) at(5) matched(6)]
    define s2 where "s2 = reconcile_self_impact t ?k (fst (token_rows t ?k)) row s1"
    have drawn: "outcome_from r (impacted_ladder t ?k ?bs row (sm_consumed s2)) out"
      using mo(1) by (simp add: s2_def)
    have s': "sm_consumed s' = fold (consume_slice ?k ?bs) (eo_slices out) (sm_consumed s2)"
      using mo(7) assms(5) by (simp add: s2_def)
    have "cursor_at s1 ?k = reached_before ?k earlier"
      using sends_made_ledger(2) [OF assms(3,1,2)] a(2) by (simp add: cursor_at_def)
    then have reached: "cursor_at s' ?k = max row (reached_before ?k earlier)"
      using reconcile_get(1) [OF s2_def, of ?k] mo(7) assms(5) by (simp add: cursor_at_def s2_def)
    have depth: "\<exists>displayed. (fs_price x, displayed) \<in> set (tape_taker_ladder t (nat row) (sq_side q))
        \<and> 0 < fs_size x \<and> taken_since t (?k, ?bs, fs_price x) (cursor_at s' ?k) (earlier @ [sent_as q out s']) \<le> displayed"
      if x: "x \<in> set (eo_slices out)" for x
    proof -
      have "slice_in r (impacted_ladder t ?k ?bs row (sm_consumed s2)) x"
        and dist: "distinct (map fs_price (eo_slices out))"
        using drawn x by (auto simp: outcome_from_def)
      then obtain left where left: "(fs_price x, left) \<in> set (impacted_ladder t ?k ?bs row (sm_consumed s2))"
        "fs_size x \<le> left" "0 < fs_size x" by (auto simp: slice_in_def)
      obtain d where d: "(fs_price x, d) \<in> set (tape_ladder t (nat row) ?bs)"
        "left = d - dict_get (sm_consumed s2) (?k, ?bs, fs_price x)"
        using apply_self_impact_in [OF left(1) [unfolded impacted_ladder_def]] by (auto simp: dict_get_impact)
      with left consume_own [OF dist x, of ?k ?bs "sm_consumed s2"] show ?thesis
        using made(1) [of "(?k, ?bs, fs_price x)"]
        by (auto simp: s' tape_taker_ladder_def taker_book_side_def)
    qed
    show ?thesis
    proof (rule exI [of _ "nat row"], intro conjI)
      show "\<forall>x \<in> set (eo_slices out). \<exists>displayed.
          (fs_price x, displayed) \<in> set (tape_taker_ladder t (nat row) (sq_side q)) \<and> 0 < fs_size x
          \<and> taken_since t (?k, ?bs, fs_price x) (sn_reached (sent_as q out s')) (earlier @ [sent_as q out s']) \<le> displayed"
        using depth by (simp add: sent_as_def)
      show "sn_reached (sent_as q out s') = max (int (nat row)) (reached_before ?k earlier)"
        using at(1) reached by (simp add: sent_as_def)
    qed (use at matched(1,2,5) st(2) in \<open>auto simp: row_of_def\<close>)
  qed
qed

section \<open>A concrete order\<close>

definition tape_demo :: tape where
  "tape_demo = load_tape demo_episode (tp_rows demo_build) [] (tp_uncertainty demo_build)"

lemma tape_demo_ok: "tape_ok tape_demo"
  unfolding tape_demo_def
  by (rule loaded_tape_ok [OF demo_build]) (simp add: tape_demo_events_def tape_demo_event_def)

definition sent_realism :: execution_realism where
  "sent_realism = optimistic_preset None DEFAULT_FEE"

lemma sent_realism_ok: "realism_ok sent_realism"
  by (simp add: sent_realism_def optimistic_preset_def realism_ok_def)

definition sent_order :: send_request where
  "sent_order =
     \<lparr>sq_token_index = 0, sq_side = BUY, sq_decision_ns = 101, sq_shares = 5000000, sq_max_spend = None,
      sq_available_cash = Some (\<lambda>_. 1000000), sq_require_full_fill = False, sq_limit_price = None,
      sq_reference_price = Some 520000, sq_taker_delay_ns = 0, sq_deadline_ns = None\<rparr>"

definition sent_sim :: "unit sim" where
  "sent_sim = \<lparr>sm_rng = (), sm_consumed = [((0, Book_side_asks, 520000), 1000000)], sm_cursor = [0 \<mapsto> 0]\<rparr>"

definition sent_rng_source :: "unit rng" where
  "sent_rng_source = \<lparr>rng_choice = (\<lambda>xs r. (hd xs, r)), rng_lognormal = (\<lambda>mu _ r. (mu, r))\<rparr>"

lemma sent_rng: "sm_rng sent_sim = ()" by simp

lemma sent_matched:
  "(case send_at sent_realism tape_demo sent_order 25000101 sent_sim of
      (out, s') \<Rightarrow> eo_filled_shares out = 1860562 \<and> eo_notional out + eo_fees out = 1000000
        \<and> sm_consumed s' = [((0, Book_side_asks, 520000), 1860562)])"
  by code_simp

lemma sent_run:
  "\<exists>out s'. send g sent_realism tape_demo sent_order sent_sim = Inr (out, s')
     \<and> eo_filled_shares out = 1860562 \<and> eo_notional out + eo_fees out = 1000000
     \<and> sm_consumed s' = [((0, Book_side_asks, 520000), 1860562)]"
proof -
  have "sample_latency_ns g sent_realism () = (Inr 25000000, ())"
    by (simp add: sample_latency_ns_def sent_realism_def optimistic_preset_def constant_latency_def
        sample_ns_def ms_to_ns_int)
  moreover have "sq_decision_ns sent_order = 101" "sq_taker_delay_ns sent_order = 0"
    by (simp_all add: sent_order_def)
  moreover have "sent_sim\<lparr>sm_rng := ()\<rparr> = sent_sim" by (simp add: sent_sim_def)
  ultimately have "send g sent_realism tape_demo sent_order sent_sim
      = Inr (send_at sent_realism tape_demo sent_order 25000101 sent_sim)"
    by (simp only: send_def sent_rng prod.case sum.case) simp
  with sent_matched show ?thesis by (auto split: prod.splits)
qed

theorem send_within_budget_witness:
  "\<exists>out s'. send sent_rng_source sent_realism tape_demo sent_order sent_sim = Inr (out, s')
     \<and> eo_filled_shares out = 1860562 \<and> sum_list (map fs_size (eo_slices out)) = 1860562
     \<and> eo_notional out + eo_fees out \<le> 1000000 \<and> eo_decision_utc_ns out \<le> eo_arrival_utc_ns out"
proof -
  obtain out s' where run: "send sent_rng_source sent_realism tape_demo sent_order sent_sim = Inr (out, s')"
    "eo_filled_shares out = 1860562" using sent_run [of sent_rng_source] by blast
  have "0 \<le> sq_taker_delay_ns sent_order" by (simp add: sent_order_def)
  from send_within_budget [OF sent_realism_ok tape_demo_ok this run(1)] run show ?thesis
    by (auto simp: sent_order_def cash_at_def)
qed

text \<open>The same order twice: the second finds what the first left of the level's four shares.\<close>

definition fresh_sim :: "unit sim" where
  "fresh_sim = \<lparr>sm_rng = (), sm_consumed = [], sm_cursor = Map.empty\<rparr>"

lemma sends_demo:
  "send g sent_realism tape_demo q \<lparr>sm_rng = (), sm_consumed = c, sm_cursor = m\<rparr>
     = Inr (send_at sent_realism tape_demo q (sq_decision_ns q + 25000000 + sq_taker_delay_ns q)
         \<lparr>sm_rng = (), sm_consumed = c, sm_cursor = m\<rparr>)"
proof -
  have "sample_latency_ns g sent_realism () = (Inr 25000000, ())"
    by (simp add: sample_latency_ns_def sent_realism_def optimistic_preset_def constant_latency_def
        sample_ns_def ms_to_ns_int)
  then show ?thesis by (simp add: send_def)
qed

lemma twice_matched:
  "(case send_at sent_realism tape_demo sent_order 25000101 fresh_sim of (out1, s1) \<Rightarrow>
     case send_at sent_realism tape_demo sent_order 25000101 s1 of (out2, s2) \<Rightarrow>
       eo_filled_shares out1 = 1860562 \<and> eo_filled_shares out2 = 1860562
       \<and> taken_since tape_demo (0, Book_side_asks, 520000) (sn_reached (sent_as sent_order out2 s2))
           [sent_as sent_order out1 s1, sent_as sent_order out2 s2] = 3721124)"
  by code_simp

theorem send_meets_live_depth_once_witness:
  "\<exists>earlier s out s' row. sends_made sent_rng_source sent_realism tape_demo earlier s \<and> length earlier = 1
     \<and> send sent_rng_source sent_realism tape_demo sent_order s = Inr (out, s') \<and> eo_filled_shares out = 1860562
     \<and> row < length (tape_rows tape_demo) \<and> row_book_valid (tape_rows tape_demo ! row)
     \<and> row_received_utc_ns (tape_rows tape_demo ! row) \<le> eo_arrival_utc_ns out
     \<and> taken_since tape_demo (0, Book_side_asks, 520000) (sn_reached (sent_as sent_order out s'))
         (earlier @ [sent_as sent_order out s']) = 3721124"
proof -
  let ?send = "send sent_rng_source sent_realism tape_demo"
  obtain out1 s1 out2 s2 where runs: "send_at sent_realism tape_demo sent_order 25000101 fresh_sim = (out1, s1)"
      "send_at sent_realism tape_demo sent_order 25000101 s1 = (out2, s2)"
    and res: "eo_filled_shares out2 = 1860562"
      "taken_since tape_demo (0, Book_side_asks, 520000) (sn_reached (sent_as sent_order out2 s2))
           [sent_as sent_order out1 s1, sent_as sent_order out2 s2] = 3721124"
    using twice_matched by (auto split: prod.splits)
  have one: "?send sent_order fresh_sim = Inr (out1, s1)"
    using runs(1) sends_demo [of sent_rng_source sent_order] by (simp add: fresh_sim_def sent_order_def)
  have two: "?send sent_order s1 = Inr (out2, s2)"
    using runs(2) sends_demo [of sent_rng_source sent_order] by (cases s1) (simp add: sent_order_def)
  have made: "sends_made sent_rng_source sent_realism tape_demo [sent_as sent_order out1 s1] s1"
    using sends_made.sent_next [OF sends_made.fresh] one by (fastforce simp: fresh_sim_def)
  have "eo_filled out2" using res(1) by (simp add: eo_filled_def)
  moreover have "er_require_valid_book sent_realism" by (simp add: sent_realism_def optimistic_preset_def)
  ultimately obtain row where "row < length (tape_rows tape_demo)" "row_book_valid (tape_rows tape_demo ! row)"
    "row_received_utc_ns (tape_rows tape_demo ! row) \<le> eo_arrival_utc_ns out2"
    using send_meets_live_depth_once [OF sent_realism_ok tape_demo_ok made two] by blast
  with made two res show ?thesis
    by (intro exI [of _ "[sent_as sent_order out1 s1]"] exI [of _ s1] exI [of _ out2] exI [of _ s2] exI [of _ row]) simp
qed

end
