(* ===== verification/Fastentry.thy ===== *)
theory Fastentry
  imports Fastsim
begin

text \<open>
  \<^verbatim>\<open>_sequential_entry\<close> of \<^verbatim>\<open>backtest/fastsim.py\<close>: one parent buy, executed as child orders by a
  TWAP or adaptive policy on its own clock until its deadline, and the aggregate of the children.
\<close>

section \<open>The parent's clock\<close>

definition entry_deadline_ns :: "threshold_params \<Rightarrow> episode \<Rightarrow> int \<Rightarrow> int \<Rightarrow> int" where
  "entry_deadline_ns p e decision_ns entry_to_ns =
     min (min entry_to_ns (ep_end_utc_ns e - 1)) (decision_ns + seconds_to_ns (th_execution_horizon_seconds p))"

definition decision_interval_ns :: int where "decision_interval_ns = 250000000"

function tick_times :: "int \<Rightarrow> int \<Rightarrow> int list" where
  "tick_times tick deadline =
     (if tick < deadline then tick # tick_times (tick + decision_interval_ns) deadline else [])"
  by pat_completeness auto
termination
  by (relation "measure (\<lambda>(tick, deadline). nat (deadline - tick))") (auto simp: decision_interval_ns_def)

declare tick_times.simps [simp del]

text \<open>
  The set of decision instants, sorted: the decision, the deadline, the fixed clock between them,
  every book row of the token and every trade of the token in the window.
\<close>

definition between :: "int list \<Rightarrow> int \<Rightarrow> int \<Rightarrow> nat list" where
  "between stamps first_ns last_ns = [bisect_left stamps first_ns..<bisect_right stamps last_ns]"

definition decision_times :: "tape \<Rightarrow> int \<Rightarrow> int \<Rightarrow> int \<Rightarrow> int list" where
  "decision_times t token_index decision_ns deadline_ns =
     (let stamps = snd (token_rows t token_index);
          trade_stamps = map (\<lambda>(ts, _, _). ts) (tape_trades t);
          trade_tokens = map (\<lambda>(_, k, _). k) (tape_trades t)
      in sorted_list_of_set (set ([decision_ns, deadline_ns]
           @ tick_times (decision_ns + decision_interval_ns) deadline_ns
           @ map ((!) stamps) (between stamps decision_ns deadline_ns)
           @ map ((!) trade_stamps)
               (filter (\<lambda>i. trade_tokens ! i = token_index) (between trade_stamps decision_ns deadline_ns)))))"

section \<open>The child policy\<close>

definition entry_limits :: policy_limits where
  "entry_limits =
     \<lparr>lim_minimum_action_interval_ns = decision_interval_ns, lim_max_child_shares = None,
      lim_max_l2_participation_ppm = 250000, lim_fee_reserve_ppm = 50000\<rparr>"

definition entry_policy :: "threshold_params \<Rightarrow> py_error + string \<times> (execution_state \<Rightarrow> execution_action)" where
  "entry_policy p =
     res_bind (make_policy_limits entry_limits) (\<lambda>limits.
       if th_entry_execution_policy p = Policy_twap
       then res_bind (make_twap \<lparr>tw_slices = th_execution_slices p, tw_limits = limits\<rparr>) (\<lambda>tw.
              Inr (''twap'', twap_decide tw))
       else res_bind (make_pov \<lparr>pv_participation_ppm = th_execution_participation_ppm p,
                pv_twap_floor_ppm = 500000, pv_adverse_move_tolerance = Some 20000,
                pv_minimum_adverse_multiplier_ppm = 100000, pv_limits = limits\<rparr>) (\<lambda>pv.
              Inr (''adaptive_pov'', pov_decide pv)))"

section \<open>One decision of the parent\<close>

record 'r entry_env =
  ee_rng :: "'r rng"
  ee_realism :: execution_realism
  ee_tape :: tape
  ee_token_index :: int
  ee_policy_name :: string
  ee_policy :: "execution_state \<Rightarrow> execution_action"
  ee_reference_price :: int
  ee_max_spend :: "int option"
  ee_available_cash :: cash_source
  ee_taker_delay_ns :: int
  ee_deadline_ns :: int

record 'r entry_state =
  es_session :: session
  es_sim :: "'r sim"
  es_outcomes :: "execution_outcome list"
  es_externally_spent :: int

text \<open>The cash of a child: the session's own, and what the wallet holds beyond earlier children.\<close>

definition child_cash :: "'r entry_env \<Rightarrow> session \<Rightarrow> int \<Rightarrow> int \<Rightarrow> int" where
  "child_cash env session spent_before_child arrival_ns =
     (let external = (case cash_at (ee_available_cash env) arrival_ns of
            Some c \<Rightarrow> c
          | None \<Rightarrow> (case ee_max_spend env of Some m \<Rightarrow> m | None \<Rightarrow> se_cash session))
      in min (se_cash session) (max 0 (external - spent_before_child)))"

definition child_request :: "'r entry_env \<Rightarrow> session \<Rightarrow> int \<Rightarrow> execution_action \<Rightarrow> int \<Rightarrow> send_request" where
  "child_request env session spent a now_ns =
     \<lparr>sq_token_index = ee_token_index env, sq_side = BUY, sq_decision_ns = now_ns,
      sq_shares = xa_requested_shares a, sq_max_spend = None,
      sq_available_cash = Some (child_cash env session spent), sq_require_full_fill = False,
      sq_limit_price = xa_limit_price a, sq_reference_price = Some (ee_reference_price env),
      sq_taker_delay_ns = ee_taker_delay_ns env, sq_deadline_ns = Some (ee_deadline_ns env)\<rparr>"

definition entry_call :: "'r entry_env \<Rightarrow> int \<Rightarrow> int \<Rightarrow> 'r sim \<Rightarrow> decide_call" where
  "entry_call env row now_ns sim =
     \<lparr>dc_now_utc_ns = now_ns,
      dc_bids = impacted_ladder (ee_tape env) (ee_token_index env) Book_side_bids row (sm_consumed sim),
      dc_asks = impacted_ladder (ee_tape env) (ee_token_index env) Book_side_asks row (sm_consumed sim),
      dc_minimum_order_size = ep_minimum_order_size (tape_episode (ee_tape env)),
      dc_reference_price = row_best_ask (row_of (ee_tape env) row)\<rparr>"

text \<open>The body of the loop; the flag is the \<^verbatim>\<open>break\<close> of a complete parent.\<close>

definition entry_decision :: "'r entry_env \<Rightarrow> int \<Rightarrow> 'r entry_state \<Rightarrow> py_error + bool \<times> 'r entry_state" where
  "entry_decision env now_ns s =
     (let t = ee_tape env; tok = ee_token_index env; rows = token_rows t tok
      in case row_at rows now_ns of
           None \<Rightarrow> Inr (False, s)
         | Some row \<Rightarrow>
             if er_require_valid_book (ee_realism env)
               \<and> (\<not> row_book_valid (row_of t row) \<or> is_uncertain t (token_id_of t tok) now_ns)
             then Inr (False, s)
             else
               let sim = reconcile_self_impact t tok (fst rows) row (es_sim s)
               in case session_decide (ee_policy_name env) (ee_policy env) (entry_call env row now_ns sim)
                         (es_session s) of
                    (_, Inl e) \<Rightarrow> Inl e
                  | (session, Inr a) \<Rightarrow>
                      if xa_kind a = WAIT
                      then Inr (False, s\<lparr>es_session := session, es_sim := sim\<rparr>)
                      else
                        res_bind (send (ee_rng env) (ee_realism env) t
                            (child_request env session (es_externally_spent s) a now_ns) sim) (\<lambda>(out, sim').
                        res_bind (record_outcome out session) (\<lambda>session'.
                          Inr (session_remaining session' \<le> 0,
                            \<lparr>es_session = session', es_sim = sim', es_outcomes = es_outcomes s @ [out],
                             es_externally_spent = es_externally_spent s + eo_notional out + eo_fees out\<rparr>))))"

fun entry_loop :: "'r entry_env \<Rightarrow> int list \<Rightarrow> 'r entry_state \<Rightarrow> py_error + 'r entry_state" where
  "entry_loop env [] s = Inr s"
| "entry_loop env (now_ns # later) s =
     res_bind (entry_decision env now_ns s) (\<lambda>(finished, s').
       if finished then Inr s' else entry_loop env later s')"

section \<open>The parent\<close>

record 'r entry_request =
  eq_rng :: "'r rng"
  eq_realism :: execution_realism
  eq_params :: threshold_params
  eq_tape :: tape
  eq_token_index :: int
  eq_decision_ns :: int
  eq_reference_price :: int
  eq_entry_to_ns :: int
  eq_max_spend :: "int option"
  eq_available_cash :: cash_source
  eq_taker_delay_ns :: int

definition entry_target :: "'r entry_request \<Rightarrow> py_error + int" where
  "entry_target q =
     (case th_order_shares (eq_params q) of
        Some n \<Rightarrow> Inr n
      | None \<Rightarrow>
          (case eq_max_spend q of
             None \<Rightarrow> Inl AssertionError
           | Some m \<Rightarrow> Inr (max_affordable_shares m (eq_reference_price q) (er_fee (eq_realism q)) None)))"

definition entry_plan :: "'r entry_request \<Rightarrow> int \<Rightarrow> int \<Rightarrow> execution_plan" where
  "entry_plan q target deadline_ns =
     \<lparr>xp_side = BUY, xp_target_shares = target, xp_start_utc_ns = eq_decision_ns q,
      xp_deadline_utc_ns = deadline_ns, xp_benchmark_price = eq_reference_price q,
      xp_limit_price = Some (th_entry_limit_price (eq_params q)),
      xp_objective = \<lparr>ow_implementation_shortfall_ppm = PPM, ow_non_fill_penalty_ppm = PPM,
                      ow_adverse_selection_penalty_ppm = PPM\<rparr>\<rparr>"

definition entry_session_cash :: "'r entry_request \<Rightarrow> int \<Rightarrow> int" where
  "entry_session_cash q deadline_ns =
     (case eq_max_spend q of
        Some m \<Rightarrow> m
      | None \<Rightarrow> (case cash_at (eq_available_cash q) deadline_ns of Some c \<Rightarrow> c | None \<Rightarrow> 2 ^ 62))"

definition entry_cursor :: "'r entry_request \<Rightarrow> py_error + volume_cursor" where
  "entry_cursor q =
     (let trades = tape_trades (eq_tape q)
      in make_cursor (map (\<lambda>(ts, _, _). ts) trades) (map (\<lambda>(_, k, _). k) trades)
           (map (\<lambda>(_, _, z). z) trades) (eq_token_index q) (eq_decision_ns q))"

definition entry_env_of :: "'r entry_request \<Rightarrow> int \<Rightarrow> string \<Rightarrow> (execution_state \<Rightarrow> execution_action) \<Rightarrow> 'r entry_env" where
  "entry_env_of q deadline_ns name policy =
     \<lparr>ee_rng = eq_rng q, ee_realism = eq_realism q, ee_tape = eq_tape q,
      ee_token_index = eq_token_index q, ee_policy_name = name, ee_policy = policy,
      ee_reference_price = eq_reference_price q, ee_max_spend = eq_max_spend q,
      ee_available_cash = eq_available_cash q, ee_taker_delay_ns = eq_taker_delay_ns q,
      ee_deadline_ns = deadline_ns\<rparr>"

text \<open>The ask at the deadline, or the reference price where there is no book or no ask.\<close>

definition deadline_mark :: "'r entry_request \<Rightarrow> int \<Rightarrow> int" where
  "deadline_mark q deadline_ns =
     (case row_at (token_rows (eq_tape q) (eq_token_index q)) deadline_ns of
        None \<Rightarrow> eq_reference_price q
      | Some row \<Rightarrow>
          (case row_best_ask (row_of (eq_tape q) row) of
             None \<Rightarrow> eq_reference_price q
           | Some ask \<Rightarrow> ask))"

definition sequential_entry :: "'r entry_request \<Rightarrow> 'r sim
    \<Rightarrow> py_error + execution_outcome list \<times> objective_result \<times> 'r sim" where
  "sequential_entry q sim =
     res_bind (entry_target q) (\<lambda>target.
       let deadline_ns = entry_deadline_ns (eq_params q) (tape_episode (eq_tape q)) (eq_decision_ns q)
                           (eq_entry_to_ns q)
       in if deadline_ns \<le> eq_decision_ns q
          then Inl (ValueError ''sequential entry needs a deadline after its decision'')
          else
            res_bind (make_plan (entry_plan q target deadline_ns)) (\<lambda>plan.
            res_bind (entry_policy (eq_params q)) (\<lambda>(name, policy).
            res_bind (entry_cursor q) (\<lambda>cursor.
            res_bind (make_session plan cursor (entry_session_cash q deadline_ns) 0) (\<lambda>session.
            res_bind (entry_loop (entry_env_of q deadline_ns name policy)
                (decision_times (eq_tape q) (eq_token_index q) (eq_decision_ns q) deadline_ns)
                \<lparr>es_session = session, es_sim = sim, es_outcomes = [], es_externally_spent = 0\<rparr>) (\<lambda>s.
            res_bind (session_evaluate deadline_ns (Some (deadline_mark q deadline_ns)) (es_session s)) (\<lambda>objective.
              Inr (es_outcomes s, objective, es_sim s))))))))"

section \<open>The aggregate of the children\<close>

definition last_reason :: "(execution_outcome \<Rightarrow> string option) \<Rightarrow> execution_outcome list \<Rightarrow> string option" where
  "last_reason field outs =
     (case find (\<lambda>out. field out \<noteq> None \<and> field out \<noteq> Some []) (rev outs) of
        None \<Rightarrow> None
      | Some out \<Rightarrow> field out)"

definition aggregate_entry_outcomes :: "int \<Rightarrow> int \<Rightarrow> int \<Rightarrow> execution_outcome list \<Rightarrow> execution_outcome" where
  "aggregate_entry_outcomes target decision_ns reference outs =
     (let slices = concat (map eo_slices outs);
          filled = sum_list (map fs_size slices);
          arrivals = map eo_arrival_utc_ns (filter eo_filled outs)
      in \<lparr>eo_requested_shares = target, eo_filled_shares = filled,
          eo_notional = sum_list (map fs_notional slices), eo_fees = sum_list (map fs_fee slices),
          eo_slices = slices,
          eo_rejected_reason = (if filled = 0 then last_reason eo_rejected_reason outs else None),
          eo_binding_constraint = last_reason eo_binding_constraint outs,
          eo_arrival_utc_ns = (if arrivals = [] then decision_ns else Max (set arrivals)),
          eo_decision_utc_ns = decision_ns, eo_reference_price = Some reference,
          eo_side_is_buy = True\<rparr>)"

section \<open>Ladders and volumes are what a state accepts\<close>

lemma validate_ladder_ok:
  "sorted_wrt (if desc then (>) else (<)) (map fst ls) \<Longrightarrow> \<forall>(p, z) \<in> set ls. 0 < p \<and> 0 < z \<Longrightarrow>
     opt_all (\<lambda>q. \<forall>p \<in> fst ` set ls. if desc then p < q else q < p) prev \<Longrightarrow>
     validate_ladder desc prev ls = Inr ()"
proof (induction ls arbitrary: prev)
  case (Cons l ls)
  have "validate_ladder desc (Some (fst l)) ls = Inr ()"
    by (rule Cons.IH) (use Cons.prems(1,2) in \<open>cases desc; auto\<close>)+
  with Cons.prems(2,3) show ?case
    by (cases l; cases prev) (auto split: if_splits)
qed simp

lemma apply_self_impact_sorted:
  assumes "sorted_wrt P (map fst ladder)"
  shows "sorted_wrt P (map fst (apply_self_impact ladder taken))"
proof -
  have "sorted_wrt (\<lambda>x y. P (fst x) (fst y)) (map (\<lambda>(price, sz). (price, sz - dict_get taken price)) ladder)"
    using assms by (simp add: sorted_wrt_map case_prod_beta)
  then show ?thesis
    using assms by (auto simp: apply_self_impact_def sorted_wrt_map intro: sorted_wrt_filter)
qed

lemma impacted_ladder_validates:
  assumes "row_ok (row_of t row)"
  shows "validate_ladder True None (impacted_ladder t k Book_side_bids row consumed) = Inr ()"
    "validate_ladder False None (impacted_ladder t k Book_side_asks row consumed) = Inr ()"
proof -
  have pos: "\<forall>(p, z) \<in> set (impacted_ladder t k bs row consumed). 0 < p \<and> 0 < z" if "bs \<noteq> Book_side_none" for bs
    using impacted_ladder_sane [OF assms that, of k consumed] by (auto simp: ladder_sane_def)
  have "sorted_wrt (>) (map fst (impacted_ladder t k Book_side_bids row consumed))"
    "sorted_wrt (<) (map fst (impacted_ladder t k Book_side_asks row consumed))"
    using assms unfolding impacted_ladder_def tape_ladder_def row_of_def
    by (auto intro!: apply_self_impact_sorted simp: row_ok_def)
  with pos [of Book_side_bids] pos [of Book_side_asks]
  show "validate_ladder True None (impacted_ladder t k Book_side_bids row consumed) = Inr ()"
    "validate_ladder False None (impacted_ladder t k Book_side_asks row consumed) = Inr ()"
    by (auto intro!: validate_ladder_ok)
qed

lemma best_ask_positive: "row_ok r \<Longrightarrow> row_best_ask r = Some p \<Longrightarrow> 0 < p"
  by (auto simp: row_ok_def head_option_def split: list.splits)

lemma traded_volume_nonneg:
  "\<forall>(_, _, z) \<in> set prints. 0 \<le> z \<Longrightarrow> 0 \<le> traded_volume prints k start now"
  unfolding traded_volume_def by (rule sum_list_nonneg_map) auto

text \<open>A cursor that reads non-negative prints.\<close>

definition cursor_ok :: "int \<Rightarrow> volume_cursor \<Rightarrow> bool" where
  "cursor_ok start c \<longleftrightarrow> cursor_inv start c \<and> (\<forall>z \<in> set (vc_sizes c). 0 \<le> z)"

lemma cursor_ok_advance:
  assumes "cursor_ok start c" "vc_last_utc_ns c \<le> now"
  shows "\<exists>c' v. advance c now = Inr (c', v) \<and> cursor_ok start c' \<and> vc_last_utc_ns c' = now \<and> 0 \<le> v"
proof -
  obtain c' v where a: "advance c now = Inr (c', v)"
    using assms(2) by (auto simp: advance_def Let_def)
  note f = advance_frame [OF a]
  have inv: "cursor_inv start c'" using advance_inv [OF _ a] assms(1) by (simp add: cursor_ok_def)
  have "v = traded_volume (cursor_prints c) (vc_token_index c) start now"
    using cursor_volume [OF inv] f by simp
  moreover have "\<forall>(_, _, z) \<in> set (cursor_prints c). 0 \<le> z"
    using assms(1) by (auto simp: cursor_prints_def cursor_ok_def dest!: set_zip_rightD)
  ultimately have "0 \<le> v" using traded_volume_nonneg by simp
  moreover have "vc_sizes c' = vc_sizes c" using advance_Inr(2) [OF a] by simp
  ultimately show ?thesis using a f inv assms(1) by (auto simp: cursor_ok_def)
qed

section \<open>A child order and the session\<close>

lemma child_sent:
  assumes "realism_ok (ee_realism env)" "tape_ok (ee_tape env)" "0 \<le> ee_taker_delay_ns env"
    "send (ee_rng env) (ee_realism env) (ee_tape env) (child_request env session spent a now_ns) sim
       = Inr (out, sim')"
  shows "eo_requested_shares out = xa_requested_shares a" "eo_decision_utc_ns out = now_ns"
    "now_ns \<le> eo_arrival_utc_ns out" "eo_filled out \<Longrightarrow> eo_arrival_utc_ns out \<le> ee_deadline_ns env"
    "\<exists>ladder. outcome_from (ee_realism env) ladder out"
    "0 \<le> se_cash session \<Longrightarrow> eo_notional out + eo_fees out \<le> se_cash session"
proof -
  let ?q = "child_request env session spent a now_ns"
  obtain arrival s1 where sent: "sq_decision_ns ?q + sq_taker_delay_ns ?q \<le> arrival"
    "send_at (ee_realism env) (ee_tape env) ?q arrival s1 = (out, sim')"
    using assms(4) by (rule send_split)
  note st = send_at_stamps [OF assms(1,2) sent(2)]
  have q: "sq_max_spend ?q = None" "sq_shares ?q = xa_requested_shares a" "sq_decision_ns ?q = now_ns"
    "sq_taker_delay_ns ?q = ee_taker_delay_ns env" "sq_side ?q = BUY" "sq_deadline_ns ?q = Some (ee_deadline_ns env)"
    by (simp_all add: child_request_def)
  show "eo_requested_shares out = xa_requested_shares a" "eo_decision_utc_ns out = now_ns"
    "now_ns \<le> eo_arrival_utc_ns out" "\<exists>ladder. outcome_from (ee_realism env) ladder out"
    using st q sent(1) assms(3) by auto
  show "eo_arrival_utc_ns out \<le> ee_deadline_ns env" if "eo_filled out"
    using sent(2)
  proof (cases rule: send_at_cases)
    case (refused reason)
    with that show ?thesis by (simp add: rejected_outcome_def eo_filled_def)
  next
    case (matched row)
    with st(2) q show ?thesis by simp
  qed
  show "eo_notional out + eo_fees out \<le> se_cash session" if "0 \<le> se_cash session"
  proof -
    let ?c = "max 0 (child_cash env session spent arrival)"
    have "cash_at (sq_available_cash ?q) arrival = Some ?c"
      by (simp add: child_request_def cash_at_def)
    from send_at_budget(1) [OF assms(1,2) sent(2) q(5) this]
    have "eo_notional out + eo_fees out \<le> ?c" .
    moreover have "?c \<le> se_cash session" using that by (simp add: child_cash_def Let_def)
    ultimately show ?thesis by linarith
  qed
qed

lemma outcome_from_fills:
  assumes "outcome_from r ladder out" "realism_ok r"
  shows "outcome_priced out" "\<exists>fs. outcome_fills arrival (eo_slices out) = Inr fs"
proof -
  have each: "\<forall>x \<in> set (eo_slices out). slice_in r ladder x" using assms(1) by (simp add: outcome_from_def)
  then show "outcome_priced out" by (auto simp: outcome_priced_def slice_in_def)
  have "\<forall>x \<in> set (eo_slices out). 0 < fs_size x \<and> 0 < fs_price x \<and> 0 \<le> fs_fee x"
    using each slice_in_costs [OF _ assms(2)] unfolding slice_in_def by blast
  then show "\<exists>fs. outcome_fills arrival (eo_slices out) = Inr fs" by (rule outcome_fills_total)
qed

text \<open>The session accepts what the executor path sends back for the outstanding child.\<close>

lemma child_outcome_accepted:
  assumes "pending_ok s" "se_pending_action s = Some a" "se_pending_decision_utc_ns s = Some now_ns"
    "xp_side (se_plan s) = BUY" "outcome_from r ladder out" "realism_ok r"
    "eo_requested_shares out = xa_requested_shares a" "eo_decision_utc_ns out = now_ns"
    "now_ns \<le> eo_arrival_utc_ns out"
    "eo_filled out \<Longrightarrow> eo_arrival_utc_ns out \<le> xp_deadline_utc_ns (se_plan s)"
    "eo_notional out + eo_fees out \<le> se_cash s"
  shows "\<exists>s'. record_outcome out s = Inr s'"
proof -
  obtain fs where fs: "outcome_fills (eo_arrival_utc_ns out) (eo_slices out) = Inr fs"
    using outcome_from_fills(2) [OF assms(5,6)] by blast
  have a: "0 < xa_requested_shares a" "xa_requested_shares a \<le> session_remaining s"
    using assms(1-3) by (simp_all add: pending_ok_def)
  note o = assms(5) [unfolded outcome_from_def]
  have filled: "fills_shares fs \<le> xa_requested_shares a"
    using outcome_fills_Inr [OF fs] o assms(7) a(1) by simp
  obtain s1 where "apply_fills fs (eo_notional out) (eo_fees out) s = Inr s1"
    using apply_fills_total [OF assms(2,3) filled] filled a assms(4,11) by force
  with fs assms(2,3,7-10) o show ?thesis
    by (auto simp: record_outcome_def require_pending_def)
qed

section \<open>The loop never raises\<close>

text \<open>What the session's clock has seen by \<open>now\<close>.\<close>

definition clock_inv :: "int \<Rightarrow> int \<Rightarrow> session \<Rightarrow> bool" where
  "clock_inv start now s \<longleftrightarrow>
     cursor_ok start (se_cursor s) \<and> vc_last_utc_ns (se_cursor s) \<le> now
     \<and> opt_all (\<lambda>t. t \<le> now) (se_last_decision_utc_ns s) \<and> opt_all (\<lambda>t. t \<le> now) (se_last_action_utc_ns s)"

lemma clock_inv_later: "clock_inv start now s \<Longrightarrow> now \<le> later \<Longrightarrow> clock_inv start later s"
  by (auto simp: clock_inv_def opt_all_def split: option.splits)

lemma decide_total:
  assumes clock: "clock_inv start now s" and "now \<le> dc_now_utc_ns d"
    and inv: "session_inv cash0 inventory0 s" and "se_pending_action s = None"
    and "0 \<le> dc_minimum_order_size d" "opt_all (\<lambda>p. 0 < p) (dc_reference_price d)"
    and "validate_ladder True None (dc_bids d) = Inr ()" "validate_ladder False None (dc_asks d) = Inr ()"
  shows "\<exists>s' a. session_decide name policy d s = (s', Inr a) \<and> clock_inv start (dc_now_utc_ns d) s'
    \<and> (if xa_kind a = WAIT then se_pending_action s' = None
       else se_pending_action s' = Some a \<and> se_pending_decision_utc_ns s' = Some (dc_now_utc_ns d))"
proof -
  let ?now = "dc_now_utc_ns d"
  have "cursor_ok start (se_cursor s)" "vc_last_utc_ns (se_cursor s) \<le> ?now"
    using clock assms(2) by (simp_all add: clock_inv_def)
  from cursor_ok_advance [OF this] obtain c v where
    c: "advance (se_cursor s) ?now = Inr (c, v)" "cursor_ok start c" "vc_last_utc_ns c = ?now" "0 \<le> v"
    by blast
  define s1 where "s1 = s\<lparr>se_cursor := c, se_last_decision_utc_ns := Some ?now\<rparr>"
  have last: "\<not> (case se_last_decision_utc_ns s of None \<Rightarrow> False | Some t \<Rightarrow> ?now < t)"
    "\<not> (case se_last_action_utc_ns s of None \<Rightarrow> False | Some t \<Rightarrow> ?now < t)"
    using clock assms(2) by (auto simp: clock_inv_def split: option.splits)
  have state: "make_state (observed_state d v s1) = Inr (observed_state d v s1)"
    using inv c(4) last(2) assms(5-8)
    by (auto simp: make_state_def observed_state_def s1_def session_inv_def split: option.splits)
  have "clock_inv start ?now s1"
    using c last(2) by (auto simp: clock_inv_def s1_def opt_all_def split: option.splits)
  moreover define a where "a = policy (observed_state d v s1)"
  ultimately show ?thesis
    using last(1) c(1) state assms(4) unfolding session_decide_def a_def [symmetric]
    by (cases "xa_kind a"; cases "?now < se_next_decision_not_before s")
      (auto simp: s1_def [symmetric] a_def [symmetric] Let_def clock_inv_def wait_action_def, auto simp: s1_def)
qed

lemma record_outcome_effect:
  assumes "record_outcome out s = Inr s'" "xp_side (se_plan s) = BUY"
  shows "se_cash s' = se_cash s - (eo_notional out + eo_fees out)" "se_cursor s' = se_cursor s"
    "se_last_decision_utc_ns s' = se_last_decision_utc_ns s" "se_last_action_utc_ns s' = se_last_action_utc_ns s"
    "se_plan s' = se_plan s"
  using assms by (auto simp: record_outcome_def apply_fills_def complete_pending_def Let_def split: if_splits)

text \<open>Latencies can always be drawn.\<close>

definition latency_drawable :: "execution_realism \<Rightarrow> bool" where
  "latency_drawable r \<longleftrightarrow> lc_model (er_latency r) \<noteq> Latency_empirical \<or> lc_samples_ms (er_latency r) \<noteq> []"

lemma send_total: "latency_drawable r \<Longrightarrow> \<exists>out s'. send g r t q s = Inr (out, s')"
proof -
  assume "latency_drawable r"
  then have "\<exists>ns x. sample_latency_ns g r (sm_rng s) = (Inr ns, x)"
    unfolding sample_latency_ns_def sample_ns_def latency_drawable_def
    by (cases "lc_model (er_latency r)") (auto simp: Let_def case_prod_beta)
  then show ?thesis by (auto simp: send_def)
qed

definition entry_env_ok :: "'r entry_env \<Rightarrow> bool" where
  "entry_env_ok env \<longleftrightarrow>
     realism_ok (ee_realism env) \<and> latency_drawable (ee_realism env) \<and> tape_ok (ee_tape env)
     \<and> 0 \<le> ep_minimum_order_size (tape_episode (ee_tape env)) \<and> 0 \<le> ee_taker_delay_ns env
     \<and> execution_policy (ee_policy env)"

text \<open>What the children of a parent add up to.\<close>

definition spent_on :: "execution_outcome list \<Rightarrow> int" where
  "spent_on outs = sum_list (map (\<lambda>out. eo_notional out + eo_fees out) outs)"

definition children_ok :: "'r entry_env \<Rightarrow> int \<Rightarrow> execution_outcome list \<Rightarrow> bool" where
  "children_ok env start outs \<longleftrightarrow>
     (\<forall>out \<in> set outs. (\<exists>ladder. outcome_from (ee_realism env) ladder out)
        \<and> start \<le> eo_arrival_utc_ns out
        \<and> (eo_filled out \<longrightarrow> eo_arrival_utc_ns out \<le> ee_deadline_ns env))"

definition parent_inv :: "'r entry_env \<Rightarrow> session \<Rightarrow> int \<Rightarrow> 'r entry_state \<Rightarrow> bool" where
  "parent_inv env s0 now s \<longleftrightarrow>
     session_run (ee_policy_name env) (ee_policy env) s0 (es_session s)
     \<and> se_pending_action (es_session s) = None
     \<and> clock_inv (xp_start_utc_ns (se_plan s0)) now (es_session s)
     \<and> se_filled_shares (es_session s) = sum_list (map eo_filled_shares (es_outcomes s))
     \<and> es_externally_spent s = spent_on (es_outcomes s)
     \<and> se_cash (es_session s) = se_cash s0 - spent_on (es_outcomes s)
     \<and> children_ok env (xp_start_utc_ns (se_plan s0)) (es_outcomes s)"

lemma parent_inv_later: "parent_inv env s0 now s \<Longrightarrow> now \<le> later \<Longrightarrow> parent_inv env s0 later s"
  unfolding parent_inv_def using clock_inv_later by blast

definition parent_start :: "'r entry_env \<Rightarrow> session \<Rightarrow> bool" where
  "parent_start env s0 \<longleftrightarrow>
     session_inv (se_cash s0) 0 s0 \<and> pending_ok s0 \<and> xp_side (se_plan s0) = BUY
     \<and> xp_deadline_utc_ns (se_plan s0) = ee_deadline_ns env"

text \<open>A child that the policy asked for is sent, accepted and booked.\<close>

lemma parent_child:
  assumes "entry_env_ok env" "parent_start env s0" "parent_inv env s0 now s"
    and run: "session_run (ee_policy_name env) (ee_policy env) s0 session"
    and clock: "clock_inv (xp_start_utc_ns (se_plan s0)) now_ns session"
    and pend: "se_pending_action session = Some a" "se_pending_decision_utc_ns session = Some now_ns"
    and same: "se_filled_shares session = se_filled_shares (es_session s)" "se_cash session = se_cash (es_session s)"
  shows "\<exists>out sim' session'. send (ee_rng env) (ee_realism env) (ee_tape env)
        (child_request env session (es_externally_spent s) a now_ns) sim = Inr (out, sim')
    \<and> record_outcome out session = Inr session'
    \<and> parent_inv env s0 now_ns \<lparr>es_session = session', es_sim = sim', es_outcomes = es_outcomes s @ [out],
          es_externally_spent = es_externally_spent s + eo_notional out + eo_fees out\<rparr>"
proof -
  note env = assms(1) [unfolded entry_env_ok_def] and start = assms(2) [unfolded parent_start_def]
    and inv = assms(3) [unfolded parent_inv_def]
  have r: "realism_ok (ee_realism env)" "tape_ok (ee_tape env)" "0 \<le> ee_taker_delay_ns env"
    using env by auto
  obtain out sim' where sent: "send (ee_rng env) (ee_realism env) (ee_tape env)
        (child_request env session (es_externally_spent s) a now_ns) sim = Inr (out, sim')"
    using send_total env by blast
  note out = child_sent [OF r sent]
  obtain ladder where ladder: "outcome_from (ee_realism env) ladder out" using out(5) by blast
  have s: "session_inv (se_cash s0) 0 session" "se_plan session = se_plan s0"
    using session_run_inv [OF run] start by auto
  have ok: "pending_ok session"
    using execution_policy.run_pending_ok [OF _ run] env start by blast
  have cash: "eo_notional out + eo_fees out \<le> se_cash session"
    using out(6) s(1) by (simp add: session_inv_def)
  have buy: "xp_side (se_plan session) = BUY" using s(2) start by simp
  have due: "eo_filled out \<Longrightarrow> eo_arrival_utc_ns out \<le> xp_deadline_utc_ns (se_plan session)"
    using out(4) s(2) start by simp
  obtain session' where rec: "record_outcome out session = Inr session'"
    using child_outcome_accepted [OF ok pend buy ladder r(1) out(1-3) due cash] by blast
  note eff = record_outcome_effect [OF rec buy] and filled = record_outcome_filled [OF rec]
  have "session_run (ee_policy_name env) (ee_policy env) s0 session'"
    by (rule run_step [OF run]) (rule step_outcome [OF outcome_from_fills(1) [OF ladder r(1)] rec])
  moreover have "clock_inv (xp_start_utc_ns (se_plan s0)) now_ns session'"
    using clock eff by (simp add: clock_inv_def)
  moreover have "xp_start_utc_ns (se_plan s0) \<le> now_ns"
    using ok pend s(2) by (simp add: pending_ok_def)
  with inv out(3-5) have "children_ok env (xp_start_utc_ns (se_plan s0)) (es_outcomes s @ [out])"
    by (auto simp: children_ok_def)
  ultimately show ?thesis
    using sent rec record_completes(1) [OF rec] filled eff(1) same inv
    by (simp add: parent_inv_def spent_on_def)
qed

lemma parent_decision:
  assumes env: "entry_env_ok env" "parent_start env s0" and inv: "parent_inv env s0 now s" and "now \<le> now_ns"
  shows "\<exists>finished s'. entry_decision env now_ns s = Inr (finished, s') \<and> parent_inv env s0 now_ns s'"
proof -
  let ?t = "ee_tape env" and ?k = "ee_token_index env"
  note inv' = parent_inv_later [OF inv assms(4)]
  show ?thesis
  proof (cases "row_at (token_rows ?t ?k) now_ns")
    case None
    then have "entry_decision env now_ns s = Inr (False, s)" by (simp add: entry_decision_def Let_def)
    with inv' show ?thesis by blast
  next
    case (Some row)
    have "tape_ok ?t" using env(1) by (simp add: entry_env_ok_def)
    then have row: "row_ok (row_of ?t row)" using Some by (rule row_at_spec(5))
    define sim where "sim = reconcile_self_impact ?t ?k (fst (token_rows ?t ?k)) row (es_sim s)"
    let ?d = "entry_call env row now_ns sim"
    have now: "dc_now_utc_ns ?d = now_ns" by (simp add: entry_call_def)
    show ?thesis
    proof (cases "er_require_valid_book (ee_realism env)
        \<and> (\<not> row_book_valid (row_of ?t row) \<or> is_uncertain ?t (token_id_of ?t ?k) now_ns)")
      case True
      with Some have "entry_decision env now_ns s = Inr (False, s)" by (simp add: entry_decision_def Let_def)
      with inv' show ?thesis by blast
    next
      case usable: False
      have run: "session_run (ee_policy_name env) (ee_policy env) s0 (es_session s)"
        using inv by (simp add: parent_inv_def)
      have si: "session_inv (se_cash s0) 0 (es_session s)"
        using session_run_inv [OF run] env(2) by (simp add: parent_start_def)
      have "\<exists>s' a. session_decide (ee_policy_name env) (ee_policy env) ?d (es_session s) = (s', Inr a)
        \<and> clock_inv (xp_start_utc_ns (se_plan s0)) (dc_now_utc_ns ?d) s'
        \<and> (if xa_kind a = WAIT then se_pending_action s' = None
           else se_pending_action s' = Some a \<and> se_pending_decision_utc_ns s' = Some (dc_now_utc_ns ?d))"
      proof (rule decide_total [OF _ _ si])
        show "clock_inv (xp_start_utc_ns (se_plan s0)) now (es_session s)" "se_pending_action (es_session s) = None"
          using inv by (simp_all add: parent_inv_def)
        show "opt_all (\<lambda>p. 0 < p) (dc_reference_price ?d)"
          using best_ask_positive [OF row] by (cases "row_best_ask (row_of ?t row)") (auto simp: entry_call_def)
        show "validate_ladder True None (dc_bids ?d) = Inr ()" "validate_ladder False None (dc_asks ?d) = Inr ()"
          using impacted_ladder_validates [OF row] by (simp_all add: entry_call_def)
        show "0 \<le> dc_minimum_order_size ?d" using env(1) by (simp add: entry_call_def entry_env_ok_def)
        show "now \<le> dc_now_utc_ns ?d" using assms(4) now by simp
      qed
      then obtain session a where dec:
        "session_decide (ee_policy_name env) (ee_policy env) ?d (es_session s) = (session, Inr a)"
        "clock_inv (xp_start_utc_ns (se_plan s0)) now_ns session"
        "if xa_kind a = WAIT then se_pending_action session = None
         else se_pending_action session = Some a \<and> se_pending_decision_utc_ns session = Some now_ns"
        unfolding now by blast
      have run': "session_run (ee_policy_name env) (ee_policy env) s0 session"
        by (rule run_step [OF run step_decide [OF dec(1)]])
      note frame = session_decide_frame [OF dec(1)]
      show ?thesis
      proof (cases "xa_kind a = WAIT")
        case True
        with Some usable dec have "entry_decision env now_ns s
            = Inr (False, s\<lparr>es_session := session, es_sim := sim\<rparr>)"
          by (auto simp: entry_decision_def Let_def sim_def)
        moreover have "parent_inv env s0 now_ns (s\<lparr>es_session := session, es_sim := sim\<rparr>)"
          using True dec run' frame inv by (simp add: parent_inv_def)
        ultimately show ?thesis by blast
      next
        case False
        have "\<exists>out sim' session'. send (ee_rng env) (ee_realism env) (ee_tape env)
            (child_request env session (es_externally_spent s) a now_ns) sim = Inr (out, sim')
          \<and> record_outcome out session = Inr session'
          \<and> parent_inv env s0 now_ns \<lparr>es_session = session', es_sim = sim', es_outcomes = es_outcomes s @ [out],
              es_externally_spent = es_externally_spent s + eo_notional out + eo_fees out\<rparr>"
          using dec(3) False frame by (intro parent_child [OF env inv run' dec(2)]) auto
        then obtain out sim' session' where child: "send (ee_rng env) (ee_realism env) (ee_tape env)
            (child_request env session (es_externally_spent s) a now_ns) sim = Inr (out, sim')"
          "record_outcome out session = Inr session'"
          "parent_inv env s0 now_ns \<lparr>es_session = session', es_sim = sim', es_outcomes = es_outcomes s @ [out],
              es_externally_spent = es_externally_spent s + eo_notional out + eo_fees out\<rparr>"
          by blast
        have "entry_decision env now_ns s = Inr (session_remaining session' \<le> 0,
            \<lparr>es_session = session', es_sim = sim', es_outcomes = es_outcomes s @ [out],
              es_externally_spent = es_externally_spent s + eo_notional out + eo_fees out\<rparr>)"
          using Some usable dec(1) False child(1,2)
          by (auto simp: entry_decision_def Let_def sim_def)
        with child(3) show ?thesis by blast
      qed
    qed
  qed
qed

lemma parent_loop:
  assumes "entry_env_ok env" "parent_start env s0"
  shows "parent_inv env s0 now s \<Longrightarrow> sorted (now # instants) \<Longrightarrow>
    \<exists>later s'. entry_loop env instants s = Inr s' \<and> parent_inv env s0 later s'"
proof (induction instants arbitrary: now s)
  case (Cons time instants)
  from Cons.prems(2) have "now \<le> time" by simp
  from parent_decision [OF assms Cons.prems(1) this] obtain finished s1 where
    s1: "entry_decision env time s = Inr (finished, s1)" "parent_inv env s0 time s1" by blast
  show ?case
  proof (cases finished)
    case False
    with s1 Cons.IH [OF s1(2)] Cons.prems(2) show ?thesis by simp
  qed (use s1 in auto)
qed auto

section \<open>The instants of decision\<close>

definition trades_ok :: "tape \<Rightarrow> bool" where
  "trades_ok t \<longleftrightarrow> sorted (map (\<lambda>(ts, _, _). ts) (tape_trades t)) \<and> (\<forall>(_, _, z) \<in> set (tape_trades t). 0 \<le> z)"

lemma tick_times_ge: "x \<in> set (tick_times tick deadline) \<Longrightarrow> tick \<le> x \<and> x < deadline"
proof (induction tick deadline rule: tick_times.induct)
  case (1 tick deadline)
  then show ?case
    using tick_times.simps [of tick deadline] by (force simp: decision_interval_ns_def split: if_splits)
qed

lemma between_bounds:
  assumes "sorted stamps" "i \<in> set (between stamps a b)"
  shows "a \<le> stamps ! i \<and> stamps ! i \<le> b"
  using assms bisect_left_spec [OF assms(1), of a] bisect_right_spec [OF assms(1), of b]
  by (auto simp: between_def)

lemma decision_times_sorted:
  assumes "tape_ok t" "trades_ok t" "decision_ns \<le> deadline_ns"
  shows "sorted ((decision_ns - 1) # decision_times t k decision_ns deadline_ns)"
    "\<forall>x \<in> set (decision_times t k decision_ns deadline_ns). decision_ns \<le> x \<and> x \<le> deadline_ns"
proof -
  have "decision_ns \<le> x \<and> x \<le> deadline_ns" if x: "x \<in> set (decision_times t k decision_ns deadline_ns)" for x
  proof -
    let ?st = "snd (token_rows t k)" and ?tr = "map (\<lambda>(ts, _, _). ts) (tape_trades t)"
    let ?raw = "[decision_ns, deadline_ns] @ tick_times (decision_ns + decision_interval_ns) deadline_ns
      @ map ((!) ?st) (between ?st decision_ns deadline_ns)
      @ map ((!) ?tr) (filter (\<lambda>i. map (\<lambda>(_, k, _). k) (tape_trades t) ! i = k) (between ?tr decision_ns deadline_ns))"
    have "x \<in> set ?raw"
      using x by (simp only: decision_times_def Let_def set_sorted_list_of_set finite_set)
    then consider "x = decision_ns" | "x = deadline_ns"
      | "x \<in> set (tick_times (decision_ns + decision_interval_ns) deadline_ns)"
      | i where "i \<in> set (between ?st decision_ns deadline_ns)" "x = ?st ! i"
      | i where "i \<in> set (between ?tr decision_ns deadline_ns)" "x = ?tr ! i"
      by (auto simp del: nth_map)
    then show ?thesis
    proof cases
      case 3
      from tick_times_ge [OF this] show ?thesis by (simp add: decision_interval_ns_def)
    next
      case 4
      with between_bounds [OF stamps_sorted [OF assms(1)]] show ?thesis by simp
    next
      case 5
      from assms(2) have "sorted ?tr" by (simp add: trades_ok_def)
      from between_bounds [OF this 5(1)] 5(2) show ?thesis by simp
    qed (use assms(3) in auto)
  qed
  then show *: "\<forall>x \<in> set (decision_times t k decision_ns deadline_ns). decision_ns \<le> x \<and> x \<le> deadline_ns"
    by blast
  show "sorted ((decision_ns - 1) # decision_times t k decision_ns deadline_ns)"
  proof -
    have "sorted (decision_times t k decision_ns deadline_ns)"
      by (simp only: decision_times_def Let_def sorted_sorted_list_of_set)
    with * show ?thesis by (auto dest: bspec)
  qed
qed

section \<open>The parent completes\<close>

lemma entry_policy_ok:
  assumes "make_params p = Inr q"
  shows "\<exists>name policy. entry_policy p = Inr (name, policy) \<and> execution_policy policy"
proof -
  have f: "1 \<le> th_execution_slices p" "0 < th_execution_participation_ppm p"
    "th_execution_participation_ppm p < 1000000"
    using params_facts(2) [OF assms] by (auto simp: entry_fields_ok_def)
  have l: "make_policy_limits entry_limits = Inr entry_limits"
    by (simp add: make_policy_limits_def entry_limits_def decision_interval_ns_def)
  show ?thesis
  proof (cases "th_entry_execution_policy p = Policy_twap")
    case True
    with l f twap.execution_policy_axioms show ?thesis by (auto simp: entry_policy_def make_twap_def)
  next
    case False
    with l f pov.execution_policy_axioms show ?thesis by (auto simp: entry_policy_def make_pov_def)
  qed
qed

lemma entry_cursor_ok:
  assumes "trades_ok (eq_tape q)"
  shows "\<exists>c. entry_cursor q = Inr c \<and> cursor_ok (eq_decision_ns q) c \<and> vc_last_utc_ns c = eq_decision_ns q - 1"
proof -
  let ?tr = "tape_trades (eq_tape q)"
  have sorted: "sorted (map (\<lambda>(ts, _, _). ts) ?tr)" and nonneg: "\<forall>z \<in> set (map (\<lambda>(_, _, z). z) ?tr). 0 \<le> z"
    using assms by (auto simp: trades_ok_def)
  have "\<not> (\<exists>(l, r) \<in> set (zip (map (\<lambda>(ts, _, _). ts) ?tr) (tl (map (\<lambda>(ts, _, _). ts) ?tr))). r < l)"
    using sorted pairwise_sorted [of "map (\<lambda>(ts, _, _). ts) ?tr"] by (auto simp: not_less)
  moreover have "\<not> (\<exists>z \<in> set (map (\<lambda>(_, _, z). z) ?tr). z < 0)" using nonneg by (auto simp: not_less)
  ultimately obtain c where c: "entry_cursor q = Inr c" "vc_last_utc_ns c = eq_decision_ns q - 1"
    "vc_sizes c = map (\<lambda>(_, _, z). z) ?tr"
    by (simp add: entry_cursor_def make_cursor_def Let_def)
  with make_cursor_inv [OF c(1) [unfolded entry_cursor_def Let_def]] nonneg show ?thesis
    by (auto simp: cursor_ok_def)
qed

definition entry_request_ok :: "'r entry_request \<Rightarrow> bool" where
  "entry_request_ok q \<longleftrightarrow>
     make_params (eq_params q) = Inr (eq_params q)
     \<and> realism_ok (eq_realism q) \<and> latency_drawable (eq_realism q)
     \<and> tape_ok (eq_tape q) \<and> trades_ok (eq_tape q)
     \<and> 0 \<le> ep_minimum_order_size (tape_episode (eq_tape q))
     \<and> 0 < eq_reference_price q \<and> 0 \<le> eq_taker_delay_ns q \<and> opt_all (\<lambda>m. 0 \<le> m) (eq_max_spend q)"

lemma entry_session_cash_nonneg: "entry_request_ok q \<Longrightarrow> 0 \<le> entry_session_cash q deadline"
  by (auto simp: entry_session_cash_def entry_request_ok_def cash_at_def split: option.splits)

lemma deadline_mark_positive: "entry_request_ok q \<Longrightarrow> 0 < deadline_mark q deadline"
  using row_at_spec(5) [of "eq_tape q" "eq_token_index q" deadline] best_ask_positive
  by (auto simp: deadline_mark_def entry_request_ok_def split: option.splits)

lemma outcome_from_totals:
  "outcome_from r ladder out \<Longrightarrow> sum_list (map fs_size (eo_slices out)) = eo_filled_shares out
     \<and> sum_list (map fs_notional (eo_slices out)) = eo_notional out
     \<and> sum_list (map fs_fee (eo_slices out)) = eo_fees out"
  by (simp add: outcome_from_def)

lemma spent_on_slices:
  "\<forall>out \<in> set outs. \<exists>ladder. outcome_from r ladder out \<Longrightarrow>
     sum_list (map fs_size (concat (map eo_slices outs))) = sum_list (map eo_filled_shares outs)
     \<and> sum_list (map fs_notional (concat (map eo_slices outs))) + sum_list (map fs_fee (concat (map eo_slices outs)))
       = spent_on outs"
  unfolding spent_on_def by (induction outs) (auto dest!: outcome_from_totals)

text \<open>The loop over a fresh parent ends, with the ledger of its children.\<close>

lemma parent_run:
  fixes name :: string
  assumes q: "entry_request_ok q" and target: "0 < n"
    and deadline: "eq_decision_ns q < deadline" and pol: "execution_policy policy"
    and cursor: "cursor_ok (eq_decision_ns q) c" "vc_last_utc_ns c = eq_decision_ns q - 1"
  defines "env \<equiv> entry_env_of q deadline name policy" and "plan \<equiv> entry_plan q n deadline"
  shows "\<exists>s0 s later. make_plan plan = Inr plan
    \<and> make_session plan c (entry_session_cash q deadline) 0 = Inr s0
    \<and> entry_loop env (decision_times (eq_tape q) (eq_token_index q) (eq_decision_ns q) deadline)
        \<lparr>es_session = s0, es_sim = sim, es_outcomes = [], es_externally_spent = 0\<rparr> = Inr s
    \<and> parent_inv env s0 later s \<and> se_cash s0 = entry_session_cash q deadline"
proof -
  have lim: "0 < th_entry_limit_price (eq_params q)"
    using q params_facts(2) by (auto simp: entry_request_ok_def entry_fields_ok_def)
  have plan: "make_plan plan = Inr plan"
    using target deadline lim q by (simp add: plan_def make_plan_def entry_plan_def entry_request_ok_def)
  obtain s0 where s0: "make_session plan c (entry_session_cash q deadline) 0 = Inr s0"
    using entry_session_cash_nonneg [OF q, of deadline]
    by (simp add: make_session_def plan_def entry_plan_def)
  have fresh: "se_cursor s0 = c" "se_pending_action s0 = None" "se_last_decision_utc_ns s0 = None"
    "se_last_action_utc_ns s0 = None" "se_cash s0 = entry_session_cash q deadline" "se_plan s0 = plan"
    "se_filled_shares s0 = 0"
    using s0 by (auto simp: make_session_def split: if_splits)
  have env: "entry_env_ok env"
    using q pol by (simp add: entry_env_ok_def env_def entry_env_of_def entry_request_ok_def)
  have start: "parent_start env s0"
    using make_session_inv [OF plan s0] fresh pending_none_ok [OF fresh(2)]
    by (simp add: parent_start_def plan_def entry_plan_def env_def entry_env_of_def)
  have "parent_inv env s0 (eq_decision_ns q - 1)
      \<lparr>es_session = s0, es_sim = sim, es_outcomes = [], es_externally_spent = 0\<rparr>"
    using fresh cursor by (simp add: parent_inv_def run_start clock_inv_def spent_on_def children_ok_def
        plan_def entry_plan_def)
  moreover have "sorted ((eq_decision_ns q - 1)
      # decision_times (eq_tape q) (eq_token_index q) (eq_decision_ns q) deadline)"
    using q deadline by (intro decision_times_sorted) (auto simp: entry_request_ok_def)
  ultimately obtain s later where
    "entry_loop env (decision_times (eq_tape q) (eq_token_index q) (eq_decision_ns q) deadline)
        \<lparr>es_session = s0, es_sim = sim, es_outcomes = [], es_externally_spent = 0\<rparr> = Inr s"
    "parent_inv env s0 later s"
    using parent_loop [OF env start] by blast
  with plan s0 fresh(5) show ?thesis by blast
qed

lemma parent_objective:
  assumes "make_plan plan = Inr plan" "make_session plan c cash 0 = Inr s0"
    and inv: "parent_inv env s0 later s" and "plan = entry_plan q n deadline" "0 < mark"
  shows "\<exists>j. session_evaluate deadline (Some mark) (es_session s) = Inr j
    \<and> jr_filled_shares j = sum_list (map eo_filled_shares (es_outcomes s))
    \<and> jr_filled_shares j + jr_unfilled_shares j = n \<and> 0 \<le> jr_unfilled_shares j"
proof -
  have run: "session_run (ee_policy_name env) (ee_policy env) s0 (es_session s)"
    and none: "se_pending_action (es_session s) = None"
    and filled: "se_filled_shares (es_session s) = sum_list (map eo_filled_shares (es_outcomes s))"
    using inv by (simp_all add: parent_inv_def)
  note books = session_books [OF assms(1,2) run]
  have late: "\<not> (\<exists>f \<in> set (se_fills (es_session s)). xp_deadline_utc_ns plan < ef_timestamp_utc_ns f)"
    using books(6) by auto
  have fs: "xp_deadline_utc_ns plan = deadline" "xp_target_shares plan = n"
    using assms(4) by (simp_all add: entry_plan_def)
  show ?thesis
    using none late books(1,3,5) fs assms(5) filled
    by (simp add: session_evaluate_def evaluate_execution_objective_def Let_def)
qed

lemma sequential_entry_steps:
  assumes "entry_request_ok q" "entry_target q = Inr n" "0 < n"
    and deadline: "deadline = entry_deadline_ns (eq_params q) (tape_episode (eq_tape q)) (eq_decision_ns q)
       (eq_entry_to_ns q)" "eq_decision_ns q < deadline"
  shows "\<exists>s s0 later env j. sequential_entry q sim = Inr (es_outcomes s, j, es_sim s)
    \<and> parent_inv env s0 later s \<and> ee_deadline_ns env = deadline \<and> ee_realism env = eq_realism q
    \<and> session_inv (entry_session_cash q deadline) 0 (es_session s)
    \<and> se_cash s0 = entry_session_cash q deadline \<and> xp_start_utc_ns (se_plan s0) = eq_decision_ns q
    \<and> jr_filled_shares j = sum_list (map eo_filled_shares (es_outcomes s))
    \<and> jr_filled_shares j + jr_unfilled_shares j = n \<and> 0 \<le> jr_unfilled_shares j"
proof -
  let ?plan = "entry_plan q n deadline"
  obtain name policy where pol: "entry_policy (eq_params q) = Inr (name, policy)" "execution_policy policy"
    using entry_policy_ok [of "eq_params q" "eq_params q"] assms(1) unfolding entry_request_ok_def by blast
  obtain c where c: "entry_cursor q = Inr c" "cursor_ok (eq_decision_ns q) c"
    "vc_last_utc_ns c = eq_decision_ns q - 1"
    using entry_cursor_ok [of q] assms(1) unfolding entry_request_ok_def by blast
  let ?env = "entry_env_of q deadline name policy"
  obtain s0 s later where run: "make_plan ?plan = Inr ?plan"
    "make_session ?plan c (entry_session_cash q deadline) 0 = Inr s0"
    "entry_loop ?env (decision_times (eq_tape q) (eq_token_index q) (eq_decision_ns q) deadline)
        \<lparr>es_session = s0, es_sim = sim, es_outcomes = [], es_externally_spent = 0\<rparr> = Inr s"
    "parent_inv ?env s0 later s" "se_cash s0 = entry_session_cash q deadline"
    using parent_run [OF assms(1,3) deadline(2) pol(2) c(2,3), of name sim] by blast
  obtain j where j: "session_evaluate deadline (Some (deadline_mark q deadline)) (es_session s) = Inr j"
    "jr_filled_shares j = sum_list (map eo_filled_shares (es_outcomes s))"
    "jr_filled_shares j + jr_unfilled_shares j = n" "0 \<le> jr_unfilled_shares j"
    using parent_objective [OF run(1,2,4) refl deadline_mark_positive [OF assms(1)]] by blast
  have "sequential_entry q sim = Inr (es_outcomes s, j, es_sim s)"
    unfolding sequential_entry_def deadline(1) [symmetric]
    using assms(2) deadline(2) run(1-3) pol(1) c(1) j(1) by (simp add: Let_def)
  moreover have "session_inv (entry_session_cash q deadline) 0 (es_session s)"
    using session_run_inv [of name policy s0 "es_session s"] make_session_inv [OF run(1,2)] run(4)
    by (auto simp: parent_inv_def entry_env_of_def)
  moreover have "ee_deadline_ns ?env = deadline" "ee_realism ?env = eq_realism q"
    by (simp_all add: entry_env_of_def)
  moreover have "xp_start_utc_ns (se_plan s0) = eq_decision_ns q"
    using make_session_inv [OF run(1,2)] by (simp add: entry_plan_def)
  ultimately show ?thesis using run(4,5) j(2-4) by blast
qed

section \<open>Properties\<close>

text \<open>C16. A sequential entry always completes.  On a sound tape with accepted parameters, no decision,
  order or booking of the parent ever raises, under either policy: the run over its clock ends, the
  objective scores exactly the aggregate of the children, which fills at most the target, costs at most the
  cash the parent started with, and filled between decision and deadline.  The one
  exception is a budget too small for a single share unit, which raises.\<close>

theorem sequential_entry_completes:
  assumes "entry_request_ok q" "entry_target q = Inr n"
    and "deadline = entry_deadline_ns (eq_params q) (tape_episode (eq_tape q)) (eq_decision_ns q)
       (eq_entry_to_ns q)" "eq_decision_ns q < deadline"
  shows "if n \<le> 0
    then sequential_entry q sim = Inl (ValueError ''target_shares_scaled must be positive'')
    else \<exists>outs j sim' agg. sequential_entry q sim = Inr (outs, j, sim')
      \<and> agg = aggregate_entry_outcomes n (eq_decision_ns q) (eq_reference_price q) outs
      \<and> eo_filled_shares agg = jr_filled_shares j \<and> eo_filled_shares agg \<le> n
      \<and> jr_unfilled_shares j = n - eo_filled_shares agg
      \<and> eo_notional agg + eo_fees agg \<le> entry_session_cash q deadline
      \<and> eq_decision_ns q \<le> eo_arrival_utc_ns agg \<and> eo_arrival_utc_ns agg \<le> deadline"
proof (cases "n \<le> 0")
  case True
  with assms show ?thesis
    by (simp add: sequential_entry_def Let_def make_plan_def entry_plan_def)
next
  case False
  then have "0 < n" by simp
  from sequential_entry_steps [OF assms(1,2) this assms(3,4), of sim] obtain s s0 later env j where
    run: "sequential_entry q sim = Inr (es_outcomes s, j, es_sim s)" "parent_inv env s0 later s"
      "ee_deadline_ns env = deadline" "ee_realism env = eq_realism q"
      "session_inv (entry_session_cash q deadline) 0 (es_session s)" "se_cash s0 = entry_session_cash q deadline"
      "xp_start_utc_ns (se_plan s0) = eq_decision_ns q"
    and j: "jr_filled_shares j = sum_list (map eo_filled_shares (es_outcomes s))"
      "jr_filled_shares j + jr_unfilled_shares j = n" "0 \<le> jr_unfilled_shares j" by blast
  let ?outs = "es_outcomes s"
  let ?agg = "aggregate_entry_outcomes n (eq_decision_ns q) (eq_reference_price q) ?outs"
  have kids: "children_ok env (eq_decision_ns q) ?outs" and cash: "se_cash (es_session s) = se_cash s0 - spent_on ?outs"
    using run(2,7) by (simp_all add: parent_inv_def)
  have "\<forall>out \<in> set ?outs. \<exists>ladder. outcome_from (eq_realism q) ladder out"
    using kids run(4) by (simp add: children_ok_def)
  note sums = spent_on_slices [OF this]
  have agg: "eo_filled_shares ?agg = jr_filled_shares j"
    "eo_notional ?agg + eo_fees ?agg = spent_on ?outs"
    using sums j(1) by (simp_all add: aggregate_entry_outcomes_def Let_def)
  have "spent_on ?outs \<le> entry_session_cash q deadline"
    using run(5,6) cash by (simp add: session_inv_def)
  moreover have "eq_decision_ns q \<le> eo_arrival_utc_ns ?agg \<and> eo_arrival_utc_ns ?agg \<le> deadline"
  proof -
    define arrivals where "arrivals = map eo_arrival_utc_ns (filter eo_filled ?outs)"
    have "\<forall>x \<in> set arrivals. eq_decision_ns q \<le> x \<and> x \<le> deadline"
      using kids run(3) by (auto simp: arrivals_def children_ok_def)
    moreover have "arrivals \<noteq> [] \<Longrightarrow> Max (set arrivals) \<in> set arrivals" by (intro Max_in) auto
    moreover have "eo_arrival_utc_ns ?agg = (if arrivals = [] then eq_decision_ns q else Max (set arrivals))"
      by (simp add: aggregate_entry_outcomes_def Let_def arrivals_def)
    ultimately show ?thesis using assms(4) by (cases "arrivals = []") auto
  qed
  ultimately show ?thesis using False run(1) agg j(2,3) by auto
qed

section \<open>A concrete parent\<close>

definition demo_parent :: "unit entry_request" where
  "demo_parent =
     \<lparr>eq_rng = sent_rng_source, eq_realism = sent_realism,
      eq_params = demo_params\<lparr>th_entry_execution_policy := Policy_twap\<rparr>, eq_tape = tape_demo,
      eq_token_index = 0, eq_decision_ns = 140, eq_reference_price = 520000,
      eq_entry_to_ns = 1000000000, eq_max_spend = None, eq_available_cash = Some (\<lambda>_. 80000000),
      eq_taker_delay_ns = 0\<rparr>"

lemma demo_parent_ok: "entry_request_ok demo_parent"
proof -
  have "make_params demo_params = Inr demo_params" by (rule demo_params_ok)
  then have "make_params (eq_params demo_parent) = Inr (eq_params demo_parent)"
    by (auto simp: demo_parent_def make_params_def entry_fields_ok_def exit_fields_ok_def demo_params_def
        split: if_splits)
  moreover have "0 \<le> ep_minimum_order_size (tape_episode tape_demo)" by code_simp
  moreover have "latency_drawable sent_realism"
    by (simp add: latency_drawable_def sent_realism_def optimistic_preset_def constant_latency_def)
  moreover have "trades_ok tape_demo" by (simp add: trades_ok_def tape_demo_def load_tape_def)
  ultimately show ?thesis
    using sent_realism_ok tape_demo_ok by (simp add: entry_request_ok_def demo_parent_def)
qed

lemma demo_deadline:
  "entry_deadline_ns (eq_params demo_parent) (tape_episode (eq_tape demo_parent)) (eq_decision_ns demo_parent)
     (eq_entry_to_ns demo_parent) = 1000000000"
proof -
  have "seconds_to_ns (Flt 2 0) = 2000000000"
    by (simp add: seconds_to_ns_def fl_mult_def fl_of_int_def fl_round_exact fl_trunc_def)
  moreover have "ep_end_utc_ns (tape_episode tape_demo) = 900000000000" by code_simp
  ultimately show ?thesis by (simp add: entry_deadline_ns_def demo_parent_def demo_params_def)
qed

theorem sequential_entry_completes_witness:
  "\<exists>outs j sim'. sequential_entry demo_parent sent_sim = Inr (outs, j, sim')
     \<and> 0 \<le> jr_unfilled_shares j \<and> jr_filled_shares j + jr_unfilled_shares j = 100000000"
proof -
  have "entry_target demo_parent = Inr 100000000"
    by (simp add: entry_target_def demo_parent_def demo_params_def)
  from sequential_entry_completes [OF demo_parent_ok this demo_deadline [symmetric], of sent_sim]
  show ?thesis by (auto simp: demo_parent_def)
qed

text \<open>A budget of one unit of collateral buys no share at this ask, so the parent cannot be built.\<close>

lemma tiny_budget_has_no_target:
  "max_affordable_shares 1 800000 DEFAULT_FEE None = 0"
  by code_simp

end
