(* ===== verification/Fastrun.thy ===== *)
theory Fastrun
  imports Fastentry
begin

text \<open>
  \<^verbatim>\<open>ThresholdHoldSimulator.run\<close> of \<^verbatim>\<open>backtest/fastsim.py\<close>: one strategy variant over one episode's
  tape.  The loop over the rows is \<open>run_rows\<close> on an explicit state; its body is split into the
  exit and the entry, as the code's early \<^verbatim>\<open>continue\<close>s split it.  The generator seeded from the
  condition id is a parameter, as is the wallet.
\<close>

section \<open>Results\<close>

datatype exit_reason =
    Exit_settlement | Exit_stop_loss | Exit_take_profit | Exit_flatten_before_end
  | Exit_stop_unfilled_held_to_settlement | Exit_no_entry

record episode_result =
  sr_condition_id :: string
  sr_market_slug :: string
  sr_start_utc_ns :: int
  sr_end_utc_ns :: int
  sr_winner_outcome :: "string option"
  sr_traded :: bool
  sr_outcome_token :: "string option"
  sr_outcome_side :: "string option"
  sr_entered :: bool
  sr_won :: "bool option"
  sr_exit_reason :: exit_reason
  sr_entry_price :: "int option"
  sr_entry_shares :: int
  sr_entry_notional :: int
  sr_exit_price :: "int option"
  sr_exit_shares :: int
  sr_exit_notional :: int
  sr_settled_shares :: int
  sr_settlement_payout :: int
  sr_fees :: int
  sr_gross_pnl :: int
  sr_net_pnl :: int
  sr_peak_adverse_bid :: "int option"
  sr_stop_slippage :: "int option"
  sr_unfilled_exit_shares :: int
  sr_execution_policy :: entry_execution_policy
  sr_execution_target_shares :: int
  sr_execution_unfilled_shares :: int
  sr_execution_fill_rate_ppm :: int
  sr_execution_implementation_shortfall :: "int option"
  sr_execution_non_fill_penalty :: "int option"
  sr_execution_adverse_selection_penalty :: "int option"
  sr_execution_objective :: "int option"
  sr_skip_reason :: "string option"
  sr_orders :: "simulated_order list"

definition make_result :: "episode \<Rightarrow> entry_execution_policy \<Rightarrow> episode_result" where
  "make_result e policy =
     \<lparr>sr_condition_id = ep_condition_id e, sr_market_slug = ep_market_slug e,
      sr_start_utc_ns = ep_start_utc_ns e, sr_end_utc_ns = ep_end_utc_ns e,
      sr_winner_outcome = ep_winner_outcome e, sr_traded = False, sr_outcome_token = None,
      sr_outcome_side = None, sr_entered = False, sr_won = None, sr_exit_reason = Exit_no_entry,
      sr_entry_price = None, sr_entry_shares = 0, sr_entry_notional = 0, sr_exit_price = None,
      sr_exit_shares = 0, sr_exit_notional = 0, sr_settled_shares = 0, sr_settlement_payout = 0,
      sr_fees = 0, sr_gross_pnl = 0, sr_net_pnl = 0, sr_peak_adverse_bid = None,
      sr_stop_slippage = None, sr_unfilled_exit_shares = 0, sr_execution_policy = policy,
      sr_execution_target_shares = 0, sr_execution_unfilled_shares = 0,
      sr_execution_fill_rate_ppm = 0, sr_execution_implementation_shortfall = None,
      sr_execution_non_fill_penalty = None, sr_execution_adverse_selection_penalty = None,
      sr_execution_objective = None, sr_skip_reason = None, sr_orders = []\<rparr>"

section \<open>The simulator and its state\<close>

text \<open>A simulator's fixed part during one run: what \<^verbatim>\<open>run\<close> computes before the loop.\<close>

record 'r run_env =
  rn_rng :: "'r rng"
  rn_params :: threshold_params
  rn_realism :: execution_realism
  rn_tape :: tape
  rn_available_cash :: cash_source
  rn_taker_delay_ns :: int
  rn_entry_from_ns :: int
  rn_entry_to_ns :: int
  rn_flatten_ns :: "int option"
  rn_stop_armed_ns :: "int option"
  rn_allowed_tokens :: "int list"

record 'r run_state =
  ru_sim :: "'r sim"
  ru_result :: episode_result
  ru_entry_cash_debited :: int
  ru_position_shares :: int
  ru_position_cost :: int
  ru_position_token :: "int option"
  ru_entries :: int
  ru_next_entry_allowed_ns :: int
  ru_position_effective_ns :: int
  ru_peak_adverse :: "int option"
  ru_stop_deadline_ns :: "int option"
  ru_stop_active :: bool
  ru_stop_attempts :: int
  ru_take_profit_attempted :: bool
  ru_flatten_attempted :: bool
  ru_exit_reason :: exit_reason
  ru_exit_shares :: int
  ru_exit_notional :: int
  ru_exit_prices :: "(int \<times> int) list"

definition episode_realism :: "execution_realism \<Rightarrow> episode \<Rightarrow> execution_realism" where
  "episode_realism r e =
     (let fee = er_fee r;
          fee1 = (case ep_fee_rate e of None \<Rightarrow> fee | Some rate \<Rightarrow> fee\<lparr>fc_rate := rate\<rparr>);
          fee2 = (case ep_fee_exponent e of None \<Rightarrow> fee1 | Some n \<Rightarrow> fee1\<lparr>fc_exponent := n\<rparr>)
      in r\<lparr>er_fee := fee2\<rparr>)"

definition allowed_tokens :: "threshold_params \<Rightarrow> tape \<Rightarrow> int list" where
  "allowed_tokens p t =
     (case th_side_selection p of
        Select_up \<Rightarrow> [token_index_of t (ep_up_token_id (tape_episode t))]
      | Select_down \<Rightarrow> [token_index_of t (ep_down_token_id (tape_episode t))]
      | Select_favoured \<Rightarrow> [0, 1])"

definition make_run_env :: "'r rng \<Rightarrow> threshold_params \<Rightarrow> execution_realism \<Rightarrow> tape \<Rightarrow> cash_source \<Rightarrow> 'r run_env" where
  "make_run_env g p r t cash =
     (let e = tape_episode t in
      \<lparr>rn_rng = g, rn_params = p, rn_realism = episode_realism r e, rn_tape = t, rn_available_cash = cash,
       rn_taker_delay_ns = or_zero (ep_taker_order_delay_ms e) * 1000000,
       rn_entry_from_ns = ep_start_utc_ns e + minutes_to_ns (th_entry_from_minute p),
       rn_entry_to_ns = ep_start_utc_ns e + minutes_to_ns (th_entry_to_minute p),
       rn_flatten_ns = map_option (\<lambda>s. ep_end_utc_ns e - seconds_to_ns s) (th_flatten_before_end_seconds p),
       rn_stop_armed_ns = map_option (\<lambda>m. ep_start_utc_ns e + minutes_to_ns m) (th_stop_loss_from_minute p),
       rn_allowed_tokens = allowed_tokens p t\<rparr>)"

definition make_run_state :: "'r run_env \<Rightarrow> 'r \<Rightarrow> 'r run_state" where
  "make_run_state env seed =
     \<lparr>ru_sim = \<lparr>sm_rng = seed, sm_consumed = [], sm_cursor = Map.empty\<rparr>,
      ru_result = make_result (tape_episode (rn_tape env)) (th_entry_execution_policy (rn_params env)),
      ru_entry_cash_debited = 0, ru_position_shares = 0, ru_position_cost = 0, ru_position_token = None,
      ru_entries = 0, ru_next_entry_allowed_ns = rn_entry_from_ns env, ru_position_effective_ns = 0,
      ru_peak_adverse = None, ru_stop_deadline_ns = None, ru_stop_active = False, ru_stop_attempts = 0,
      ru_take_profit_attempted = False, ru_flatten_attempted = False, ru_exit_reason = Exit_no_entry,
      ru_exit_shares = 0, ru_exit_notional = 0, ru_exit_prices = []\<rparr>"

text \<open>\<^verbatim>\<open>cash_at\<close> of the run: the wallet less what entries have spent.\<close>

definition run_cash :: "'r run_env \<Rightarrow> int \<Rightarrow> int \<Rightarrow> int" where
  "run_cash env debited timestamp_ns =
     (let external = (case cash_at (rn_available_cash env) timestamp_ns of
            Some c \<Rightarrow> c
          | None \<Rightarrow> if or_zero (th_order_notional (rn_params env)) = 0 then 2 ^ 63 - 1
                    else or_zero (th_order_notional (rn_params env)))
      in max 0 (external - debited))"

section \<open>Exits\<close>

text \<open>\<^verbatim>\<open>_maybe_exit\<close> up to the order: which exit is due, and for how many shares.\<close>

definition reached :: "int option \<Rightarrow> int \<Rightarrow> bool" where
  "reached at timestamp \<longleftrightarrow> (case at of None \<Rightarrow> False | Some t \<Rightarrow> t \<le> timestamp)"

definition exit_choice :: "'r run_env \<Rightarrow> int \<Rightarrow> int option \<Rightarrow> 'r run_state \<Rightarrow> (sent_kind \<times> int) option" where
  "exit_choice env timestamp bid s =
     (let p = rn_params env; position = ru_position_shares s;
          flatten = (\<not> ru_flatten_attempted s \<and> reached (rn_flatten_ns env) timestamp);
          stop_armed = (rn_stop_armed_ns env = None \<or> reached (rn_stop_armed_ns env) timestamp)
      in if ru_stop_active s then
           (if reached (ru_stop_deadline_ns s) timestamp then Some (Kind_stop_loss, position)
            else if flatten then Some (Kind_flatten, position)
            else None)
         else if stop_armed \<and> (case th_stop_loss_price p of
              None \<Rightarrow> False | Some stop \<Rightarrow> opt_all (\<lambda>b. b \<le> stop) bid)
         then Some (Kind_stop_loss, position * th_stop_loss_fraction_ppm p div 1000000)
         else if \<not> ru_take_profit_attempted s \<and> (case (th_take_profit_price p, bid) of
              (Some target, Some b) \<Rightarrow> target \<le> b | _ \<Rightarrow> False)
         then Some (Kind_take_profit, position * th_take_profit_fraction_ppm p div 1000000)
         else if flatten then Some (Kind_flatten, position)
         else None)"

definition exit_request :: "'r run_env \<Rightarrow> int \<Rightarrow> int \<Rightarrow> int option \<Rightarrow> sent_kind \<Rightarrow> int \<Rightarrow> send_request" where
  "exit_request env token_index timestamp bid kind target =
     \<lparr>sq_token_index = token_index, sq_side = SELL, sq_decision_ns = timestamp, sq_shares = target,
      sq_max_spend = None, sq_available_cash = None, sq_require_full_fill = False, sq_limit_price = None,
      sq_reference_price = (if kind = Kind_stop_loss then th_stop_loss_price (rn_params env) else bid),
      sq_taker_delay_ns = rn_taker_delay_ns env, sq_deadline_ns = None\<rparr>"

definition exit_reason_of :: "sent_kind \<Rightarrow> exit_reason" where
  "exit_reason_of kind =
     (case kind of Kind_stop_loss \<Rightarrow> Exit_stop_loss | Kind_take_profit \<Rightarrow> Exit_take_profit
      | _ \<Rightarrow> Exit_flatten_before_end)"

text \<open>Booking an exit order, in two steps: what it filled, then the stop's retry state.\<close>

definition book_exit :: "simulated_order \<Rightarrow> 'r run_state \<Rightarrow> 'r run_state" where
  "book_exit o1 s =
     (let res = (ru_result s)\<lparr>sr_orders := sr_orders (ru_result s) @ [o1]\<rparr>
      in if so_filled_shares o1 = 0 then s\<lparr>ru_result := res\<rparr>
         else s\<lparr>ru_position_shares := ru_position_shares s - so_filled_shares o1,
                ru_exit_shares := ru_exit_shares s + so_filled_shares o1,
                ru_exit_notional := ru_exit_notional s + so_notional o1,
                ru_exit_prices := ru_exit_prices s @ [(or_zero (so_average_price o1), so_filled_shares o1)],
                ru_result := res\<lparr>sr_fees := sr_fees res + so_fees o1,
                  sr_stop_slippage := (if sr_stop_slippage res = None \<and> so_kind o1 = Kind_stop_loss
                                       then so_slippage o1 else sr_stop_slippage res)\<rparr>\<rparr>)"

definition retry_exit :: "'r run_env \<Rightarrow> int \<Rightarrow> simulated_order \<Rightarrow> exit_reason \<Rightarrow> 'r run_state \<Rightarrow> 'r run_state" where
  "retry_exit env timestamp o1 reason s0 =
     (let s = s0\<lparr>ru_exit_reason := reason,
                ru_take_profit_attempted := (ru_take_profit_attempted s0 \<or> reason = Exit_take_profit),
                ru_flatten_attempted := (ru_flatten_attempted s0 \<or> reason = Exit_flatten_before_end),
                ru_position_effective_ns := max (ru_position_effective_ns s0) (so_arrival_utc_ns o1)\<rparr>
      in if 0 < ru_position_shares s \<and> reason = Exit_stop_loss
         then
           let attempts = ru_stop_attempts s + 1; retries_used = max 0 (attempts - 1)
           in s\<lparr>ru_stop_active := True, ru_stop_attempts := attempts,
                ru_stop_deadline_ns :=
                  (if retries_used < th_stop_retry_limit (rn_params env)
                   then Some (max timestamp (so_arrival_utc_ns o1)
                              + th_stop_retry_interval_ms (rn_params env) * 1000000)
                   else None)\<rparr>
         else s\<lparr>ru_stop_deadline_ns := None\<rparr>)"

definition see_bid :: "int option \<Rightarrow> 'r run_state \<Rightarrow> 'r run_state" where
  "see_bid bid s =
     (case bid of
        None \<Rightarrow> s
      | Some b \<Rightarrow> s\<lparr>ru_peak_adverse :=
          (case ru_peak_adverse s of None \<Rightarrow> Some b | Some worst \<Rightarrow> Some (min worst b))\<rparr>)"

text \<open>The exit branch of the loop body; the flag is the \<^verbatim>\<open>break\<close> of a closed position.\<close>

definition exit_step :: "'r run_env \<Rightarrow> tape_row \<Rightarrow> 'r run_state \<Rightarrow> py_error + bool \<times> 'r run_state" where
  "exit_step env r s0 =
     (let bid = row_best_bid r; timestamp = row_received_utc_ns r; s = see_bid bid s0
      in case exit_choice env timestamp bid s of
           None \<Rightarrow> Inr (False, s)
         | Some (kind, target) \<Rightarrow>
             if target \<le> 0 then Inr (False, s)
             else
               res_bind (send (rn_rng env) (rn_realism env) (rn_tape env)
                   (exit_request env (row_token_index r) timestamp bid kind target) (ru_sim s)) (\<lambda>(out, sim).
                 let o1 = order_from_outcome kind SELL out bid;
                     s1 = retry_exit env timestamp o1 (exit_reason_of kind) (book_exit o1 (s\<lparr>ru_sim := sim\<rparr>))
                 in Inr (ru_position_shares s1 \<le> 0, s1)))"

section \<open>Entries\<close>

text \<open>
  What an entry may spend: the configured notional, cut to the wallet's cash of the moment where
  that is positive; the flag is \<^verbatim>\<open>cash_limited\<close>.
\<close>

definition entry_spend :: "'r run_env \<Rightarrow> int \<Rightarrow> 'r run_state \<Rightarrow> int option \<times> bool" where
  "entry_spend env timestamp s =
     (case (th_order_notional (rn_params env), rn_available_cash env) of
        (Some n, Some _) \<Rightarrow>
          let cash_now = run_cash env (ru_entry_cash_debited s) timestamp
          in (Some (if 0 < cash_now then min n cash_now else n), cash_now < n)
      | (n, _) \<Rightarrow> (n, False))"

definition signal :: "'r run_env \<Rightarrow> tape_row \<Rightarrow> 'r run_state \<Rightarrow> int option" where
  "signal env r s =
     (let p = rn_params env; timestamp = row_received_utc_ns r
      in if 0 < ru_position_shares s \<or> th_max_entries_per_episode p \<le> ru_entries s then None
         else if timestamp < ru_next_entry_allowed_ns s \<or> rn_entry_to_ns env < timestamp then None
         else if row_token_index r \<notin> set (rn_allowed_tokens env) then None
         else case row_best_ask r of
                None \<Rightarrow> None
              | Some ask \<Rightarrow>
                  if ask < th_entry_trigger_price p \<or> th_entry_limit_price p < ask then None else Some ask)"

definition immediate_request :: "'r run_env \<Rightarrow> tape_row \<Rightarrow> int \<Rightarrow> int \<Rightarrow> 'r run_state \<Rightarrow> send_request" where
  "immediate_request env r ask shares s =
     \<lparr>sq_token_index = row_token_index r, sq_side = BUY, sq_decision_ns = row_received_utc_ns r,
      sq_shares = shares, sq_max_spend = fst (entry_spend env (row_received_utc_ns r) s),
      sq_available_cash = Some (run_cash env (ru_entry_cash_debited s)),
      sq_require_full_fill = (\<not> th_allow_partial_entry (rn_params env)),
      sq_limit_price = Some (th_entry_limit_price (rn_params env)), sq_reference_price = Some ask,
      sq_taker_delay_ns = rn_taker_delay_ns env, sq_deadline_ns = None\<rparr>"

definition insufficient_cash :: string where "insufficient_cash = ''insufficient_available_cash''"

definition book_immediate :: "execution_outcome \<Rightarrow> int \<Rightarrow> episode_result \<Rightarrow> episode_result" where
  "book_immediate out ask res =
     res\<lparr>sr_orders := sr_orders res @ [order_from_outcome Kind_entry BUY out (Some ask)],
         sr_execution_target_shares := eo_requested_shares out,
         sr_execution_unfilled_shares := max 0 (eo_requested_shares out - eo_filled_shares out),
         sr_execution_fill_rate_ppm :=
           (if eo_requested_shares out = 0 then 0
            else eo_filled_shares out * 1000000 div eo_requested_shares out)\<rparr>"

text \<open>Either way of entering gives the outcome to book, when it takes effect, and the state so far.\<close>

definition immediate_entry :: "'r run_env \<Rightarrow> tape_row \<Rightarrow> int \<Rightarrow> 'r run_state
    \<Rightarrow> py_error + (execution_outcome \<times> int \<times> 'r run_state)" where
  "immediate_entry env r ask s =
     res_bind (entry_size (rn_params env) ask) (\<lambda>shares.
     res_bind (send (rn_rng env) (rn_realism env) (rn_tape env) (immediate_request env r ask shares s)
         (ru_sim s)) (\<lambda>(out, sim).
       let timestamp = row_received_utc_ns r;
           pending = (eo_rejected_reason out = Some insufficient_cash
                      \<or> snd (entry_spend env timestamp s) \<and> \<not> eo_filled out);
           res = book_immediate out ask (ru_result s);
           s1 = s\<lparr>ru_sim := sim, ru_result := res\<rparr>
       in Inr (out, eo_arrival_utc_ns out,
           if pending then s1
           else s1\<lparr>ru_entries := ru_entries s + 1,
                   ru_next_entry_allowed_ns :=
                     timestamp + seconds_to_ns (th_reentry_cooldown_seconds (rn_params env))\<rparr>)))"

definition parent_request :: "'r run_env \<Rightarrow> tape_row \<Rightarrow> int \<Rightarrow> 'r run_state \<Rightarrow> 'r entry_request" where
  "parent_request env r ask s =
     \<lparr>eq_rng = rn_rng env, eq_realism = rn_realism env, eq_params = rn_params env, eq_tape = rn_tape env,
      eq_token_index = row_token_index r, eq_decision_ns = row_received_utc_ns r,
      eq_reference_price = ask, eq_entry_to_ns = rn_entry_to_ns env,
      eq_max_spend = fst (entry_spend env (row_received_utc_ns r) s),
      eq_available_cash = Some (run_cash env (ru_entry_cash_debited s)),
      eq_taker_delay_ns = rn_taker_delay_ns env\<rparr>"

definition run_deadline :: "'r run_env \<Rightarrow> int \<Rightarrow> int" where
  "run_deadline env timestamp =
     entry_deadline_ns (rn_params env) (tape_episode (rn_tape env)) timestamp (rn_entry_to_ns env)"

definition book_parent :: "objective_result \<Rightarrow> simulated_order list \<Rightarrow> episode_result \<Rightarrow> episode_result" where
  "book_parent j orders res =
     res\<lparr>sr_orders := sr_orders res @ orders,
         sr_execution_target_shares := jr_filled_shares j + jr_unfilled_shares j,
         sr_execution_unfilled_shares := jr_unfilled_shares j,
         sr_execution_fill_rate_ppm := jr_fill_rate_ppm j,
         sr_execution_implementation_shortfall := Some (jr_implementation_shortfall j),
         sr_execution_non_fill_penalty := Some (jr_non_fill_penalty j),
         sr_execution_adverse_selection_penalty := Some (jr_adverse_selection_penalty j),
         sr_execution_objective := Some (jr_total_objective j)\<rparr>"

definition parent_entry :: "'r run_env \<Rightarrow> tape_row \<Rightarrow> int \<Rightarrow> 'r run_state
    \<Rightarrow> py_error + (execution_outcome \<times> int \<times> 'r run_state) option" where
  "parent_entry env r ask s =
     (let timestamp = row_received_utc_ns r; deadline = run_deadline env timestamp
      in if deadline \<le> timestamp then Inr None
         else
           res_bind (sequential_entry (parent_request env r ask s) (ru_sim s)) (\<lambda>(outs, j, sim).
             let out = aggregate_entry_outcomes (jr_filled_shares j + jr_unfilled_shares j) timestamp ask outs;
                 pending = (snd (entry_spend env timestamp s) \<and> \<not> eo_filled out
                   \<or> outs \<noteq> [] \<and> (\<forall>child \<in> set outs. eo_rejected_reason child = Some insufficient_cash));
                 res = book_parent j (map (\<lambda>child. order_from_outcome Kind_entry BUY child (Some ask)) outs)
                         (ru_result s)
             in Inr (Some (out, max (eo_arrival_utc_ns out) deadline,
                  s\<lparr>ru_sim := sim, ru_result := res,
                    ru_entries := (if pending then ru_entries s else ru_entries s + 1),
                    ru_next_entry_allowed_ns :=
                      deadline + seconds_to_ns (th_reentry_cooldown_seconds (rn_params env))\<rparr>))))"

text \<open>What a filled entry leaves: the debit, the position, and the entry fields of the result.\<close>

definition book_entry :: "'r run_env \<Rightarrow> int \<Rightarrow> execution_outcome \<Rightarrow> int \<Rightarrow> 'r run_state \<Rightarrow> py_error + 'r run_state" where
  "book_entry env tok out effective s =
     (if \<not> eo_filled out then Inr s
      else
        let token = token_id_of (rn_tape env) tok
        in res_bind (token_outcome (tape_episode (rn_tape env)) token) (\<lambda>outcome.
          Inr (s\<lparr>ru_entry_cash_debited := ru_entry_cash_debited s + (eo_notional out + eo_fees out),
                 ru_position_shares := eo_filled_shares out, ru_position_cost := eo_notional out,
                 ru_position_token := Some tok, ru_position_effective_ns := effective,
                 ru_result := (ru_result s)\<lparr>sr_entered := True, sr_traded := True,
                   sr_outcome_token := Some token, sr_outcome_side := Some outcome,
                   sr_entry_price := average_price_scaled out, sr_entry_shares := eo_filled_shares out,
                   sr_entry_notional := eo_notional out, sr_fees := sr_fees (ru_result s) + eo_fees out\<rparr>,
                 ru_exit_reason := Exit_settlement\<rparr>)))"

definition entry_step :: "'r run_env \<Rightarrow> tape_row \<Rightarrow> 'r run_state \<Rightarrow> py_error + 'r run_state" where
  "entry_step env r s =
     (case signal env r s of
        None \<Rightarrow> Inr s
      | Some ask \<Rightarrow>
          if th_entry_execution_policy (rn_params env) = Policy_immediate
          then res_bind (immediate_entry env r ask s) (\<lambda>(out, effective, s').
                 book_entry env (row_token_index r) out effective s')
          else res_bind (parent_entry env r ask s) (\<lambda>x.
                 case x of
                   None \<Rightarrow> Inr s
                 | Some (out, effective, s') \<Rightarrow> book_entry env (row_token_index r) out effective s'))"

section \<open>The run\<close>

definition row_step :: "'r run_env \<Rightarrow> tape_row \<Rightarrow> 'r run_state \<Rightarrow> py_error + bool \<times> 'r run_state" where
  "row_step env r s =
     (if 0 < ru_position_shares s \<and> ru_position_token s = Some (row_token_index r)
         \<and> ru_position_effective_ns s \<le> row_received_utc_ns r
      then exit_step env r s
      else res_bind (entry_step env r s) (\<lambda>s'. Inr (False, s')))"

fun run_rows :: "'r run_env \<Rightarrow> tape_row list \<Rightarrow> 'r run_state \<Rightarrow> py_error + 'r run_state" where
  "run_rows env [] s = Inr s"
| "run_rows env (r # rs) s =
     (if ep_end_utc_ns (tape_episode (rn_tape env)) < row_received_utc_ns r then Inr s
      else res_bind (row_step env r s) (\<lambda>(finished, s').
        if finished then Inr s' else run_rows env rs s'))"

text \<open>The tail of the run: what is still held settles, and the result is closed.\<close>

definition settle_run :: "'r run_env \<Rightarrow> 'r run_state \<Rightarrow> episode_result" where
  "settle_run env s =
     (let res = ru_result s; winner = ep_winner_token_id (tape_episode (rn_tape env)); held = ru_position_shares s
      in if \<not> sr_entered res then res\<lparr>sr_exit_reason := Exit_no_entry\<rparr>
         else
           let tried = (ru_exit_reason s \<in> {Exit_stop_loss, Exit_take_profit, Exit_flatten_before_end});
               won = (sr_outcome_token res = winner);
               reason = (if 0 < held \<and> ru_exit_reason s = Exit_stop_loss
                         then Exit_stop_unfilled_held_to_settlement else ru_exit_reason s);
               settled = (if 0 < held then held else sr_settled_shares res);
               payout = (if 0 < held then (if won then held else 0) * 1000000 div 1000000
                         else sr_settlement_payout res);
               gross = ru_exit_notional s + payout - ru_position_cost s
           in res\<lparr>sr_unfilled_exit_shares := (if 0 < held \<and> tried then held else sr_unfilled_exit_shares res),
                  sr_settled_shares := settled, sr_settlement_payout := payout,
                  sr_exit_reason := reason, sr_exit_shares := ru_exit_shares s,
                  sr_exit_notional := ru_exit_notional s,
                  sr_exit_price := (if ru_exit_shares s = 0 then None
                    else Some (sum_list (map (\<lambda>(p, z). p * z) (ru_exit_prices s)) div ru_exit_shares s)),
                  sr_peak_adverse_bid := ru_peak_adverse s, sr_won := Some won,
                  sr_gross_pnl := gross, sr_net_pnl := gross - sr_fees res\<rparr>)"

definition run :: "'r rng \<Rightarrow> threshold_params \<Rightarrow> execution_realism \<Rightarrow> tape \<Rightarrow> cash_source \<Rightarrow> 'r
    \<Rightarrow> py_error + episode_result" where
  "run g p r t cash seed =
     (if \<not> ep_eligible (tape_episode t)
      then Inr ((make_result (tape_episode t) (th_entry_execution_policy p))\<lparr>sr_skip_reason :=
             Some (case ep_exclusion_reason (tape_episode t) of
                     None \<Rightarrow> ''ineligible_episode''
                   | Some reason \<Rightarrow> if reason = [] then ''ineligible_episode'' else reason)\<rparr>)
      else
        let env = make_run_env g p r t cash
        in res_bind (run_rows env (tape_rows t) (make_run_state env seed)) (\<lambda>s. Inr (settle_run env s)))"

section \<open>The ledger of a run\<close>

definition booked :: "side \<Rightarrow> (simulated_order \<Rightarrow> int) \<Rightarrow> simulated_order list \<Rightarrow> int" where
  "booked sd f os = sum_list (map f (filter (\<lambda>o1. so_side o1 = sd) os))"

lemma booked_simps [simp]:
  "booked sd f [] = 0"
  "booked sd f (o1 # os) = (if so_side o1 = sd then f o1 else 0) + booked sd f os"
  "booked sd f (os @ ps) = booked sd f os + booked sd f ps"
  by (simp_all add: booked_def)

text \<open>What any order reports, filled or not.\<close>

definition outcome_sane :: "execution_outcome \<Rightarrow> bool" where
  "outcome_sane out \<longleftrightarrow>
     0 \<le> eo_filled_shares out \<and> 0 \<le> eo_notional out \<and> 0 \<le> eo_fees out
     \<and> (\<not> eo_filled out \<longrightarrow> eo_filled_shares out = 0 \<and> eo_notional out = 0 \<and> eo_fees out = 0)"

lemma outcome_from_sane:
  assumes "outcome_from r ladder out" "realism_ok r"
  shows "outcome_sane out"
proof -
  have each: "0 \<le> fs_size x" "0 \<le> fs_notional x" "0 \<le> fs_fee x" if "x \<in> set (eo_slices out)" for x
  proof -
    have x: "slice_in r ladder x" using assms(1) that by (simp add: outcome_from_def)
    then show "0 \<le> fs_size x" by (simp add: slice_in_def)
    show "0 \<le> fs_notional x" "0 \<le> fs_fee x" using slice_in_costs [OF x assms(2)] by simp_all
  qed
  have "0 \<le> sum_list (map fs_size (eo_slices out))" "0 \<le> sum_list (map fs_notional (eo_slices out))"
    "0 \<le> sum_list (map fs_fee (eo_slices out))"
    using each by (simp_all add: sum_list_nonneg_map)
  with outcome_from_totals [OF assms(1)] outcome_from_filled [OF assms(1)] show ?thesis
    by (auto simp: outcome_sane_def)
qed

text \<open>The wallet side of a run and its result, kept by every step.\<close>

definition ledger :: "'r run_state \<Rightarrow> bool" where
  "ledger s \<longleftrightarrow>
     (let os = sr_orders (ru_result s); res = ru_result s in
       booked BUY so_filled_shares os = sr_entry_shares res
       \<and> booked BUY so_notional os = sr_entry_notional res
       \<and> booked SELL so_filled_shares os = ru_exit_shares s
       \<and> booked SELL so_notional os = ru_exit_notional s
       \<and> booked BUY so_fees os + booked SELL so_fees os = sr_fees res
       \<and> ru_position_shares s = sr_entry_shares res - ru_exit_shares s
       \<and> ru_position_cost s = sr_entry_notional res
       \<and> ru_entry_cash_debited s = booked BUY so_notional os + booked BUY so_fees os)"

definition flat :: "'r run_state \<Rightarrow> bool" where
  "flat s \<longleftrightarrow> (\<not> sr_entered (ru_result s) \<longrightarrow>
     sr_entry_shares (ru_result s) = 0 \<and> sr_entry_notional (ru_result s) = 0 \<and> sr_fees (ru_result s) = 0
     \<and> ru_exit_shares s = 0 \<and> ru_exit_notional s = 0 \<and> ru_entry_cash_debited s = 0)"

definition untouched :: "'r run_env \<Rightarrow> 'r run_state \<Rightarrow> bool" where
  "untouched env s \<longleftrightarrow>
     sr_settled_shares (ru_result s) = 0 \<and> sr_settlement_payout (ru_result s) = 0
     \<and> sr_outcome_token (ru_result s) = map_option (token_id_of (rn_tape env)) (ru_position_token s)
     \<and> (sr_entered (ru_result s) \<longleftrightarrow> ru_position_token s \<noteq> None)
     \<and> 0 \<le> ru_position_shares s \<and> 0 \<le> sr_fees (ru_result s)
     \<and> sr_exit_shares (ru_result s) = 0 \<and> sr_exit_notional (ru_result s) = 0 \<and> sr_net_pnl (ru_result s) = 0"

definition within_notional :: "'r run_env \<Rightarrow> 'r run_state \<Rightarrow> bool" where
  "within_notional env s \<longleftrightarrow> opt_all (\<lambda>n. ru_entry_cash_debited s \<le> n) (th_order_notional (rn_params env))"

definition run_inv :: "'r run_env \<Rightarrow> 'r run_state \<Rightarrow> bool" where
  "run_inv env s \<longleftrightarrow> ledger s \<and> flat s \<and> untouched env s \<and> within_notional env s"

definition live :: "'r run_state \<Rightarrow> bool" where
  "live s \<longleftrightarrow> (sr_entered (ru_result s) \<longrightarrow> 0 < ru_position_shares s)"

definition run_env_ok :: "'r run_env \<Rightarrow> bool" where
  "run_env_ok env \<longleftrightarrow>
     make_params (rn_params env) = Inr (rn_params env)
     \<and> realism_ok (rn_realism env) \<and> latency_drawable (rn_realism env)
     \<and> tape_ok (rn_tape env) \<and> trades_ok (rn_tape env)
     \<and> 0 \<le> ep_minimum_order_size (tape_episode (rn_tape env)) \<and> 0 \<le> rn_taker_delay_ns env"

lemma run_inv_make:
  assumes "run_env_ok env"
  shows "run_inv env (make_run_state env seed)" "live (make_run_state env seed)"
proof -
  let ?s = "make_run_state env seed"
  have "opt_all (\<lambda>n. 0 < n) (th_order_notional (rn_params env))"
    using assms params_facts(2) by (auto simp: run_env_ok_def entry_fields_ok_def)
  then have "within_notional env ?s"
    by (simp add: within_notional_def make_run_state_def opt_all_def split: option.splits)
  moreover have "ledger ?s" "flat ?s" "untouched env ?s"
    by (simp_all add: ledger_def flat_def untouched_def make_run_state_def make_result_def)
  ultimately show "run_inv env ?s" by (simp add: run_inv_def)
  show "live ?s" by (simp add: live_def make_run_state_def make_result_def)
qed

text \<open>Steps that only observe, or change what the ledger does not read.\<close>

lemma run_inv_update [simp]:
  "run_inv env (s\<lparr>ru_sim := sim\<rparr>) = run_inv env s"
  "run_inv env (s\<lparr>ru_peak_adverse := bid\<rparr>) = run_inv env s"
  "run_inv env (s\<lparr>ru_stop_deadline_ns := at\<rparr>) = run_inv env s"
  "run_inv env (s\<lparr>ru_stop_active := b\<rparr>) = run_inv env s"
  "run_inv env (s\<lparr>ru_stop_attempts := n\<rparr>) = run_inv env s"
  "run_inv env (s\<lparr>ru_exit_reason := reason\<rparr>) = run_inv env s"
  "run_inv env (s\<lparr>ru_take_profit_attempted := b\<rparr>) = run_inv env s"
  "run_inv env (s\<lparr>ru_flatten_attempted := b\<rparr>) = run_inv env s"
  "run_inv env (s\<lparr>ru_position_effective_ns := n\<rparr>) = run_inv env s"
  "run_inv env (s\<lparr>ru_entries := n\<rparr>) = run_inv env s"
  "run_inv env (s\<lparr>ru_next_entry_allowed_ns := n\<rparr>) = run_inv env s"
  by (simp_all add: run_inv_def ledger_def flat_def untouched_def within_notional_def)

lemma see_bid_frame:
  "run_inv env (see_bid bid s) = run_inv env s"
  "ru_position_shares (see_bid bid s) = ru_position_shares s"
  "ru_result (see_bid bid s) = ru_result s" "ru_sim (see_bid bid s) = ru_sim s"
  by (simp_all add: see_bid_def split: option.split)

lemma retry_frame:
  "run_inv env (retry_exit env ts o1 reason s) = run_inv env s"
  "ru_position_shares (retry_exit env ts o1 reason s) = ru_position_shares s"
  "ru_result (retry_exit env ts o1 reason s) = ru_result s"
  by (simp_all add: retry_exit_def Let_def)

section \<open>Exits keep the ledger\<close>

lemma exit_choice_target:
  assumes "exit_choice env ts bid s = Some (kind, target)" "run_env_ok env" "0 \<le> ru_position_shares s"
  shows "target \<le> ru_position_shares s"
proof -
  have "exit_fields_ok (rn_params env)"
    using assms(2) params_facts(3) by (auto simp: run_env_ok_def)
  then have ppm: "th_stop_loss_fraction_ppm (rn_params env) \<le> 1000000"
    "th_take_profit_fraction_ppm (rn_params env) \<le> 1000000" by (auto simp: exit_fields_ok_def)
  have part: "ru_position_shares s * f div 1000000 \<le> ru_position_shares s" if "f \<le> 1000000" for f
  proof -
    have "ru_position_shares s * f \<le> ru_position_shares s * 1000000"
      using that assms(3) by (rule mult_left_mono)
    then show ?thesis by linarith
  qed
  show ?thesis
    using assms(1) part [OF ppm(1)] part [OF ppm(2)]
    by (auto simp: exit_choice_def Let_def split: if_splits)
qed

lemma exit_sent:
  assumes "run_env_ok env" "send (rn_rng env) (rn_realism env) (rn_tape env)
      (exit_request env tok ts bid kind target) sim = Inr (out, sim')" "0 < target"
  shows "outcome_sane out" "eo_filled_shares out \<le> target"
proof -
  let ?q = "exit_request env tok ts bid kind target"
  have env: "realism_ok (rn_realism env)" "tape_ok (rn_tape env)" using assms(1) by (simp_all add: run_env_ok_def)
  obtain arrival s1 where a: "send_at (rn_realism env) (rn_tape env) ?q arrival s1 = (out, sim')"
    using assms(2) by (rule send_split)
  from send_at_stamps(4) [OF env a] obtain ladder where l: "outcome_from (rn_realism env) ladder out" by blast
  then show "outcome_sane out" using env(1) by (rule outcome_from_sane)
  have "eo_requested_shares out = target"
    using send_at_stamps(3) [OF env a] by (simp add: exit_request_def)
  with l assms(3) show "eo_filled_shares out \<le> target" by (simp add: outcome_from_def)
qed

lemma book_exit_inv:
  assumes "run_inv env s" "outcome_sane out" "eo_filled_shares out \<le> ru_position_shares s"
    and "sr_entered (ru_result s)"
  shows "run_inv env (book_exit (order_from_outcome kind SELL out bid) s)"
    "sr_entered (ru_result (book_exit (order_from_outcome kind SELL out bid) s))"
proof -
  let ?s = "book_exit (order_from_outcome kind SELL out bid) s"
  note inv = assms(1) [unfolded run_inv_def] and out = assms(2) [unfolded outcome_sane_def eo_filled_def]
  show "sr_entered (ru_result ?s)"
    using assms(4) by (simp add: book_exit_def Let_def order_from_outcome_def)
  have "ledger ?s"
    using inv out by (auto simp: ledger_def book_exit_def order_from_outcome_def Let_def)
  moreover have "flat ?s"
    using \<open>sr_entered (ru_result ?s)\<close> by (simp add: flat_def)
  moreover have "untouched env ?s"
    using inv out assms(3) by (auto simp: untouched_def book_exit_def order_from_outcome_def Let_def)
  moreover have "within_notional env ?s"
    using inv by (simp add: within_notional_def book_exit_def order_from_outcome_def Let_def)
  ultimately show "run_inv env ?s" by (simp add: run_inv_def)
qed

lemma exit_step_cases:
  assumes "exit_step env r s = Inr (finished, s')"
  obtains (quiet) "s' = see_bid (row_best_bid r) s" "\<not> finished"
  | (sent) kind target out sim' where
      "exit_choice env (row_received_utc_ns r) (row_best_bid r) (see_bid (row_best_bid r) s) = Some (kind, target)"
      "0 < target"
      "send (rn_rng env) (rn_realism env) (rn_tape env)
         (exit_request env (row_token_index r) (row_received_utc_ns r) (row_best_bid r) kind target)
         (ru_sim (see_bid (row_best_bid r) s)) = Inr (out, sim')"
      "s' = retry_exit env (row_received_utc_ns r) (order_from_outcome kind SELL out (row_best_bid r))
         (exit_reason_of kind) (book_exit (order_from_outcome kind SELL out (row_best_bid r))
           (see_bid (row_best_bid r) s\<lparr>ru_sim := sim'\<rparr>))"
      "finished \<longleftrightarrow> ru_position_shares s' \<le> 0"
  using assms by (auto simp: exit_step_def Let_def split: option.splits if_splits prod.splits)

lemma exit_step_inv:
  assumes "run_env_ok env" "run_inv env s" "sr_entered (ru_result s)" "0 < ru_position_shares s"
    and step: "exit_step env r s = Inr (finished, s')"
  shows "run_inv env s' \<and> (\<not> finished \<longrightarrow> live s')"
proof -
  let ?bid = "row_best_bid r" and ?ts = "row_received_utc_ns r"
  let ?s = "see_bid ?bid s"
  have inv: "run_inv env ?s" "sr_entered (ru_result ?s)" "0 < ru_position_shares ?s" "live ?s"
    using assms(2-4) by (simp_all add: see_bid_frame live_def)
  show ?thesis
    using step
  proof (cases rule: exit_step_cases)
    case quiet
    with inv show ?thesis by simp
  next
    case (sent kind target out sim')
    note out = exit_sent [OF assms(1) sent(3,2)]
    have "target \<le> ru_position_shares ?s"
      using exit_choice_target [OF sent(1) assms(1)] inv(3) by simp
    with book_exit_inv [of env "?s\<lparr>ru_sim := sim'\<rparr>" out kind ?bid] inv out sent(4,5)
    show ?thesis by (auto simp: retry_frame live_def)
  qed
qed

section \<open>Entries keep the ledger\<close>

text \<open>What an entry changes before it is booked: the orders are appended, the ledger is not touched.\<close>

definition result_ledger :: "episode_result \<Rightarrow> bool \<times> int \<times> int \<times> int \<times> int \<times> int \<times> string option \<times> int \<times> int \<times> int" where
  "result_ledger res =
     (sr_entered res, sr_entry_shares res, sr_entry_notional res, sr_fees res, sr_settled_shares res,
      sr_settlement_payout res, sr_outcome_token res, sr_net_pnl res, sr_exit_shares res, sr_exit_notional res)"

definition state_ledger :: "'r run_state \<Rightarrow> int \<times> int \<times> int \<times> int \<times> int \<times> int option" where
  "state_ledger s =
     (ru_exit_shares s, ru_exit_notional s, ru_entry_cash_debited s, ru_position_shares s,
      ru_position_cost s, ru_position_token s)"

definition appended :: "execution_outcome list \<Rightarrow> int \<Rightarrow> 'r run_state \<Rightarrow> 'r run_state \<Rightarrow> bool" where
  "appended outs ask s s1 \<longleftrightarrow>
     sr_orders (ru_result s1)
       = sr_orders (ru_result s) @ map (\<lambda>out. order_from_outcome Kind_entry BUY out (Some ask)) outs
     \<and> result_ledger (ru_result s1) = result_ledger (ru_result s) \<and> state_ledger s1 = state_ledger s"

definition adds_up :: "execution_outcome list \<Rightarrow> execution_outcome \<Rightarrow> bool" where
  "adds_up outs out \<longleftrightarrow>
     sum_list (map eo_filled_shares outs) = eo_filled_shares out
     \<and> sum_list (map eo_notional outs) = eo_notional out \<and> sum_list (map eo_fees outs) = eo_fees out"

lemma booked_children:
  "booked BUY so_filled_shares (map (\<lambda>out. order_from_outcome k BUY out tr) outs) = sum_list (map eo_filled_shares outs)"
  "booked BUY so_notional (map (\<lambda>out. order_from_outcome k BUY out tr) outs) = sum_list (map eo_notional outs)"
  "booked BUY so_fees (map (\<lambda>out. order_from_outcome k BUY out tr) outs) = sum_list (map eo_fees outs)"
  "booked SELL f (map (\<lambda>out. order_from_outcome k BUY out tr) outs) = 0"
  by (induction outs; simp add: order_from_outcome_def)+

lemma book_entry_inv:
  assumes inv: "run_inv env s" and "\<not> sr_entered (ru_result s)"
    and app: "appended outs ask s s1" "adds_up outs out" "outcome_sane out"
    and n: "opt_all (\<lambda>n. eo_notional out + eo_fees out \<le> n) (th_order_notional (rn_params env))"
    and book: "book_entry env tok out effective s1 = Inr s'"
  shows "run_inv env s' \<and> live s'"
proof -
  note app' = app(1) [unfolded appended_def result_ledger_def state_ledger_def]
  note sums = app(2) [unfolded adds_up_def] and sane = app(3) [unfolded outcome_sane_def]
  have zero: "sr_entry_shares (ru_result s) = 0" "sr_entry_notional (ru_result s) = 0"
    "sr_fees (ru_result s) = 0" "ru_exit_shares s = 0" "ru_exit_notional s = 0" "ru_entry_cash_debited s = 0"
    using inv assms(2) by (simp_all add: run_inv_def flat_def)
  have ledger: "ledger s" "untouched env s" "within_notional env s" using inv by (simp_all add: run_inv_def)
  show ?thesis
  proof (cases "eo_filled out")
    case False
    then have s': "s' = s1" using book by (simp add: book_entry_def)
    have "ledger s1"
      using ledger(1) app' sums sane zero False by (simp add: ledger_def Let_def booked_children)
    moreover have "untouched env s1" using ledger(2) app' by (simp add: untouched_def)
    moreover have "within_notional env s1" using ledger(3) app' by (simp add: within_notional_def)
    moreover have "flat s1" using app' zero by (simp add: flat_def)
    moreover have "live s1" using app' assms(2) by (simp add: live_def)
    ultimately show ?thesis using s' by (simp add: run_inv_def)
  next
    case True
    then have s': "sr_orders (ru_result s') = sr_orders (ru_result s1)" "sr_entered (ru_result s')"
      "sr_entry_shares (ru_result s') = eo_filled_shares out" "sr_entry_notional (ru_result s') = eo_notional out"
      "sr_fees (ru_result s') = sr_fees (ru_result s1) + eo_fees out"
      "ru_entry_cash_debited s' = ru_entry_cash_debited s1 + (eo_notional out + eo_fees out)"
      "ru_position_shares s' = eo_filled_shares out" "ru_position_cost s' = eo_notional out"
      "ru_position_token s' = Some tok" "ru_exit_shares s' = ru_exit_shares s1"
      "ru_exit_notional s' = ru_exit_notional s1"
      "sr_outcome_token (ru_result s') = Some (token_id_of (rn_tape env) tok)"
      "sr_settled_shares (ru_result s') = sr_settled_shares (ru_result s1)"
      "sr_settlement_payout (ru_result s') = sr_settlement_payout (ru_result s1)"
      "sr_net_pnl (ru_result s') = sr_net_pnl (ru_result s1)"
      "sr_exit_shares (ru_result s') = sr_exit_shares (ru_result s1)"
      "sr_exit_notional (ru_result s') = sr_exit_notional (ru_result s1)"
      using book by (auto simp: book_entry_def Let_def)
    have "ledger s'"
      using ledger(1) app' sums zero s' by (simp add: ledger_def Let_def booked_children)
    moreover have "untouched env s'" using ledger(2) app' s' sane zero by (simp add: untouched_def)
    moreover have "within_notional env s'" using n app' s' zero by (simp add: within_notional_def)
    moreover have "flat s'" using s'(2) by (simp add: flat_def)
    moreover have "live s'" using s'(7) True sane by (simp add: live_def eo_filled_def)
    ultimately show ?thesis by (simp add: run_inv_def)
  qed
qed

lemma entry_spend_notional:
  assumes "run_env_ok env" "entry_spend env ts s = (m, limited)" "th_order_notional (rn_params env) = Some n"
  shows "\<exists>k. m = Some k \<and> 0 < k \<and> k \<le> n"
proof -
  have "0 < n"
    using assms(1,3) params_facts(2) [of "rn_params env"] by (auto simp: run_env_ok_def entry_fields_ok_def)
  with assms(2) [unfolded entry_spend_def assms(3)] show ?thesis
    by (cases "rn_available_cash env") (auto simp: Let_def split: if_splits)
qed

lemma immediate_entry_spec:
  assumes "run_env_ok env" "immediate_entry env r ask s = Inr (out, effective, s1)"
  shows "appended [out] ask s s1" "adds_up [out] out" "outcome_sane out"
    "opt_all (\<lambda>n. eo_notional out + eo_fees out \<le> n) (th_order_notional (rn_params env))"
proof -
  obtain shares sim where sent: "send (rn_rng env) (rn_realism env) (rn_tape env)
      (immediate_request env r ask shares s) (ru_sim s) = Inr (out, sim)"
    and sent': "entry_size (rn_params env) ask = Inr shares"
    using assms(2) by (auto simp: immediate_entry_def Let_def)
  let ?res = "book_immediate out ask (ru_result s)"
  obtain b n k where s1: "s1 = (if b then s\<lparr>ru_sim := sim, ru_result := ?res\<rparr>
      else s\<lparr>ru_sim := sim, ru_result := ?res, ru_entries := n, ru_next_entry_allowed_ns := k\<rparr>)"
    using assms(2) sent'(1) sent by (force simp: immediate_entry_def Let_def)
  show "appended [out] ask s s1"
    unfolding s1 by (cases b) (simp_all add: appended_def result_ledger_def state_ledger_def book_immediate_def)
  show "adds_up [out] out" by (simp add: adds_up_def)
  let ?q = "immediate_request env r ask shares s"
  have env: "realism_ok (rn_realism env)" "tape_ok (rn_tape env)" using assms(1) by (simp_all add: run_env_ok_def)
  obtain arrival s2 where a: "send_at (rn_realism env) (rn_tape env) ?q arrival s2 = (out, sim)"
    using sent by (rule send_split)
  from send_at_stamps(4) [OF env a] outcome_from_sane [OF _ env(1)] show "outcome_sane out" by blast
  show "opt_all (\<lambda>n. eo_notional out + eo_fees out \<le> n) (th_order_notional (rn_params env))"
  proof (cases "th_order_notional (rn_params env)")
    case (Some n)
    obtain k where "fst (entry_spend env (row_received_utc_ns r) s) = Some k" "0 < k" "k \<le> n"
      using entry_spend_notional [OF assms(1) _ Some] by (metis prod.collapse)
    with send_at_budget(2) [OF env a, of k] show ?thesis
      using Some by (simp add: immediate_request_def)
  qed simp
qed

lemma parent_request_ok:
  assumes "run_env_ok env" "signal env r s = Some ask"
  shows "entry_request_ok (parent_request env r ask s)"
proof -
  have "0 < th_entry_trigger_price (rn_params env)" "opt_all (\<lambda>n. 0 < n) (th_order_notional (rn_params env))"
    using assms(1) params_facts(2) by (auto simp: run_env_ok_def entry_fields_ok_def)
  moreover have "th_entry_trigger_price (rn_params env) \<le> ask"
    using assms(2) by (auto simp: signal_def Let_def split: if_splits option.splits)
  moreover have "opt_all (\<lambda>m. 0 \<le> m) (fst (entry_spend env (row_received_utc_ns r) s))"
    using calculation(2) by (auto simp: entry_spend_def Let_def opt_all_def split: option.splits)
  ultimately show ?thesis using assms(1) by (simp add: entry_request_ok_def parent_request_def run_env_ok_def)
qed

lemma aggregate_adds_up:
  assumes "\<forall>out \<in> set outs. \<exists>ladder. outcome_from r ladder out"
  shows "adds_up outs (aggregate_entry_outcomes n ts ask outs)"
proof -
  have "sum_list (map fs_size (concat (map eo_slices outs))) = sum_list (map eo_filled_shares outs)
    \<and> sum_list (map fs_notional (concat (map eo_slices outs))) = sum_list (map eo_notional outs)
    \<and> sum_list (map fs_fee (concat (map eo_slices outs))) = sum_list (map eo_fees outs)"
    using assms by (induction outs) (auto dest!: outcome_from_totals)
  then show ?thesis by (simp add: adds_up_def aggregate_entry_outcomes_def Let_def)
qed

lemma sum_list_zero_map: "(\<And>x. x \<in> set xs \<Longrightarrow> f x = (0 :: int)) \<Longrightarrow> sum_list (map f xs) = 0"
  by (induction xs) auto

lemma sums_sane:
  assumes "\<forall>x \<in> set outs. outcome_sane x" "adds_up outs out"
  shows "outcome_sane out"
proof -
  have each: "0 \<le> eo_filled_shares x" "0 \<le> eo_notional x" "0 \<le> eo_fees x"
    "eo_filled_shares x = 0 \<Longrightarrow> eo_notional x = 0" "eo_filled_shares x = 0 \<Longrightarrow> eo_fees x = 0"
    if "x \<in> set outs" for x
    using assms(1) that by (auto simp: outcome_sane_def eo_filled_def)
  have nonneg: "0 \<le> sum_list (map eo_filled_shares outs)" "0 \<le> sum_list (map eo_notional outs)"
    "0 \<le> sum_list (map eo_fees outs)" using each(1-3) by (simp_all add: sum_list_nonneg_map)
  have zero: "eo_filled_shares x = 0" if "sum_list (map eo_filled_shares outs) = 0" "x \<in> set outs" for x
  proof -
    have "\<And>z. z \<in> set (map eo_filled_shares outs) \<Longrightarrow> 0 \<le> z" using each(1) by auto
    from sum_list_nonneg_eq_0_iff [of "map eo_filled_shares outs", OF this] that show ?thesis by auto
  qed
  have "sum_list (map eo_notional outs) = 0" "sum_list (map eo_fees outs) = 0"
    if "sum_list (map eo_filled_shares outs) = 0"
    using zero [OF that] each(4,5) by (simp_all add: sum_list_zero_map)
  with nonneg assms(2) show ?thesis by (auto simp: outcome_sane_def adds_up_def eo_filled_def)
qed

lemma sequential_entry_children:
  assumes "entry_request_ok q" "sequential_entry q sim = Inr (outs, j, sim')"
  shows "\<forall>out \<in> set outs. \<exists>ladder. outcome_from (eq_realism q) ladder out"
    "opt_all (\<lambda>m. spent_on outs \<le> m) (eq_max_spend q)"
proof -
  obtain n where n: "entry_target q = Inr n" using assms(2) by (auto simp: sequential_entry_def)
  define deadline where "deadline = entry_deadline_ns (eq_params q) (tape_episode (eq_tape q)) (eq_decision_ns q)
       (eq_entry_to_ns q)"
  have d: "eq_decision_ns q < deadline" and pos: "0 < n"
    using assms(2) n by (auto simp: sequential_entry_def Let_def deadline_def make_plan_def entry_plan_def
        split: if_splits)
  from sequential_entry_steps [OF assms(1) n pos deadline_def d, of sim] obtain s s0 later env j' where
    run': "sequential_entry q sim = Inr (es_outcomes s, j', es_sim s)" "parent_inv env s0 later s"
      "ee_realism env = eq_realism q"
      "session_inv (entry_session_cash q deadline) 0 (es_session s)" "se_cash s0 = entry_session_cash q deadline"
    by blast
  with assms(2) have run: "es_outcomes s = outs" "parent_inv env s0 later s" "ee_realism env = eq_realism q"
      "session_inv (entry_session_cash q deadline) 0 (es_session s)" "se_cash s0 = entry_session_cash q deadline"
    by simp_all
  then show "\<forall>out \<in> set outs. \<exists>ladder. outcome_from (eq_realism q) ladder out"
    by (auto simp: parent_inv_def children_ok_def)
  have "0 \<le> se_cash (es_session s)" using run(4) by (simp add: session_inv_def)
  with run show "opt_all (\<lambda>m. spent_on outs \<le> m) (eq_max_spend q)"
    by (auto simp: parent_inv_def entry_session_cash_def opt_all_def split: option.splits)
qed

lemma spent_on_adds_up: "adds_up outs out \<Longrightarrow> spent_on outs = eo_notional out + eo_fees out"
  by (simp add: adds_up_def spent_on_def sum_list_addf)

lemma parent_entry_spec:
  assumes "run_env_ok env" "signal env r s = Some ask"
    and "parent_entry env r ask s = Inr (Some (out, effective, s1))"
  shows "\<exists>outs. appended outs ask s s1 \<and> adds_up outs out \<and> outcome_sane out
    \<and> opt_all (\<lambda>n. eo_notional out + eo_fees out \<le> n) (th_order_notional (rn_params env))"
proof -
  let ?q = "parent_request env r ask s"
  obtain outs j sim' where sent: "sequential_entry ?q (ru_sim s) = Inr (outs, j, sim')"
    and out: "out = aggregate_entry_outcomes (jr_filled_shares j + jr_unfilled_shares j)
        (row_received_utc_ns r) ask outs"
    and app: "appended outs ask s s1"
    using assms(3) by (auto simp: parent_entry_def Let_def appended_def result_ledger_def state_ledger_def
        book_parent_def split: if_splits)
  note kids = sequential_entry_children [OF parent_request_ok [OF assms(1,2)] sent]
  have r: "eq_realism ?q = rn_realism env" "realism_ok (rn_realism env)"
    "eq_max_spend ?q = fst (entry_spend env (row_received_utc_ns r) s)"
    using assms(1) by (simp_all add: parent_request_def run_env_ok_def)
  have up: "adds_up outs out" unfolding out by (rule aggregate_adds_up [OF kids(1)])
  have "\<forall>x \<in> set outs. outcome_sane x" using kids(1) outcome_from_sane [OF _ r(2)] r(1) by auto
  from sums_sane [OF this up] have "outcome_sane out" .
  moreover have "opt_all (\<lambda>n. eo_notional out + eo_fees out \<le> n) (th_order_notional (rn_params env))"
  proof (cases "th_order_notional (rn_params env)")
    case (Some n)
    have "\<exists>k. fst (entry_spend env (row_received_utc_ns r) s) = Some k \<and> 0 < k \<and> k \<le> n"
      by (rule entry_spend_notional [OF assms(1) _ Some, where limited = "snd (entry_spend env (row_received_utc_ns r) s)"])
        simp
    with kids(2) r(3) spent_on_adds_up [OF up] Some show ?thesis by auto
  qed simp
  ultimately show ?thesis using app up by blast
qed

section \<open>The loop keeps the ledger\<close>

lemma signal_flat: "signal env r s = Some ask \<Longrightarrow> live s \<Longrightarrow> \<not> sr_entered (ru_result s)"
  by (auto simp: signal_def live_def Let_def split: if_splits)

lemma entry_step_inv:
  assumes "run_env_ok env" "run_inv env s" "live s" "entry_step env r s = Inr s'"
  shows "run_inv env s' \<and> live s'"
proof (cases "signal env r s")
  case None
  with assms show ?thesis by (simp add: entry_step_def)
next
  case (Some ask)
  note fresh = signal_flat [OF Some assms(3)]
  show ?thesis
  proof (cases "th_entry_execution_policy (rn_params env) = Policy_immediate")
    case True
    then obtain out effective s1 where e: "immediate_entry env r ask s = Inr (out, effective, s1)"
      "book_entry env (row_token_index r) out effective s1 = Inr s'"
      using assms(4) Some by (auto simp: entry_step_def)
    note spec = immediate_entry_spec [OF assms(1) e(1)]
    show ?thesis by (rule book_entry_inv [OF assms(2) fresh spec e(2)])
  next
    case False
    then consider "s' = s" | out effective s1 where "parent_entry env r ask s = Inr (Some (out, effective, s1))"
      "book_entry env (row_token_index r) out effective s1 = Inr s'"
      using assms(4) Some by (auto simp: entry_step_def split: option.splits)
    then show ?thesis
    proof cases
      case 1
      with assms show ?thesis by simp
    next
      case 2
      from parent_entry_spec [OF assms(1) Some 2(1)] book_entry_inv [OF assms(2) fresh _ _ _ _ 2(2)]
      show ?thesis by blast
    qed
  qed
qed

lemma run_rows_inv:
  "run_env_ok env \<Longrightarrow> run_rows env rs s = Inr s' \<Longrightarrow> run_inv env s \<Longrightarrow> live s \<Longrightarrow> run_inv env s'"
proof (induction rs arbitrary: s)
  case (Cons r rs)
  show ?case
  proof (cases "ep_end_utc_ns (tape_episode (rn_tape env)) < row_received_utc_ns r")
    case True
    with Cons.prems show ?thesis by simp
  next
    case False
    then obtain finished s1 where step: "row_step env r s = Inr (finished, s1)"
      and rest: "(if finished then Inr s1 else run_rows env rs s1) = Inr s'"
      using Cons.prems(2) by (auto split: if_splits)
    have "run_inv env s1 \<and> (\<not> finished \<longrightarrow> live s1)"
    proof (cases "0 < ru_position_shares s \<and> ru_position_token s = Some (row_token_index r)
         \<and> ru_position_effective_ns s \<le> row_received_utc_ns r")
      case True
      then have "sr_entered (ru_result s)" "0 < ru_position_shares s" "exit_step env r s = Inr (finished, s1)"
        using Cons.prems(3) step by (auto simp: run_inv_def untouched_def row_step_def)
      then show ?thesis using exit_step_inv [OF Cons.prems(1,3)] by blast
    next
      case False
      with step have "entry_step env r s = Inr s1" by (auto simp: row_step_def)
      with entry_step_inv [OF Cons.prems(1,3,4)] show ?thesis by blast
    qed
    with rest Cons.IH Cons.prems(1) show ?thesis by (cases finished) auto
  qed
qed simp

section \<open>The run never raises\<close>

lemma exit_step_total: "run_env_ok env \<Longrightarrow> \<exists>finished s'. exit_step env r s = Inr (finished, s')"
proof -
  assume "run_env_ok env"
  then have "\<exists>out s'. send (rn_rng env) (rn_realism env) (rn_tape env) q sim = Inr (out, s')" for q sim
    by (intro send_total) (simp add: run_env_ok_def)
  then show ?thesis
    by (auto simp: exit_step_def Let_def res_bind_def split: option.splits sum.splits) (metis Inl_Inr_False)
qed

lemma book_entry_total: "\<exists>s'. book_entry env tok out effective s = Inr s'"
  by (auto simp: book_entry_def Let_def token_id_of_def token_outcome_def)

lemma immediate_entry_total: "run_env_ok env \<Longrightarrow> \<exists>x. immediate_entry env r ask s = Inr x"
proof -
  assume ok: "run_env_ok env"
  obtain shares where "entry_size (rn_params env) ask = Inr shares"
    using entry_size_ok ok unfolding run_env_ok_def by blast
  moreover obtain out sim where "send (rn_rng env) (rn_realism env) (rn_tape env)
      (immediate_request env r ask shares s) (ru_sim s) = Inr (out, sim)"
    using send_total ok unfolding run_env_ok_def by blast
  ultimately show ?thesis by (simp add: immediate_entry_def Let_def)
qed

text \<open>A notional-sized parent whose budget buys no share unit raises; a share-sized one never does.\<close>

lemma parent_entry_total:
  assumes "run_env_ok env" "signal env r s = Some ask" "th_order_shares (rn_params env) \<noteq> None"
  shows "\<exists>x. parent_entry env r ask s = Inr x"
proof -
  let ?q = "parent_request env r ask s"
  obtain n where n: "th_order_shares (rn_params env) = Some n" using assms(3) by blast
  have target: "entry_target ?q = Inr n" using n by (simp add: entry_target_def parent_request_def)
  have pos: "0 < n"
    using n assms(1) params_facts(2) [of "rn_params env" "rn_params env"]
    by (simp add: run_env_ok_def entry_fields_ok_def)
  show ?thesis
  proof (cases "run_deadline env (row_received_utc_ns r) \<le> row_received_utc_ns r")
    case True
    then show ?thesis by (simp add: parent_entry_def Let_def)
  next
    case False
    have "run_deadline env (row_received_utc_ns r) = entry_deadline_ns (eq_params ?q)
        (tape_episode (eq_tape ?q)) (eq_decision_ns ?q) (eq_entry_to_ns ?q)"
      by (simp add: run_deadline_def parent_request_def)
    moreover have "eq_decision_ns ?q < run_deadline env (row_received_utc_ns r)"
      using False by (simp add: parent_request_def)
    ultimately obtain outs j sim where "sequential_entry ?q (ru_sim s) = Inr (outs, j, sim)"
      using sequential_entry_steps [OF parent_request_ok [OF assms(1,2)] target pos] by blast
    with False show ?thesis by (simp add: parent_entry_def Let_def)
  qed
qed

definition sized_in_shares :: "threshold_params \<Rightarrow> bool" where
  "sized_in_shares p \<longleftrightarrow> th_entry_execution_policy p = Policy_immediate \<or> th_order_shares p \<noteq> None"

lemma entry_step_total:
  assumes "run_env_ok env" "sized_in_shares (rn_params env)"
  shows "\<exists>s'. entry_step env r s = Inr s'"
proof (cases "signal env r s")
  case (Some ask)
  show ?thesis
  proof (cases "th_entry_execution_policy (rn_params env) = Policy_immediate")
    case True
    with Some immediate_entry_total [OF assms(1)] book_entry_total show ?thesis
      by (fastforce simp: entry_step_def)
  next
    case False
    then obtain x where x: "parent_entry env r ask s = Inr x"
      using parent_entry_total [OF assms(1) Some] assms(2) by (auto simp: sized_in_shares_def)
    show ?thesis
    proof (cases x)
      case None
      with Some False x show ?thesis by (simp add: entry_step_def)
    next
      case (Some y)
      obtain out effective s1 where "y = (out, effective, s1)" by (cases y)
      with Some False x \<open>signal env r s = Some ask\<close> book_entry_total [of env "row_token_index r" out effective s1]
      show ?thesis by (auto simp: entry_step_def)
    qed
  qed
qed (simp add: entry_step_def)

lemma run_rows_total:
  "run_env_ok env \<Longrightarrow> sized_in_shares (rn_params env) \<Longrightarrow> \<exists>s'. run_rows env rs s = Inr s'"
proof (induction rs arbitrary: s)
  case (Cons r rs)
  have "\<exists>finished s1. row_step env r s = Inr (finished, s1)"
    using exit_step_total [OF Cons.prems(1)] entry_step_total [OF Cons.prems, of r s]
    by (auto simp: row_step_def)
  then obtain finished s1 where "row_step env r s = Inr (finished, s1)" by blast
  with Cons.IH [OF Cons.prems, of s1] show ?case by (cases finished) auto
qed simp

section \<open>A fractional stop\<close>

text \<open>
  The retry state does not tell a stop that filled short from one that sold the whole configured
  fraction: whatever is left is then sold too, as long as a retry is allowed.
\<close>

lemma fractional_stop_sells_all:
  assumes "0 < ru_position_shares s" "s1 = retry_exit env ts o1 Exit_stop_loss s"
    and "max 0 (ru_stop_attempts s) < th_stop_retry_limit (rn_params env)"
    and "max ts (so_arrival_utc_ns o1) + th_stop_retry_interval_ms (rn_params env) * 1000000 \<le> later"
  shows "exit_choice env later bid s1 = Some (Kind_stop_loss, ru_position_shares s)"
  using assms by (simp add: retry_exit_def exit_choice_def reached_def Let_def)

section \<open>No entry, no profit\<close>

lemma exit_step_net:
  assumes "exit_step env r s = Inr (finished, s')"
  shows "sr_net_pnl (ru_result s') = sr_net_pnl (ru_result s)"
  using assms
proof (cases rule: exit_step_cases)
  case (sent kind target out sim')
  then show ?thesis by (simp add: retry_frame see_bid_frame book_exit_def Let_def)
qed (simp add: see_bid_frame)

lemma entry_step_net:
  assumes "entry_step env r s = Inr s'"
  shows "sr_net_pnl (ru_result s') = sr_net_pnl (ru_result s)"
proof -
  have imm: "sr_net_pnl (ru_result s1) = sr_net_pnl (ru_result s)"
    if "immediate_entry env r ask s = Inr (out, effective, s1)" for ask out effective s1
    using that by (auto simp: immediate_entry_def book_immediate_def Let_def split: if_splits)
  have par: "sr_net_pnl (ru_result s1) = sr_net_pnl (ru_result s)"
    if "parent_entry env r ask s = Inr (Some (out, effective, s1))" for ask out effective s1
    using that by (auto simp: parent_entry_def book_parent_def Let_def split: if_splits)
  have book: "sr_net_pnl (ru_result s2) = sr_net_pnl (ru_result s1)"
    if "book_entry env tok out effective s1 = Inr s2" for tok out effective s1 s2
    using that by (auto simp: book_entry_def Let_def split: if_splits)
  show ?thesis
  proof (cases "signal env r s")
    case None
    with assms show ?thesis by (simp add: entry_step_def)
  next
    case (Some ask)
    show ?thesis
    proof (cases "th_entry_execution_policy (rn_params env) = Policy_immediate")
      case True
      with assms Some obtain out effective s1 where "immediate_entry env r ask s = Inr (out, effective, s1)"
        "book_entry env (row_token_index r) out effective s1 = Inr s'"
        by (auto simp: entry_step_def)
      with imm book show ?thesis by metis
    next
      case False
      with assms Some obtain x where x: "parent_entry env r ask s = Inr x"
        "(case x of None \<Rightarrow> Inr s | Some (out, effective, s') \<Rightarrow> book_entry env (row_token_index r) out effective s') = Inr s'"
        by (auto simp: entry_step_def)
      show ?thesis
      proof (cases x)
        case None
        with x(2) show ?thesis by simp
      next
        case (Some y)
        obtain out effective s1 where y: "y = (out, effective, s1)" by (cases y)
        with Some x have "parent_entry env r ask s = Inr (Some (out, effective, s1))"
          "book_entry env (row_token_index r) out effective s1 = Inr s'" by simp_all
        with par book show ?thesis by metis
      qed
    qed
  qed
qed

lemma row_step_net:
  assumes "row_step env r s = Inr (finished, s')"
  shows "sr_net_pnl (ru_result s') = sr_net_pnl (ru_result s)"
proof (cases "0 < ru_position_shares s \<and> ru_position_token s = Some (row_token_index r)
    \<and> ru_position_effective_ns s \<le> row_received_utc_ns r")
  case True
  with assms have "exit_step env r s = Inr (finished, s')" by (simp add: row_step_def)
  then show ?thesis by (rule exit_step_net)
next
  case False
  with assms have "entry_step env r s = Inr s'" by (auto simp: row_step_def)
  then show ?thesis by (rule entry_step_net)
qed

lemma run_rows_net: "run_rows env rows s = Inr s' \<Longrightarrow> sr_net_pnl (ru_result s') = sr_net_pnl (ru_result s)"
proof (induction rows arbitrary: s)
  case (Cons r rows)
  show ?case
  proof (cases "ep_end_utc_ns (tape_episode (rn_tape env)) < row_received_utc_ns r")
    case False
    with Cons.prems obtain finished s1 where "row_step env r s = Inr (finished, s1)"
      "(if finished then Inr s1 else run_rows env rows s1) = Inr s'"
      by auto
    with row_step_net [OF this(1)] Cons.IH [of s1] show ?thesis by (cases finished) simp_all
  qed (use Cons.prems in simp)
qed simp

text \<open>A market that was not entered moves no money, whatever its tape.\<close>

lemma run_unentered:
  assumes "run g p r t cash seed = Inr res"
  shows "sr_entered res \<or> sr_net_pnl res = 0"
proof (cases "ep_eligible (tape_episode t)")
  case False
  with assms show ?thesis by (auto simp: run_def make_result_def)
next
  case True
  define env where "env = make_run_env g p r t cash"
  obtain s where s: "run_rows env (tape_rows t) (make_run_state env seed) = Inr s" "res = settle_run env s"
    using assms True by (auto simp: run_def env_def Let_def)
  have "sr_net_pnl (ru_result s) = 0"
    unfolding run_rows_net [OF s(1)] by (simp add: make_run_state_def make_result_def)
  then show ?thesis unfolding s(2) by (cases "sr_entered (ru_result s)") (simp_all add: settle_run_def Let_def)
qed

section \<open>Properties\<close>

text \<open>C4. The result of a run accounts for every order and every share.  On a sound tape with accepted
  parameters the entry and exit totals of the result are the sums over its recorded orders, every fee
  counted once; every share bought was either sold or carried to settlement; the payout is all or
  nothing, and nothing unless the token won; profit is what came in less what went out; a run
  that entered nothing moved no money; and a notional-sized entry never cost more than its
  notional, fees included.\<close>

theorem run_accounts:
  assumes "run_env_ok (make_run_env g p r t cash)" "run g p r t cash seed = Inr res"
  shows "booked BUY so_filled_shares (sr_orders res) = sr_entry_shares res
    \<and> booked BUY so_notional (sr_orders res) = sr_entry_notional res
    \<and> booked SELL so_filled_shares (sr_orders res) = sr_exit_shares res
    \<and> booked SELL so_notional (sr_orders res) = sr_exit_notional res
    \<and> booked BUY so_fees (sr_orders res) + booked SELL so_fees (sr_orders res) = sr_fees res
    \<and> sr_entry_shares res = sr_exit_shares res + sr_settled_shares res \<and> 0 \<le> sr_settled_shares res
    \<and> sr_settlement_payout res = (if sr_won res = Some True then sr_settled_shares res else 0)
    \<and> sr_net_pnl res = sr_exit_notional res + sr_settlement_payout res - sr_entry_notional res - sr_fees res
    \<and> (sr_entered res \<or> sr_entry_shares res = 0 \<and> sr_fees res = 0 \<and> sr_net_pnl res = 0)
    \<and> opt_all (\<lambda>n. booked BUY so_notional (sr_orders res) + booked BUY so_fees (sr_orders res) \<le> n)
        (th_order_notional p)"
proof (cases "ep_eligible (tape_episode t)")
  case False
  have "opt_all (\<lambda>n. 0 < n) (th_order_notional p)"
    using assms(1) params_facts(2) by (auto simp: run_env_ok_def make_run_env_def Let_def entry_fields_ok_def)
  with False assms(2) show ?thesis
    by (auto simp: run_def make_result_def opt_all_def split: option.splits)
next
  case True
  define env where "env = make_run_env g p r t cash"
  have ok: "run_env_ok env" using assms(1) by (simp add: env_def)
  obtain s where s: "run_rows env (tape_rows t) (make_run_state env seed) = Inr s" "res = settle_run env s"
    using assms(2) True by (auto simp: run_def env_def Let_def)
  have inv: "run_inv env s" using run_rows_inv [OF ok s(1) run_inv_make [OF ok]] .
  note ledger = inv [unfolded run_inv_def ledger_def Let_def]
  have p: "rn_params env = p" by (simp add: env_def make_run_env_def Let_def)
  have pos: "0 \<le> ru_position_shares s" "sr_settled_shares (ru_result s) = 0"
    "sr_settlement_payout (ru_result s) = 0" "sr_net_pnl (ru_result s) = 0"
    "sr_exit_shares (ru_result s) = 0" "sr_exit_notional (ru_result s) = 0"
    using inv by (simp_all add: run_inv_def untouched_def)
  have fixed: "sr_orders res = sr_orders (ru_result s)" "sr_entered res = sr_entered (ru_result s)"
    "sr_entry_shares res = sr_entry_shares (ru_result s)"
    "sr_entry_notional res = sr_entry_notional (ru_result s)" "sr_fees res = sr_fees (ru_result s)"
    by (simp_all add: s(2) settle_run_def Let_def)
  have notional: "opt_all (\<lambda>n. booked BUY so_notional (sr_orders res) + booked BUY so_fees (sr_orders res) \<le> n)
      (th_order_notional p)"
    using ledger fixed(1) p by (cases "th_order_notional p") (simp_all add: within_notional_def)
  show ?thesis
  proof (cases "sr_entered (ru_result s)")
    case True
    have closed: "sr_exit_shares res = ru_exit_shares s" "sr_exit_notional res = ru_exit_notional s"
      "sr_settled_shares res = ru_position_shares s"
      "sr_settlement_payout res = (if sr_won res = Some True then sr_settled_shares res else 0)"
      "sr_net_pnl res = ru_exit_notional s + sr_settlement_payout res - ru_position_cost s - sr_fees res"
      using True pos by (auto simp: s(2) settle_run_def Let_def)
    then show ?thesis using True ledger fixed notional pos by auto
  next
    case False
    have "sr_exit_shares res = 0" "sr_exit_notional res = 0" "sr_settled_shares res = 0"
      "sr_settlement_payout res = 0" "sr_net_pnl res = 0"
      using False pos by (simp_all add: s(2) settle_run_def Let_def)
    with False ledger fixed notional show ?thesis by (auto simp: flat_def)
  qed
qed

text \<open>C5. A run always completes.  On a sound tape with accepted parameters, entering at once or sized
  in shares, no row, order, retry or settlement of the run raises, whatever the generator draws and
  whatever the wallet holds.\<close>

theorem run_completes:
  assumes "run_env_ok (make_run_env g p r t cash)" "sized_in_shares p"
  shows "\<exists>res. run g p r t cash seed = Inr res"
proof -
  have "rn_params (make_run_env g p r t cash) = p" by (simp add: make_run_env_def Let_def)
  with run_rows_total [OF assms(1), of "tape_rows t" "make_run_state (make_run_env g p r t cash) seed"] assms(2)
  show ?thesis by (auto simp: run_def Let_def)
qed

section \<open>A concrete run\<close>

definition demo_run_params :: threshold_params where
  "demo_run_params = demo_params\<lparr>th_entry_from_minute := Flt 0 0, th_entry_trigger_price := 510000,
     th_entry_limit_price := 530000, th_stop_loss_price := Some 505000, th_order_shares := Some 3000000\<rparr>"

definition demo_run_tape :: tape where
  "demo_run_tape = tape_demo\<lparr>tape_episode := demo_episode\<lparr>ep_minimum_order_size := 1000000\<rparr>,
     tape_rows := [hd (tape_rows tape_demo), last (tape_rows tape_demo)], tape_uncertainty := []\<rparr>"

definition demo_run_realism :: execution_realism where
  "demo_run_realism =
     optimistic_preset (Some ((constant_latency 25)\<lparr>lc_model := Latency_disabled\<rparr>)) DEFAULT_FEE"

definition demo_run_env :: "unit run_env" where
  "demo_run_env = make_run_env sent_rng_source demo_run_params demo_run_realism demo_run_tape None"

lemma demo_run_ok: "run_env_ok demo_run_env"
proof -
  have params: "make_params demo_run_params = Inr demo_run_params"
  proof -
    have "\<not> isl (make_params demo_run_params)" by code_simp
    then show ?thesis using params_facts(1) [of demo_run_params] by (cases "make_params demo_run_params") auto
  qed
  have episode: "ep_fee_rate demo_episode = None" "ep_fee_exponent demo_episode = None"
    "or_zero (ep_taker_order_delay_ms demo_episode) = 0" by code_simp+
  have "tape_rows tape_demo \<noteq> []" "map row_received_utc_ns (tape_rows demo_run_tape) = [100, 140]"
    by code_simp+
  then have "tape_ok demo_run_tape"
    using tape_demo_ok by (auto simp: tape_ok_def demo_run_tape_def hd_in_set last_in_set)
  moreover have "trades_ok demo_run_tape"
    by (simp add: trades_ok_def demo_run_tape_def tape_demo_def load_tape_def)
  moreover have "realism_ok demo_run_realism" "latency_drawable demo_run_realism"
    by (simp_all add: demo_run_realism_def optimistic_preset_def realism_ok_def latency_drawable_def)
  ultimately show ?thesis
    using params episode
    by (simp add: run_env_ok_def demo_run_env_def make_run_env_def Let_def episode_realism_def demo_run_tape_def
        realism_ok_def latency_drawable_def)
qed

lemma demo_run_outcome:
  "(case run sent_rng_source demo_run_params demo_run_realism demo_run_tape None () of
      Inl _ \<Rightarrow> False
    | Inr res \<Rightarrow> (sr_entry_shares res, sr_exit_shares res, sr_won res) = (3000000, 2000000, Some True))"
  by code_simp

theorem run_completes_witness:
  "(\<exists>res. run sent_rng_source demo_run_params demo_run_realism demo_run_tape None () = Inr res)
   \<and> tape_rows demo_run_tape \<noteq> []"
  using run_completes [OF demo_run_ok [unfolded demo_run_env_def], of "()"]
  by (simp add: sized_in_shares_def demo_run_params_def demo_params_def demo_run_tape_def)

theorem run_accounts_witness:
  "\<exists>res. run sent_rng_source demo_run_params demo_run_realism demo_run_tape None () = Inr res
     \<and> sr_settled_shares res = 1000000 \<and> sr_settlement_payout res = 1000000
     \<and> booked SELL so_filled_shares (sr_orders res) = 2000000"
proof -
  obtain res where res: "run sent_rng_source demo_run_params demo_run_realism demo_run_tape None () = Inr res"
    using demo_run_outcome by (auto split: sum.splits)
  with run_accounts [OF demo_run_ok [unfolded demo_run_env_def] res] demo_run_outcome
  show ?thesis by auto
qed

end
