(* ===== verification/Compound.thy ===== *)
theory Compound
  imports Fastrun Wallet
begin

text \<open>
  \<^verbatim>\<open>run_episodes\<close> of \<^verbatim>\<open>dashboard/backtest_service.py\<close>: the selected markets replayed in time order,
  each staking a fixed amount or whatever the replay wallet holds.  Here the tape simulator and
  the timestamped ledger meet: orders are sized from cash the wallet will have released by then, and
  every result is booked back as the cashflows of its fills.  Loading a tape and seeding the
  generator of an episode are parameters.
\<close>

section \<open>Booking a result\<close>

text \<open>\<^verbatim>\<open>wallet.peek_available_at\<close> as the cash source of a run; its refusal to look back is \<open>stale_query\<close>.\<close>

definition peek_cash :: "wallet \<Rightarrow> int \<Rightarrow> int" where
  "peek_cash w t = w_available w
     + sum_list (map (\<lambda>(_, c). pc_amount_scaled c) (filter (\<lambda>((due, _), _). due \<le> t) (w_pending w)))"

definition first_signal :: "'r run_env \<Rightarrow> 'r run_state \<Rightarrow> tape_row option" where
  "first_signal env s =
     find (\<lambda>r. signal env r s \<noteq> None)
       (takeWhile (\<lambda>r. row_received_utc_ns r \<le> ep_end_utc_ns (tape_episode (rn_tape env)))
         (tape_rows (rn_tape env)))"

definition stale_query :: "wallet \<Rightarrow> 'r run_env \<Rightarrow> 'r \<Rightarrow> bool" where
  "stale_query w env seed =
     (case first_signal env (make_run_state env seed) of
        None \<Rightarrow> False
      | Some r \<Rightarrow> row_received_utc_ns r < w_now w)"

definition wallet_env :: "'r rng \<Rightarrow> threshold_params \<Rightarrow> execution_realism \<Rightarrow> tape \<Rightarrow> wallet \<Rightarrow> 'r run_env" where
  "wallet_env g p r t w = make_run_env g p r t (Some (peek_cash w))"

definition run_from_wallet :: "'r rng \<Rightarrow> threshold_params \<Rightarrow> execution_realism \<Rightarrow> tape \<Rightarrow> wallet \<Rightarrow> 'r
    \<Rightarrow> py_error + episode_result" where
  "run_from_wallet g p r t w seed =
     (if ep_eligible (tape_episode t) \<and> stale_query w (wallet_env g p r t w) seed
      then Inl (ValueError ''cannot query cash behind wallet time'')
      else run g p r t (Some (peek_cash w)) seed)"

definition cash_order :: "simulated_order \<Rightarrow> int \<times> int" where
  "cash_order o1 = (so_arrival_utc_ns o1, if so_side o1 = SELL then 0 else 1)"

definition filled_orders :: "episode_result \<Rightarrow> simulated_order list" where
  "filled_orders res = sort_key cash_order (filter (\<lambda>o1. so_filled_shares o1 \<noteq> 0) (sr_orders res))"

definition order_source :: "episode \<Rightarrow> simulated_order \<Rightarrow> string" where
  "order_source e o1 = ep_condition_id e @ '':'' @
     (case so_kind o1 of Kind_entry \<Rightarrow> ''entry'' | Kind_stop_loss \<Rightarrow> ''stop_loss''
      | Kind_take_profit \<Rightarrow> ''take_profit'' | Kind_flatten \<Rightarrow> ''flatten'')"

fun credit_sells :: "episode \<Rightarrow> simulated_order list \<Rightarrow> wallet \<Rightarrow> py_error + wallet" where
  "credit_sells e [] w = Inr w"
| "credit_sells e (o1 # os) w =
     (let net = so_notional o1 - so_fees o1
      in if net < 0 then Inl (ValueError ''sell fees exceed proceeds'')
         else res_bind (make_pending_credit (so_arrival_utc_ns o1) net (order_source e o1)) (\<lambda>c.
           credit_sells e os (schedule_credit c w)))"

definition payout_time :: "episode \<Rightarrow> int" where
  "payout_time e =
     max (ep_end_utc_ns e)
       (case ep_resolution_received_utc_ns e of Some t \<Rightarrow> t | None \<Rightarrow> ep_end_utc_ns e + 60000000000)"

definition credit_settlement :: "episode \<Rightarrow> episode_result \<Rightarrow> wallet \<Rightarrow> py_error + wallet" where
  "credit_settlement e res w =
     (if sr_settled_shares res = 0 then Inr w
      else res_bind (make_pending_credit (payout_time e) (sr_settlement_payout res)
               (ep_condition_id e @ '':settlement'')) (\<lambda>c. Inr (schedule_credit c w)))"

fun debit_buys :: "episode \<Rightarrow> simulated_order list \<Rightarrow> wallet \<Rightarrow> py_error + wallet" where
  "debit_buys e [] w = Inr w"
| "debit_buys e (o1 # os) w =
     (case debit (so_arrival_utc_ns o1) (so_notional o1 + so_fees o1) (order_source e o1) w of
        (_, Inl err) \<Rightarrow> Inl err
      | (w', Inr _) \<Rightarrow> debit_buys e os w')"

definition apply_result :: "episode \<Rightarrow> episode_result \<Rightarrow> wallet \<Rightarrow> py_error + wallet" where
  "apply_result e res w =
     (let os = filled_orders res in
      res_bind (credit_sells e (filter (\<lambda>o1. so_side o1 = SELL) os) w) (\<lambda>w1.
      res_bind (credit_settlement e res w1) (\<lambda>w2.
      res_bind (debit_buys e (filter (\<lambda>o1. so_side o1 = BUY) os) w2) (\<lambda>w3.
        if total_equity w3 - total_equity w \<noteq> sr_net_pnl res
        then Inl (ValueError ''wallet cashflows do not reconcile'')
        else Inr w3))))"

section \<open>The pass over the markets\<close>

datatype sizing_mode = Fixed | Compounding

record 'r staking_env =
  sg_rng :: "'r rng"
  sg_params :: threshold_params
  sg_realism :: execution_realism
  sg_load :: "episode \<Rightarrow> py_error + tape"
  sg_seed :: "episode \<Rightarrow> 'r"

record pass_state =
  pt_wallet :: wallet
  pt_results :: "episode_result list"
  pt_balance :: int
  pt_ended_early :: bool

record run_outcome =
  rt_results :: "episode_result list"
  rt_sizing :: sizing_mode
  rt_starting_balance :: int
  rt_final_balance :: int
  rt_episodes_selected :: nat
  rt_ended_early :: bool
  rt_available_balance :: int
  rt_locked_balance :: int
  rt_wallet_events :: "wallet_event list"

definition episode_order :: "episode \<Rightarrow> int \<times> string" where
  "episode_order e = (ep_start_utc_ns e, ep_condition_id e)"

definition compound_params :: "wallet \<Rightarrow> threshold_params \<Rightarrow> threshold_params" where
  "compound_params w p = p\<lparr>th_order_notional := Some (max 1 (total_equity w))\<rparr>"

definition replay_episode :: "'r staking_env \<Rightarrow> sizing_mode \<Rightarrow> episode \<Rightarrow> pass_state \<Rightarrow> py_error + pass_state" where
  "replay_episode env sizing e s =
     res_bind (sg_load env e) (\<lambda>t.
       case sizing of
         Compounding \<Rightarrow>
           let w = pt_wallet s
           in res_bind (run_from_wallet (sg_rng env) (compound_params w (sg_params env)) (sg_realism env) t w
                  (sg_seed env e)) (\<lambda>res.
              res_bind (apply_result e res w) (\<lambda>w'.
                Inr (s\<lparr>pt_wallet := w', pt_results := pt_results s @ [res]\<rparr>)))
       | Fixed \<Rightarrow>
           res_bind (run (sg_rng env) (sg_params env) (sg_realism env) t None (sg_seed env e)) (\<lambda>res.
             Inr (s\<lparr>pt_results := pt_results s @ [res], pt_balance := pt_balance s + sr_net_pnl res\<rparr>)))"

fun replay_episodes :: "'r staking_env \<Rightarrow> sizing_mode \<Rightarrow> episode list \<Rightarrow> pass_state \<Rightarrow> py_error + pass_state" where
  "replay_episodes env sizing [] s = Inr s"
| "replay_episodes env sizing (e # es) s =
     (if sizing = Compounding \<and> total_equity (pt_wallet s) \<le> 0 then Inr (s\<lparr>pt_ended_early := True\<rparr>)
      else res_bind (replay_episode env sizing e s) (replay_episodes env sizing es))"

definition horizon :: "pass_state \<Rightarrow> int" where
  "horizon s =
     (case map sr_end_utc_ns (pt_results s) of
        [] \<Rightarrow> w_now (pt_wallet s)
      | t # ts \<Rightarrow> foldl max t ts)"

definition finish_pass :: "sizing_mode \<Rightarrow> int \<Rightarrow> nat \<Rightarrow> pass_state \<Rightarrow> py_error + run_outcome" where
  "finish_pass sizing starting_balance selected s =
     (case sizing of
        Compounding \<Rightarrow>
          let (w, adv) = advance_to (max (w_now (pt_wallet s)) (horizon s)) (pt_wallet s)
          in res_bind adv (\<lambda>_. Inr
               \<lparr>rt_results = pt_results s, rt_sizing = sizing, rt_starting_balance = starting_balance,
                rt_final_balance = total_equity w, rt_episodes_selected = selected,
                rt_ended_early = pt_ended_early s, rt_available_balance = w_available w,
                rt_locked_balance = pending_cash w, rt_wallet_events = w_events w\<rparr>)
      | Fixed \<Rightarrow> Inr
          \<lparr>rt_results = pt_results s, rt_sizing = sizing, rt_starting_balance = starting_balance,
           rt_final_balance = pt_balance s, rt_episodes_selected = selected,
           rt_ended_early = pt_ended_early s, rt_available_balance = pt_balance s,
           rt_locked_balance = 0, rt_wallet_events = []\<rparr>)"

definition run_episodes :: "'r staking_env \<Rightarrow> sizing_mode \<Rightarrow> int \<Rightarrow> episode list \<Rightarrow> py_error + run_outcome" where
  "run_episodes env sizing starting_balance episodes =
     (let ordered = sort_key episode_order episodes;
          start = (case ordered of [] \<Rightarrow> 0 | e # _ \<Rightarrow> ep_start_utc_ns e)
      in res_bind (make_wallet starting_balance start) (\<lambda>w.
         res_bind (replay_episodes env sizing ordered
             \<lparr>pt_wallet = w, pt_results = [], pt_balance = starting_balance, pt_ended_early = False\<rparr>) (\<lambda>s.
           finish_pass sizing starting_balance (length ordered) s)))"

section \<open>Booking conserves\<close>

lemma sum_filter_push:
  "sum_list (map f (filter P (tq_push x q))) = (if P x then f x else 0 :: int) + sum_list (map f (filter P q))"
  by (induction q) auto

lemma sum_push: "sum_list (map f (tq_push x q)) = (f x :: int) + sum_list (map f q)"
  using sum_filter_push [of f "\<lambda>_. True" x q] by simp

lemma schedule_equity: "total_equity (schedule_credit c w) = total_equity w + pc_amount_scaled c"
  by (simp add: schedule_credit_def total_equity_def pending_cash_def sum_push)

lemma schedule_now [simp]: "w_now (schedule_credit c w) = w_now w"
  by (simp add: schedule_credit_def)

lemma debit_equity:
  assumes "wallet_inv c0 w" "debit t amount source w = (w', Inr u)"
  shows "total_equity w' = total_equity w - amount" "wallet_inv c0 w'" "w_now w' = t" "w_now w \<le> t"
proof -
  show "wallet_inv c0 w'" using wallet_inv_debit [OF assms(1), of t amount source] assms(2) by simp
  show "w_now w \<le> t" using assms(2) by (auto simp: debit_def advance_to_def split: if_splits)
  then obtain w1 where w1: "advance_to t w = (w1, Inr (w_available w1))" "w_now w1 = t"
    by (cases rule: advance_to_cases [where t = t and w = w]) auto
  have "total_equity w1 = total_equity w" using advance_equity [OF assms(1), of t] w1 by simp
  then show "total_equity w' = total_equity w - amount" "w_now w' = t"
    using assms(2) w1 by (auto simp: debit_def total_equity_def pending_cash_def split: if_splits)
qed

definition net_proceeds :: "simulated_order list \<Rightarrow> int" where
  "net_proceeds os = sum_list (map (\<lambda>o1. so_notional o1 - so_fees o1) os)"

definition total_cost :: "simulated_order list \<Rightarrow> int" where
  "total_cost os = sum_list (map (\<lambda>o1. so_notional o1 + so_fees o1) os)"

lemma credit_sells_equity:
  "credit_sells e os w = Inr w' \<Longrightarrow> wallet_inv c0 w \<Longrightarrow>
     total_equity w' = total_equity w + net_proceeds os \<and> wallet_inv c0 w' \<and> w_now w' = w_now w"
proof (induction os arbitrary: w)
  case (Cons o1 os)
  then obtain c where c: "make_pending_credit (so_arrival_utc_ns o1) (so_notional o1 - so_fees o1) (order_source e o1) = Inr c"
    "credit_sells e os (schedule_credit c w) = Inr w'"
    by (auto simp: Let_def split: if_splits)
  have a: "pc_amount_scaled c = so_notional o1 - so_fees o1" "0 \<le> pc_amount_scaled c"
    using c(1) by (auto simp: make_pending_credit_def split: if_splits)
  from Cons.IH [OF c(2) wallet_inv_schedule [OF Cons.prems(2) a(2)]] a(1) show ?case
    by (simp add: schedule_equity net_proceeds_def)
qed (simp add: net_proceeds_def)

lemma credit_settlement_equity:
  assumes "credit_settlement e res w = Inr w'" "wallet_inv c0 w"
  shows "total_equity w' = total_equity w + (if sr_settled_shares res = 0 then 0 else sr_settlement_payout res)"
    "wallet_inv c0 w'" "w_now w' = w_now w"
  using assms by (auto simp: credit_settlement_def make_pending_credit_def schedule_equity
      intro!: wallet_inv_schedule split: if_splits)

lemma debit_buys_equity:
  "debit_buys e os w = Inr w' \<Longrightarrow> wallet_inv c0 w \<Longrightarrow>
     total_equity w' = total_equity w - total_cost os \<and> wallet_inv c0 w'"
proof (induction os arbitrary: w)
  case (Cons o1 os)
  then obtain w1 where w1: "debit (so_arrival_utc_ns o1) (so_notional o1 + so_fees o1) (order_source e o1) w = (w1, Inr ())"
    "debit_buys e os w1 = Inr w'"
    by (auto split: prod.splits sum.splits)
  from debit_equity [OF Cons.prems(2) w1(1)] Cons.IH [OF w1(2)] show ?case by (simp add: total_cost_def)
qed (simp add: total_cost_def)

lemma apply_result_equity:
  assumes "apply_result e res w = Inr w'" "wallet_inv c0 w"
  shows "total_equity w' = total_equity w + sr_net_pnl res" "wallet_inv c0 w'"
proof -
  obtain w1 w2 where run: "credit_sells e (filter (\<lambda>o1. so_side o1 = SELL) (filled_orders res)) w = Inr w1"
    "credit_settlement e res w1 = Inr w2"
    "debit_buys e (filter (\<lambda>o1. so_side o1 = BUY) (filled_orders res)) w2 = Inr w'"
    "total_equity w' - total_equity w = sr_net_pnl res"
    using assms(1) by (auto simp: apply_result_def Let_def split: if_splits)
  then show "total_equity w' = total_equity w + sr_net_pnl res" by simp
  from credit_sells_equity [OF run(1) assms(2)] have "wallet_inv c0 w1" by simp
  from debit_buys_equity [OF run(3) credit_settlement_equity(2) [OF run(2) this]]
  show "wallet_inv c0 w'" by simp
qed

text \<open>One pass: the wallet (or the running balance) has moved by the results' profit and nothing else.\<close>

definition pass_inv :: "int \<Rightarrow> sizing_mode \<Rightarrow> pass_state \<Rightarrow> bool" where
  "pass_inv c sizing s \<longleftrightarrow> wallet_inv c (pt_wallet s)
     \<and> (let worth = c + sum_list (map sr_net_pnl (pt_results s))
        in if sizing = Compounding then total_equity (pt_wallet s) = worth else pt_balance s = worth)
     \<and> (pt_ended_early s \<longrightarrow> sizing = Compounding \<and> total_equity (pt_wallet s) \<le> 0)"

lemma replay_episode_inv:
  assumes "replay_episode env sizing e s = Inr s'" "pass_inv c sizing s" "\<not> pt_ended_early s"
  shows "pass_inv c sizing s' \<and> \<not> pt_ended_early s' \<and> length (pt_results s') = Suc (length (pt_results s))"
proof (cases sizing)
  case Fixed
  with assms show ?thesis by (auto simp: replay_episode_def pass_inv_def)
next
  case Compounding
  with assms(1) obtain res w' where step: "apply_result e res (pt_wallet s) = Inr w'"
    "s' = s\<lparr>pt_wallet := w', pt_results := pt_results s @ [res]\<rparr>"
    by (auto simp: replay_episode_def Let_def)
  have "wallet_inv c (pt_wallet s)" using assms(2) by (simp add: pass_inv_def)
  from apply_result_equity [OF step(1) this] step(2) assms(2,3) Compounding show ?thesis
    by (simp add: pass_inv_def Let_def)
qed

lemma replay_episodes_inv:
  "replay_episodes env sizing es s = Inr s' \<Longrightarrow> pass_inv c sizing s \<Longrightarrow> \<not> pt_ended_early s \<Longrightarrow>
     pass_inv c sizing s' \<and> length (pt_results s') \<le> length (pt_results s) + length es
     \<and> (pt_ended_early s' \<or> length (pt_results s') = length (pt_results s) + length es)"
proof (induction es arbitrary: s)
  case (Cons e es)
  show ?case
  proof (cases "sizing = Compounding \<and> total_equity (pt_wallet s) \<le> 0")
    case True
    with Cons.prems show ?thesis by (auto simp: pass_inv_def)
  next
    case False
    then obtain s1 where s1: "replay_episode env sizing e s = Inr s1" "replay_episodes env sizing es s1 = Inr s'"
      using Cons.prems(1) by (auto split: if_splits)
    from replay_episode_inv [OF s1(1) Cons.prems(2,3)] Cons.IH [OF s1(2)] show ?thesis by auto
  qed
qed auto

lemma pending_nonneg: "wallet_inv c w \<Longrightarrow> 0 \<le> pending_cash w"
  unfolding pending_cash_def wallet_inv_def pending_ok_def
  by (rule sum_list_nonneg_map) (auto intro: less_imp_le)

lemma equity_nonneg: "wallet_inv c w \<Longrightarrow> 0 \<le> total_equity w"
  using pending_nonneg [of c w] by (simp add: total_equity_def wallet_inv_def)

section \<open>The end of a pass\<close>

lemma pass_ends:
  assumes "run_episodes env sizing c episodes = Inr out"
  obtains w s w1 where "make_wallet c (case sort_key episode_order episodes of [] \<Rightarrow> 0 | e # _ \<Rightarrow> ep_start_utc_ns e) = Inr w"
    "replay_episodes env sizing (sort_key episode_order episodes)
       \<lparr>pt_wallet = w, pt_results = [], pt_balance = c, pt_ended_early = False\<rparr> = Inr s"
    "pass_inv c sizing s" "length (pt_results s) \<le> length episodes"
    "pt_ended_early s \<or> length (pt_results s) = length episodes"
    "wallet_inv c w1" "total_equity w1 = total_equity (pt_wallet s)"
    "out = (if sizing = Compounding
       then \<lparr>rt_results = pt_results s, rt_sizing = sizing, rt_starting_balance = c,
              rt_final_balance = total_equity w1, rt_episodes_selected = length episodes,
              rt_ended_early = pt_ended_early s, rt_available_balance = w_available w1,
              rt_locked_balance = pending_cash w1, rt_wallet_events = w_events w1\<rparr>
       else \<lparr>rt_results = pt_results s, rt_sizing = sizing, rt_starting_balance = c,
              rt_final_balance = pt_balance s, rt_episodes_selected = length episodes,
              rt_ended_early = pt_ended_early s, rt_available_balance = pt_balance s,
              rt_locked_balance = 0, rt_wallet_events = []\<rparr>)"
proof -
  obtain w s where run: "make_wallet c (case sort_key episode_order episodes of [] \<Rightarrow> 0 | e # _ \<Rightarrow> ep_start_utc_ns e) = Inr w"
    "replay_episodes env sizing (sort_key episode_order episodes)
       \<lparr>pt_wallet = w, pt_results = [], pt_balance = c, pt_ended_early = False\<rparr> = Inr s"
    "finish_pass sizing c (length episodes) s = Inr out"
    using assms by (auto simp: run_episodes_def Let_def)
  have w: "wallet_inv c w" "total_equity w = c"
    using wallet_inv_make [OF run(1)] run(1)
    by (auto simp: make_wallet_def total_equity_def pending_cash_def split: if_splits)
  then have "pass_inv c sizing \<lparr>pt_wallet = w, pt_results = [], pt_balance = c, pt_ended_early = False\<rparr>"
    by (simp add: pass_inv_def)
  from replay_episodes_inv [OF run(2) this] have s: "pass_inv c sizing s"
    "length (pt_results s) \<le> length episodes" "pt_ended_early s \<or> length (pt_results s) = length episodes"
    by auto
  have inv: "wallet_inv c (pt_wallet s)" using s(1) by (simp add: pass_inv_def)
  let ?t = "max (w_now (pt_wallet s)) (horizon s)" and ?w = "pt_wallet s"
  obtain w1 where w1: "advance_to ?t ?w = (w1, Inr (w_available w1))"
    by (cases rule: advance_to_cases [where t = ?t and w = ?w]) auto
  have w1_inv: "wallet_inv c w1" "total_equity w1 = total_equity ?w"
    using wallet_inv_advance [OF inv, of ?t] advance_equity [OF inv, of ?t] w1 by auto
  from run(3) w1 show thesis
    by (intro that [OF run(1,2) s w1_inv]) (cases sizing; auto simp: finish_pass_def)
qed

text \<open>What a pass books of a market is the result of a run.\<close>

lemma replay_episode_result:
  assumes "replay_episode env sizing e s = Inr s'"
  obtains res where "pt_results s' = pt_results s @ [res]" "sr_entered res \<or> sr_net_pnl res = 0"
proof (cases sizing)
  case Fixed
  with assms obtain t res where "run (sg_rng env) (sg_params env) (sg_realism env) t None (sg_seed env e) = Inr res"
    "pt_results s' = pt_results s @ [res]"
    by (auto simp: replay_episode_def)
  with run_unentered that show thesis by metis
next
  case Compounding
  with assms obtain t res where "run_from_wallet (sg_rng env) (compound_params (pt_wallet s) (sg_params env)) (sg_realism env) t (pt_wallet s)
       (sg_seed env e) = Inr res" "pt_results s' = pt_results s @ [res]"
    by (auto simp: replay_episode_def Let_def)
  moreover from this(1) have "sr_entered res \<or> sr_net_pnl res = 0"
    by (auto simp: run_from_wallet_def dest: run_unentered split: if_splits)
  ultimately show thesis using that by metis
qed

lemma replay_episodes_unentered:
  "replay_episodes env sizing es s = Inr s' \<Longrightarrow> (\<And>r. r \<in> set (pt_results s) \<Longrightarrow> sr_entered r \<or> sr_net_pnl r = 0) \<Longrightarrow>
     r \<in> set (pt_results s') \<Longrightarrow> sr_entered r \<or> sr_net_pnl r = 0"
proof (induction es arbitrary: s)
  case (Cons e es)
  show ?case
  proof (cases "sizing = Compounding \<and> total_equity (pt_wallet s) \<le> 0")
    case True
    with Cons.prems(1) have "pt_results s' = pt_results s" by auto
    with Cons.prems(2,3) show ?thesis by metis
  next
    case False
    then obtain s1 where s1: "replay_episode env sizing e s = Inr s1" "replay_episodes env sizing es s1 = Inr s'"
      using Cons.prems(1) by (auto split: if_splits)
    obtain res where res: "pt_results s1 = pt_results s @ [res]" "sr_entered res \<or> sr_net_pnl res = 0"
      using replay_episode_result [OF s1(1)] by metis
    show ?thesis
      by (rule Cons.IH [OF s1(2) _ Cons.prems(3)]) (use res Cons.prems(2) in auto)
  qed
qed simp

section \<open>Properties\<close>

text \<open>C2. A pass over the markets conserves money.  Whatever the tapes, the realism and the generator, the
  balance a completed pass reports is the starting balance plus the profits of its results; spendable
  and locked cash add up to it; a compounded pass is never overdrawn and its event log explains the
  balance; every selected market has a result unless a compounded run lost everything, and then nothing is
  left.  A balance that is positive but too small for any order does not end the pass, whatever the
  comment on \<^verbatim>\<open>ended_early\<close> says of the venue minimum: the remaining markets are evaluated with it.\<close>

theorem pass_conserves_money:
  assumes "run_episodes env sizing c episodes = Inr out"
  shows "rt_final_balance out = c + sum_list (map sr_net_pnl (rt_results out))
    \<and> rt_available_balance out + rt_locked_balance out = rt_final_balance out
    \<and> rt_episodes_selected out = length episodes \<and> length (rt_results out) \<le> length episodes
    \<and> (if rt_ended_early out then sizing = Compounding \<and> rt_final_balance out = 0
       else length (rt_results out) = length episodes)
    \<and> (sizing = Fixed \<or> 0 \<le> rt_available_balance out \<and> 0 \<le> rt_locked_balance out
         \<and> ledger_ok c (rt_wallet_events out)
         \<and> rt_available_balance out = c + sum_list (map we_amount_scaled (rt_wallet_events out)))"
proof -
  obtain s w1 where s: "pass_inv c sizing s" "length (pt_results s) \<le> length episodes"
    "pt_ended_early s \<or> length (pt_results s) = length episodes"
    and w1: "wallet_inv c w1" "total_equity w1 = total_equity (pt_wallet s)"
    and out: "out = (if sizing = Compounding
       then \<lparr>rt_results = pt_results s, rt_sizing = sizing, rt_starting_balance = c,
              rt_final_balance = total_equity w1, rt_episodes_selected = length episodes,
              rt_ended_early = pt_ended_early s, rt_available_balance = w_available w1,
              rt_locked_balance = pending_cash w1, rt_wallet_events = w_events w1\<rparr>
       else \<lparr>rt_results = pt_results s, rt_sizing = sizing, rt_starting_balance = c,
              rt_final_balance = pt_balance s, rt_episodes_selected = length episodes,
              rt_ended_early = pt_ended_early s, rt_available_balance = pt_balance s,
              rt_locked_balance = 0, rt_wallet_events = []\<rparr>)"
    using assms by (rule pass_ends)
  show ?thesis
  proof (cases sizing)
    case Fixed
    with s out show ?thesis by (auto simp: pass_inv_def)
  next
    case Compounding
    have "wallet_inv c (pt_wallet s)" using s(1) by (simp add: pass_inv_def)
    with s(1) Compounding have "total_equity (pt_wallet s) = c + sum_list (map sr_net_pnl (pt_results s))"
      "pt_ended_early s \<Longrightarrow> total_equity (pt_wallet s) = 0"
      using equity_nonneg [of c "pt_wallet s"] by (auto simp: pass_inv_def)
    moreover have "0 \<le> w_available w1" "ledger_ok c (w_events w1)"
      "w_available w1 = c + sum_list (map we_amount_scaled (w_events w1))"
      using w1(1) by (auto simp: wallet_inv_def events_ok_def ledger_end_def)
    moreover note pending_nonneg [OF w1(1)]
    ultimately show ?thesis using s(2,3) out w1(2) Compounding by (auto simp: total_equity_def)
  qed
qed

section \<open>A concrete pass\<close>

definition demo_staking :: "unit staking_env" where
  "demo_staking =
     \<lparr>sg_rng = sent_rng_source, sg_params = demo_run_params\<lparr>th_order_shares := None, th_order_notional := Some 5000000\<rparr>, 
      sg_realism = demo_run_realism,
      sg_load = (\<lambda>_. Inr demo_run_tape), sg_seed = (\<lambda>_. ())\<rparr>"

lemma demo_pass:
  "(case run_episodes demo_staking Compounding 5000000 [tape_episode demo_run_tape] of
      Inl _ \<Rightarrow> False
    | Inr out \<Rightarrow> map sr_net_pnl (rt_results out) = [815112] \<and> rt_locked_balance out = 0)"
  by code_simp

theorem pass_conserves_money_witness:
  "\<exists>out. run_episodes demo_staking Compounding 5000000 [tape_episode demo_run_tape] = Inr out
     \<and> rt_final_balance out = 5815112 \<and> rt_available_balance out = 5815112"
proof -
  obtain out where out: "run_episodes demo_staking Compounding 5000000 [tape_episode demo_run_tape] = Inr out"
    "map sr_net_pnl (rt_results out) = [815112]" "rt_locked_balance out = 0"
    using demo_pass by (auto split: sum.splits)
  with pass_conserves_money [OF out(1)] show ?thesis by auto
qed

end
