(* ===== verification/Funding.thy ===== *)
theory Funding
  imports Compound
begin

text \<open>
  Why a compounded pass can book what it simulated: orders of a run are sized from the cash the
  wallet will have released by their arrival, so the debits that follow in arrival order are all
  covered.  \<open>paid_from\<close> is that fact for a list of payments; it is kept by a parent's children,
  by a run, and by the wallet's debits.
\<close>

section \<open>Payments paid_from by a source of cash\<close>

fun paid_from :: "(int \<Rightarrow> int) \<Rightarrow> int \<Rightarrow> (int \<times> int) list \<Rightarrow> bool" where
  "paid_from f spent [] \<longleftrightarrow> True"
| "paid_from f spent ((t, c) # ps) \<longleftrightarrow> (c = 0 \<or> spent + c \<le> f t) \<and> paid_from f (spent + c) ps"

lemma paid_from_append:
  "paid_from f spent (ps @ qs) \<longleftrightarrow> paid_from f spent ps \<and> paid_from f (spent + sum_list (map snd ps)) qs"
  by (induction f spent ps rule: paid_from.induct) (auto simp: algebra_simps)

lemma paid_from_drop_zero: "paid_from f spent ps \<Longrightarrow> paid_from f spent (filter (\<lambda>(t, c). P t c \<or> c \<noteq> 0) ps)"
  by (induction f spent ps rule: paid_from.induct) auto

definition payment :: "execution_outcome \<Rightarrow> int \<times> int" where
  "payment out = (eo_arrival_utc_ns out, eo_notional out + eo_fees out)"

section \<open>The children of a parent\<close>

definition external_cash :: "'r entry_env \<Rightarrow> int \<Rightarrow> int" where
  "external_cash env t =
     (case cash_at (ee_available_cash env) t of
        Some c \<Rightarrow> c
      | None \<Rightarrow> (case ee_max_spend env of Some m \<Rightarrow> m | None \<Rightarrow> 0))"

lemma child_paid:
  assumes "realism_ok (ee_realism env)" "tape_ok (ee_tape env)" "ee_available_cash env \<noteq> None"
    "send (ee_rng env) (ee_realism env) (ee_tape env) (child_request env session spent a now_ns) sim
       = Inr (out, sim')"
  shows "eo_notional out + eo_fees out = 0
    \<or> spent + (eo_notional out + eo_fees out) \<le> external_cash env (eo_arrival_utc_ns out)"
proof -
  let ?q = "child_request env session spent a now_ns"
  obtain arrival s1 where sent: "send_at (ee_realism env) (ee_tape env) ?q arrival s1 = (out, sim')"
    using assms(4) by (rule send_split)
  note st = send_at_stamps [OF assms(1,2) sent]
  obtain ladder where "outcome_from (ee_realism env) ladder out" using st(4) by blast
  then have "outcome_sane out" using assms(1) by (rule outcome_from_sane)
  then have nonneg: "0 \<le> eo_notional out + eo_fees out" by (simp add: outcome_sane_def)
  have cash: "cash_at (sq_available_cash ?q) arrival = Some (max 0 (child_cash env session spent arrival))"
    and buy: "sq_side ?q = BUY"
    by (simp_all add: child_request_def cash_at_def)
  from send_at_budget(1) [OF assms(1,2) sent buy cash]
  have "eo_notional out + eo_fees out \<le> max 0 (child_cash env session spent arrival)" .
  moreover have "child_cash env session spent arrival \<le> max 0 (external_cash env arrival - spent)"
    using assms(3) by (auto simp: child_cash_def external_cash_def cash_at_def Let_def)
  ultimately show ?thesis using nonneg st(2) by auto
qed

definition paid_inv :: "'r entry_env \<Rightarrow> int \<Rightarrow> 'r entry_state \<Rightarrow> bool" where
  "paid_inv env start s \<longleftrightarrow>
     es_externally_spent s = spent_on (es_outcomes s)
     \<and> start \<le> se_next_decision_not_before (es_session s)
     \<and> sorted (map eo_arrival_utc_ns (es_outcomes s) @ [se_next_decision_not_before (es_session s)])
     \<and> (\<forall>out \<in> set (es_outcomes s). start \<le> eo_arrival_utc_ns out)
     \<and> paid_from (external_cash env) 0 (map payment (es_outcomes s))"

lemma spent_on_payments: "sum_list (map snd (map payment outs)) = spent_on outs"
  by (simp add: spent_on_def payment_def comp_def)

lemma slice_when_ready:
  assumes "session_decide name policy d s = (s', Inr a)" "xa_kind a \<noteq> WAIT"
  shows "se_next_decision_not_before s \<le> dc_now_utc_ns d"
proof -
  have "xa_kind a = TAKER_SLICE" using assms(2) by (cases "xa_kind a") simp_all
  from one_child_at_a_time [OF assms(1) this] show ?thesis by simp
qed

lemma record_not_before:
  "record_outcome out s = Inr s' \<Longrightarrow>
     se_next_decision_not_before s' = max (se_next_decision_not_before s) (eo_arrival_utc_ns out)"
  by (auto simp: record_outcome_def complete_pending_def apply_fills_def Let_def split: if_splits)

lemma entry_decision_paid:
  assumes "entry_env_ok env" "ee_available_cash env \<noteq> None" "paid_inv env start s"
    and step: "entry_decision env now_ns s = Inr (finished, s')"
  shows "paid_inv env start s'"
proof -
  have env: "realism_ok (ee_realism env)" "tape_ok (ee_tape env)" "0 \<le> ee_taker_delay_ns env"
    using assms(1) by (auto simp: entry_env_ok_def)
  consider (same) "s' = s"
    | (wait) session sim d r where "s' = s\<lparr>es_session := session, es_sim := sim\<rparr>"
        "session_decide (ee_policy_name env) (ee_policy env) d (es_session s) = (session, r)"
    | (sent) session a d sim out sim' session' where
        "session_decide (ee_policy_name env) (ee_policy env) d (es_session s) = (session, Inr a)"
        "xa_kind a \<noteq> WAIT" "dc_now_utc_ns d = now_ns"
        "send (ee_rng env) (ee_realism env) (ee_tape env)
           (child_request env session (es_externally_spent s) a now_ns) sim = Inr (out, sim')"
        "record_outcome out session = Inr session'"
        "s' = \<lparr>es_session = session', es_sim = sim', es_outcomes = es_outcomes s @ [out],
               es_externally_spent = es_externally_spent s + eo_notional out + eo_fees out\<rparr>"
  proof -
    let ?t = "ee_tape env" and ?k = "ee_token_index env"
    show thesis
    proof (cases "row_at (token_rows ?t ?k) now_ns")
      case None
      with step show ?thesis by (intro same) (simp add: entry_decision_def Let_def)
    next
      case (Some row)
      let ?sim = "reconcile_self_impact ?t ?k (fst (token_rows ?t ?k)) row (es_sim s)"
      obtain session r where dec: "session_decide (ee_policy_name env) (ee_policy env)
          (entry_call env row now_ns ?sim) (es_session s) = (session, r)" by fastforce
      show ?thesis
      proof (cases "er_require_valid_book (ee_realism env)
          \<and> (\<not> row_book_valid (row_of ?t row) \<or> is_uncertain ?t (token_id_of ?t ?k) now_ns)")
        case True
        with step Some show ?thesis by (intro same) (simp add: entry_decision_def Let_def)
      next
        case False
        with step Some dec obtain a where a: "r = Inr a"
          by (cases r) (auto simp: entry_decision_def Let_def)
        show ?thesis
        proof (cases "xa_kind a = WAIT")
          case True
          with step Some dec a False have "s' = s\<lparr>es_session := session, es_sim := ?sim\<rparr>"
            by (auto simp: entry_decision_def Let_def)
          then show ?thesis using dec by (rule wait)
        next
          case act: False
          with step Some dec a False obtain out sim' session' where
            "send (ee_rng env) (ee_realism env) ?t
               (child_request env session (es_externally_spent s) a now_ns) ?sim = Inr (out, sim')"
            "record_outcome out session = Inr session'"
            "s' = \<lparr>es_session = session', es_sim = sim', es_outcomes = es_outcomes s @ [out],
               es_externally_spent = es_externally_spent s + eo_notional out + eo_fees out\<rparr>"
            by (auto simp: entry_decision_def Let_def)
          with dec a act show ?thesis by (intro sent) (auto simp: entry_call_def)
        qed
      qed
    qed
  qed
  then show ?thesis
  proof cases
    case same
    with assms(3) show ?thesis by simp
  next
    case wait
    with assms(3) session_decide_frame [OF wait(2)] show ?thesis by (simp add: paid_inv_def)
  next
    case sent
    note inv = assms(3) [unfolded paid_inv_def]
    note ready = slice_when_ready [OF sent(1,2)] session_decide_frame [OF sent(1)]
    have arr: "now_ns \<le> eo_arrival_utc_ns out" by (rule child_sent(3) [OF env sent(4)])
    have next': "se_next_decision_not_before session' = eo_arrival_utc_ns out"
      using record_not_before [OF sent(5)] ready arr sent(3) by simp
    note paid = child_paid [OF env(1,2) assms(2) sent(4)]
    show ?thesis
      using inv ready arr next' paid sent(3,6) spent_on_payments [of "es_outcomes s"]
      by (auto simp: paid_inv_def spent_on_def paid_from_append payment_def sorted_append)
  qed
qed

lemma entry_loop_paid:
  "entry_env_ok env \<Longrightarrow> ee_available_cash env \<noteq> None \<Longrightarrow> paid_inv env start s \<Longrightarrow>
     entry_loop env instants s = Inr s' \<Longrightarrow> paid_inv env start s'"
proof (induction instants arbitrary: s)
  case (Cons now_ns later)
  then obtain finished s1 where step: "entry_decision env now_ns s = Inr (finished, s1)"
    "(if finished then Inr s1 else entry_loop env later s1) = Inr s'" by auto
  from entry_decision_paid [OF Cons.prems(1-3) step(1)] Cons.IH [OF Cons.prems(1,2), of s1] step(2)
  show ?case by (cases finished) auto
qed simp

lemma sequential_entry_paid:
  assumes "entry_request_ok q" "eq_available_cash q = Some f" "sequential_entry q sim = Inr (outs, j, sim')"
  shows "sorted (map eo_arrival_utc_ns outs)" "\<forall>out \<in> set outs. eq_decision_ns q \<le> eo_arrival_utc_ns out"
    "paid_from (\<lambda>t. max 0 (f t)) 0 (map payment outs)"
proof -
  obtain n plan name policy cursor session s deadline where run:
    "make_plan (entry_plan q n deadline) = Inr plan"
    "entry_policy (eq_params q) = Inr (name, policy)"
    "make_session plan cursor (entry_session_cash q deadline) 0 = Inr session"
    "entry_loop (entry_env_of q deadline name policy)
       (decision_times (eq_tape q) (eq_token_index q) (eq_decision_ns q) deadline)
       \<lparr>es_session = session, es_sim = sim, es_outcomes = [], es_externally_spent = 0\<rparr> = Inr s"
    "outs = es_outcomes s"
    using assms(3) unfolding sequential_entry_def Let_def by (auto split: if_splits)
  have "plan = entry_plan q n deadline" using run(1) by (simp add: make_plan_def split: if_splits)
  let ?env = "entry_env_of q deadline name policy"
  have "execution_policy policy"
    using entry_policy_ok [of "eq_params q" "eq_params q"] assms(1) run(2) by (auto simp: entry_request_ok_def)
  then have ok: "entry_env_ok ?env"
    using assms(1) by (simp add: entry_env_ok_def entry_env_of_def entry_request_ok_def)
  have cash: "ee_available_cash ?env = Some f" using assms(2) by (simp add: entry_env_of_def)
  have "se_next_decision_not_before session = eq_decision_ns q"
    using run(3) \<open>plan = _\<close> by (auto simp: make_session_def entry_plan_def split: if_splits)
  then have start: "paid_inv ?env (eq_decision_ns q)
      \<lparr>es_session = session, es_sim = sim, es_outcomes = [], es_externally_spent = 0\<rparr>"
    by (simp add: paid_inv_def spent_on_def)
  have "paid_inv ?env (eq_decision_ns q) s"
    using entry_loop_paid [OF ok _ start run(4)] cash by simp
  moreover have "external_cash ?env = (\<lambda>t. max 0 (f t))"
    using cash by (auto simp: external_cash_def cash_at_def)
  ultimately show "sorted (map eo_arrival_utc_ns outs)" "\<forall>out \<in> set outs. eq_decision_ns q \<le> eo_arrival_utc_ns out"
    "paid_from (\<lambda>t. max 0 (f t)) 0 (map payment outs)"
    using run(5) by (simp_all add: paid_inv_def sorted_append)
qed

section \<open>The orders of a run\<close>

definition run_source :: "'r run_env \<Rightarrow> int \<Rightarrow> int" where
  "run_source env t = max 0 (case rn_available_cash env of Some f \<Rightarrow> f t | None \<Rightarrow> 0)"

lemma run_cash_source:
  "rn_available_cash env \<noteq> None \<Longrightarrow> max 0 (run_cash env 0 t) = run_source env t"
  by (auto simp: run_cash_def cash_at_def run_source_def)

definition order_sane :: "simulated_order \<Rightarrow> bool" where
  "order_sane o1 \<longleftrightarrow> 0 \<le> so_notional o1 \<and> 0 \<le> so_fees o1
     \<and> (so_filled_shares o1 = 0 \<longrightarrow> so_notional o1 = 0 \<and> so_fees o1 = 0)"

lemma order_sane_from: "outcome_sane out \<Longrightarrow> order_sane (order_from_outcome kind sd out trigger)"
  by (auto simp: order_sane_def order_from_outcome_def outcome_sane_def eo_filled_def)

definition bought :: "simulated_order list \<Rightarrow> simulated_order list" where
  "bought os = filter (\<lambda>o1. so_side o1 = BUY \<and> so_filled_shares o1 \<noteq> 0) os"

definition order_payment :: "simulated_order \<Rightarrow> int \<times> int" where
  "order_payment o1 = (so_arrival_utc_ns o1, so_notional o1 + so_fees o1)"

text \<open>What a run's orders satisfy, from the first signal at \<open>from0\<close> on.\<close>

definition funded :: "'r run_env \<Rightarrow> int \<Rightarrow> 'r run_state \<Rightarrow> bool" where
  "funded env from0 s \<longleftrightarrow>
     (\<forall>o1 \<in> set (sr_orders (ru_result s)). order_sane o1 \<and> from0 \<le> so_arrival_utc_ns o1)
     \<and> sorted (map so_arrival_utc_ns (bought (sr_orders (ru_result s))))
     \<and> paid_from (run_source env) 0 (map order_payment (bought (sr_orders (ru_result s))))
     \<and> (\<not> sr_entered (ru_result s) \<longrightarrow> bought (sr_orders (ru_result s)) = [])"

lemma funded_result: "ru_result s = ru_result s' \<Longrightarrow> funded env from0 s = funded env from0 s'"
  by (simp add: funded_def)

lemma exit_step_funded:
  assumes "run_env_ok env" "funded env from0 s" "sr_entered (ru_result s)"
    and "from0 \<le> row_received_utc_ns r" and step: "exit_step env r s = Inr (finished, s')"
  shows "funded env from0 s'"
  using step
proof (cases rule: exit_step_cases)
  case quiet
  then show ?thesis using assms(2) by (simp add: funded_def see_bid_frame)
next
  case (sent kind target out sim')
  let ?q = "exit_request env (row_token_index r) (row_received_utc_ns r) (row_best_bid r) kind target"
  let ?o = "order_from_outcome kind SELL out (row_best_bid r)"
  have env: "realism_ok (rn_realism env)" "tape_ok (rn_tape env)" "0 \<le> rn_taker_delay_ns env"
    using assms(1) by (simp_all add: run_env_ok_def)
  obtain arrival s1 where a: "sq_decision_ns ?q + sq_taker_delay_ns ?q \<le> arrival"
    "send_at (rn_realism env) (rn_tape env) ?q arrival s1 = (out, sim')"
    using sent(3) by (rule send_split)
  have arr: "from0 \<le> so_arrival_utc_ns ?o"
    using a(1) send_at_stamps(2) [OF env(1,2) a(2)] env(3) assms(4)
    by (simp add: exit_request_def order_from_outcome_def)
  have sane: "order_sane ?o" by (rule order_sane_from [OF exit_sent(1) [OF assms(1) sent(3,2)]])
  have orders: "sr_orders (ru_result s') = sr_orders (ru_result s) @ [?o]"
    "sr_entered (ru_result s') = sr_entered (ru_result s)"
    by (simp_all add: sent(4) retry_frame book_exit_def see_bid_frame Let_def order_from_outcome_def)
  moreover have "bought (sr_orders (ru_result s) @ [?o]) = bought (sr_orders (ru_result s))"
    by (simp add: bought_def order_from_outcome_def)
  ultimately show ?thesis using assms(2,3) sane arr by (auto simp: funded_def)
qed

text \<open>What an entry sends: orders in order of arrival, each covered by the cash at its arrival.\<close>

definition entry_sent :: "'r run_env \<Rightarrow> int \<Rightarrow> int \<Rightarrow> execution_outcome list \<Rightarrow> 'r run_state \<Rightarrow> 'r run_state \<Rightarrow> bool" where
  "entry_sent env now ask outs s s1 \<longleftrightarrow>
     appended outs ask s s1 \<and> (\<forall>out \<in> set outs. outcome_sane out \<and> now \<le> eo_arrival_utc_ns out)
     \<and> sorted (map eo_arrival_utc_ns outs) \<and> paid_from (run_source env) 0 (map payment outs)"

lemma immediate_sent:
  assumes "run_env_ok env" "rn_available_cash env \<noteq> None" "ru_entry_cash_debited s = 0"
    and "immediate_entry env r ask s = Inr (out, effective, s1)"
  shows "entry_sent env (row_received_utc_ns r) ask [out] s s1"
proof -
  note spec = immediate_entry_spec [OF assms(1,4)]
  obtain shares sim where sent: "send (rn_rng env) (rn_realism env) (rn_tape env)
      (immediate_request env r ask shares s) (ru_sim s) = Inr (out, sim)"
    using assms(4) by (auto simp: immediate_entry_def Let_def)
  let ?q = "immediate_request env r ask shares s"
  have env: "realism_ok (rn_realism env)" "tape_ok (rn_tape env)" "0 \<le> rn_taker_delay_ns env"
    using assms(1) by (simp_all add: run_env_ok_def)
  obtain arrival s2 where a: "sq_decision_ns ?q + sq_taker_delay_ns ?q \<le> arrival"
    "send_at (rn_realism env) (rn_tape env) ?q arrival s2 = (out, sim)"
    using sent by (rule send_split)
  note arr = send_at_stamps(2) [OF env(1,2) a(2)]
  have "cash_at (sq_available_cash ?q) arrival = Some (run_source env arrival)"
    using run_cash_source [OF assms(2)] assms(3) by (simp add: immediate_request_def cash_at_def)
  from send_at_budget(1) [OF env(1,2) a(2) _ this] have "eo_notional out + eo_fees out \<le> run_source env arrival"
    by (simp add: immediate_request_def)
  moreover have "row_received_utc_ns r \<le> eo_arrival_utc_ns out"
    using a(1) arr env(3) by (simp add: immediate_request_def)
  ultimately show ?thesis using spec arr by (simp add: entry_sent_def payment_def)
qed

lemma parent_sent:
  assumes "run_env_ok env" "rn_available_cash env \<noteq> None" "ru_entry_cash_debited s = 0"
    and "signal env r s = Some ask" "parent_entry env r ask s = Inr (Some (out, effective, s1))"
  shows "\<exists>outs. entry_sent env (row_received_utc_ns r) ask outs s s1 \<and> adds_up outs out"
proof -
  let ?q = "parent_request env r ask s"
  obtain outs j sim' where sent: "sequential_entry ?q (ru_sim s) = Inr (outs, j, sim')"
    and out: "out = aggregate_entry_outcomes (jr_filled_shares j + jr_unfilled_shares j)
        (row_received_utc_ns r) ask outs"
    and app: "appended outs ask s s1"
    using assms(5) by (auto simp: parent_entry_def Let_def appended_def result_ledger_def state_ledger_def
        book_parent_def split: if_splits)
  note ok = parent_request_ok [OF assms(1,4)]
  note kids = sequential_entry_children [OF ok sent]
  have q: "eq_realism ?q = rn_realism env" "realism_ok (rn_realism env)"
    "eq_available_cash ?q = Some (run_cash env 0)" "eq_decision_ns ?q = row_received_utc_ns r"
    using assms(1,3) by (simp_all add: parent_request_def run_env_ok_def)
  note paid = sequential_entry_paid [OF ok q(3) sent]
  have "\<forall>x \<in> set outs. outcome_sane x" using kids(1) outcome_from_sane [OF _ q(2)] q(1) by auto
  moreover have "paid_from (run_source env) 0 (map payment outs)"
    using paid(3) run_cash_source [OF assms(2)] by (simp add: fun_eq_iff)
  moreover have "adds_up outs out" unfolding out by (rule aggregate_adds_up [OF kids(1)])
  ultimately show ?thesis using app paid(1,2) q(4) by (auto simp: entry_sent_def)
qed

lemma paid_from_filter:
  "(\<And>x. x \<in> set xs \<Longrightarrow> \<not> P x \<Longrightarrow> snd (g x) = 0) \<Longrightarrow> paid_from f spent (map g xs) \<Longrightarrow>
     paid_from f spent (map g (filter P xs))"
proof (induction xs arbitrary: spent)
  case (Cons x xs)
  obtain t c where g: "g x = (t, c)" by fastforce
  have "paid_from f (spent + c) (map g (filter P xs))" using Cons g by simp
  moreover have "c = 0 \<or> P x" using Cons.prems(1) [of x] g by auto
  ultimately show ?case using Cons.prems(2) g by auto
qed simp

lemma bought_children:
  "\<forall>out \<in> set outs. outcome_sane out \<Longrightarrow> bought (map (\<lambda>out. order_from_outcome k BUY out tr) outs)
     = map (\<lambda>out. order_from_outcome k BUY out tr) (filter eo_filled outs)"
  by (induction outs) (auto simp: bought_def order_from_outcome_def eo_filled_def outcome_sane_def)

lemma entry_booked_funded:
  assumes inv: "funded env from0 s" "\<not> sr_entered (ru_result s)" "from0 \<le> now"
    and sent: "entry_sent env now ask outs s s1" "adds_up outs out"
    and book: "book_entry env tok out effective s1 = Inr s'"
  shows "funded env from0 s'"
proof -
  let ?os = "map (\<lambda>out. order_from_outcome Kind_entry BUY out (Some ask)) outs"
  note sent' = sent(1) [unfolded entry_sent_def]
  have app: "sr_orders (ru_result s1) = sr_orders (ru_result s) @ ?os"
    "sr_entered (ru_result s1) = sr_entered (ru_result s)"
    using sent' by (simp_all add: appended_def result_ledger_def)
  have orders: "sr_orders (ru_result s') = sr_orders (ru_result s) @ ?os"
    "sr_entered (ru_result s') \<longleftrightarrow> eo_filled out"
    using book app inv(2) by (auto simp: book_entry_def Let_def split: if_splits)
  have none: "bought (sr_orders (ru_result s)) = []" using inv(1,2) by (simp add: funded_def)
  have buys: "bought (sr_orders (ru_result s')) = map (\<lambda>out. order_from_outcome Kind_entry BUY out (Some ask)) (filter eo_filled outs)"
    using none orders(1) bought_children [of outs Kind_entry "Some ask"] sent' by (simp add: bought_def)
  have pay: "map order_payment (bought (sr_orders (ru_result s'))) = map payment (filter eo_filled outs)"
    "map so_arrival_utc_ns (bought (sr_orders (ru_result s'))) = map eo_arrival_utc_ns (filter eo_filled outs)"
    by (simp_all add: buys order_payment_def payment_def order_from_outcome_def)
  have "\<forall>o1 \<in> set (sr_orders (ru_result s')). order_sane o1 \<and> from0 \<le> so_arrival_utc_ns o1"
    using inv(1,3) sent' orders(1) order_sane_from by (fastforce simp: funded_def order_from_outcome_def)
  moreover have "sorted (map eo_arrival_utc_ns (filter eo_filled outs))"
    using sent' by (simp add: sorted_wrt_filter sorted_map)
  moreover have "paid_from (run_source env) 0 (map payment (filter eo_filled outs))"
    using sent' by (intro paid_from_filter) (auto simp: payment_def outcome_sane_def)
  moreover have "filter eo_filled outs = []" if "\<not> eo_filled out"
  proof -
    have "sum_list (map eo_filled_shares outs) = 0" using that sent(2) sum_list_nonneg_map [of outs eo_filled_shares] sent'
      by (auto simp: adds_up_def eo_filled_def outcome_sane_def)
    moreover have "\<And>z. z \<in> set (map eo_filled_shares outs) \<Longrightarrow> 0 \<le> z"
      using sent' by (auto simp: outcome_sane_def)
    ultimately have "\<forall>z \<in> set (map eo_filled_shares outs). z = 0"
      using sum_list_nonneg_eq_0_iff [of "map eo_filled_shares outs"] by blast
    then show ?thesis by (auto simp: filter_empty_conv eo_filled_def)
  qed
  ultimately show ?thesis unfolding funded_def pay using orders(2) buys by auto
qed

section \<open>The whole run\<close>

lemma entry_step_funded:
  assumes "run_env_ok env" "rn_available_cash env \<noteq> None" "run_inv env s" "live s"
    and "funded env from0 s" "from0 \<le> row_received_utc_ns r" "entry_step env r s = Inr s'"
  shows "funded env from0 s'"
proof (cases "signal env r s")
  case None
  with assms show ?thesis by (simp add: entry_step_def)
next
  case (Some ask)
  note fresh = signal_flat [OF Some assms(4)]
  have debited: "ru_entry_cash_debited s = 0" using assms(3) fresh by (simp add: run_inv_def flat_def)
  show ?thesis
  proof (cases "th_entry_execution_policy (rn_params env) = Policy_immediate")
    case True
    then obtain out effective s1 where e: "immediate_entry env r ask s = Inr (out, effective, s1)"
      "book_entry env (row_token_index r) out effective s1 = Inr s'"
      using assms(7) Some by (auto simp: entry_step_def)
    have "adds_up [out] out" by (simp add: adds_up_def)
    from entry_booked_funded [OF assms(5) fresh assms(6) immediate_sent [OF assms(1,2) debited e(1)] this e(2)]
    show ?thesis .
  next
    case False
    then consider "s' = s" | out effective s1 where "parent_entry env r ask s = Inr (Some (out, effective, s1))"
      "book_entry env (row_token_index r) out effective s1 = Inr s'"
      using assms(7) Some by (auto simp: entry_step_def split: option.splits)
    then show ?thesis
    proof cases
      case 2
      from parent_sent [OF assms(1,2) debited Some 2(1)] obtain outs where
        "entry_sent env (row_received_utc_ns r) ask outs s s1" "adds_up outs out" by blast
      from entry_booked_funded [OF assms(5) fresh assms(6) this 2(2)] show ?thesis .
    qed (use assms(5) in simp)
  qed
qed

lemma run_rows_funded:
  "run_env_ok env \<Longrightarrow> rn_available_cash env \<noteq> None \<Longrightarrow> run_rows env rs s = Inr s' \<Longrightarrow>
     run_inv env s \<Longrightarrow> live s \<Longrightarrow> funded env from0 s \<Longrightarrow>
     (\<And>r. r \<in> set rs \<Longrightarrow> from0 \<le> row_received_utc_ns r) \<Longrightarrow> funded env from0 s'"
proof (induction rs arbitrary: s)
  case (Cons r rs)
  have from0: "from0 \<le> row_received_utc_ns r" using Cons.prems(7) by simp
  show ?case
  proof (cases "ep_end_utc_ns (tape_episode (rn_tape env)) < row_received_utc_ns r")
    case True
    with Cons.prems show ?thesis by simp
  next
    case False
    then obtain finished s1 where step: "row_step env r s = Inr (finished, s1)"
      and rest: "(if finished then Inr s1 else run_rows env rs s1) = Inr s'"
      using Cons.prems(3) by (auto split: if_splits)
    have "funded env from0 s1 \<and> run_inv env s1 \<and> (\<not> finished \<longrightarrow> live s1)"
    proof (cases "0 < ru_position_shares s \<and> ru_position_token s = Some (row_token_index r)
         \<and> ru_position_effective_ns s \<le> row_received_utc_ns r")
      case True
      then have held: "sr_entered (ru_result s)" "0 < ru_position_shares s"
        and e: "exit_step env r s = Inr (finished, s1)"
        using Cons.prems(4) step by (auto simp: run_inv_def untouched_def row_step_def)
      from exit_step_funded [OF Cons.prems(1,6) held(1) from0 e] exit_step_inv [OF Cons.prems(1,4) held e]
      show ?thesis by blast
    next
      case False
      with step have e: "entry_step env r s = Inr s1" by (auto simp: row_step_def)
      from entry_step_funded [OF Cons.prems(1,2,4,5,6) from0 e] entry_step_inv [OF Cons.prems(1,4,5) e]
      show ?thesis by blast
    qed
    then show ?thesis
      using rest Cons.IH [of s1] Cons.prems(1,2,7) by (cases finished) auto
  qed
qed simp

lemma run_rows_quiet:
  assumes "ru_position_shares s = 0"
  shows "(\<And>r. r \<in> set pre \<Longrightarrow> signal env r s = None
      \<and> row_received_utc_ns r \<le> ep_end_utc_ns (tape_episode (rn_tape env))) \<Longrightarrow>
    run_rows env (pre @ rest) s = run_rows env rest s"
proof (induction pre)
  case (Cons r pre)
  have "row_step env r s = Inr (False, s)"
    using Cons.prems [of r] assms by (simp add: row_step_def entry_step_def)
  with Cons.IH Cons.prems Cons.prems [of r] show ?case by (simp add: not_less [symmetric])
qed simp

lemma first_signal_split:
  assumes "first_signal env s = Some r"
  obtains pre rest where "tape_rows (rn_tape env) = pre @ r # rest"
    "\<And>x. x \<in> set pre \<Longrightarrow> signal env x s = None
       \<and> row_received_utc_ns x \<le> ep_end_utc_ns (tape_episode (rn_tape env))"
proof -
  let ?Q = "\<lambda>x. row_received_utc_ns x \<le> ep_end_utc_ns (tape_episode (rn_tape env))"
  obtain i where i: "i < length (takeWhile ?Q (tape_rows (rn_tape env)))"
    "takeWhile ?Q (tape_rows (rn_tape env)) ! i = r"
    "\<forall>j<i. signal env (takeWhile ?Q (tape_rows (rn_tape env)) ! j) s = None"
    using assms by (auto simp: first_signal_def find_Some_iff)
  let ?rows = "tape_rows (rn_tape env)" and ?tw = "takeWhile ?Q (tape_rows (rn_tape env))"
  have len: "i < length ?rows" using i(1) length_takeWhile_le [of ?Q ?rows] by simp
  have nth: "?rows ! j = ?tw ! j" if "j \<le> i" for j using that i(1) takeWhile_nth [of j ?Q ?rows] by simp
  show thesis
  proof (rule that [of "take i ?rows" "drop (Suc i) ?rows"])
    show "?rows = take i ?rows @ r # drop (Suc i) ?rows"
      using id_take_nth_drop [OF len] nth [of i] i(2) by simp
    fix x assume "x \<in> set (take i ?rows)"
    then obtain j where j: "j < i" "x = ?rows ! j" by (auto simp: in_set_conv_nth)
    then have "x = ?tw ! j" using nth [of j] by simp
    moreover have "?tw ! j \<in> set ?tw" using j(1) i(1) by simp
    ultimately show "signal env x s = None \<and> ?Q x" using i(3) j(1) by (auto dest: set_takeWhileD)
  qed
qed

lemma run_rows_no_signal:
  assumes "ru_position_shares s = 0"
  shows "find (\<lambda>r. signal env r s \<noteq> None)
      (takeWhile (\<lambda>r. row_received_utc_ns r \<le> ep_end_utc_ns (tape_episode (rn_tape env))) rs) = None \<Longrightarrow>
    run_rows env rs s = Inr s"
proof (induction rs)
  case (Cons r rs)
  show ?case
  proof (cases "row_received_utc_ns r \<le> ep_end_utc_ns (tape_episode (rn_tape env))")
    case True
    then have "row_step env r s = Inr (False, s)"
      using Cons.prems assms by (simp add: row_step_def entry_step_def split: if_splits)
    with True Cons show ?thesis by (simp split: if_splits)
  qed simp
qed simp

lemma funded_make: "funded env from0 (make_run_state env seed)"
  by (simp add: funded_def make_run_state_def make_result_def bought_def)

text \<open>A run whose first look at the wallet is not stale ends in a state that is funded from then on.\<close>

lemma run_funded:
  assumes "run_env_ok env" "rn_available_cash env \<noteq> None"
    and "\<not> (case first_signal env (make_run_state env seed) of
              None \<Rightarrow> False | Some r \<Rightarrow> row_received_utc_ns r < from0)"
    and "run_rows env (tape_rows (rn_tape env)) (make_run_state env seed) = Inr s"
  shows "run_inv env s" "funded env from0 s"
proof -
  let ?s0 = "make_run_state env seed"
  show "run_inv env s" using run_rows_inv [OF assms(1,4) run_inv_make [OF assms(1)]] .
  have zero: "ru_position_shares ?s0 = 0" by (simp add: make_run_state_def)
  show "funded env from0 s"
  proof (cases "first_signal env ?s0")
    case None
    then have "s = ?s0"
      using run_rows_no_signal [OF zero] assms(4) by (simp add: first_signal_def)
    then show ?thesis using funded_make by simp
  next
    case (Some r)
    then obtain pre rest where split: "tape_rows (rn_tape env) = pre @ r # rest"
      "\<And>x. x \<in> set pre \<Longrightarrow> signal env x ?s0 = None
         \<and> row_received_utc_ns x \<le> ep_end_utc_ns (tape_episode (rn_tape env))"
      by (rule first_signal_split) blast
    have "run_rows env (r # rest) ?s0 = Inr s"
      using assms(4) run_rows_quiet [OF zero, of pre env "r # rest"] split by simp
    moreover have "from0 \<le> row_received_utc_ns x" if "x \<in> set (r # rest)" for x
    proof -
      have "sorted (map row_received_utc_ns (pre @ r # rest))"
        using assms(1) split(1) by (simp add: run_env_ok_def tape_ok_def)
      then have "row_received_utc_ns r \<le> row_received_utc_ns x" using that by (auto simp: sorted_append)
      with assms(3) Some show ?thesis by simp
    qed
    ultimately show ?thesis
      by (rule run_rows_funded [OF assms(1,2) _ run_inv_make [OF assms(1)] funded_make])
  qed
qed

section \<open>The wallet's side\<close>

lemma peek_cash_nonneg: "wallet_inv c0 w \<Longrightarrow> 0 \<le> peek_cash w t"
proof -
  assume inv: "wallet_inv c0 w"
  have "0 \<le> sum_list (map (\<lambda>(_, c). pc_amount_scaled c) (filter (\<lambda>((due, _), _). due \<le> t) (w_pending w)))"
    using inv unfolding wallet_inv_def pending_ok_def
    by (intro sum_list_nonneg_map) (auto intro: less_imp_le)
  with inv show ?thesis by (simp add: peek_cash_def wallet_inv_def)
qed

lemma due_split:
  "t \<le> t' \<Longrightarrow> sum_list (map f (filter (\<lambda>((due, _), _). due \<le> t) q))
      + sum_list (map f (filter (\<lambda>((due, _), _). due \<le> t') (filter (\<lambda>((due, _), _). t < due) q)))
    = (sum_list (map f (filter (\<lambda>((due, _), _). due \<le> (t' :: int)) q)) :: int)"
  by (induction q) auto

lemma peek_cash_advance:
  assumes "wallet_inv c0 w" "w_now w \<le> t" "t \<le> t'"
  shows "peek_cash (fst (advance_to t w)) t' = peek_cash w t'"
proof -
  let ?f = "\<lambda>(_ :: int \<times> nat, c). pc_amount_scaled c"
  have q: "tq_inv (w_pending w)" using assms(1) by (simp add: wallet_inv_def pending_ok_def)
  have "w_available (fst (advance_to t w))
      = w_available w + sum_list (map ?f (filter (\<lambda>((due, _), _). due \<le> t) (w_pending w)))"
    "w_pending (fst (advance_to t w)) = filter (\<lambda>((due, _), _). t < due) (w_pending w)"
    using release_due_moves [OF q, of t] assms(2) by (simp_all add: advance_to_def Let_def)
  with due_split [OF assms(3), of ?f "w_pending w"] show ?thesis
    unfolding peek_cash_def by (simp del: filter_filter)
qed

lemma peek_cash_schedule:
  "0 \<le> pc_amount_scaled c \<Longrightarrow> peek_cash w t \<le> peek_cash (schedule_credit c w) t"
  by (auto simp: peek_cash_def schedule_credit_def sum_filter_push)

lemma debit_covered:
  assumes "wallet_inv c0 w" "w_now w \<le> t" "0 \<le> c" "c \<le> peek_cash w t"
  shows "\<exists>w'. debit t c source w = (w', Inr ()) \<and> wallet_inv c0 w' \<and> w_now w' = t
    \<and> (\<forall>t' \<ge> t. peek_cash w' t' = peek_cash w t' - c)"
proof -
  have peek: "peek_available_at t w = Inr (peek_cash w t)"
    using assms(2) by (simp add: peek_available_at_def peek_cash_def)
  let ?w1 = "fst (advance_to t w)"
  have avail: "w_available ?w1 = peek_cash w t"
    using advance_available [OF assms(1,2)] peek by simp
  have now: "w_now ?w1 = t" using assms(2) by (simp add: advance_to_def Let_def)
  let ?w = "log_event t Debit (- c) source (?w1\<lparr>w_available := peek_cash w t - c\<rparr>)"
  have d: "debit t c source w = (?w, Inr ())"
    using debit_outcome [OF assms(1-3) peek, of source] assms(4) by simp
  have "wallet_inv c0 ?w" using wallet_inv_debit [OF assms(1), of t c source] d by simp
  moreover have "\<forall>t' \<ge> t. peek_cash ?w t' = peek_cash w t' - c"
    using peek_cash_advance [OF assms(1,2)] avail by (auto simp: peek_cash_def)
  ultimately show ?thesis using d now by simp
qed

lemma debit_buys_total:
  "wallet_inv c0 w \<Longrightarrow> sorted (w_now w # map so_arrival_utc_ns os) \<Longrightarrow> (\<And>o1. o1 \<in> set os \<Longrightarrow> order_sane o1) \<Longrightarrow>
     paid_from f spent (map order_payment os) \<Longrightarrow> (\<And>t. w_now w \<le> t \<Longrightarrow> f t - spent \<le> peek_cash w t) \<Longrightarrow>
     \<exists>w'. debit_buys e os w = Inr w'"
proof (induction os arbitrary: w spent)
  case (Cons o1 os)
  let ?t = "so_arrival_utc_ns o1" and ?c = "so_notional o1 + so_fees o1"
  have c: "0 \<le> ?c" using Cons.prems(3) [of o1] by (simp add: order_sane_def)
  have t: "w_now w \<le> ?t" using Cons.prems(2) by simp
  have pay: "order_payment o1 = (?t, ?c)" by (simp add: order_payment_def)
  have cov: "?c = 0 \<or> spent + ?c \<le> f ?t" "paid_from f (spent + ?c) (map order_payment os)"
    using Cons.prems(4) pay by simp_all
  have "?c \<le> peek_cash w ?t"
    using cov(1) Cons.prems(5) [OF t] peek_cash_nonneg [OF Cons.prems(1), of ?t] by linarith
  from debit_covered [OF Cons.prems(1) t c this, of "order_source e o1"] obtain w1 where
    w1: "debit ?t ?c (order_source e o1) w = (w1, Inr ())" "wallet_inv c0 w1" "w_now w1 = ?t"
      "\<forall>t' \<ge> ?t. peek_cash w1 t' = peek_cash w t' - ?c" by blast
  have "\<exists>w'. debit_buys e os w1 = Inr w'"
  proof (rule Cons.IH [OF w1(2)])
    show "sorted (w_now w1 # map so_arrival_utc_ns os)" using Cons.prems(2) w1(3) by simp
    show "paid_from f (spent + ?c) (map order_payment os)" by (rule cov(2))
    show "f t' - (spent + ?c) \<le> peek_cash w1 t'" if "w_now w1 \<le> t'" for t'
      using w1(3,4) that Cons.prems(5) [of t'] t by force
  qed (use Cons.prems(3) in simp)
  with w1(1) show ?case by simp
qed simp

lemma credit_sells_total:
  "wallet_inv c0 w \<Longrightarrow> (\<And>o1. o1 \<in> set os \<Longrightarrow> so_fees o1 \<le> so_notional o1 \<and> 0 \<le> so_arrival_utc_ns o1) \<Longrightarrow>
     \<exists>w'. credit_sells e os w = Inr w' \<and> (\<forall>t. peek_cash w t \<le> peek_cash w' t)"
proof (induction os arbitrary: w)
  case (Cons o1 os)
  let ?c = "\<lparr>pc_available_utc_ns = so_arrival_utc_ns o1, pc_amount_scaled = so_notional o1 - so_fees o1,
    pc_source = order_source e o1\<rparr>"
  have net: "so_fees o1 \<le> so_notional o1" "0 \<le> so_arrival_utc_ns o1" using Cons.prems(2) [of o1] by auto
  then have made: "make_pending_credit (so_arrival_utc_ns o1) (so_notional o1 - so_fees o1) (order_source e o1) = Inr ?c"
    by (simp add: make_pending_credit_def)
  have nonneg: "0 \<le> pc_amount_scaled ?c" using net by simp
  from Cons.IH [OF wallet_inv_schedule [OF Cons.prems(1) nonneg]] Cons.prems(2) obtain w' where
    "credit_sells e os (schedule_credit ?c w) = Inr w'" "\<forall>t. peek_cash (schedule_credit ?c w) t \<le> peek_cash w' t"
    by auto
  with made net peek_cash_schedule [OF nonneg, of w] show ?case
    by (auto simp: Let_def intro: order.trans)
qed auto

lemma credit_settlement_total:
  assumes "0 \<le> sr_settlement_payout res" "0 \<le> payout_time e"
  shows "\<exists>w'. credit_settlement e res w = Inr w' \<and> (\<forall>t. peek_cash w t \<le> peek_cash w' t)"
proof (cases "sr_settled_shares res = 0")
  case False
  let ?c = "\<lparr>pc_available_utc_ns = payout_time e, pc_amount_scaled = sr_settlement_payout res,
    pc_source = ep_condition_id e @ '':settlement''\<rparr>"
  have "credit_settlement e res w = Inr (schedule_credit ?c w)"
    using assms False by (simp add: credit_settlement_def make_pending_credit_def)
  with peek_cash_schedule [of ?c w] assms(1) show ?thesis by auto
qed (simp add: credit_settlement_def)

section \<open>Nothing a run sent is refused\<close>

lemma settle_run_totals:
  assumes "run_inv env s"
  shows "sr_net_pnl (settle_run env s)
      = booked SELL so_notional (sr_orders (ru_result s)) - booked SELL so_fees (sr_orders (ru_result s))
      + (if sr_settled_shares (settle_run env s) = 0 then 0 else sr_settlement_payout (settle_run env s))
      - (booked BUY so_notional (sr_orders (ru_result s)) + booked BUY so_fees (sr_orders (ru_result s)))"
    "sr_orders (settle_run env s) = sr_orders (ru_result s)" "0 \<le> sr_settlement_payout (settle_run env s)"
proof -
  have i: "ledger s" "flat s" "untouched env s" using assms by (simp_all add: run_inv_def)
  show "sr_orders (settle_run env s) = sr_orders (ru_result s)" by (simp add: settle_run_def Let_def)
  show "0 \<le> sr_settlement_payout (settle_run env s)" using i(3) by (auto simp: settle_run_def untouched_def Let_def)
  show "sr_net_pnl (settle_run env s)
      = booked SELL so_notional (sr_orders (ru_result s)) - booked SELL so_fees (sr_orders (ru_result s))
      + (if sr_settled_shares (settle_run env s) = 0 then 0 else sr_settlement_payout (settle_run env s))
      - (booked BUY so_notional (sr_orders (ru_result s)) + booked BUY so_fees (sr_orders (ru_result s)))"
  proof (cases "sr_entered (ru_result s)")
    case True
    with i show ?thesis by (auto simp: settle_run_def ledger_def untouched_def Let_def)
  next
    case False
    with i show ?thesis by (auto simp: settle_run_def ledger_def flat_def untouched_def Let_def)
  qed
qed

lemma booked_filled:
  assumes "\<And>o1. o1 \<in> set os \<Longrightarrow> so_filled_shares o1 = 0 \<Longrightarrow> f o1 = 0"
  shows "sum_list (map f (filter (\<lambda>o1. so_side o1 = sd) (filter (\<lambda>o1. so_filled_shares o1 \<noteq> 0) os)))
    = booked sd f os"
  using assms by (induction os) auto

lemma sum_filter_sorted:
  "sum_list (map f (filter P (sort_key k xs))) = (sum_list (map f (filter P xs)) :: int)"
proof -
  have "mset (map f (filter P (sort_key k xs))) = mset (map f (filter P xs))" by simp
  then show ?thesis by (metis sum_mset_sum_list)
qed

lemma filled_sells:
  assumes "\<And>o1. o1 \<in> set (sr_orders res) \<Longrightarrow> order_sane o1"
  shows "net_proceeds (filter (\<lambda>o1. so_side o1 = SELL) (filled_orders res))
      = booked SELL so_notional (sr_orders res) - booked SELL so_fees (sr_orders res)"
    "total_cost (filter (\<lambda>o1. so_side o1 = BUY) (filled_orders res))
      = booked BUY so_notional (sr_orders res) + booked BUY so_fees (sr_orders res)"
proof -
  have split: "booked sd (\<lambda>o1. f o1 + g o1) os = booked sd f os + booked sd g os"
    "booked sd (\<lambda>o1. f o1 - g o1) os = booked sd f os - booked sd g os" for sd f g os
    by (induction os) auto
  have zero: "so_notional o1 - so_fees o1 = 0" "so_notional o1 + so_fees o1 = 0"
    if "o1 \<in> set (sr_orders res)" "so_filled_shares o1 = 0" for o1
    using assms [OF that(1)] that(2) by (simp_all add: order_sane_def)
  show "net_proceeds (filter (\<lambda>o1. so_side o1 = SELL) (filled_orders res))
      = booked SELL so_notional (sr_orders res) - booked SELL so_fees (sr_orders res)"
    unfolding net_proceeds_def filled_orders_def sum_filter_sorted
    using booked_filled [of "sr_orders res" "\<lambda>o1. so_notional o1 - so_fees o1" SELL] zero(1) split(2) by simp
  show "total_cost (filter (\<lambda>o1. so_side o1 = BUY) (filled_orders res))
      = booked BUY so_notional (sr_orders res) + booked BUY so_fees (sr_orders res)"
    unfolding total_cost_def filled_orders_def sum_filter_sorted
    using booked_filled [of "sr_orders res" "\<lambda>o1. so_notional o1 + so_fees o1" BUY] zero(2) split(1) by simp
qed

lemma bought_in_order:
  assumes "sorted (map so_arrival_utc_ns (bought (sr_orders res)))"
  shows "filter (\<lambda>o1. so_side o1 = BUY) (filled_orders res) = bought (sr_orders res)"
proof -
  have eq: "filter (\<lambda>o1. so_side o1 = BUY) (filter (\<lambda>o1. so_filled_shares o1 \<noteq> 0) (sr_orders res)) = bought (sr_orders res)"
    by (simp add: bought_def conj_commute)
  have "map cash_order (bought (sr_orders res)) = map (\<lambda>t. (t, 1)) (map so_arrival_utc_ns (bought (sr_orders res)))"
    by (auto simp: cash_order_def bought_def)
  moreover have "sorted (map (\<lambda>t :: int. (t, 1 :: int)) ts)" if "sorted ts" for ts
    using that by (auto simp: sorted_map intro: sorted_wrt_mono_rel)
  ultimately have "sorted (map cash_order (bought (sr_orders res)))" using assms by (simp del: map_map)
  then show ?thesis unfolding filled_orders_def by (simp only: filter_sort eq sort_key_id_if_sorted)
qed

text \<open>Booking a funded state.\<close>

lemma funded_booked:
  assumes inv: "wallet_inv c0 w" "run_inv env s" "funded env (w_now w) s"
    and source: "rn_available_cash env = Some (peek_cash w)"
    and sells: "\<And>o1. o1 \<in> set (sr_orders (ru_result s)) \<Longrightarrow> so_side o1 = SELL \<Longrightarrow> so_fees o1 \<le> so_notional o1"
    and times: "0 \<le> w_now w" "0 \<le> ep_end_utc_ns e"
  shows "\<exists>w'. apply_result e (settle_run env s) w = Inr w'"
proof -
  let ?res = "settle_run env s" and ?os = "sr_orders (ru_result s)"
  note totals = settle_run_totals [OF inv(2)]
  have orders: "\<And>o1. o1 \<in> set ?os \<Longrightarrow> order_sane o1 \<and> w_now w \<le> so_arrival_utc_ns o1"
    and sorted: "sorted (map so_arrival_utc_ns (bought ?os))"
    and paid: "paid_from (run_source env) 0 (map order_payment (bought ?os))"
    using inv(3) by (simp_all add: funded_def)
  have source': "run_source env t = peek_cash w t" for t
    using source peek_cash_nonneg [OF inv(1), of t] by (simp add: run_source_def)
  let ?sells = "filter (\<lambda>o1. so_side o1 = SELL) (filled_orders ?res)"
  have "so_fees o1 \<le> so_notional o1 \<and> 0 \<le> so_arrival_utc_ns o1" if "o1 \<in> set ?sells" for o1
    using that sells [of o1] orders [of o1] times(1) by (auto simp: filled_orders_def totals(2))
  from credit_sells_total [OF inv(1) this] obtain w1 where w1:
    "credit_sells e ?sells w = Inr w1" "\<forall>t. peek_cash w t \<le> peek_cash w1 t" by blast
  note e1 = credit_sells_equity [OF w1(1) inv(1)]
  have "0 \<le> payout_time e" using times(2) by (simp add: payout_time_def)
  with totals(3) obtain w2 where w2: "credit_settlement e ?res w1 = Inr w2" "\<forall>t. peek_cash w1 t \<le> peek_cash w2 t"
    using credit_settlement_total by blast
  have inv1: "wallet_inv c0 w1" using e1 by simp
  note e2 = credit_settlement_equity [OF w2(1) inv1]
  have buys: "filter (\<lambda>o1. so_side o1 = BUY) (filled_orders ?res) = bought ?os"
    using bought_in_order [of ?res] sorted by (simp add: totals(2))
  have "\<exists>w'. debit_buys e (bought ?os) w2 = Inr w'"
  proof (rule debit_buys_total [OF e2(2) _ _ paid])
    show "sorted (w_now w2 # map so_arrival_utc_ns (bought ?os))"
      using sorted orders e1 e2(3) by (auto simp: bought_def)
    show "order_sane o1" if "o1 \<in> set (bought ?os)" for o1 using that orders by (simp add: bought_def)
    show "run_source env t - 0 \<le> peek_cash w2 t" for t
      using w1(2) w2(2) source' [of t] by (simp add: order.trans [of _ "peek_cash w1 t"])
  qed
  then obtain w3 where w3: "debit_buys e (bought ?os) w2 = Inr w3" by blast
  note e3 = debit_buys_equity [OF w3 e2(2)]
  have "total_equity w3 - total_equity w = sr_net_pnl ?res"
    using e1 e2(1) e3 totals(1) filled_sells [of ?res] orders buys by (simp add: totals(2))
  then show ?thesis using w1(1) w2(1) w3 buys by (simp add: apply_result_def)
qed

lemma wallet_env_fields:
  "rn_available_cash (wallet_env g p r t w) = Some (peek_cash w)" "rn_tape (wallet_env g p r t w) = t"
  by (simp_all add: wallet_env_def make_run_env_def Let_def)

section \<open>Properties\<close>

text \<open>C3. A compounded run never spends money the wallet does not have.  Whatever the wallet has been
  through, a run that sized its orders from it, under any entry policy, can be booked: the debits of its
  fills, in order of arrival, are each covered by cash released by then, the cashflows reconcile
  with the profit of the result, and the wallet ends with that much more and not overdrawn.  A sale
  whose fee exceeds its proceeds is the one thing the ledger refuses.\<close>

theorem compounded_run_is_funded:
  assumes "reachable_wallet c0 w" "run_env_ok (wallet_env g p r t w)"
    and "run_from_wallet g p r t w seed = Inr res"
    and "\<forall>o1 \<in> set (sr_orders res). so_side o1 = SELL \<longrightarrow> so_fees o1 \<le> so_notional o1"
    and "0 \<le> w_now w" "0 \<le> ep_end_utc_ns (tape_episode t)"
  shows "\<exists>w'. apply_result (tape_episode t) res w = Inr w'
    \<and> total_equity w' = total_equity w + sr_net_pnl res \<and> 0 \<le> w_available w'"
proof -
  let ?env = "wallet_env g p r t w" and ?e = "tape_episode t"
  note inv = reachable_wallet_inv [OF assms(1)]
  have "\<exists>w'. apply_result ?e res w = Inr w'"
  proof (cases "ep_eligible ?e")
    case False
    then have "sr_orders res = []" "sr_settled_shares res = 0" "sr_net_pnl res = 0"
      using assms(3) by (auto simp: run_from_wallet_def run_def make_result_def)
    then show ?thesis by (simp add: apply_result_def filled_orders_def credit_settlement_def)
  next
    case True
    then obtain s where s: "run_rows ?env (tape_rows t) (make_run_state ?env seed) = Inr s"
      "res = settle_run ?env s" and fresh: "\<not> stale_query w ?env seed"
      using assms(3) by (auto simp: run_from_wallet_def run_def wallet_env_def Let_def split: if_splits)
    have "rn_available_cash ?env \<noteq> None" by (simp add: wallet_env_fields)
    from run_funded [OF assms(2) this fresh [unfolded stale_query_def]] s(1)
    have funded: "run_inv ?env s" "funded ?env (w_now w) s" by (simp_all add: wallet_env_fields)
    have "sr_orders res = sr_orders (ru_result s)" using settle_run_totals(2) [OF funded(1)] s(2) by simp
    with assms(4) funded_booked [OF inv funded wallet_env_fields(1) _ assms(5,6)] s(2) show ?thesis by auto
  qed
  then obtain w' where w': "apply_result ?e res w = Inr w'" by blast
  from apply_result_equity [OF w' inv] have "total_equity w' = total_equity w + sr_net_pnl res"
    "wallet_inv c0 w'" by simp_all
  with w' show ?thesis by (auto simp: wallet_inv_def)
qed

section \<open>A concrete booking\<close>

definition demo_funds :: wallet where
  "demo_funds = \<lparr>w_available = 5000000, w_now = 50, w_pending = [], w_sequence = 0, w_events = []\<rparr>"

lemma demo_funds_reachable: "reachable_wallet 5000000 demo_funds"
  by (rule reachable_wallet.start [of _ 50]) (simp add: make_wallet_def demo_funds_def)

lemma demo_funded_run:
  "(case run_from_wallet sent_rng_source demo_run_params demo_run_realism demo_run_tape demo_funds () of
      Inl _ \<Rightarrow> False
    | Inr res \<Rightarrow> sr_net_pnl res = 352584
        \<and> list_all (\<lambda>o1. so_side o1 = SELL \<longrightarrow> so_fees o1 \<le> so_notional o1) (sr_orders res))"
  by code_simp

lemma demo_wallet_env_ok:
  "run_env_ok (wallet_env sent_rng_source demo_run_params demo_run_realism demo_run_tape demo_funds)"
  using demo_run_ok by (simp add: run_env_ok_def demo_run_env_def wallet_env_def make_run_env_def Let_def)

theorem compounded_run_is_funded_witness:
  "\<exists>res w'. run_from_wallet sent_rng_source demo_run_params demo_run_realism demo_run_tape demo_funds () = Inr res
     \<and> apply_result (tape_episode demo_run_tape) res demo_funds = Inr w' \<and> total_equity w' = 5352584"
proof -
  obtain res where res: "run_from_wallet sent_rng_source demo_run_params demo_run_realism demo_run_tape demo_funds ()
      = Inr res" "sr_net_pnl res = 352584"
    "\<forall>o1 \<in> set (sr_orders res). so_side o1 = SELL \<longrightarrow> so_fees o1 \<le> so_notional o1"
    using demo_funded_run by (auto simp: list_all_iff split: sum.splits)
  have "0 \<le> ep_end_utc_ns (tape_episode demo_run_tape)" by code_simp
  with compounded_run_is_funded [OF demo_funds_reachable demo_wallet_env_ok res(1,3)] res(1,2)
  show ?thesis by (auto simp: demo_funds_def total_equity_def pending_cash_def)
qed

end
