(* ===== verification/Recorded.thy ===== *)
theory Recorded
  imports Tape EngineFacts
begin

text \<open>
  \<^verbatim>\<open>episode_events\<close> of \<^verbatim>\<open>backtest/verify.py\<close>: the recorded book events of one episode made into
  events for the reference engine, by way of a probe that applies each event first and forwards only
  what a book accepts; and the settlement event that the pipeline does not record.  The event
  query is the list of its rows.  The engine merges the events again before it applies them, by its own
  key, and its orders take depth from the books.
\<close>

section \<open>Events for the engine\<close>

definition source_priority :: "event_kind \<Rightarrow> int" where
  "source_priority k = (case k of Kind_snapshot \<Rightarrow> 10 | Kind_tick \<Rightarrow> 15 | Kind_update \<Rightarrow> 20)"

definition payload_of_event :: "episode \<Rightarrow> book_event \<Rightarrow> py_error + event_payload" where
  "payload_of_event e v =
     (case be_kind v of
        Kind_snapshot \<Rightarrow> Inr (Book_snapshot (snapshot_of_event e v))
      | Kind_tick \<Rightarrow> res_bind (tick_of_event e v) (\<lambda>c. Inr (Tick_size_change c))
      | Kind_update \<Rightarrow> res_bind (change_of_event e v) (\<lambda>c. Inr (Book_update c)))"

definition replay_event_of :: "book_event \<Rightarrow> event_payload \<Rightarrow> replay_event" where
  "replay_event_of v p =
     \<lparr>re_exchange_timestamp_ns = be_exchange_timestamp_ns v,
      re_received_utc_ns = be_received_utc_ns v,
      re_received_monotonic_ns = be_received_monotonic_ns v,
      re_connection_id = str_or_empty (be_connection_id v), re_sequence = be_sequence v,
      re_parent_change_index = be_change_index v, re_source_priority = source_priority (be_kind v),
      re_payload = p\<rparr>"

definition invalidate_book :: "string \<Rightarrow> reconstructor \<Rightarrow> reconstructor" where
  "invalidate_book t r =
     (case rc_book r t of
        None \<Rightarrow> r
      | Some b \<Rightarrow> r\<lparr>rc_books := dict_put t (b\<lparr>ob_valid := False\<rparr>) (rc_books r)\<rparr>)"

text \<open>The loop over the rows: the probe it leaves and the events it forwards.\<close>

fun probe_events :: "episode \<Rightarrow> book_event list \<Rightarrow> reconstructor
    \<Rightarrow> py_error + reconstructor \<times> replay_event list" where
  "probe_events e [] r = Inr (r, [])"
| "probe_events e (v # vs) r =
     (case apply_book_event e v r of
        (r', Inl x) \<Rightarrow>
          if is_value_error x then probe_events e vs (invalidate_book (be_token_id v) r') else Inl x
      | (r', Inr _) \<Rightarrow>
          res_bind (payload_of_event e v) (\<lambda>p.
          res_bind (probe_events e vs r') (\<lambda>(r2, es). Inr (r2, replay_event_of v p # es))))"

definition DEFAULT_RESOLUTION_DELAY_NS :: int where
  "DEFAULT_RESOLUTION_DELAY_NS = 30000000000"

definition resolution_event :: "episode \<Rightarrow> string \<Rightarrow> int \<Rightarrow> replay_event" where
  "resolution_event e winner resolution_delay_ns =
     (let available_ns = ep_end_utc_ns e + resolution_delay_ns in
      \<lparr>re_exchange_timestamp_ns = None, re_received_utc_ns = available_ns,
       re_received_monotonic_ns = available_ns, re_connection_id = ''derived-resolution'',
       re_sequence = 2 ^ 62, re_parent_change_index = 0, re_source_priority = 50,
       re_payload = Market_resolution (ep_condition_id e) winner
         (Some (str_or_empty (ep_winner_outcome e)))\<rparr>)"

definition episode_events :: "episode \<Rightarrow> book_event list \<Rightarrow> int \<Rightarrow> bool \<Rightarrow> py_error + replay_event list" where
  "episode_events e rows resolution_delay_ns include_resolution =
     res_bind (probe_events e rows make_reconstructor) (\<lambda>(_, events).
       Inr (events @ (case ep_winner_token_id e of
              None \<Rightarrow> []
            | Some winner \<Rightarrow> if include_resolution \<and> winner \<noteq> []
                then [resolution_event e winner resolution_delay_ns] else [])))"

section \<open>The engine fed with them\<close>

text \<open>What the engine's \<^verbatim>\<open>_apply_event\<close> does to its books; an error ends its run.\<close>

definition deliver :: "event_payload \<Rightarrow> reconstructor \<Rightarrow> py_error + reconstructor" where
  "deliver p r =
     (case p of
        Book_snapshot s \<Rightarrow> (case apply_snapshot s r of (r', x) \<Rightarrow> res_bind x (\<lambda>_. Inr r'))
      | Book_update c \<Rightarrow> (case apply_change c r of (r', x) \<Rightarrow> res_bind x (\<lambda>_. Inr r'))
      | Tick_size_change c \<Rightarrow> (case apply_tick_size_change c r of (r', x) \<Rightarrow> res_bind x (\<lambda>_. Inr r'))
      | _ \<Rightarrow> Inr r)"

fun deliver_all :: "event_payload list \<Rightarrow> reconstructor \<Rightarrow> py_error + reconstructor" where
  "deliver_all [] r = Inr r"
| "deliver_all (p # ps) r = res_bind (deliver p r) (deliver_all ps)"

lemma apply_event_delivers:
  assumes "apply_event env e en = Inr (en', intents)"
  shows "deliver (re_payload e) (en_recon en) = Inr (en_recon en')"
  using assms
  by (auto simp: apply_event_def deliver_def with_recon_def callback_def res_bind_def Let_def resolve_market_def
      split: sum.splits event_payload.splits prod.splits)

text \<open>The rows the probe rejects.\<close>

fun rejected_rows :: "episode \<Rightarrow> book_event list \<Rightarrow> reconstructor \<Rightarrow> book_event list" where
  "rejected_rows e [] r = []"
| "rejected_rows e (v # vs) r =
     (case apply_book_event e v r of
        (r', Inl x) \<Rightarrow> v # rejected_rows e vs (invalidate_book (be_token_id v) r')
      | (r', Inr _) \<Rightarrow> rejected_rows e vs r')"

text \<open>
  The engine's books next to the probe's: the same book wherever the probe's is valid, else one
  with the same identity and sequence, on which the same snapshots take effect.
\<close>

definition book_agrees :: "order_book option \<Rightarrow> order_book option \<Rightarrow> bool" where
  "book_agrees x y \<longleftrightarrow>
     (case (x, y) of
        (None, None) \<Rightarrow> True
      | (Some b, Some c) \<Rightarrow>
          ob_condition_id c = ob_condition_id b \<and> ob_token_id c = ob_token_id b
          \<and> ob_outcome c = ob_outcome b \<and> ob_last_sequence c = ob_last_sequence b
          \<and> (ob_valid b \<longrightarrow> c = b)
      | _ \<Rightarrow> False)"

definition engine_follows :: "reconstructor \<Rightarrow> reconstructor \<Rightarrow> bool" where
  "engine_follows r q \<longleftrightarrow>
     rc_effective_tick_sizes q = rc_effective_tick_sizes r
     \<and> (\<forall>t. book_agrees (rc_book r t) (rc_book q t))"

lemma engine_follows_refl: "engine_follows r r"
  by (simp add: engine_follows_def book_agrees_def split: option.split)

lemma rc_book_put [simp]:
  "rc_book (r\<lparr>rc_books := dict_put t b (rc_books r')\<rparr>) u = (if u = t then Some b else rc_book r' u)"
  by (simp add: rc_book_def)

lemma rc_book_update [simp]:
  "rc_book (r\<lparr>rc_uncertainty := u\<rparr>) t = rc_book r t"
  "rc_book (r\<lparr>rc_effective_tick_sizes := e\<rparr>) t = rc_book r t"
  by (simp_all add: rc_book_def)

section \<open>The engine follows the probe\<close>

lemma book_agrees_Some [simp]: "book_agrees (Some b) (Some b)"
  by (simp add: book_agrees_def)

lemma book_agrees_None [simp]: "book_agrees None y \<longleftrightarrow> y = None" "book_agrees x None \<longleftrightarrow> x = None"
  by (auto simp: book_agrees_def split: option.splits)

lemma follows_book: "engine_follows r q \<Longrightarrow> book_agrees (rc_book r t) (rc_book q t)"
  by (simp add: engine_follows_def)

lemma follows_put:
  "engine_follows r q \<Longrightarrow> book_agrees (Some b) (Some c) \<Longrightarrow>
     engine_follows (r\<lparr>rc_books := dict_put t b (rc_books r)\<rparr>) (q\<lparr>rc_books := dict_put t c (rc_books q)\<rparr>)"
  by (simp add: engine_follows_def)

lemma follows_put_probe:
  "engine_follows r q \<Longrightarrow> book_agrees (Some b) (rc_book q t) \<Longrightarrow>
     engine_follows (r\<lparr>rc_books := dict_put t b (rc_books r)\<rparr>) q"
  by (simp add: engine_follows_def)

lemma invalidate_put:
  "invalidate_book t (r\<lparr>rc_books := dict_put t b (rc_books r)\<rparr>)
     = r\<lparr>rc_books := dict_put t (b\<lparr>ob_valid := False\<rparr>) (rc_books r)\<rparr>"
proof -
  have "dict_put k v (dict_put k w d) = dict_put k v d" for k :: string and v w :: order_book and d
    by (induction d) auto
  then show ?thesis by (simp add: invalidate_book_def)
qed

lemma follows_change:
  assumes "engine_follows r q" "apply_change c r = (r', Inr x)"
  shows "\<exists>q'. apply_change c q = (q', Inr x) \<and> engine_follows r' q'"
proof -
  obtain b b' where b: "rc_book r (bc_token_id c) = Some b" "ob_valid b" "ob_apply c b = (b', Inr ())"
    "r' = r\<lparr>rc_books := dict_put (bc_token_id c) b' (rc_books r)\<rparr>" "x = ob_top b'"
    using assms(2) by (auto simp: apply_change_def split: option.splits if_splits prod.splits sum.splits)
  have "book_agrees (rc_book r (bc_token_id c)) (rc_book q (bc_token_id c))"
    using assms(1) by (simp add: engine_follows_def)
  then have "rc_book q (bc_token_id c) = Some b"
    using b(1,2) by (simp add: book_agrees_def split: option.splits)
  moreover have "book_agrees (Some b') (Some b')" by (simp add: book_agrees_def)
  ultimately show ?thesis
    using b assms(1) by (simp add: apply_change_def engine_follows_def)
qed

lemma ob_apply_rejects:
  "ob_apply c b = (b', Inl x) \<Longrightarrow> ob_condition_id b' = ob_condition_id b \<and> ob_token_id b' = ob_token_id b
     \<and> ob_outcome b' = ob_outcome b \<and> ob_last_sequence b' = ob_last_sequence b"
  by (auto simp: ob_apply_def Let_def trim_to_reported_def set_level_def split: if_splits)

lemma follows_invalidate:
  assumes "engine_follows r q"
  shows "engine_follows (invalidate_book t r) q"
proof (cases "rc_book r t")
  case None
  with assms show ?thesis by (simp add: invalidate_book_def)
next
  case (Some b)
  have "book_agrees (Some b) (rc_book q t)" using follows_book [OF assms, of t] Some by simp
  then have "book_agrees (Some (b\<lparr>ob_valid := False\<rparr>)) (rc_book q t)"
    by (auto simp: book_agrees_def split: option.splits)
  with follows_put_probe [OF assms] Some show ?thesis by (simp add: invalidate_book_def)
qed

lemma follows_reject:
  assumes "engine_follows r q" "apply_change c r = (r', Inl x)"
  shows "engine_follows (invalidate_book (bc_token_id c) r') q"
proof (cases "\<exists>b. rc_book r (bc_token_id c) = Some b \<and> ob_valid b")
  case False
  then have "r' = r" using assms(2) by (auto simp: apply_change_def split: option.splits)
  with follows_invalidate [OF assms(1)] show ?thesis by simp
next
  case True
  then obtain b b' where b: "rc_book r (bc_token_id c) = Some b" "ob_apply c b = (b', Inl x)"
    "r' = r\<lparr>rc_books := dict_put (bc_token_id c) b' (rc_books r)\<rparr>"
    using assms(2) by (auto simp: apply_change_def split: prod.splits sum.splits)
  have "book_agrees (Some b) (rc_book q (bc_token_id c))"
    using follows_book [OF assms(1), of "bc_token_id c"] b(1) by simp
  then have "book_agrees (Some (b'\<lparr>ob_valid := False\<rparr>)) (rc_book q (bc_token_id c))"
    using ob_apply_rejects [OF b(2)] by (auto simp: book_agrees_def split: option.splits)
  with follows_put_probe [OF assms(1)] b(3) show ?thesis by (simp add: invalidate_put)
qed

lemma follows_tick_size:
  "engine_follows r q \<Longrightarrow>
     engine_follows (r\<lparr>rc_effective_tick_sizes := (rc_effective_tick_sizes r)(t \<mapsto> n)\<rparr>)
       (q\<lparr>rc_effective_tick_sizes := (rc_effective_tick_sizes q)(t \<mapsto> n)\<rparr>)"
  by (simp add: engine_follows_def)

lemma follows_tick:
  assumes "engine_follows r q" "apply_tick_size_change c r = (r', Inr x)"
  shows "\<exists>q' y. apply_tick_size_change c q = (q', Inr y) \<and> engine_follows r' q'"
proof -
  let ?t = "tc_token_id c" and ?set = "\<lambda>b. b\<lparr>ob_tick_size := tc_new_tick_size c\<rparr>"
  define r1 where "r1 = r\<lparr>rc_effective_tick_sizes := (rc_effective_tick_sizes r)(?t \<mapsto> tc_new_tick_size c)\<rparr>"
  define q1 where "q1 = q\<lparr>rc_effective_tick_sizes := (rc_effective_tick_sizes q)(?t \<mapsto> tc_new_tick_size c)\<rparr>"
  have start: "engine_follows r1 q1" using follows_tick_size [OF assms(1)] by (simp add: r1_def q1_def)
  have pos: "\<not> tc_new_tick_size c \<le> 0"
    using assms(2) by (auto simp: apply_tick_size_change_def split: if_splits)
  show ?thesis
  proof (cases "rc_book r1 ?t")
    case None
    then have "rc_book q1 ?t = None" using follows_book [OF start, of ?t] by simp
    moreover have "r' = r1"
      using assms(2) pos None by (simp add: apply_tick_size_change_def Let_def r1_def [symmetric])
    ultimately show ?thesis
      using start pos by (simp add: apply_tick_size_change_def Let_def q1_def [symmetric])
  next
    case (Some b)
    then obtain d where d: "rc_book q1 ?t = Some d" "book_agrees (Some b) (Some d)"
      using follows_book [OF start, of ?t] by (cases "rc_book q1 ?t") auto
    have "ob_condition_id b = tc_condition_id c" "r' = r1\<lparr>rc_books := dict_put ?t (?set b) (rc_books r1)\<rparr>"
      using assms(2) pos Some
      by (auto simp: apply_tick_size_change_def Let_def r1_def [symmetric] split: if_splits)
    moreover have "book_agrees (Some (?set b)) (Some (?set d))" "ob_condition_id d = ob_condition_id b"
      using d(2) by (auto simp: book_agrees_def)
    ultimately show ?thesis
      using d(1) pos follows_put [OF start]
      by (simp add: apply_tick_size_change_def Let_def q1_def [symmetric])
  qed
qed

lemma resolve_follows:
  assumes "engine_follows r q" "resolve_tick s r = (s', r1)"
  shows "\<exists>q1. resolve_tick s q = (s', q1) \<and> engine_follows r1 q1 \<and> rc_books r1 = rc_books r
    \<and> rc_books q1 = rc_books q"
  using assms by (auto simp: resolve_tick_def engine_follows_def rc_book_def split: option.splits if_splits)

lemma register_follows:
  assumes "engine_follows r q" "register_token m t u r = (r1, Inr b)"
  shows "\<exists>q1 c. register_token m t u q = (q1, Inr c) \<and> engine_follows r1 q1 \<and> book_agrees (Some b) (Some c)"
proof (cases "rc_book r t")
  case None
  then have "rc_book q t = None" using follows_book [OF assms(1), of t] by simp
  with None assms follows_put [OF assms(1) book_agrees_Some, of t "make_book m t u"] show ?thesis
    by (auto simp: register_token_def Let_def)
next
  case (Some d)
  then obtain d' where d': "rc_book q t = Some d'" "book_agrees (Some d) (Some d')"
    using follows_book [OF assms(1), of t] by (cases "rc_book q t") auto
  have "ob_condition_id d' = ob_condition_id d" "ob_outcome d' = ob_outcome d"
    using d'(2) by (simp_all add: book_agrees_def)
  with Some d' assms show ?thesis by (simp add: register_token_def split: if_splits)
qed

lemma replace_follows:
  assumes "book_agrees (Some b) (Some c)" "ob_replace s b = (b', Inr x)"
  shows "\<exists>c'. ob_replace s c = (c', Inr x) \<and> book_agrees (Some b') (Some c')"
proof -
  have "ob_condition_id c = ob_condition_id b" "ob_token_id c = ob_token_id b"
    "ob_outcome c = ob_outcome b" "ob_last_sequence c = ob_last_sequence b"
    using assms(1) by (simp_all add: book_agrees_def)
  then show ?thesis
    using assms by (cases b; cases c) (auto simp: ob_replace_def book_agrees_def Let_def split: if_splits prod.splits)
qed

lemma follows_snapshot:
  assumes "engine_follows r q" "apply_snapshot s r = (r', Inr x)"
  shows "\<exists>q' y. apply_snapshot s q = (q', Inr y) \<and> engine_follows r' q'"
proof -
  obtain s' r1 where res: "resolve_tick s r = (s', r1)" by (meson surj_pair)
  obtain r2 b b' z where b: "register_token (bs_condition_id s') (bs_token_id s') (bs_outcome s') r1 = (r2, Inr b)"
    "ob_replace s' b = (b', Inr z)"
    "r' = r2\<lparr>rc_books := dict_put (bs_token_id s') b' (rc_books r2),
             rc_uncertainty := close_newest_open s' (rc_uncertainty r2)\<rparr>"
    using assms(2) by (auto simp: apply_snapshot_def res split: prod.splits sum.splits)
  obtain q1 where q1: "resolve_tick s q = (s', q1)" "engine_follows r1 q1"
    using resolve_follows [OF assms(1) res] by blast
  obtain q2 c where q2: "register_token (bs_condition_id s') (bs_token_id s') (bs_outcome s') q1 = (q2, Inr c)"
    "engine_follows r2 q2" "book_agrees (Some b) (Some c)"
    using register_follows [OF q1(2) b(1)] by blast
  obtain c' where "ob_replace s' c = (c', Inr z)" "book_agrees (Some b') (Some c')"
    using replace_follows [OF q2(3) b(2)] by blast
  with q1 q2 b show ?thesis
    by (simp add: apply_snapshot_def engine_follows_def)
qed

lemma follows_accepted:
  assumes "engine_follows r q" "apply_book_event e v r = (r', Inr ())" "payload_of_event e v = Inr p"
  shows "\<exists>q'. deliver p q = Inr q' \<and> engine_follows r' q'"
proof (cases "be_kind v")
  case Kind_snapshot
  then obtain x where "apply_snapshot (snapshot_of_event e v) r = (r', Inr x)"
    using assms(2) by (auto simp: apply_book_event_def split: prod.splits sum.splits)
  from follows_snapshot [OF assms(1) this] Kind_snapshot assms(3) show ?thesis
    by (auto simp: payload_of_event_def deliver_def)
next
  case Kind_tick
  then obtain c x where "tick_of_event e v = Inr c" "apply_tick_size_change c r = (r', Inr x)"
    using assms(2) by (auto simp: apply_book_event_def split: prod.splits sum.splits)
  with follows_tick [OF assms(1) this(2)] Kind_tick assms(3) show ?thesis
    by (auto simp: payload_of_event_def deliver_def)
next
  case Kind_update
  then obtain c x where "change_of_event e v = Inr c" "apply_change c r = (r', Inr x)"
    using assms(2) by (auto simp: apply_book_event_def split: prod.splits sum.splits)
  with follows_change [OF assms(1) this(2)] Kind_update assms(3) show ?thesis
    by (auto simp: payload_of_event_def deliver_def)
qed

lemma payload_of_accepted: "apply_book_event e v r = (r', Inr ()) \<Longrightarrow> \<exists>p. payload_of_event e v = Inr p"
  by (auto simp: apply_book_event_def payload_of_event_def split: event_kind.splits sum.splits)

lemma follows_rejected:
  assumes "engine_follows r q" "apply_book_event e v r = (r', Inl x)" "be_kind v = Kind_update"
  shows "engine_follows (invalidate_book (be_token_id v) r') q"
proof (cases "change_of_event e v")
  case (Inl y)
  with assms have "r' = r" by (simp add: apply_book_event_def)
  with follows_invalidate [OF assms(1)] show ?thesis by simp
next
  case (Inr c)
  then have "apply_change c r = (r', Inl x)" "bc_token_id c = be_token_id v"
    using assms by (auto simp: apply_book_event_def change_of_event_def split: option.splits prod.splits sum.splits)
  with follows_reject [OF assms(1)] show ?thesis by metis
qed

lemma engine_follows_probe:
  assumes "probe_events e vs r = Inr (r', events)" "engine_follows r q"
    and "\<forall>v \<in> set (rejected_rows e vs r). be_kind v = Kind_update"
  shows "\<exists>q'. deliver_all (map re_payload events) q = Inr q' \<and> engine_follows r' q'"
  using assms
proof (induction vs arbitrary: r q events)
  case (Cons v vs)
  obtain r1 x where step: "apply_book_event e v r = (r1, x)" by (meson surj_pair)
  show ?case
  proof (cases x)
    case (Inl y)
    then have run: "probe_events e vs (invalidate_book (be_token_id v) r1) = Inr (r', events)"
      and kind: "be_kind v = Kind_update"
      "\<forall>v \<in> set (rejected_rows e vs (invalidate_book (be_token_id v) r1)). be_kind v = Kind_update"
      using Cons.prems step by (auto split: if_splits)
    from Cons.IH [OF run follows_rejected [OF Cons.prems(2) step [unfolded Inl] kind(1)] kind(2)]
    show ?thesis .
  next
    case (Inr u)
    then have acc: "apply_book_event e v r = (r1, Inr ())" using step by simp
    then obtain p es where p: "payload_of_event e v = Inr p" "probe_events e vs r1 = Inr (r', es)"
      "events = replay_event_of v p # es"
      using Cons.prems(1) payload_of_accepted [OF acc] by (auto simp: res_bind_def split: sum.splits)
    obtain q1 where q1: "deliver p q = Inr q1" "engine_follows r1 q1"
      using follows_accepted [OF Cons.prems(2) acc p(1)] by blast
    have "\<forall>v \<in> set (rejected_rows e vs r1). be_kind v = Kind_update"
      using Cons.prems(3) acc by simp
    from Cons.IH [OF p(2) q1(2) this] q1(1) p(3) show ?thesis by (simp add: replay_event_of_def)
  qed
qed simp

text \<open>The probe is the tape builder's reconstructor.\<close>

lemma reject_event_probe: "tp_reconstructor (reject_event v x r s) = invalidate_book (be_token_id v) r"
  by (simp add: reject_event_def invalidate_book_def split: option.split)

lemma close_pending_probe [simp]: "tp_reconstructor (close_pending v s) = tp_reconstructor s"
  by (simp add: close_pending_def split: option.split)

lemma build_event_probe:
  assumes "build_event e depth v s = Inr s'"
  shows "tp_reconstructor s' =
    (case apply_book_event e v (tp_reconstructor s) of
       (r, Inl x) \<Rightarrow> invalidate_book (be_token_id v) r
     | (r, Inr _) \<Rightarrow> r)
   \<and> (\<forall>r x. apply_book_event e v (tp_reconstructor s) = (r, Inl x) \<longrightarrow> is_value_error x)"
  using assms
  by (auto simp: build_event_def reject_event_probe res_bind_def Let_def
      split: option.splits prod.splits sum.splits if_splits)

lemma probe_is_builder:
  assumes "build_events e depth vs s = Inr s'"
  shows "\<exists>events. probe_events e vs (tp_reconstructor s) = Inr (tp_reconstructor s', events)"
  using assms
proof (induction vs arbitrary: s)
  case (Cons v vs)
  obtain s1 where s1: "build_event e depth v s = Inr s1" "build_events e depth vs s1 = Inr s'"
    using Cons.prems by (auto simp: res_bind_def split: sum.splits)
  obtain r x where step: "apply_book_event e v (tp_reconstructor s) = (r, x)" by (meson surj_pair)
  note probe = build_event_probe [OF s1(1), unfolded step]
  show ?case
    using Cons.IH [OF s1(2)] probe step payload_of_accepted [of e v "tp_reconstructor s" r]
    by (cases x) (auto simp: res_bind_def)
qed simp

section \<open>The engine's own run over the events\<close>

text \<open>
  The engine's orders leave a book as recorded but for the depth they took; erasing that depth
  commutes with every event, so the run's books are those of the events alone.
\<close>

definition recorded :: "order_book \<Rightarrow> order_book" where
  "recorded b = b\<lparr>ob_consumed_bids := Map.empty, ob_consumed_asks := Map.empty\<rparr>"

definition recorded_books :: "reconstructor \<Rightarrow> reconstructor" where
  "recorded_books r = r\<lparr>rc_books := map (map_prod id recorded) (rc_books r)\<rparr>"

lemma recorded_fields [simp]:
  "ob_condition_id (recorded b) = ob_condition_id b" "ob_token_id (recorded b) = ob_token_id b"
  "ob_outcome (recorded b) = ob_outcome b" "ob_valid (recorded b) = ob_valid b"
  "ob_tick_size (recorded b) = ob_tick_size b" "ob_last_sequence (recorded b) = ob_last_sequence b"
  "ob_bids (recorded b) = ob_bids b" "ob_asks (recorded b) = ob_asks b"
  "ob_source_hash (recorded b) = ob_source_hash b"
  "ob_top (recorded b) = ob_top b" "best_bid (recorded b) = best_bid b" "best_ask (recorded b) = best_ask b"
  by (simp_all add: recorded_def ob_top_def best_bid_def best_ask_def split: option.split)

lemma recorded_make [simp]: "recorded (make_book m t u) = make_book m t u"
  by (simp add: recorded_def make_book_def)

lemma map_of_recorded: "map_of (map (map_prod id f) d) t = map_option f (map_of d t)"
  by (induction d) auto

lemma rc_book_recorded [simp]: "rc_book (recorded_books r) t = map_option recorded (rc_book r t)"
  by (simp add: rc_book_def recorded_books_def map_of_recorded)

lemma recorded_put:
  "map (map_prod id recorded) (dict_put t b d) = dict_put t (recorded b) (map (map_prod id recorded) d)"
  by (induction d) auto

lemma dict_put_same: "map_of d k = Some v \<Longrightarrow> dict_put k v d = d"
  by (induction d) auto

lemma recorded_books_fields [simp]:
  "rc_uncertainty (recorded_books r) = rc_uncertainty r"
  "rc_effective_tick_sizes (recorded_books r) = rc_effective_tick_sizes r"
  "rc_books (recorded_books r) = map (map_prod id recorded) (rc_books r)"
  by (simp_all add: recorded_books_def)

lemma recorded_books_put [simp]:
  "recorded_books (r\<lparr>rc_books := dict_put t b (rc_books r')\<rparr>)
     = (recorded_books r)\<lparr>rc_books := dict_put t (recorded b) (rc_books (recorded_books r'))\<rparr>"
  by (simp add: recorded_books_def recorded_put)

lemma recorded_replace:
  "ob_replace s (recorded b) = (case ob_replace s b of (b', x) \<Rightarrow> (recorded b', x))"
  by (simp add: ob_replace_def recorded_def Let_def split: prod.split)

lemma recorded_level: "set_level c (recorded b) = recorded (set_level c b)"
  by (simp add: set_level_def recorded_def Let_def)

lemma recorded_trim: "trim_to_reported c (recorded b) = recorded (trim_to_reported c b)"
  by (simp add: trim_to_reported_def recorded_def)

lemma recorded_issues: "top_issues c (recorded b) = top_issues c b"
  by (simp add: top_issues_def)

lemma recorded_apply:
  "ob_apply c (recorded b) = (case ob_apply c b of (b', x) \<Rightarrow> (recorded b', x))"
proof -
  have "recorded (b1\<lparr>ob_valid := v\<rparr>) = (recorded b1)\<lparr>ob_valid := v\<rparr>"
    "recorded (b1\<lparr>ob_last_sequence := n\<rparr>) = (recorded b1)\<lparr>ob_last_sequence := n\<rparr>"
    "recorded (b1\<lparr>ob_last_received_utc_ns := n\<rparr>) = (recorded b1)\<lparr>ob_last_received_utc_ns := n\<rparr>"
    "recorded (b1\<lparr>ob_source_hash := h\<rparr>) = (recorded b1)\<lparr>ob_source_hash := h\<rparr>" for b1 v n h
    by (simp_all add: recorded_def)
  then show ?thesis
    by (cases "bc_book_hash c") (simp_all add: ob_apply_def Let_def recorded_level recorded_trim recorded_issues)
qed

lemma recorded_resolve: "resolve_tick s (recorded_books r) = (case resolve_tick s r of (s', r') \<Rightarrow> (s', recorded_books r'))"
  by (simp add: resolve_tick_def recorded_books_def split: option.split)

lemma recorded_register:
  "register_token m t u (recorded_books r)
     = (case register_token m t u r of (r', x) \<Rightarrow> (recorded_books r', map_sum id recorded x))"
  by (simp add: register_token_def Let_def split: option.split)

lemma recorded_snapshot:
  "apply_snapshot s (recorded_books r) = (case apply_snapshot s r of (r', x) \<Rightarrow> (recorded_books r', x))"
proof -
  have "recorded_books (r1\<lparr>rc_books := d, rc_uncertainty := u\<rparr>)
      = (recorded_books (r1\<lparr>rc_books := d\<rparr>))\<lparr>rc_uncertainty := u\<rparr>" for r1 d u
    by (simp add: recorded_books_def)
  then show ?thesis
    by (simp add: apply_snapshot_def recorded_resolve recorded_register recorded_replace recorded_put
        split: prod.split sum.split)
qed

lemma recorded_change:
  "apply_change c (recorded_books r) = (case apply_change c r of (r', x) \<Rightarrow> (recorded_books r', x))"
  by (simp add: apply_change_def recorded_apply split: option.split prod.split sum.split)

lemma recorded_tick:
  "apply_tick_size_change c (recorded_books r) = (case apply_tick_size_change c r of (r', x) \<Rightarrow> (recorded_books r', x))"
proof -
  have "recorded_books (r1\<lparr>rc_effective_tick_sizes := e\<rparr>) = (recorded_books r1)\<lparr>rc_effective_tick_sizes := e\<rparr>" for r1 e
    by (simp add: recorded_books_def)
  moreover have "recorded (b\<lparr>ob_tick_size := n\<rparr>) = (recorded b)\<lparr>ob_tick_size := n\<rparr>" for b n
    by (simp add: recorded_def)
  moreover have "ob_top ((recorded b)\<lparr>ob_tick_size := n\<rparr>) = ob_top (b\<lparr>ob_tick_size := n\<rparr>)" for b n
    by (simp add: recorded_def ob_top_def best_bid_def best_ask_def split: option.split)
  ultimately show ?thesis
    by (simp add: apply_tick_size_change_def Let_def split: option.split)
qed

lemma recorded_deliver: "deliver p r = Inr r' \<Longrightarrow> deliver p (recorded_books r) = Inr (recorded_books r')"
  by (cases p) (auto simp: deliver_def recorded_snapshot recorded_change recorded_tick res_bind_def
      split: prod.splits sum.splits)

lemma recorded_consume [simp]: "recorded (consume s p n b) = recorded b"
  by (simp add: recorded_def consume_def)

lemma recorded_plan:
  "apply_plan cfg i t plan b pf = (b', pf', x) \<Longrightarrow> recorded b' = recorded b"
  by (induction cfg i t plan b pf arbitrary: b' pf' x rule: apply_plan.induct)
    (auto simp: Let_def split: prod.splits sum.splits)

lemma recorded_taker:
  "execute_taker cfg i t b pf = (b', pf', x) \<Longrightarrow> recorded b' = recorded b"
  by (auto simp: execute_taker_def Let_def dest: recorded_plan split: if_splits prod.splits sum.splits)

lemma recorded_execution:
  assumes "execute_and_record env t i en = Inr en'"
  shows "recorded_books (en_recon en') = recorded_books (en_recon en)"
proof -
  obtain en1 res where 1: "execute_order env t i en = Inr (en1, res)" "en_recon en' = en_recon en1"
    using assms by (auto simp: execute_and_record_def)
  show ?thesis
  proof (cases "en1 = en")
    case False
    with 1 obtain b b' pf' where b: "rc_book (en_recon en) (oi_token_id i) = Some b"
      "execute_taker (cf_fee (ev_config env)) i t b (en_portfolio en) = (b', pf', Inr res)"
      "en_recon en1 = (en_recon en)\<lparr>rc_books := dict_put (oi_token_id i) b' (rc_books (en_recon en))\<rparr>"
      by (auto simp: execute_order_def split: if_splits option.splits prod.splits sum.splits)
    then have "map_of (map (map_prod id recorded) (rc_books (en_recon en))) (oi_token_id i) = Some (recorded b')"
      using recorded_taker [OF b(2)] by (simp add: map_of_recorded rc_book_def)
    with b(3) 1(2) show ?thesis by (simp add: dict_put_same)
  qed (simp add: 1(2))
qed

lemma recorded_pending:
  "execute_pending env c incl en = Inr en' \<Longrightarrow> recorded_books (en_recon en') = recorded_books (en_recon en)"
  by (induction rule: execute_pending_induct) (auto dest!: recorded_execution)

lemma recorded_drain:
  "drain_pending env en = Inr en' \<Longrightarrow> recorded_books (en_recon en') = recorded_books (en_recon en)"
  by (induction rule: drain_pending_induct) (auto dest!: recorded_pending)

lemma schedule_recon: "schedule_all env is en = Inr en' \<Longrightarrow> en_recon en' = en_recon en"
  by (induction "is" arbitrary: en)
    (force simp: schedule_intent_def Let_def split: if_splits prod.splits sum.splits)+

lemma process_delivers:
  assumes "process_event env e en = Inr en'"
  shows "deliver (re_payload e) (en_recon en) = Inr (en_recon en')"
proof -
  obtain used clock en1 intents where
    "apply_event env e (en\<lparr>en_used_degraded := used, en_clock := clock\<rparr>) = Inr (en1, intents)"
    "schedule_all env intents en1 = Inr en'"
    using assms by (auto simp: process_event_def split: prod.splits sum.splits)
  with apply_event_delivers [of env e "en\<lparr>en_used_degraded := used, en_clock := clock\<rparr>"] schedule_recon
  show ?thesis by fastforce
qed

lemma deliver_all_append:
  "deliver_all (ps @ qs) r = res_bind (deliver_all ps r) (deliver_all qs)"
  by (induction ps arbitrary: r) (auto simp: res_bind_def split: sum.splits)

lemma process_all_delivers:
  "process_events env es en = Inr en' \<Longrightarrow> deliver_all (map re_payload es) (en_recon en) = Inr (en_recon en')"
proof (induction es arbitrary: en)
  case (Cons e es)
  then obtain en1 where "process_event env e en = Inr en1" "process_events env es en1 = Inr en'" by auto
  with Cons.IH process_delivers [of env e en en1] show ?case by simp
qed simp

lemma recorded_deliver_all:
  "deliver_all ps r = Inr r' \<Longrightarrow> deliver_all ps (recorded_books r) = Inr (recorded_books r')"
proof (induction ps arbitrary: r)
  case (Cons p ps)
  then obtain r1 where "deliver p r = Inr r1" "deliver_all ps r1 = Inr r'" by auto
  with Cons.IH recorded_deliver show ?case by simp
qed simp

lemma groups_deliver:
  "run_groups env es en = Inr en' \<Longrightarrow>
     deliver_all (map re_payload es) (recorded_books (en_recon en)) = Inr (recorded_books (en_recon en'))"
proof (induction env es en rule: run_groups.induct)
  case (2 env e es en)
  let ?mode = "cf_replay_clock (ev_config env)"
  from "2.prems"(1) obtain t en1 en2 en3 where
    t: "event_timestamp ?mode e = Inr t" and
    1: "execute_pending env t False en = Inr en1" and
    2: "process_events env (takeWhile (same_time ?mode t) (e # es)) en1 = Inr en2" and
    3: "execute_pending env t True en2 = Inr en3" and
    4: "run_groups env (dropWhile (same_time ?mode t) es) en3 = Inr en'"
    by (auto simp: Let_def)
  have here: "same_time ?mode t e" using t by (simp add: same_time_def)
  then have split: "map re_payload (e # es) = map re_payload (takeWhile (same_time ?mode t) (e # es))
      @ map re_payload (dropWhile (same_time ?mode t) es)"
    by (simp flip: map_append)
  have rest: "deliver_all (map re_payload (dropWhile (same_time ?mode t) es)) (recorded_books (en_recon en3))
      = Inr (recorded_books (en_recon en'))"
    using "2.IH" [OF t refl refl 1 2 3 4] .
  have "deliver_all (map re_payload (takeWhile (same_time ?mode t) (e # es))) (recorded_books (en_recon en))
      = Inr (recorded_books (en_recon en3))"
    using recorded_deliver_all [OF process_all_delivers [OF 2]] recorded_pending [OF 1] recorded_pending [OF 3]
    by simp
  with rest show ?case unfolding split deliver_all_append by simp
qed simp

lemma run_delivers:
  assumes "run_events env events en = Inr en'"
  shows "\<exists>ordered. merge_events (cf_replay_clock (ev_config env)) events = Inr ordered
    \<and> deliver_all (map re_payload ordered) (recorded_books (en_recon en)) = Inr (recorded_books (en_recon en'))"
proof -
  obtain ordered s en1 en2 where "merge_events (cf_replay_clock (ev_config env)) events = Inr ordered"
    "run_groups env ordered (en\<lparr>en_strategy := s\<rparr>) = Inr en1" "drain_pending env en1 = Inr en2"
    "en_recon en' = en_recon en2"
    using assms by (auto simp: run_events_def)
  with groups_deliver [of env ordered "en\<lparr>en_strategy := s\<rparr>" en1] recorded_drain [of env en1 en2]
  show ?thesis by simp
qed

section \<open>The engine's order of events\<close>

text \<open>
  The order of the recorded query, \<^verbatim>\<open>order by received_utc_ns, kind, sequence, change_index\<close>, and of
  the engine's merge, which compares connections before sequences.  They agree where the rows of
  one receipt time and kind came over one connection.
\<close>

definition kind_code :: "event_kind \<Rightarrow> int" where
  "kind_code k = (case k of Kind_snapshot \<Rightarrow> 0 | Kind_tick \<Rightarrow> 1 | Kind_update \<Rightarrow> 2)"

definition query_key :: "book_event \<Rightarrow> int \<times> int \<times> int \<times> int" where
  "query_key v = (be_received_utc_ns v, kind_code (be_kind v), be_sequence v, be_change_index v)"

definition one_connection :: "book_event list \<Rightarrow> bool" where
  "one_connection rows \<longleftrightarrow> (\<forall>v \<in> set rows. \<forall>w \<in> set rows.
     be_received_utc_ns v = be_received_utc_ns w \<longrightarrow> be_kind v = be_kind w \<longrightarrow>
       str_or_empty (be_connection_id v) = str_or_empty (be_connection_id w))"

lemma one_connectionD:
  "one_connection rows \<Longrightarrow> v \<in> set rows \<Longrightarrow> w \<in> set rows \<Longrightarrow>
     be_received_utc_ns v = be_received_utc_ns w \<Longrightarrow> be_kind v = be_kind w \<Longrightarrow>
     str_or_empty (be_connection_id v) = str_or_empty (be_connection_id w)"
  unfolding one_connection_def by blast

lemma forwarded_key:
  "event_key_of LOCAL_RECEIVE_TIME (replay_event_of v p)
     = (be_received_utc_ns v, be_received_utc_ns v, source_priority (be_kind v),
        str_or_empty (be_connection_id v), be_sequence v, be_change_index v)"
  by (simp add: event_key_of_def deterministic_event_key_def event_timestamp_def replay_event_of_def)

lemma forwarded_key_mono:
  assumes "query_key v \<le> query_key w"
    and "be_received_utc_ns v = be_received_utc_ns w \<Longrightarrow> be_kind v = be_kind w \<Longrightarrow>
      str_or_empty (be_connection_id v) = str_or_empty (be_connection_id w)"
  shows "event_key_of LOCAL_RECEIVE_TIME (replay_event_of v p) \<le> event_key_of LOCAL_RECEIVE_TIME (replay_event_of w q)"
  using assms
  by (cases "be_kind v"; cases "be_kind w")
    (auto simp: forwarded_key query_key_def kind_code_def source_priority_def)

definition settles :: "replay_event \<Rightarrow> bool" where
  "settles x = (case re_payload x of Market_resolution _ _ _ \<Rightarrow> True | _ \<Rightarrow> False)"

lemma probe_cases:
  assumes "probe_events e (v # vs) r = Inr (r', events)"
  obtains (rejected) r1 where "probe_events e vs r1 = Inr (r', events)"
  | (forwarded) r1 p es where "payload_of_event e v = Inr p" "probe_events e vs r1 = Inr (r', es)"
      "events = replay_event_of v p # es"
proof -
  obtain r1 x where step: "apply_book_event e v r = (r1, x)" by (meson surj_pair)
  show thesis
  proof (cases x)
    case (Inl y)
    with assms step rejected show thesis by (simp split: if_splits)
  next
    case (Inr u)
    with assms step forwarded show thesis by (auto simp: res_bind_def split: sum.splits)
  qed
qed

lemma forwarded_from:
  "probe_events e vs r = Inr (r', events) \<Longrightarrow>
     \<forall>x \<in> set events. \<exists>v \<in> set vs. \<exists>p. x = replay_event_of v p \<and> \<not> settles x"
proof (induction vs arbitrary: r events)
  case (Cons v vs)
  have book: "\<not> settles (replay_event_of v p)" if "payload_of_event e v = Inr p" for p
    using that
  proof -
    have "\<not> (case p of Market_resolution _ _ _ \<Rightarrow> True | _ \<Rightarrow> False)"
      using that by (cases "be_kind v") (auto simp: payload_of_event_def res_bind_def split: sum.splits)
    then show ?thesis by (simp add: settles_def replay_event_of_def)
  qed
  from Cons.prems show ?case
  proof (cases rule: probe_cases)
    case (rejected r1)
    from Cons.IH [OF this] show ?thesis by auto
  next
    case (forwarded r1 p es)
    from Cons.IH [OF forwarded(2)] book [OF forwarded(1)] show ?thesis unfolding forwarded(3) by auto
  qed
qed simp

lemma forwarded_sorted:
  "probe_events e vs r = Inr (r', events) \<Longrightarrow> sorted (map query_key vs) \<Longrightarrow> one_connection vs \<Longrightarrow>
     sorted (map (event_key_of LOCAL_RECEIVE_TIME) events)"
proof (induction vs arbitrary: r events)
  case (Cons v vs)
  have "set vs \<subseteq> set (v # vs)" by auto
  then have vs: "sorted (map query_key vs)" "one_connection vs"
    using Cons.prems(2,3) unfolding one_connection_def by (simp, blast)
  from Cons.prems(1) show ?case
  proof (cases rule: probe_cases)
    case (rejected r1)
    from Cons.IH [OF this vs] show ?thesis .
  next
    case (forwarded r1 p es)
    have "event_key_of LOCAL_RECEIVE_TIME (replay_event_of v p) \<le> event_key_of LOCAL_RECEIVE_TIME x"
      if "x \<in> set es" for x
    proof -
      from bspec [OF forwarded_from [OF forwarded(2)] that]
      obtain w q where w: "w \<in> set vs" "x = replay_event_of w q" by (elim bexE exE conjE)
      then have "query_key v \<le> query_key w" using Cons.prems(2) by simp
      moreover have "be_received_utc_ns v = be_received_utc_ns w \<Longrightarrow> be_kind v = be_kind w \<Longrightarrow>
          str_or_empty (be_connection_id v) = str_or_empty (be_connection_id w)"
        by (rule one_connectionD [OF Cons.prems(3)]) (use w(1) in simp_all)
      ultimately show ?thesis unfolding w(2) by (rule forwarded_key_mono)
    qed
    with Cons.IH [OF forwarded(2) vs] show ?thesis by (simp add: forwarded(3))
  qed
qed simp

text \<open>A settlement leaves the books alone, so its place among the events does not matter to them.\<close>

lemma settles_resolution: "settles (resolution_event e w delay)"
  by (simp add: settles_def resolution_event_def Let_def)

lemma deliver_settlement: "settles x \<Longrightarrow> deliver (re_payload x) r = Inr r"
  by (simp add: settles_def deliver_def split: event_payload.splits)

lemma deliver_unsettled:
  "deliver_all (map re_payload (filter (\<lambda>x. \<not> settles x) xs)) r = deliver_all (map re_payload xs) r"
proof (induction xs arbitrary: r)
  case (Cons x xs)
  then show ?case
    by (cases "settles x"; cases "deliver (re_payload x) r") (simp_all add: deliver_settlement)
qed simp

lemma merged_events:
  assumes "probe_events e rows make_reconstructor = Inr (r, events)"
    and "sorted (map query_key rows)" "one_connection rows"
    and "\<forall>x \<in> set closing. settles x"
  shows "\<exists>ordered. merge_events LOCAL_RECEIVE_TIME (events @ closing) = Inr ordered
    \<and> (\<forall>r0. deliver_all (map re_payload ordered) r0 = deliver_all (map re_payload events) r0)"
proof -
  let ?key = "event_key_of LOCAL_RECEIVE_TIME"
  have "\<forall>x \<in> set (events @ closing). \<exists>t. event_timestamp LOCAL_RECEIVE_TIME x = Inr t"
    by (simp add: event_timestamp_def)
  from keyed_events_total [OF this] obtain ordered where m: "merge_events LOCAL_RECEIVE_TIME (events @ closing) = Inr ordered"
    by (auto simp: merge_events_def)
  have "filter (\<lambda>x. \<not> settles x) ordered = sort_key ?key (filter (\<lambda>x. \<not> settles x) (events @ closing))"
    unfolding merge_events_sort [OF m] by (rule filter_sort)
  moreover have "filter (\<lambda>x. \<not> settles x) (events @ closing) = events"
    using forwarded_from [OF assms(1)] assms(4) by (auto simp: filter_id_conv filter_empty_conv)
  ultimately have "filter (\<lambda>x. \<not> settles x) ordered = events"
    using sort_key_id_if_sorted [OF forwarded_sorted [OF assms(1-3)]] by simp
  with deliver_unsettled [of ordered] m show ?thesis by metis
qed

section \<open>Properties\<close>

text \<open>
  C7. What \<^verbatim>\<open>verify.py\<close> feeds the engine keeps it on the tape builder's books.  Of a
  recording in the order of the query, whose rejected events are level changes and whose rows of one
  receipt time and kind came over one connection, the events forwarded to the reference engine, as it
  merges them, are ones its books accept, every one of them, so the run never ends early on them; and
  after them every token whose book is valid for the tape builder has that very book.  A run of the
  engine over them ends with that book too, except for the depth its own orders have taken from it.
\<close>

theorem engine_books_refine_tape:
  assumes "build_tape e depth rows = Inr s"
    and "\<forall>v \<in> set (rejected_rows e rows make_reconstructor). be_kind v = Kind_update"
    and "sorted (map query_key rows)" "one_connection rows"
    and "make_engine env st rng = Inr en" "cf_replay_clock (ev_config env) = LOCAL_RECEIVE_TIME"
  shows "\<exists>events ordered q. episode_events e rows delay include = Inr events
    \<and> merge_events LOCAL_RECEIVE_TIME events = Inr ordered
    \<and> deliver_all (map re_payload ordered) make_reconstructor = Inr q
    \<and> (\<forall>t b. rc_book (tp_reconstructor s) t = Some b \<longrightarrow> ob_valid b \<longrightarrow>
         rc_book q t = Some b
         \<and> (\<forall>en' summary. engine_run env events en = Inr (en', summary) \<longrightarrow>
              (\<exists>c. rc_book (en_recon en') t = Some c \<and> recorded c = recorded b)))"
proof -
  obtain s1 where s1: "build_events e depth rows make_build = Inr s1" "tp_reconstructor s = tp_reconstructor s1"
    using assms(1) by (auto simp: build_tape_def res_bind_def split: sum.splits)
  obtain fed where fed: "probe_events e rows make_reconstructor = Inr (tp_reconstructor s, fed)"
    using probe_is_builder [OF s1(1)] s1(2) by (auto simp: make_build_def)
  obtain q where q: "deliver_all (map re_payload fed) make_reconstructor = Inr q"
    "engine_follows (tp_reconstructor s) q"
    using engine_follows_probe [OF fed engine_follows_refl assms(2)] by blast
  have books: "rc_book q t = Some b" if "rc_book (tp_reconstructor s) t = Some b" "ob_valid b" for t b
    using follows_book [OF q(2), of t] that by (simp add: book_agrees_def split: option.splits)
  obtain events closing where events: "episode_events e rows delay include = Inr events" "events = fed @ closing"
    "\<forall>x \<in> set closing. settles x"
  proof
    let ?closing = "case ep_winner_token_id e of None \<Rightarrow> []
      | Some w \<Rightarrow> if include \<and> w \<noteq> [] then [resolution_event e w delay] else []"
    show "episode_events e rows delay include = Inr (fed @ ?closing)" by (simp add: episode_events_def fed)
    show "\<forall>x \<in> set ?closing. settles x"
      by (cases "ep_winner_token_id e") (auto simp: settles_resolution)
  qed simp
  obtain ordered where merged: "merge_events LOCAL_RECEIVE_TIME events = Inr ordered"
    "deliver_all (map re_payload ordered) make_reconstructor = Inr q"
    using merged_events [OF fed assms(3,4) events(3)] q(1) events(2) by auto
  have ran: "\<exists>c. rc_book (en_recon en') t = Some c \<and> recorded c = recorded b"
    if run: "engine_run env events en = Inr (en', summary)" and b: "rc_book q t = Some b" for en' summary t b
  proof -
    have start: "recorded_books (en_recon en) = make_reconstructor"
      using assms(5) by (auto simp: make_engine_def recorded_books_def make_reconstructor_def)
    have "run_events env events en = Inr en'" using run by (auto simp: engine_run_def)
    from run_delivers [OF this] merged assms(6) start have "recorded_books (en_recon en') = q" by auto
    then have "recorded_books (en_recon en') = recorded_books q"
      using recorded_deliver_all [OF merged(2)] merged(2) start by (auto simp: recorded_books_def make_reconstructor_def)
    then have "map_option recorded (rc_book (en_recon en') t) = map_option recorded (rc_book q t)"
      by (metis rc_book_recorded)
    with b show ?thesis by auto
  qed
  from books ran events(1) merged show ?thesis by blast
qed

lemma demo_rejected: "list_all (\<lambda>v. be_kind v = Kind_update) (rejected_rows demo_episode tape_demo_events make_reconstructor)"
  by code_simp

lemma demo_final_book: "map_option ob_valid (rc_book (tp_reconstructor demo_build) ''t'') = Some True"
  by code_simp

text \<open>A run of the engine over the demonstration's events, with a strategy that never trades.\<close>

definition idle_env :: "(unit, unit) engine_env" where
  "idle_env =
     \<lparr>ev_config = ev_config demo_env, ev_strategy = no_op_strategy, ev_rng = ev_rng demo_env, ev_intervals = []\<rparr>"

definition idle_engine :: "(unit, unit) engine" where
  "idle_engine = (case make_engine idle_env () () of Inr en \<Rightarrow> en)"

theorem engine_books_refine_tape_witness:
  "\<exists>events en summary c. episode_events demo_episode tape_demo_events DEFAULT_RESOLUTION_DELAY_NS True = Inr events
     \<and> engine_run idle_env events idle_engine = Inr (en, summary)
     \<and> rc_book (en_recon en) ''t'' = Some c \<and> ob_valid c
     \<and> map_option recorded (rc_book (tp_reconstructor demo_build) ''t'') = Some (recorded c)"
proof -
  have "\<forall>v \<in> set (rejected_rows demo_episode tape_demo_events make_reconstructor). be_kind v = Kind_update"
    using demo_rejected by (simp add: list_all_iff)
  note refines = engine_books_refine_tape [OF demo_build this, of idle_env "()" "()" idle_engine
      DEFAULT_RESOLUTION_DELAY_NS True]
  have rows: "sorted (map query_key tape_demo_events)" "one_connection tape_demo_events"
    by (simp_all add: tape_demo_events_def tape_demo_event_def query_key_def kind_code_def one_connection_def)
  have env: "make_engine idle_env () () = Inr idle_engine" "cf_replay_clock (ev_config idle_env) = LOCAL_RECEIVE_TIME"
    by (simp_all add: idle_engine_def make_engine_def idle_env_def demo_env_def decimal_to_scaled_def)
  have "case episode_events demo_episode tape_demo_events DEFAULT_RESOLUTION_DELAY_NS True of Inl _ \<Rightarrow> False
    | Inr events \<Rightarrow> \<not> isl (engine_run idle_env events idle_engine)"
    by code_simp
  then obtain events en summary where run:
    "episode_events demo_episode tape_demo_events DEFAULT_RESOLUTION_DELAY_NS True = Inr events"
    "engine_run idle_env events idle_engine = Inr (en, summary)"
    by (cases "episode_events demo_episode tape_demo_events DEFAULT_RESOLUTION_DELAY_NS True";
        cases "engine_run idle_env (projr (episode_events demo_episode tape_demo_events DEFAULT_RESOLUTION_DELAY_NS True))
          idle_engine") auto
  obtain b where b: "rc_book (tp_reconstructor demo_build) ''t'' = Some b" "ob_valid b"
    using demo_final_book by auto
  obtain c where c: "rc_book (en_recon en) ''t'' = Some c" "recorded c = recorded b"
    using refines [OF rows env] run b by fastforce
  moreover have "ob_valid c" using arg_cong [OF c(2), of ob_valid] b(2) by simp
  ultimately show ?thesis using run b(1)
    by (intro exI [of _ events] exI [of _ en] exI [of _ summary] exI [of _ c]) simp
qed

text \<open>
  Two rows of one instant, of connections b and a in the order of their sequences: the first adds a
  second ask level, the other restates the first.  The engine's merge puts connection a first, its
  book is then ahead of the level's sequence and drops it as stale, and the two books differ.
\<close>

definition crossed_rows :: "book_event list" where
  "crossed_rows =
     [tape_demo_event,
      tape_demo_event\<lparr>be_kind := Kind_update, be_received_utc_ns := 120, be_sequence := 8,
        be_connection_id := Some ''b'', be_side := Some SELL, be_price := Some 540000, be_new_size := Some 6000000\<rparr>,
      tape_demo_event\<lparr>be_kind := Kind_update, be_received_utc_ns := 120, be_sequence := 9,
        be_connection_id := Some ''a'', be_side := Some SELL, be_price := Some 520000, be_new_size := Some 5000000\<rparr>]"

lemma crossed_connections_differ:
  "sorted (map query_key crossed_rows)"
  "case (build_tape demo_episode None crossed_rows, episode_events demo_episode crossed_rows 0 False) of
     (Inr s, Inr events) \<Rightarrow>
       (case res_bind (merge_events LOCAL_RECEIVE_TIME events)
           (\<lambda>ordered. deliver_all (map re_payload ordered) make_reconstructor) of
          Inr q \<Rightarrow> map_option ob_asks (rc_book (tp_reconstructor s) ''t'') = Some [(520000, 5000000), (540000, 6000000)]
            \<and> map_option ob_asks (rc_book q ''t'') = Some [(520000, 5000000)]
            \<and> rc_valid (tp_reconstructor s) ''t'' \<and> rc_valid q ''t''
        | Inl _ \<Rightarrow> False)
   | _ \<Rightarrow> False"
  by (simp add: crossed_rows_def tape_demo_event_def query_key_def kind_code_def) code_simp



end
