(* ===== verification/Matched.thy ===== *)
theory Matched
  imports Execution Realism
begin

text \<open>
  \<^verbatim>\<open>engine_comparable_realism\<close> of \<^verbatim>\<open>backtest/verify.py\<close>, and what it is for: with every constraint
  the engine does not model stripped, the tape simulator's walk over a ladder is the event
  engine's sweep of the same levels.
\<close>

section \<open>The stripped realism\<close>

definition engine_comparable_realism :: "execution_realism \<Rightarrow> int \<Rightarrow> execution_realism" where
  "engine_comparable_realism r latency_ms =
     r\<lparr>er_name := er_name r @ ''-engine-comparable'', er_latency := constant_latency latency_ms,
       er_displayed_depth_haircut_ppm := 0, er_max_level_participation_ppm := 1000000,
       er_max_levels_swept := None, er_volume_participation_ppm := None,
       er_stale_book_max_age_ms := None, er_max_ticks_through_touch := None,
       er_max_price_through_touch := None\<rparr>"

lemma comparable_fields [simp]:
  "er_fee (engine_comparable_realism r ms) = er_fee r"
  "er_max_levels_swept (engine_comparable_realism r ms) = None"
  "er_stale_book_max_age_ms (engine_comparable_realism r ms) = None"
  "allowed_size (engine_comparable_realism r ms) displayed = displayed"
  "volume_cap (engine_comparable_realism r ms) v m = None"
  "fst (effective_limit (engine_comparable_realism r ms) s touch l tick) = l"
  by (simp_all add: engine_comparable_realism_def allowed_size_def volume_cap_def effective_limit_def)

lemma comparable_ok: "realism_ok r \<Longrightarrow> realism_ok (engine_comparable_realism r ms)"
  by (simp add: realism_ok_def engine_comparable_realism_def)

section \<open>One sweep, written twice\<close>

definition slice_of_level :: "execution_realism \<Rightarrow> planned_level \<Rightarrow> fill_slice" where
  "slice_of_level r pl = make_slice r (pl_price pl) (pl_size pl) (pl_rank pl)"

text \<open>The walk under a comparable realism is the engine's plan, level by level.\<close>

lemma comparable_walk_is_plan:
  assumes "\<forall>(p, q) \<in> set ls. 0 < q" "0 < n" "past_limit (oi_side i) limit = beyond_limit i"
  shows "let plan = plan_levels i rank (Some n) None ls;
             (slices, left, flags') = walk_ladder (engine_comparable_realism r ms) (oi_side i) limit None rank ls
               n consumed flags
         in slices = map (slice_of_level (engine_comparable_realism r ms)) plan
           \<and> left = n - plan_size plan"
  using assms(1,2)
proof (induction ls arbitrary: n rank consumed flags)
  case Nil
  then show ?case by (simp add: plan_size_def)
next
  case (Cons l ls)
  obtain price displayed where l: "l = (price, displayed)" by (meson surj_pair)
  have q: "0 < displayed" "\<forall>(p, q) \<in> set ls. 0 < q" using Cons.prems(1) l by auto
  have limit: "past_limit (oi_side i) limit price = beyond_limit i price" using assms(3) by simp
  show ?case
  proof (cases "displayed < n")
    case False
    then show ?thesis
      using l q limit Cons.prems(2)
      by (simp add: Let_def desired_size_def plan_size_def slice_of_level_def min_def)
  next
    case True
    define flags' where "flags' = flags\<lparr>wf_cut_by_depth := True\<rparr>"
    note IH = Cons.IH [OF q(2), of "n - displayed" "rank + 1" "consumed + displayed" flags']
    show ?thesis
      using IH l q limit True
      by (simp add: Let_def desired_size_def plan_size_def slice_of_level_def min_def flags'_def
          split: prod.splits)
  qed
qed

section \<open>Equivalence of the two simulators on one order\<close>

text \<open>The same order, put to the two simulators: the request the tape simulator makes of an intent at a book.\<close>

definition same_order :: "order_intent \<Rightarrow> int \<Rightarrow> order_book \<Rightarrow> taker_request \<Rightarrow> bool" where
  "same_order i n b q \<longleftrightarrow>
     oi_requested_shares i = Some n \<and> oi_requested_notional i = None
     \<and> rq_side q = oi_side i \<and> rq_requested_shares q = n \<and> rq_limit_price q = oi_limit_price i
     \<and> rq_ladder q = available_levels (opposite (oi_side i)) b"

definition enough_funds :: "fee_config \<Rightarrow> order_intent \<Rightarrow> order_book \<Rightarrow> portfolio \<Rightarrow> bool" where
  "enough_funds cfg i b pf \<longleftrightarrow>
     (if oi_side i = BUY then plan_cost cfg (order_plan i b) \<le> pf_available_cash pf
      else plan_size (order_plan i b) \<le> inventory pf (oi_token_id i))"

definition slice_of_fill :: "simulated_fill \<Rightarrow> fill_slice" where
  "slice_of_fill f =
     \<lparr>fs_price = sf_price f, fs_size = sf_size f, fs_notional = sf_notional f, fs_fee = sf_fee f,
      fs_level_rank = sf_level_rank f\<rparr>"

lemma comparable_slices:
  assumes "reachable_book b" "same_order i n b q" "rq_minimum_order_size q \<le> n"
  shows "eo_slices (execute_realism (engine_comparable_realism r ms) q)
    = map (slice_of_level (engine_comparable_realism r ms)) (order_plan i b)"
proof -
  let ?r = "engine_comparable_realism r ms" and ?ls = "available_levels (opposite (oi_side i)) b"
  have q: "oi_requested_shares i = Some n" "oi_requested_notional i = None" "rq_side q = oi_side i"
    "rq_requested_shares q = n" "rq_limit_price q = oi_limit_price i" "rq_ladder q = ?ls"
    "rq_minimum_order_size q \<le> n"
    using assms(2,3) by (simp_all add: same_order_def)
  have pos: "\<forall>(p, z) \<in> set ?ls. 0 < z"
    using available_iff_depth [OF reachable_sides [OF assms(1)]] by auto
  have limit: "past_limit (oi_side i) (oi_limit_price i) = beyond_limit i"
    by (simp add: fun_eq_iff past_limit_def beyond_limit_def)
  have plan: "order_plan i b = plan_levels i 1 (Some n) None ?ls" by (simp add: order_plan_def q)
  have sizes: "\<forall>pl \<in> set (order_plan i b). 0 < pl_size pl"
    using available_plan_levels(1) [OF assms(1) order_plan_def] by auto
  show ?thesis
  proof (cases "n \<le> 0 \<or> ?ls = []")
    case True
    have "desired_size (Some n) None p z \<le> 0" if "n \<le> 0" for p z using that by (simp add: desired_size_def)
    then have "order_plan i b = []" using True by (cases ?ls) (auto simp: plan Let_def)
    with True q show ?thesis by (auto simp: execute_realism_def refuse_def empty_outcome_def)
  next
    case False
    then have n: "0 < n" by simp
    obtain left flags where walk: "execute_walk ?r q = (map (slice_of_level ?r) (order_plan i b), left, flags)"
      using comparable_walk_is_plan [OF pos n limit, of 1 r ms 0
          "\<lparr>wf_hit_limit = False, wf_cut_by_depth = False, wf_cut_by_volume = False\<rparr>"] q
      by (auto simp: execute_walk_def request_limit_def visible_ladder_def plan Let_def split: prod.splits)
    have "plan_size (order_plan i b) = 0 \<longleftrightarrow> order_plan i b = []"
      using sizes plan_size_nonneg [of "tl (order_plan i b)"]
      by (cases "order_plan i b") (auto simp: plan_size_def)
    then show ?thesis
      using False q walk
      by (auto simp: execute_realism_def refuse_def empty_outcome_def Let_def comp_def slice_of_level_def
          make_slice_def plan_size_def)
  qed
qed

text \<open>Below the venue minimum the tape simulator sends nothing, whatever the book.\<close>

lemma below_minimum_refused:
  assumes "rq_requested_shares q < rq_minimum_order_size q"
  shows "eo_slices (execute_realism r q) = [] \<and> eo_filled_shares (execute_realism r q) = 0"
  using assms by (simp add: execute_realism_def refuse_def empty_outcome_def)

text \<open>
  C6. When the fast simulator fills an order as the event engine does.  Under the realism that
  \<^verbatim>\<open>verify.py\<close> strips for the comparison, an order sized in shares is put to both simulators at
  the same valid book, with the same fee schedule and with funds that do not bind.  If it asks for at
  least the venue minimum, both take the same levels: the same prices, sizes, notionals, fees and
  ranks, one slice for each fill, so the totals that the comparison adds up agree as well, and
  neither fills what the other refuses.  Below the minimum they part: the tape simulator fills
  nothing, while the engine, which knows no minimum, fills its whole plan.
\<close>

theorem simulators_fill_alike:
  assumes "reachable_book b" "ob_valid b" "fee_config_ok (er_fee r)" "same_order i n b q"
    and "enough_funds (er_fee r) i b pf"
    and "execute_taker (er_fee r) i t b pf = (b', pf', Inr res)"
  shows "(rq_minimum_order_size q \<le> n \<longrightarrow>
      map slice_of_fill (or_fills res) = eo_slices (execute_realism (engine_comparable_realism r ms) q)
      \<and> sum_list (map sf_size (or_fills res))
          = eo_filled_shares (execute_realism (engine_comparable_realism r ms) q)
      \<and> sum_list (map sf_notional (or_fills res))
          = eo_notional (execute_realism (engine_comparable_realism r ms) q)
      \<and> sum_list (map sf_fee (or_fills res)) = eo_fees (execute_realism (engine_comparable_realism r ms) q))
    \<and> (n < rq_minimum_order_size q \<longrightarrow>
      eo_filled_shares (execute_realism (engine_comparable_realism r ms) q) = 0
      \<and> map sf_size (or_fills res) = map pl_size (order_plan i b)
      \<and> map sf_price (or_fills res) = map pl_price (order_plan i b))"
proof -
  let ?r = "engine_comparable_realism r ms"
  have sum_eq: "eo_filled_shares out = sum_list (map fs_size (eo_slices out))
      \<and> eo_notional out = sum_list (map fs_notional (eo_slices out))
      \<and> eo_fees out = sum_list (map fs_fee (eo_slices out))" if "out = execute_realism ?r q" for out
    using that by (auto simp: execute_realism_def refuse_def empty_outcome_def Let_def split: prod.splits)
  have funded: "\<not> (oi_side i = BUY \<and> pf_available_cash pf < plan_cost (er_fee r) (order_plan i b))"
    "\<not> (oi_side i = SELL \<and> inventory pf (oi_token_id i) < plan_size (order_plan i b))"
    using assms(5) by (auto simp: enough_funds_def)
  have shares: "oi_requested_shares i = Some n" using assms(4) by (simp add: same_order_def)
  have "or_fills res = map (fill_of (er_fee r) i t b) (order_plan i b)"
    using execute_taker_cases [OF assms(1,3,6)]
  proof (elim disjE exE conjE)
    fix reason assume rej: "Inr res = (Inr (rejected i reason) :: py_error + _)"
    then have none: "or_fills res = []" by (simp add: rejected_def)
    have "order_plan i b = []"
    proof (rule ccontr)
      assume plan: "order_plan i b \<noteq> []"
      note lv = available_plan_levels(1) [OF assms(1) order_plan_def]
      have "plan_funded (er_fee r) i (order_plan i b) pf"
        using lv funded by (cases "oi_side i") (auto simp: plan_funded_def)
      from apply_plan_funded [OF assms(3) this, of t b] obtain pf1 where
        "apply_plan (er_fee r) i t (order_plan i b) b pf
           = (consume_plan i (order_plan i b) b, pf1, Inr (plan_fills (er_fee r) i t b (order_plan i b)))"
        by blast
      with assms(2,6) plan funded shares none show False
        by (auto simp: execute_taker_def Let_def plan_fills_def split: if_splits)
    qed
    with none show ?thesis by simp
  qed (simp add: plan_fills_def)
  moreover have "\<forall>pl \<in> set (order_plan i b). pl_notional pl = notional_scaled (pl_size pl) (pl_price pl)"
    using plan_levels_prefix [of i 1 "oi_requested_shares i" "oi_requested_notional i"
        "available_levels (opposite (oi_side i)) b", folded order_plan_def]
    by (auto simp: list_all2_conv_all_nth in_set_conv_nth level_planned_def)
  ultimately have "map slice_of_fill (or_fills res) = map (slice_of_level ?r) (order_plan i b)"
    by (simp add: slice_of_fill_def slice_of_level_def make_slice_def fill_of_def)
  note filled = this
  have proj: "map sf_size (or_fills res) = map fs_size (map slice_of_fill (or_fills res))"
    "map sf_notional (or_fills res) = map fs_notional (map slice_of_fill (or_fills res))"
    "map sf_fee (or_fills res) = map fs_fee (map slice_of_fill (or_fills res))"
    by (simp_all add: slice_of_fill_def)
  have alike: "map slice_of_fill (or_fills res) = eo_slices (execute_realism ?r q)" if "rq_minimum_order_size q \<le> n"
    using filled comparable_slices [OF assms(1,4) that] by simp
  have planned: "map sf_size (or_fills res) = map pl_size (order_plan i b)"
    "map sf_price (or_fills res) = map pl_price (order_plan i b)"
    using arg_cong [OF filled, of "map fs_size"] arg_cong [OF filled, of "map fs_price"]
    by (simp_all add: comp_def slice_of_fill_def slice_of_level_def make_slice_def)
  have asked: "rq_requested_shares q = n" using assms(4) by (simp add: same_order_def)
  show ?thesis
    using sum_eq [OF refl] alike planned below_minimum_refused [of q ?r] asked
    by (simp add: proj del: map_map)
qed

definition demo_same_request :: taker_request where
  "demo_same_request =
     \<lparr>rq_side = BUY, rq_ladder = available_levels SELL demo_book, rq_requested_shares = 5000000,
      rq_limit_price = Some 550000, rq_reference_price = None, rq_realised_volume = None,
      rq_decision_utc_ns = 100, rq_arrival_utc_ns = 150, rq_book_age_ns = 0,
      rq_minimum_order_size = 0, rq_tick_size = 10000\<rparr>"

text \<open>The same order with a venue minimum above it.\<close>

definition demo_small_request :: taker_request where
  "demo_small_request = demo_same_request\<lparr>rq_minimum_order_size := 5000001\<rparr>"

theorem simulators_fill_alike_witness:
  "eo_filled_shares (execute_realism (engine_comparable_realism demo_realism 50) demo_same_request) = 4000000
   \<and> eo_fees (execute_realism (engine_comparable_realism demo_realism 50) demo_same_request)
       = calculate_fee DEFAULT_FEE 4000000 520000
   \<and> eo_filled_shares (execute_realism (engine_comparable_realism demo_realism 50) demo_small_request) = 0"
proof -
  have fee: "er_fee demo_realism = DEFAULT_FEE" by (simp add: demo_realism_def pessimistic_preset_def)
  have valid: "ob_valid demo_book" by (simp add: demo_book_def)
  have same: "same_order demo_intent 5000000 demo_book demo_same_request"
    "same_order demo_intent 5000000 demo_book demo_small_request"
    by (simp_all add: same_order_def demo_intent_def demo_same_request_def demo_small_request_def opposite_def)
  have funds: "enough_funds DEFAULT_FEE demo_intent demo_book (make_portfolio 5000000 False False)"
    by (simp add: enough_funds_def order_plan_def demo_book_def demo_intent_def opposite_def available_levels_def
      desired_size_def beyond_limit_def notional_scaled_def round_half_up_def Let_def plan_cost_def
      calculate_DEFAULT_FEE make_portfolio_def)
  note alike = simulators_fill_alike [of demo_book demo_realism demo_intent 5000000 _
        "make_portfolio 5000000 False False" 150, OF demo_book_reachable valid _ _ _ demo_execute [folded fee]]
  show ?thesis
    using alike [OF _ same(1), of 50] alike [OF _ same(2), of 50] DEFAULT_FEE_ok funds
    by (simp add: fee demo_same_request_def demo_small_request_def)
qed

end
