(* ===== verification/Labels.thy ===== *)
theory Labels
  imports Threshold
begin

text \<open>
  The descriptive \<^verbatim>\<open>label\<close> of a parameter set (\<^verbatim>\<open>backtest/threshold_hold.py\<close>), by which sweeps key
  and report their variants.  Python's float formats are written out: \<^verbatim>\<open>.2f\<close> rounds the exact value
  of the double to cents, \<^verbatim>\<open>g\<close> to six significant digits, both ties to even.  The values formatted
  are not negative.
\<close>

section \<open>Formatting\<close>

function decimal_digits :: "int \<Rightarrow> string" where
  "decimal_digits n =
     (if n < 10 then [''0123456789'' ! nat n] else decimal_digits (n div 10) @ [''0123456789'' ! nat (n mod 10)])"
  by pat_completeness auto

termination by (relation "measure nat") auto

function digit_count :: "int \<Rightarrow> nat" where
  "digit_count n = (if n \<le> 0 then 0 else Suc (digit_count (n div 10)))"
  by pat_completeness auto

termination by (relation "measure nat") auto

function bit_count :: "int \<Rightarrow> nat" where
  "bit_count n = (if n \<le> 0 then 0 else Suc (bit_count (n div 2)))"
  by pat_completeness auto

termination by (relation "measure nat") auto

declare decimal_digits.simps [simp del] digit_count.simps [simp del] bit_count.simps [simp del]

lemma bit_count_eq: "bit_count n = bit_len (nat n)"
proof (induction n rule: bit_count.induct)
  case (1 n)
  have "nat (n div 2) = nat n div 2" by (simp add: nat_div_distrib')
  with 1 show ?case by (subst bit_count.simps, subst bit_len.simps) auto
qed

lemma fl_round_bits [code]:
  "fl_round m e =
     (let k = bit_count \<bar>m\<bar>
      in if k \<le> 53 then Flt m e else Flt (round_half_even m (2 ^ (k - 53))) (e + int (k - 53)))"
  by (simp add: fl_round_def bit_count_eq)

text \<open>\<^verbatim>\<open>n / d\<close> as the nearest double: a quotient with enough bits and a sticky bit, rounded once.\<close>

definition fl_ratio :: "int \<Rightarrow> int \<Rightarrow> pyfloat" where
  "fl_ratio n d =
     (let k = 56 + bit_count d;
          q = n * 2 ^ k div d
      in fl_round (2 * q + (if n * 2 ^ k mod d = 0 then 0 else 1)) (- int (k + 1)))"

definition fl_numerator :: "pyfloat \<Rightarrow> int" where
  "fl_numerator x = mantissa x * 2 ^ nat (exponent x)"

definition fl_denominator :: "pyfloat \<Rightarrow> int" where
  "fl_denominator x = 2 ^ nat (- exponent x)"

definition two_digits :: "int \<Rightarrow> string" where
  "two_digits n = (if n < 10 then ''0'' @ decimal_digits n else decimal_digits n)"

definition format_2f :: "pyfloat \<Rightarrow> string" where
  "format_2f x =
     (let c = round_half_even (fl_numerator x * 100) (fl_denominator x)
      in decimal_digits (c div 100) @ ''.'' @ two_digits (c mod 100))"

definition strip_zeros :: "string \<Rightarrow> string" where
  "strip_zeros s = rev (dropWhile (\<lambda>c. c = CHR ''0'') (rev s))"

definition with_fraction :: "string \<Rightarrow> string \<Rightarrow> string" where
  "with_fraction whole fraction =
     (let f = strip_zeros fraction in if f = [] then whole else whole @ ''.'' @ f)"

text \<open>The decimal exponent of a positive ratio.\<close>

definition decimal_exponent :: "int \<Rightarrow> int \<Rightarrow> int" where
  "decimal_exponent n d =
     (if d \<le> n then int (digit_count (n div d)) - 1
      else - int (digit_count (ceil_div d n - 1)))"

definition format_g :: "pyfloat \<Rightarrow> string" where
  "format_g v =
     (if mantissa v = 0 then ''0''
      else
        let n = fl_numerator v; d = fl_denominator v;
            x0 = decimal_exponent n d;
            r = round_half_even (n * 10 ^ nat (5 - x0)) (d * 10 ^ nat (x0 - 5));
            x = (if r = 1000000 then x0 + 1 else x0);
            digits = decimal_digits (if r = 1000000 then 100000 else r)
        in if x < -4 \<or> 6 \<le> x
           then with_fraction (take 1 digits) (drop 1 digits) @ ''e''
                  @ (if x < 0 then ''-'' else ''+'') @ two_digits \<bar>x\<bar>
           else if 0 \<le> x then with_fraction (take (nat x + 1) digits) (drop (nat x + 1) digits)
           else with_fraction ''0'' (replicate (nat (- x) - 1) CHR ''0'' @ digits))"

section \<open>The label\<close>

definition policy_text :: "entry_execution_policy \<Rightarrow> string" where
  "policy_text p = (case p of Policy_immediate \<Rightarrow> ''immediate'' | Policy_twap \<Rightarrow> ''twap''
     | Policy_adaptive_pov \<Rightarrow> ''adaptive_pov'')"

definition params_label :: "threshold_params \<Rightarrow> string" where
  "params_label p =
     (let stop = (case th_stop_loss_price p of None \<Rightarrow> ''hold'' | Some s \<Rightarrow> format_2f (fl_ratio s 1000000));
          armed = (case th_stop_loss_from_minute p of None \<Rightarrow> [] | Some m \<Rightarrow> ''@'' @ format_g m)
      in ''m'' @ format_g (th_entry_from_minute p) @ ''-'' @ format_g (th_entry_to_minute p)
         @ ''_e'' @ format_2f (fl_ratio (th_entry_trigger_price p) 1000000)
         @ ''_x'' @ stop @ armed
         @ ''_s'' @ format_g (fl_ratio (or_zero (th_order_shares p)) 1000000)
         @ ''_p'' @ policy_text (th_entry_execution_policy p))"

lemma demo_label: "params_label demo_params = ''m12-14_e0.80_x0.75_s100_pimmediate''"
  by code_simp

lemma format_g_examples:
  "map format_g [Flt 1 (-1), Flt 1000000 0, Flt 1234567 0, fl_ratio 1 10000, fl_ratio 1 30000, fl_ratio 2 3,
      fl_ratio 9999999 10]
    = [''0.5'', ''1e+06'', ''1.23457e+06'', ''0.0001'', ''3.33333e-05'', ''0.666667'', ''1e+06'']"
  by code_simp

end
