(* ===== verification/Verify.thy ===== *)
theory Verify
  imports Recorded Matched Labels Fastrun
begin

text \<open>
  \<^verbatim>\<open>compare_episode\<close> of \<^verbatim>\<open>backtest/verify.py\<close>: both simulators over one episode under matched
  assumptions, and the figures set side by side.  What makes the two agree is proved where the parts
  are: the fills of one order in \<open>Matched\<close>, the books in \<open>Recorded\<close>.
\<close>

record comparison =
  cmp_condition_id :: string
  cmp_market_slug :: string
  cmp_engine_entry_shares :: int
  cmp_fast_entry_shares :: int
  cmp_engine_entry_notional :: int
  cmp_fast_entry_notional :: int
  cmp_engine_exit_shares :: int
  cmp_fast_exit_shares :: int
  cmp_engine_exit_notional :: int
  cmp_fast_exit_notional :: int
  cmp_engine_fees :: int
  cmp_fast_fees :: int
  cmp_engine_net_pnl :: int
  cmp_fast_net_pnl :: int
  cmp_fast_result :: "episode_result option"

definition entry_matches :: "comparison \<Rightarrow> bool" where
  "entry_matches x \<longleftrightarrow>
     cmp_engine_entry_shares x = cmp_fast_entry_shares x
     \<and> cmp_engine_entry_notional x = cmp_fast_entry_notional x"

definition exit_matches :: "comparison \<Rightarrow> bool" where
  "exit_matches x \<longleftrightarrow>
     cmp_engine_exit_shares x = cmp_fast_exit_shares x
     \<and> cmp_engine_exit_notional x = cmp_fast_exit_notional x"

definition pnl_difference :: "comparison \<Rightarrow> int" where
  "pnl_difference x = cmp_engine_net_pnl x - cmp_fast_net_pnl x"

definition agrees :: "comparison \<Rightarrow> bool" where
  "agrees x \<longleftrightarrow> entry_matches x \<and> exit_matches x \<and> pnl_difference x = 0"

text \<open>The loop over every fill of every order: shares and notional by side, fees together.\<close>

record fill_totals =
  ft_entry_shares :: int
  ft_entry_notional :: int
  ft_exit_shares :: int
  ft_exit_notional :: int
  ft_fees :: int

definition add_fill :: "side \<Rightarrow> simulated_fill \<Rightarrow> fill_totals \<Rightarrow> fill_totals" where
  "add_fill s f acc =
     (let acc1 = (if s = BUY
                  then acc\<lparr>ft_entry_shares := ft_entry_shares acc + sf_size f,
                           ft_entry_notional := ft_entry_notional acc + sf_notional f\<rparr>
                  else acc\<lparr>ft_exit_shares := ft_exit_shares acc + sf_size f,
                           ft_exit_notional := ft_exit_notional acc + sf_notional f\<rparr>)
      in acc1\<lparr>ft_fees := ft_fees acc1 + sf_fee f\<rparr>)"

definition engine_totals :: "order_result list \<Rightarrow> fill_totals" where
  "engine_totals results =
     fold (\<lambda>r. fold (add_fill (oi_side (or_intent r))) (or_fills r)) results
       \<lparr>ft_entry_shares = 0, ft_entry_notional = 0, ft_exit_shares = 0, ft_exit_notional = 0, ft_fees = 0\<rparr>"

text \<open>The configuration the comparison gives the engine.\<close>

definition comparison_config :: "dec_literal \<Rightarrow> int \<Rightarrow> int \<Rightarrow> fee_config \<Rightarrow> string \<Rightarrow> backtest_config" where
  "comparison_config starting_cash seed latency_ms fee fee_version =
     \<lparr>cf_starting_cash = starting_cash, cf_replay_clock = LOCAL_RECEIVE_TIME, cf_reject_on_gap = False,
      cf_random_seed = seed, cf_allow_negative_cash = False, cf_allow_short_positions = False,
      cf_latency = constant_latency latency_ms, cf_fee = fee, cf_fee_version = fee_version,
      cf_maker_queue_model = CONSERVATIVE\<rparr>"

text \<open>What one comparison is made from: the tape and the rows of the same episode, and the seeded generators.\<close>

record 'r comparison_env =
  vy_rng :: "'r rng"
  vy_params :: threshold_params
  vy_realism :: execution_realism
  vy_fee_version :: string
  vy_tape :: tape
  vy_rows :: "book_event list"
  vy_fast_seed :: 'r
  vy_engine_seed :: 'r

definition compare_episode :: "'r comparison_env \<Rightarrow> int \<Rightarrow> dec_literal \<Rightarrow> int \<Rightarrow> py_error + comparison" where
  "compare_episode env latency_ms starting_cash seed =
     (let e = tape_episode (vy_tape env);
          comparable = engine_comparable_realism (vy_realism env) latency_ms;
          engine_env = \<lparr>ev_config = comparison_config starting_cash seed latency_ms (er_fee comparable)
                          (vy_fee_version env),
                        ev_strategy = threshold_hold_strategy (params_label (vy_params env)),
                        ev_rng = vy_rng env, ev_intervals = []\<rparr>
      in res_bind (run (vy_rng env) (vy_params env) comparable (vy_tape env) None (vy_fast_seed env)) (\<lambda>fast.
         res_bind (make_engine engine_env
             (make_threshold_strategy (params_label (vy_params env)) (vy_params env) e) (vy_engine_seed env)) (\<lambda>engine.
         res_bind (episode_events e (vy_rows env) DEFAULT_RESOLUTION_DELAY_NS True) (\<lambda>events.
         res_bind (engine_run engine_env events engine) (\<lambda>(engine', summary).
           let totals = engine_totals (en_order_results engine')
           in Inr \<lparr>cmp_condition_id = ep_condition_id e, cmp_market_slug = ep_market_slug e,
                cmp_engine_entry_shares = ft_entry_shares totals, cmp_fast_entry_shares = sr_entry_shares fast,
                cmp_engine_entry_notional = ft_entry_notional totals,
                cmp_fast_entry_notional = sr_entry_notional fast,
                cmp_engine_exit_shares = ft_exit_shares totals, cmp_fast_exit_shares = sr_exit_shares fast,
                cmp_engine_exit_notional = ft_exit_notional totals,
                cmp_fast_exit_notional = sr_exit_notional fast,
                cmp_engine_fees = ft_fees totals, cmp_fast_fees = sr_fees fast,
                cmp_engine_net_pnl = su_net_pnl summary, cmp_fast_net_pnl = sr_net_pnl fast,
                cmp_fast_result = Some fast\<rparr>)))))"

end
