(* ===== verification/Tapecache.thy ===== *)
theory Tapecache
  imports Tape
begin

text \<open>
  \<^verbatim>\<open>TapeCache\<close> of \<^verbatim>\<open>dashboard/backtest_service.py\<close>: loaded tapes, least recently used first, within
  a budget of bytes.  A \<^verbatim>\<open>get\<close> holds the lock twice, around its lookup and around its insertion, and
  loads in between; the step relation interleaves these parts of several calls with each
  other, with changes of the files on disk, and with \<^verbatim>\<open>episodes()\<close>, which clears the cache when it notices
  that the index file has another modification time than the one it saw last.
\<close>

section \<open>The cache\<close>

text \<open>\<^verbatim>\<open>EpisodeTape.resident_bytes\<close>: eight bytes for each of the eight scalar columns.\<close>

definition resident_bytes :: "tape \<Rightarrow> int" where
  "resident_bytes t = 8 * 8 * int (length (tape_rows t)) + 24 * int (length (tape_trades t)) + 4096"

record tape_cache =
  tk_budget_bytes :: int
  tk_entries :: "(string \<times> tape) list"
  tk_bytes :: int
  tk_hits :: nat
  tk_misses :: nat

definition make_cache :: "int \<Rightarrow> tape_cache" where
  "make_cache budget =
     \<lparr>tk_budget_bytes = budget, tk_entries = [], tk_bytes = 0, tk_hits = 0, tk_misses = 0\<rparr>"

definition dict_remove :: "'k \<Rightarrow> ('k \<times> 'v) list \<Rightarrow> ('k \<times> 'v) list" where
  "dict_remove k d = filter (\<lambda>(j, _). j \<noteq> k) d"

definition move_to_end :: "'k \<Rightarrow> 'v \<Rightarrow> ('k \<times> 'v) list \<Rightarrow> ('k \<times> 'v) list" where
  "move_to_end k v d = dict_remove k d @ [(k, v)]"

text \<open>The first locked section of \<^verbatim>\<open>get\<close>.\<close>

definition cache_lookup :: "episode \<Rightarrow> tape_cache \<Rightarrow> tape option \<times> tape_cache" where
  "cache_lookup e c =
     (case map_of (tk_entries c) (ep_condition_id e) of
        None \<Rightarrow> (None, c)
      | Some t \<Rightarrow> (Some t, c\<lparr>tk_entries := move_to_end (ep_condition_id e) t (tk_entries c),
                             tk_hits := tk_hits c + 1\<rparr>))"

text \<open>The eviction loop: oldest first, while over budget and more than one entry is left.\<close>

fun evict :: "int \<Rightarrow> (string \<times> tape) list \<Rightarrow> int \<Rightarrow> (string \<times> tape) list \<times> int" where
  "evict budget ((k, t) # e # es) bytes =
     (if budget < bytes then evict budget (e # es) (bytes - resident_bytes t) else ((k, t) # e # es, bytes))"
| "evict budget es bytes = (es, bytes)"

text \<open>The second locked section.\<close>

definition cache_insert :: "episode \<Rightarrow> tape \<Rightarrow> tape_cache \<Rightarrow> tape_cache" where
  "cache_insert e t c =
     (let c1 = c\<lparr>tk_misses := tk_misses c + 1\<rparr> in
      if map_of (tk_entries c) (ep_condition_id e) \<noteq> None then c1
      else
        let (entries, bytes) = evict (tk_budget_bytes c) (tk_entries c @ [(ep_condition_id e, t)])
                                 (tk_bytes c + resident_bytes t)
        in c1\<lparr>tk_entries := entries, tk_bytes := bytes\<rparr>)"

definition cache_clear :: "tape_cache \<Rightarrow> tape_cache" where
  "cache_clear c = c\<lparr>tk_entries := [], tk_bytes := 0\<rparr>"

text \<open>A \<^verbatim>\<open>get\<close> that nothing interrupts.\<close>

definition cache_get :: "(episode \<Rightarrow> py_error + tape) \<Rightarrow> episode \<Rightarrow> tape_cache \<Rightarrow> tape_cache \<times> (py_error + tape)" where
  "cache_get load e c =
     (case cache_lookup e c of
        (Some t, c1) \<Rightarrow> (c1, Inr t)
      | (None, c1) \<Rightarrow>
          (case load e of
             Inl x \<Rightarrow> (c1, Inl x)
           | Inr t \<Rightarrow> (cache_insert e t c1, Inr t)))"

section \<open>Interleavings\<close>

text \<open>
  The cache; the calls that have missed and still have to load; the tapes loaded and not yet stored; what
  loading an episode gives at present; the modification time of the index, the one last seen, and the one
  that a call of \<^verbatim>\<open>episodes()\<close> has just read and found new, while it reads the index and clears the cache.
\<close>

record cache_system =
  cy_cache :: tape_cache
  cy_loading :: "episode list"
  cy_flight :: "(episode \<times> tape) list"
  cy_disk :: "episode \<Rightarrow> py_error + tape"
  cy_mtime :: int
  cy_seen :: "int option"
  cy_stat :: "int option"

text \<open>
  What \<^verbatim>\<open>episodes()\<close> does to the cache once it has found the modification time new; the list of episodes
  it reads is a parameter of the selection.
\<close>

definition reload_index :: "int \<Rightarrow> cache_system \<Rightarrow> cache_system" where
  "reload_index mtime s =
     s\<lparr>cy_cache := cache_clear (cy_cache s), cy_seen := Some mtime, cy_stat := None\<rparr>"

text \<open>
  The refresh job rewrites tapes and index in any order (\<open>changed\<close>); \<^verbatim>\<open>episodes()\<close> notices a new index
  the next time it runs, one call at a time, and clears the cache then.
\<close>

inductive cache_step :: "cache_system \<Rightarrow> cache_system \<Rightarrow> bool" where
  hit: "cache_lookup e (cy_cache s) = (Some t, c) \<Longrightarrow> cache_step s (s\<lparr>cy_cache := c\<rparr>)"
| miss: "cache_lookup e (cy_cache s) = (None, c) \<Longrightarrow> cache_step s (s\<lparr>cy_loading := e # cy_loading s\<rparr>)"
| loaded: "cy_loading s = xs @ e # ys \<Longrightarrow> cy_disk s e = Inr t \<Longrightarrow>
     cache_step s (s\<lparr>cy_loading := xs @ ys, cy_flight := (e, t) # cy_flight s\<rparr>)"
| failed: "cy_loading s = xs @ e # ys \<Longrightarrow> cy_disk s e = Inl x \<Longrightarrow> cache_step s (s\<lparr>cy_loading := xs @ ys\<rparr>)"
| stored: "cy_flight s = xs @ (e, t) # ys \<Longrightarrow>
     cache_step s (s\<lparr>cy_flight := xs @ ys, cy_cache := cache_insert e t (cy_cache s)\<rparr>)"
| changed: "cache_step s (s\<lparr>cy_disk := d, cy_mtime := m\<rparr>)"
| noticed: "cy_stat s = None \<Longrightarrow> cy_seen s \<noteq> Some (cy_mtime s) \<Longrightarrow>
     cache_step s (s\<lparr>cy_stat := Some (cy_mtime s)\<rparr>)"
| cleared: "cy_stat s = Some m \<Longrightarrow>
     cache_step s (reload_index m s)"

inductive_cases cache_stepE: "cache_step s s'"

inductive reachable_cache :: "int \<Rightarrow> cache_system \<Rightarrow> bool" for budget where
  start: "reachable_cache budget \<lparr>cy_cache = make_cache budget, cy_loading = [], cy_flight = [], cy_disk = d,
     cy_mtime = m, cy_seen = None, cy_stat = None\<rparr>"
| step: "reachable_cache budget s \<Longrightarrow> cache_step s s' \<Longrightarrow> reachable_cache budget s'"

text \<open>The sizes of the entries, and what the cache keeps of them.\<close>

definition cached_bytes :: "(string \<times> tape) list \<Rightarrow> int" where
  "cached_bytes es = sum_list (map (\<lambda>(_, t). resident_bytes t) es)"

definition cache_inv :: "int \<Rightarrow> tape_cache \<Rightarrow> bool" where
  "cache_inv budget c \<longleftrightarrow>
     tk_budget_bytes c = budget \<and> distinct (map fst (tk_entries c))
     \<and> tk_bytes c = cached_bytes (tk_entries c)
     \<and> (cached_bytes (tk_entries c) \<le> budget \<or> length (tk_entries c) \<le> 1)"

lemma cached_bytes_simps [simp]:
  "cached_bytes [] = 0" "cached_bytes ((k, t) # es) = resident_bytes t + cached_bytes es"
  "cached_bytes (es @ fs) = cached_bytes es + cached_bytes fs"
  by (simp_all add: cached_bytes_def)

lemma resident_bytes_pos: "0 < resident_bytes t"
  by (simp add: resident_bytes_def)

lemma evict_spec:
  assumes "evict budget es (cached_bytes es) = (es', bytes)"
  shows "bytes = cached_bytes es' \<and> (cached_bytes es' \<le> budget \<or> length es' \<le> 1) \<and> (\<exists>old. es = old @ es')
    \<and> (es \<noteq> [] \<longrightarrow> es' \<noteq> []) \<and> (\<forall>old k t. es = old @ (k, t) # es' \<longrightarrow> budget < cached_bytes ((k, t) # es'))"
  using assms
proof (induction budget es "cached_bytes es" arbitrary: es' bytes rule: evict.induct)
  case (1 budget k t e es)
  show ?case
  proof (cases "budget < cached_bytes ((k, t) # e # es)")
    case True
    then have rest: "evict budget (e # es) (cached_bytes (e # es)) = (es', bytes)"
      using "1.prems" by simp
    have IH: "bytes = cached_bytes es' \<and> (cached_bytes es' \<le> budget \<or> length es' \<le> 1) \<and> (\<exists>old. e # es = old @ es')
        \<and> es' \<noteq> [] \<and> (\<forall>old k t. e # es = old @ (k, t) # es' \<longrightarrow> budget < cached_bytes ((k, t) # es'))"
      using "1.hyps" [OF True _ rest] by simp
    have "budget < cached_bytes ((j, u) # es')" if "(k, t) # e # es = old @ (j, u) # es'" for old j u
      using that IH True by (cases old) auto
    moreover obtain old where "e # es = old @ es'" using IH by blast
    then have "\<exists>old. (k, t) # e # es = old @ es'" by (intro exI [of _ "(k, t) # old"]) simp
    ultimately show ?thesis using IH by blast
  next
    case False
    with "1.prems" have "es' = (k, t) # e # es" "bytes = cached_bytes es'" by auto
    with False show ?thesis by auto
  qed
qed auto


text \<open>Removing a key and putting its value back last keeps keys, sizes and values.\<close>

lemma dict_remove_facts:
  assumes "distinct (map fst d)" "map_of d k = Some v"
  shows "distinct (map fst (move_to_end k v d))" "set (move_to_end k v d) = set d"
    "length (move_to_end k v d) = length d"
proof -
  have "distinct (map fst (move_to_end k v d)) \<and> set (move_to_end k v d) = set d
      \<and> length (move_to_end k v d) = length d"
    using assms
  proof (induction d)
    case (Cons p d)
    show ?case
    proof (cases "fst p = k")
      case True
      have "\<forall>q \<in> set d. fst q \<noteq> k" using Cons.prems(1) True by (auto simp: image_iff)
      then have "dict_remove k d = d" unfolding dict_remove_def by (intro filter_True) auto
      moreover have "p = (k, v)" using True Cons.prems by (cases p) simp
      ultimately have "dict_remove k (p # d) = d" "p = (k, v)" by (simp_all add: dict_remove_def)
      then show ?thesis using Cons.prems by (auto simp: move_to_end_def)
    next
      case False
      then show ?thesis using Cons by (cases p) (auto simp: move_to_end_def dict_remove_def)
    qed
  qed simp
  then show "distinct (map fst (move_to_end k v d))" "set (move_to_end k v d) = set d"
    "length (move_to_end k v d) = length d" by auto
qed

lemma move_to_end_bytes:
  assumes "distinct (map fst d)" "map_of d k = Some t"
  shows "cached_bytes (move_to_end k t d) = cached_bytes d"
proof -
  have "distinct d" using assms(1) by (simp add: distinct_map)
  moreover have "distinct (move_to_end k t d)"
    using dict_remove_facts(1) [OF assms] by (simp add: distinct_map)
  moreover have "set (move_to_end k t d) = set d" using dict_remove_facts(2) [OF assms] .
  ultimately show ?thesis
    unfolding cached_bytes_def by (simp add: sum_list_distinct_conv_sum_set)
qed

lemma cache_lookup_inv:
  assumes "cache_inv budget c" "cache_lookup e c = (x, c')"
  shows "cache_inv budget c'"
  using assms dict_remove_facts [of "tk_entries c" "ep_condition_id e"] move_to_end_bytes [of "tk_entries c"]
  by (auto simp: cache_lookup_def cache_inv_def split: option.splits)

lemma cache_insert_entries:
  assumes "cache_inv budget c"
  shows "\<exists>kept. tk_entries (cache_insert e t c) = kept @ (if map_of (tk_entries c) (ep_condition_id e) = None
             then [(ep_condition_id e, t)] else [])
      \<and> (\<exists>old. tk_entries c = old @ kept) \<and> cache_inv budget (cache_insert e t c)"
proof (cases "map_of (tk_entries c) (ep_condition_id e)")
  case (Some u)
  with assms show ?thesis by (auto simp: cache_insert_def cache_inv_def)
next
  case None
  let ?k = "ep_condition_id e"
  obtain es bytes where ev: "evict budget (tk_entries c @ [(?k, t)]) (cached_bytes (tk_entries c @ [(?k, t)]))
      = (es, bytes)" by (meson surj_pair)
  note spec = evict_spec [OF ev]
  obtain old where old: "tk_entries c @ [(?k, t)] = old @ es" "es \<noteq> []" using spec by blast
  then obtain kept where kept: "es = kept @ [(?k, t)]" "tk_entries c = old @ kept"
    by (metis butlast_append butlast_snoc append_butlast_last_id last_appendR last_snoc)
  have new: "cache_insert e t c = c\<lparr>tk_misses := tk_misses c + 1, tk_entries := es, tk_bytes := bytes\<rparr>"
    using None ev assms by (simp add: cache_insert_def cache_inv_def)
  have "?k \<notin> fst ` set (tk_entries c)" using None by (simp add: map_of_eq_None_iff)
  then have "distinct (map fst es)" using assms kept by (auto simp: cache_inv_def)
  then have "cache_inv budget (cache_insert e t c)"
    using spec assms by (simp add: new cache_inv_def)
  with kept None show ?thesis by (auto simp: new)
qed

lemma cache_step_inv:
  assumes "cache_step s s'" "cache_inv budget (cy_cache s)"
  shows "cache_inv budget (cy_cache s')"
  using assms(1)
proof (cases rule: cache_step.cases)
  case (hit e t c)
  with cache_lookup_inv [OF assms(2) hit(2)] show ?thesis by simp
next
  case (stored xs e t ys)
  have "cache_inv budget (cache_insert e t (cy_cache s))"
    using cache_insert_entries [OF assms(2), of e t] by blast
  with stored show ?thesis by simp
qed (use assms(2) in \<open>simp_all add: reload_index_def cache_clear_def cache_inv_def\<close>)

lemma reachable_cache_inv: "reachable_cache budget s \<Longrightarrow> cache_inv budget (cy_cache s)"
proof (induction rule: reachable_cache.induct)
  case (start d m)
  then show ?case by (simp add: make_cache_def cache_inv_def)
qed (rule cache_step_inv)


text \<open>While the files on disk stay as they are, a cache of what they give stays one.\<close>

definition undisturbed :: "cache_system \<Rightarrow> cache_system \<Rightarrow> bool" where
  "undisturbed s s' \<longleftrightarrow> cache_step s s' \<and> cy_disk s' = cy_disk s"

definition current :: "cache_system \<Rightarrow> bool" where
  "current s \<longleftrightarrow>
     (\<forall>(k, t) \<in> set (tk_entries (cy_cache s)). \<exists>e. ep_condition_id e = k \<and> cy_disk s e = Inr t)
     \<and> (\<forall>(e, t) \<in> set (cy_flight s). cy_disk s e = Inr t)"

lemma insert_entries_subset:
  assumes "cache_inv budget c"
  shows "set (tk_entries (cache_insert e t c)) \<subseteq> insert (ep_condition_id e, t) (set (tk_entries c))"
proof -
  obtain kept old where "tk_entries c = old @ kept"
    "tk_entries (cache_insert e t c) = kept @ (if map_of (tk_entries c) (ep_condition_id e) = None
             then [(ep_condition_id e, t)] else [])"
    using cache_insert_entries [OF assms, of e t] by blast
  then show ?thesis by auto
qed

lemma lookup_entries:
  assumes "cache_inv budget c" "cache_lookup e c = (x, c')"
  shows "set (tk_entries c') = set (tk_entries c)"
  using assms dict_remove_facts(2) [of "tk_entries c" "ep_condition_id e"]
  by (auto simp: cache_lookup_def cache_inv_def split: option.splits)

lemma undisturbed_current:
  assumes "undisturbed s s'" "cache_inv budget (cy_cache s)" "current s"
  shows "current s'"
proof -
  have step: "cache_step s s'" "cy_disk s' = cy_disk s" using assms(1) by (auto simp: undisturbed_def)
  from step(1) show ?thesis
  proof (cases rule: cache_step.cases)
    case (hit e t c)
    with lookup_entries [OF assms(2) hit(2)] assms(3) show ?thesis by (simp add: current_def)
  next
    case (stored xs e t ys)
    with insert_entries_subset [OF assms(2), of e t] assms(3) show ?thesis by (fastforce simp: current_def)
  next
    case (changed d m)
    with step(2) assms(3) show ?thesis by (simp add: current_def)
  qed (use assms(3) in \<open>simp_all add: current_def reload_index_def cache_clear_def\<close>)
qed

text \<open>
  A cached tape stays the one it is until its entry goes, by eviction or by the clearing: no step replaces
  it.
\<close>

definition keeping :: "episode \<Rightarrow> cache_system \<Rightarrow> cache_system \<Rightarrow> bool" where
  "keeping e s s' \<longleftrightarrow> cache_step s s' \<and> map_of (tk_entries (cy_cache s')) (ep_condition_id e) \<noteq> None"

lemma map_of_subset:
  assumes "distinct (map fst d)" "set d' \<subseteq> insert (j, u) (set d)" "map_of d k = Some t" "j \<noteq> k \<or> u = t"
    "map_of d' k \<noteq> None"
  shows "map_of d' k = Some t"
proof -
  obtain v where v: "map_of d' k = Some v" using assms(5) by auto
  then have "(k, v) \<in> insert (j, u) (set d)" using map_of_SomeD assms(2) by fastforce
  then have "v = t"
    using eq_key_imp_eq_value [OF assms(1), of k v t] map_of_SomeD [OF assms(3)] assms(4) by auto
  with v show ?thesis by simp
qed

lemma keeping_value:
  assumes "keeping e s s'" "cache_inv budget (cy_cache s)" "map_of (tk_entries (cy_cache s)) (ep_condition_id e) = Some t"
  shows "map_of (tk_entries (cy_cache s')) (ep_condition_id e) = Some t"
proof -
  have step: "cache_step s s'" "map_of (tk_entries (cy_cache s')) (ep_condition_id e) \<noteq> None"
    using assms(1) by (auto simp: keeping_def)
  have d: "distinct (map fst (tk_entries (cy_cache s)))" using assms(2) by (simp add: cache_inv_def)
  from step(1) show ?thesis
  proof (cases rule: cache_step.cases)
    case (hit f u c)
    have "set (tk_entries (cy_cache s')) \<subseteq> insert (ep_condition_id e, t) (set (tk_entries (cy_cache s)))"
      using lookup_entries [OF assms(2) hit(2)] hit(1) by auto
    from map_of_subset [OF d this assms(3) _ step(2)] show ?thesis by simp
  next
    case (stored xs f u ys)
    show ?thesis
    proof (cases "ep_condition_id f = ep_condition_id e")
      case True
      then have "tk_entries (cy_cache s') = tk_entries (cy_cache s)"
        using assms(3) stored(1) by (simp add: cache_insert_def)
      with assms(3) show ?thesis by simp
    next
      case False
      have "set (tk_entries (cy_cache s')) \<subseteq> insert (ep_condition_id f, u) (set (tk_entries (cy_cache s)))"
        using insert_entries_subset [OF assms(2), of f u] stored(1) by simp
      from map_of_subset [OF d this assms(3) _ step(2)] False show ?thesis by simp
    qed
  next
    case (cleared m)
    with step(2) show ?thesis by (simp add: reload_index_def cache_clear_def)
  qed (use assms(3) in simp_all)
qed

lemma kept_lookup:
  assumes "(keeping e)\<^sup>*\<^sup>* s s'" "cache_inv budget (cy_cache s)"
    "map_of (tk_entries (cy_cache s)) (ep_condition_id e) = Some t"
  shows "fst (cache_lookup e (cy_cache s')) = Some t"
proof -
  have "cache_inv budget (cy_cache s') \<and> map_of (tk_entries (cy_cache s')) (ep_condition_id e) = Some t"
    using assms(1)
  proof (induction rule: rtranclp_induct)
    case (step u v)
    then show ?case
      using cache_step_inv [of u v budget] keeping_value [of e u v budget t] by (auto simp: keeping_def)
  qed (use assms(2,3) in simp)
  then show ?thesis by (simp add: cache_lookup_def)
qed

section \<open>Properties\<close>

definition demo_cached :: tape where "demo_cached = load_tape demo_episode [] [] []"

text \<open>
  C24. The cache keeps its account under every interleaving.  However the locked sections of
  concurrent calls interleave with refreshes, no episode is cached twice, the byte count is the
  sum over the cached tapes, and it is within the budget unless a single tape alone exceeds it.
\<close>

theorem cache_within_budget:
  assumes "reachable_cache budget s"
  shows "distinct (map fst (tk_entries (cy_cache s)))
    \<and> tk_bytes (cy_cache s) = sum_list (map (\<lambda>(_, t). resident_bytes t) (tk_entries (cy_cache s)))
    \<and> (tk_bytes (cy_cache s) \<le> budget
        \<or> (\<exists>k t. tk_entries (cy_cache s) = [(k, t)] \<and> budget < resident_bytes t)
        \<or> budget < 0 \<and> tk_entries (cy_cache s) = [])"
proof -
  note inv = reachable_cache_inv [OF assms, unfolded cache_inv_def]
  show ?thesis
    using inv by (cases "tk_entries (cy_cache s)") (auto simp: cached_bytes_def)
qed

theorem cache_within_budget_witness:
  "let c = cache_insert demo_episode demo_cached (make_cache 0)
   in tk_bytes c = 4096 \<and> map fst (tk_entries c) = [ep_condition_id demo_episode]"
proof -
  define s where "s = \<lparr>cy_cache = make_cache 0, cy_loading = [], cy_flight = [], cy_disk = (\<lambda>_. Inr demo_cached),
    cy_mtime = 1, cy_seen = None, cy_stat = None\<rparr>"
  let ?s0 = "s\<lparr>cy_loading := [demo_episode]\<rparr>"
  let ?s1 = "?s0\<lparr>cy_loading := [], cy_flight := [(demo_episode, demo_cached)]\<rparr>"
  let ?s2 = "?s1\<lparr>cy_flight := [], cy_cache := cache_insert demo_episode demo_cached (cy_cache ?s1)\<rparr>"
  have "reachable_cache 0 s" unfolding s_def by (rule reachable_cache.start)
  moreover have "cache_step s ?s0"
    using miss [of demo_episode s "cy_cache s"] by (simp add: s_def cache_lookup_def make_cache_def)
  moreover have "cache_step ?s0 ?s1"
    using loaded [of ?s0 "[]" demo_episode "[]" demo_cached] by (simp add: s_def)
  moreover have "cache_step ?s1 ?s2" using stored [of ?s1 "[]" demo_episode demo_cached "[]"] by simp
  ultimately have "reachable_cache 0 ?s2" by (meson reachable_cache.step)
  from cache_within_budget [OF this] show ?thesis
    by (simp add: s_def cache_insert_def make_cache_def resident_bytes_def demo_cached_def load_tape_def)
qed

text \<open>
  A get that nothing interrupts is the loader with a memory.  It returns the cached tape of the
  episode, or what the loader gives, and an error leaves the cache alone; afterwards the episode is
  the most recently used entry, so it is evicted last, and whatever was evicted was used less
  recently than everything kept.
\<close>

theorem cache_get_most_recent:
  assumes "cache_inv budget c" "cache_get load e c = (c', r)"
  shows "cache_inv budget c'
    \<and> (case map_of (tk_entries c) (ep_condition_id e) of
         Some t \<Rightarrow> r = Inr t \<and> tk_hits c' = tk_hits c + 1
       | None \<Rightarrow> r = load e \<and> tk_hits c' = tk_hits c)
    \<and> (case r of
         Inl _ \<Rightarrow> c' = c
       | Inr t \<Rightarrow> \<exists>old kept. dict_remove (ep_condition_id e) (tk_entries c) = old @ kept
                   \<and> tk_entries c' = kept @ [(ep_condition_id e, t)])"
proof (cases "map_of (tk_entries c) (ep_condition_id e)")
  case (Some t)
  then have "c' = snd (cache_lookup e c)" "r = Inr t" "cache_lookup e c = (Some t, c')"
    using assms(2) by (auto simp: cache_get_def cache_lookup_def)
  with cache_lookup_inv [OF assms(1) this(3)] Some show ?thesis
    by (auto simp: cache_lookup_def move_to_end_def intro: exI [of _ "[]"])
next
  case None
  show ?thesis
  proof (cases "load e")
    case (Inl x)
    then have "c' = c" "r = Inl x" using None assms(2) by (simp_all add: cache_get_def cache_lookup_def)
    with Inl None assms(1) show ?thesis by simp
  next
    case (Inr t)
    then have get: "c' = cache_insert e t c" "r = Inr t"
      using None assms(2) by (simp_all add: cache_get_def cache_lookup_def)
    obtain kept old where kept: "tk_entries (cache_insert e t c) = kept @ [(ep_condition_id e, t)]"
      "tk_entries c = old @ kept" "cache_inv budget (cache_insert e t c)"
      using cache_insert_entries [OF assms(1), of e t] None by auto
    have "ep_condition_id e \<notin> fst ` set (tk_entries c)" using None by (simp add: map_of_eq_None_iff)
    then have "dict_remove (ep_condition_id e) (tk_entries c) = tk_entries c"
      unfolding dict_remove_def by (intro filter_True) force
    then have "\<exists>old kept. dict_remove (ep_condition_id e) (tk_entries c) = old @ kept
        \<and> tk_entries c' = kept @ [(ep_condition_id e, t)]"
      using kept(1,2) get(1) by auto
    moreover have "tk_hits c' = tk_hits c"
      by (simp add: get cache_insert_def Let_def split: prod.split)
    ultimately show ?thesis using None Inr get(2) kept(3) by (simp add: get(1))
  qed
qed

theorem cache_get_most_recent_witness:
  "\<exists>c. cache_get (\<lambda>_. Inr demo_cached) demo_episode (make_cache 100000) = (c, Inr demo_cached)
     \<and> tk_hits c = 0 \<and> tk_entries c = [(ep_condition_id demo_episode, demo_cached)]"
proof -
  obtain c where c: "cache_get (\<lambda>_. Inr demo_cached) demo_episode (make_cache 100000) = (c, Inr demo_cached)"
    by (simp add: cache_get_def cache_lookup_def make_cache_def)
  have "cache_inv 100000 (make_cache 100000)" by (simp add: cache_inv_def make_cache_def)
  from cache_get_most_recent [OF this c] c show ?thesis by (simp add: make_cache_def dict_remove_def)
qed


definition rebuilt_tape :: tape where
  "rebuilt_tape = demo_cached\<lparr>tape_trades := [(1, 0, 5)]\<rparr>"


end
