(* ===== verification/Sweep.thy ===== *)
theory Sweep
  imports Fastrun Labels Metrics
begin

text \<open>
  \<^verbatim>\<open>backtest/sweep.py\<close>: the grid of variants, the sweep that runs each over every eligible episode,
  the figures a variant is judged by, and walk-forward selection.  Loading a tape and the seed a
  simulator derives for an episode are parameters; rendering and writing the report is left out.
\<close>

section \<open>Figures of a variant\<close>

record variant =
  va_params :: threshold_params
  va_realism :: execution_realism

definition variant_label :: "variant \<Rightarrow> string" where
  "variant_label v = params_label (va_params v) @ ''|'' @ er_name (va_realism v)"

record variant_metrics =
  vm_label :: string
  vm_realism :: string
  vm_episodes :: int
  vm_entries :: int
  vm_entry_rate_ppm :: int
  vm_side_correct :: int
  vm_side_correct_ppm :: int
  vm_profitable_trades :: int
  vm_win_rate_ppm :: int
  vm_net_pnl :: int
  vm_gross_pnl :: int
  vm_fees :: int
  vm_average_win :: int
  vm_average_loss :: int
  vm_profit_factor_ppm :: "int option"
  vm_max_drawdown :: int
  vm_peak_capital_at_risk :: int
  vm_stopped_out :: int
  vm_stop_out_ppm :: int
  vm_stops_unfilled :: int
  vm_unfilled_exit_shares :: int
  vm_average_stop_slippage :: "int option"
  vm_average_entry_fill_ppm :: int
  vm_execution_parents :: int
  vm_execution_target_shares :: int
  vm_execution_unfilled_shares :: int
  vm_execution_implementation_shortfall :: "int option"
  vm_execution_non_fill_penalty :: "int option"
  vm_execution_adverse_selection_penalty :: "int option"
  vm_execution_objective :: "int option"
  vm_settled_holds :: int
  vm_net_pnl_per_entry :: int
  vm_params :: "threshold_params option"

definition ppm_ratio :: "int \<Rightarrow> int \<Rightarrow> int" where
  "ppm_ratio numerator denominator = (if denominator = 0 then 0 else numerator * 1000000 div denominator)"

text \<open>The loop over the entered results: equity, its peak, the drawdown and the exposure.\<close>

record curve =
  cu_equity :: int
  cu_peak :: int
  cu_drawdown :: int
  cu_exposure :: int

definition curve_step :: "episode_result \<Rightarrow> curve \<Rightarrow> curve" where
  "curve_step r c =
     (let equity = cu_equity c + sr_net_pnl r;
          peak = max (cu_peak c) equity
      in \<lparr>cu_equity = equity, cu_peak = peak, cu_drawdown = max (cu_drawdown c) (peak - equity),
          cu_exposure = max (cu_exposure c) (sr_entry_notional r)\<rparr>)"

definition run_curve :: "episode_result list \<Rightarrow> curve" where
  "run_curve rs = fold curve_step rs \<lparr>cu_equity = 0, cu_peak = 0, cu_drawdown = 0, cu_exposure = 0\<rparr>"

definition requested_shares :: "episode_result \<Rightarrow> int" where
  "requested_shares r =
     (if sr_execution_target_shares r \<noteq> 0 then sr_execution_target_shares r
      else sum_list (map so_requested_shares (filter (\<lambda>o1. so_kind o1 = Kind_entry) (sr_orders r))))"

definition scored_sum :: "(episode_result \<Rightarrow> int option) \<Rightarrow> episode_result list \<Rightarrow> int option" where
  "scored_sum f scored = (if scored = [] then None else Some (sum_list (map (\<lambda>r. or_zero (f r)) scored)))"

definition tally :: "('a \<Rightarrow> bool) \<Rightarrow> 'a list \<Rightarrow> int" where
  "tally P xs = int (length (filter P xs))"

definition aggregate :: "string \<Rightarrow> string \<Rightarrow> episode_result list \<Rightarrow> threshold_params option \<Rightarrow> variant_metrics" where
  "aggregate label realism_name results params =
     (let entered = filter sr_entered results;
          entries = int (length entered);
          wins = filter (\<lambda>r. 0 < sr_net_pnl r) entered;
          losses = filter (\<lambda>r. sr_net_pnl r < 0) entered;
          stopped = filter (\<lambda>r. sr_exit_reason r = Exit_stop_loss
                      \<or> sr_exit_reason r = Exit_stop_unfilled_held_to_settlement) entered;
          unfilled = filter (\<lambda>r. 0 < sr_unfilled_exit_shares r) entered;
          slippages = concat (map (\<lambda>r. case sr_stop_slippage r of None \<Rightarrow> [] | Some x \<Rightarrow> [x]) entered);
          requested = sum_list (map requested_shares results);
          filled = sum_list (map sr_entry_shares results);
          scored = filter (\<lambda>r. sr_execution_objective r \<noteq> None) results;
          c = run_curve entered;
          gross_wins = sum_list (map sr_net_pnl wins);
          gross_losses = - sum_list (map sr_net_pnl losses);
          side_correct = tally (\<lambda>r. sr_won r = Some True) entered;
          net = sum_list (map sr_net_pnl entered)
      in \<lparr>vm_label = label, vm_realism = realism_name, vm_episodes = int (length results),
          vm_entries = entries, vm_entry_rate_ppm = ppm_ratio entries (int (length results)),
          vm_side_correct = side_correct, vm_side_correct_ppm = ppm_ratio side_correct entries,
          vm_profitable_trades = int (length wins), vm_win_rate_ppm = ppm_ratio (int (length wins)) entries,
          vm_net_pnl = net, vm_gross_pnl = sum_list (map sr_gross_pnl entered),
          vm_fees = sum_list (map sr_fees entered),
          vm_average_win = (if wins = [] then 0 else gross_wins div int (length wins)),
          vm_average_loss = (if losses = [] then 0 else gross_losses div int (length losses)),
          vm_profit_factor_ppm = (if gross_losses = 0 then None else Some (ppm_ratio gross_wins gross_losses)),
          vm_max_drawdown = cu_drawdown c, vm_peak_capital_at_risk = cu_exposure c,
          vm_stopped_out = int (length stopped), vm_stop_out_ppm = ppm_ratio (int (length stopped)) entries,
          vm_stops_unfilled = int (length unfilled),
          vm_unfilled_exit_shares = sum_list (map sr_unfilled_exit_shares unfilled),
          vm_average_stop_slippage =
            (if slippages = [] then None else Some (sum_list slippages div int (length slippages))),
          vm_average_entry_fill_ppm = (if requested = 0 then 0 else ppm_ratio filled requested),
          vm_execution_parents = tally (\<lambda>r. 0 < sr_execution_target_shares r) results,
          vm_execution_target_shares = requested,
          vm_execution_unfilled_shares = max 0 (requested - filled),
          vm_execution_implementation_shortfall = scored_sum sr_execution_implementation_shortfall scored,
          vm_execution_non_fill_penalty = scored_sum sr_execution_non_fill_penalty scored,
          vm_execution_adverse_selection_penalty =
            scored_sum sr_execution_adverse_selection_penalty scored,
          vm_execution_objective = scored_sum sr_execution_objective scored,
          vm_settled_holds = tally (\<lambda>r. sr_exit_reason r = Exit_settlement) entered,
          vm_net_pnl_per_entry = (if entered = [] then 0 else net div entries),
          vm_params = params\<rparr>)"

section \<open>The sweep\<close>

text \<open>What a runner keeps fixed besides its episodes: the generator, tapes, and the seed of an episode.\<close>

record 'r sweep_env =
  sw_rng :: "'r rng"
  sw_load :: "episode \<Rightarrow> py_error + tape"
  sw_seed :: "episode \<Rightarrow> 'r"

definition runner_episodes :: "episode list \<Rightarrow> episode list" where
  "runner_episodes es = sort_key ep_start_utc_ns (filter ep_eligible es)"

definition simulate :: "'r sweep_env \<Rightarrow> tape \<Rightarrow> episode \<Rightarrow> variant \<Rightarrow> py_error + episode_result" where
  "simulate env t e v = run (sw_rng env) (va_params v) (va_realism v) t None (sw_seed env e)"

text \<open>\<^verbatim>\<open>by_variant[label].append(...)\<close> for every variant of one episode.\<close>

type_synonym results_by_label = "(string \<times> episode_result list) list"

fun run_variants :: "'r sweep_env \<Rightarrow> tape \<Rightarrow> episode \<Rightarrow> variant list \<Rightarrow> results_by_label
    \<Rightarrow> py_error + results_by_label" where
  "run_variants env t e [] by_variant = Inr by_variant"
| "run_variants env t e (v # vs) by_variant =
     res_bind (simulate env t e v) (\<lambda>res.
       case map_of by_variant (variant_label v) of
         None \<Rightarrow> Inl (KeyError (variant_label v))
       | Some rs \<Rightarrow> run_variants env t e vs (dict_put (variant_label v) (rs @ [res]) by_variant))"

fun run_tapes :: "'r sweep_env \<Rightarrow> variant list \<Rightarrow> episode list \<Rightarrow> results_by_label
    \<Rightarrow> py_error + results_by_label" where
  "run_tapes env vs [] by_variant = Inr by_variant"
| "run_tapes env vs (e # es) by_variant =
     res_bind (sw_load env e) (\<lambda>t.
       res_bind (run_variants env t e vs by_variant) (run_tapes env vs es))"

definition no_results :: "variant list \<Rightarrow> results_by_label" where
  "no_results vs = fold (\<lambda>v. dict_put (variant_label v) []) vs []"

definition results_of :: "results_by_label \<Rightarrow> variant \<Rightarrow> episode_result list" where
  "results_of by_variant v = (case map_of by_variant (variant_label v) of None \<Rightarrow> [] | Some rs \<Rightarrow> rs)"

definition variant_figures :: "results_by_label \<Rightarrow> variant \<Rightarrow> variant_metrics" where
  "variant_figures by_variant v =
     aggregate (params_label (va_params v)) (er_name (va_realism v)) (results_of by_variant v) (Some (va_params v))"

definition sweep_run :: "'r sweep_env \<Rightarrow> episode list \<Rightarrow> variant list
    \<Rightarrow> py_error + variant_metrics list \<times> results_by_label" where
  "sweep_run env es vs =
     res_bind (run_tapes env vs (runner_episodes es) (no_results vs)) (\<lambda>by_variant.
       Inr (map (variant_figures by_variant) vs, by_variant))"

section \<open>The grid\<close>

text \<open>
  The keyword arguments that every variant shares are a template of the parameters; its fields that
  the grid sets itself are overwritten.
\<close>

definition grid_params :: "threshold_params \<Rightarrow> int \<Rightarrow> pyfloat \<times> pyfloat \<Rightarrow> int \<Rightarrow> int option \<Rightarrow> int \<Rightarrow> threshold_params" where
  "grid_params fixed offset window trigger stop amount =
     fixed\<lparr>th_entry_from_minute := fst window, th_entry_to_minute := snd window,
       th_entry_trigger_price := trigger, th_entry_limit_price := min 1000000 (trigger + offset),
       th_stop_loss_price := stop, th_order_shares := Some amount,
       th_stop_loss_from_minute := (if stop = None then None else th_stop_loss_from_minute fixed)\<rparr>"

text \<open>The nesting of \<^verbatim>\<open>itertools.product\<close>: the last iterable varies fastest.\<close>

definition grid_cells :: "(pyfloat \<times> pyfloat) list \<Rightarrow> int list \<Rightarrow> int option list \<Rightarrow> int list \<Rightarrow> preset_name list
    \<Rightarrow> ((pyfloat \<times> pyfloat) \<times> int \<times> int option \<times> int \<times> preset_name) list" where
  "grid_cells windows triggers stops sizes names =
     concat (map (\<lambda>w. concat (map (\<lambda>t. concat (map (\<lambda>s. concat (map (\<lambda>z. map (\<lambda>n. (w, t, s, z, n)) names)
       sizes)) stops)) triggers)) windows)"

fun grid_loop :: "threshold_params \<Rightarrow> int \<Rightarrow> ((pyfloat \<times> pyfloat) \<times> int \<times> int option \<times> int \<times> preset_name) list
    \<Rightarrow> py_error + variant list" where
  "grid_loop fixed offset [] = Inr []"
| "grid_loop fixed offset ((window, trigger, stop, amount, name) # cells) =
     (if opt_all (\<lambda>s. s < trigger) stop
      then res_bind (make_params (grid_params fixed offset window trigger stop amount)) (\<lambda>p.
           res_bind (grid_loop fixed offset cells) (\<lambda>vs.
             Inr (\<lparr>va_params = p, va_realism = preset name None None\<rparr> # vs)))
      else grid_loop fixed offset cells)"

definition grid :: "threshold_params \<Rightarrow> int \<Rightarrow> (pyfloat \<times> pyfloat) list \<Rightarrow> int list \<Rightarrow> int option list \<Rightarrow> int list
    \<Rightarrow> preset_name list \<Rightarrow> py_error + variant list" where
  "grid fixed offset windows triggers stops sizes names =
     grid_loop fixed offset (grid_cells windows triggers stops sizes names)"

section \<open>Walk-forward\<close>

record walk_forward_fold =
  wk_fold :: nat
  wk_train_episodes :: nat
  wk_test_episodes :: nat
  wk_selected_label :: string
  wk_train_net_pnl :: int
  wk_test_net_pnl :: int
  wk_test_entries :: int
  wk_test_win_rate_ppm :: int

definition train_block :: "episode list \<Rightarrow> nat \<Rightarrow> nat \<Rightarrow> episode list" where
  "train_block ordered block k = take (block * (k + 1)) ordered"

definition test_block :: "episode list \<Rightarrow> nat \<Rightarrow> nat \<Rightarrow> episode list" where
  "test_block ordered block k = take block (drop (block * (k + 1)) ordered)"

definition best_index :: "variant_metrics list \<Rightarrow> nat" where
  "best_index metrics = first_max (\<lambda>i. vm_net_pnl (metrics ! i)) 0 [1..<length metrics]"

definition run_fold :: "'r sweep_env \<Rightarrow> episode list \<Rightarrow> variant list \<Rightarrow> nat \<Rightarrow> nat \<Rightarrow> py_error + walk_forward_fold" where
  "run_fold env ordered candidates block k =
     (let train = train_block ordered block k; test = test_block ordered block k in
      res_bind (sweep_run env train candidates) (\<lambda>(train_metrics, _).
        let j = best_index train_metrics; best = candidates ! j in
        res_bind (sweep_run env test [best]) (\<lambda>(test_metrics, _).
          Inr \<lparr>wk_fold = k, wk_train_episodes = length train, wk_test_episodes = length test,
               wk_selected_label = variant_label best, wk_train_net_pnl = vm_net_pnl (train_metrics ! j),
               wk_test_net_pnl = vm_net_pnl (test_metrics ! 0), wk_test_entries = vm_entries (test_metrics ! 0),
               wk_test_win_rate_ppm = vm_win_rate_ppm (test_metrics ! 0)\<rparr>)))"

text \<open>The loop over the folds ends early at an empty test block.\<close>

fun run_folds :: "'r sweep_env \<Rightarrow> episode list \<Rightarrow> variant list \<Rightarrow> nat \<Rightarrow> nat list \<Rightarrow> py_error + walk_forward_fold list" where
  "run_folds env ordered candidates block [] = Inr []"
| "run_folds env ordered candidates block (k # ks) =
     (if test_block ordered block k = [] then Inr []
      else res_bind (run_fold env ordered candidates block k) (\<lambda>x.
           res_bind (run_folds env ordered candidates block ks) (\<lambda>xs. Inr (x # xs))))"

definition walk_forward :: "'r sweep_env \<Rightarrow> episode list \<Rightarrow> variant list \<Rightarrow> int \<Rightarrow> string
    \<Rightarrow> py_error + walk_forward_fold list" where
  "walk_forward env es vs folds selection_realism =
     (let ordered = runner_episodes es in
      if folds < 2 \<or> int (length ordered) < folds * 2
      then Inl (ValueError ''not enough episodes for the requested number of folds'')
      else
        let block = length ordered div nat (folds + 1);
            candidates = filter (\<lambda>v. er_name (va_realism v) = selection_realism) vs
        in if candidates = [] then Inl (ValueError ''no variants use realism preset'')
           else run_folds env ordered candidates block [0..<nat folds])"

section \<open>Facts on the sweep\<close>

lemma run_curve_Nil [simp]:
  "run_curve [] = \<lparr>cu_equity = 0, cu_peak = 0, cu_drawdown = 0, cu_exposure = 0\<rparr>"
  by (simp add: run_curve_def)

text \<open>The equity curve of a list of results: what has been won by each of them.\<close>

definition equity_curve :: "int \<Rightarrow> episode_result list \<Rightarrow> int list" where
  "equity_curve start rs = map (\<lambda>k. start + sum_list (map sr_net_pnl (take (Suc k) rs))) [0..<length rs]"

lemma equity_curve_Cons:
  "equity_curve start (r # rs) = (start + sr_net_pnl r) # equity_curve (start + sr_net_pnl r) rs"
  by (simp add: equity_curve_def upt_conv_Cons map_Suc_upt [symmetric] comp_def add.assoc del: upt_Suc)

lemma curve_is_drawdown:
  "let c = fold curve_step rs \<lparr>cu_equity = e, cu_peak = p, cu_drawdown = d, cu_exposure = x\<rparr>
   in cu_drawdown c = drawdown_loop (equity_curve e rs) p d \<and> cu_equity c = e + sum_list (map sr_net_pnl rs)
      \<and> cu_exposure c = fold max (map sr_entry_notional rs) x"
proof (induction rs arbitrary: e p d x)
  case Nil
  then show ?case by (simp add: equity_curve_def)
next
  case (Cons r rs)
  show ?case
    using Cons.IH [of "e + sr_net_pnl r" "max p (e + sr_net_pnl r)" "max d (max p (e + sr_net_pnl r) - (e + sr_net_pnl r))"
        "max x (sr_entry_notional r)"]
    by (simp add: curve_step_def equity_curve_Cons Let_def max.commute add.assoc)
qed

lemma maximum_drawdown_from: "maximum_drawdown (v # vs) = drawdown_loop vs v 0"
  by (simp add: maximum_drawdown_def)

lemma drawdown_loop_ge: "d \<le> drawdown_loop vs p d"
proof (induction vs arbitrary: p d)
  case (Cons v vs)
  have "max d (max p v - v) \<le> drawdown_loop vs (max p v) (max d (max p v - v))" by (rule Cons.IH)
  then show ?case by (simp add: Let_def)
qed simp

lemma drawdown_loop_falls: "0 \<le> d \<Longrightarrow> p - last (p # vs) \<le> drawdown_loop vs p d"
proof (induction vs arbitrary: p d)
  case (Cons v vs)
  let ?d = "max d (max p v - v)"
  have fall: "max p v - last (max p v # vs) \<le> drawdown_loop vs (max p v) ?d"
    by (rule Cons.IH) (use Cons.prems in simp)
  have "p - last (p # v # vs) \<le> max ?d (max p v - last (max p v # vs))" by (cases vs) auto
  also have "\<dots> \<le> drawdown_loop vs (max p v) ?d"
    using fall drawdown_loop_ge [of ?d vs "max p v"] by (rule max.boundedI [rotated])
  also have "\<dots> = drawdown_loop (v # vs) p d" by (simp only: drawdown_loop.simps Let_def)
  finally show ?case .
qed simp

lemma ppm_ratio_bounds:
  assumes "0 \<le> n" "n \<le> d"
  shows "0 \<le> ppm_ratio n d \<and> ppm_ratio n d \<le> 1000000"
proof (cases "d = 0")
  case False
  with assms have d: "0 < d" by simp
  have "n * 1000000 div d \<le> d * 1000000 div d"
    by (rule zdiv_mono1) (use assms d in simp_all)
  with d assms show ?thesis by (simp add: ppm_ratio_def pos_imp_zdiv_nonneg_iff)
qed (simp add: ppm_ratio_def)

text \<open>What the loops over variants and episodes collect under each label.\<close>

definition labelled :: "string \<Rightarrow> variant list \<Rightarrow> variant list" where
  "labelled l vs = filter (\<lambda>v. variant_label v = l) vs"

lemma run_variants_collects:
  assumes "run_variants env t e vs b = Inr b'" "\<forall>v \<in> set vs. simulate env t e v = Inr (res v)"
  shows "map_of b' l = map_option (\<lambda>rs. rs @ map res (labelled l vs)) (map_of b l)"
  using assms
proof (induction vs arbitrary: b)
  case Nil
  then show ?case by (simp add: labelled_def option.map_id0 [unfolded id_def])
next
  case (Cons v vs)
  obtain rs where rs: "map_of b (variant_label v) = Some rs"
    "run_variants env t e vs (dict_put (variant_label v) (rs @ [res v]) b) = Inr b'"
    using Cons.prems by (auto simp: res_bind_def split: option.splits)
  from Cons.IH [OF rs(2)] Cons.prems(2) rs(1) show ?case
    by (auto simp: labelled_def option.map_comp comp_def)
qed

lemma run_variants_results:
  "run_variants env t e vs b = Inr b' \<Longrightarrow> \<exists>res. \<forall>v \<in> set vs. simulate env t e v = Inr (res v)"
proof (induction vs arbitrary: b)
  case (Cons v vs)
  then obtain x rs where x: "simulate env t e v = Inr x"
    "run_variants env t e vs (dict_put (variant_label v) (rs @ [x]) b) = Inr b'"
    by (auto simp: res_bind_def split: sum.splits option.splits)
  obtain res where "\<forall>v \<in> set vs. simulate env t e v = Inr (res v)" using Cons.IH [OF x(2)] by blast
  with x(1) have "\<forall>w \<in> set (v # vs). simulate env t e w = Inr ((res(v := x)) w)" by auto
  then show ?case by blast
qed simp

definition simulated :: "'r sweep_env \<Rightarrow> variant list \<Rightarrow> (episode \<Rightarrow> variant \<Rightarrow> episode_result) \<Rightarrow> episode \<Rightarrow> bool" where
  "simulated env vs res e \<longleftrightarrow>
     (\<exists>t. sw_load env e = Inr t \<and> (\<forall>v \<in> set vs. simulate env t e v = Inr (res e v)))"

lemma run_tapes_collects:
  assumes "run_tapes env vs es b = Inr b'" "\<forall>e \<in> set es. simulated env vs res e"
  shows "map_of b' l = map_option (\<lambda>rs. rs @ concat (map (\<lambda>e. map (res e) (labelled l vs)) es)) (map_of b l)"
  using assms
proof (induction es arbitrary: b)
  case Nil
  then show ?case by (simp add: option.map_id0 [unfolded id_def])
next
  case (Cons e es)
  obtain t where t: "sw_load env e = Inr t" "\<forall>v \<in> set vs. simulate env t e v = Inr (res e v)"
    using Cons.prems(2) by (auto simp: simulated_def)
  obtain b1 where b1: "run_variants env t e vs b = Inr b1" "run_tapes env vs es b1 = Inr b'"
    using Cons.prems(1) t(1) by (auto simp: res_bind_def split: sum.splits)
  from Cons.IH [OF b1(2)] Cons.prems(2) run_variants_collects [OF b1(1) t(2), of l] show ?case
    by (simp add: option.map_comp comp_def)
qed

lemma run_tapes_results:
  "run_tapes env vs es b = Inr b' \<Longrightarrow> \<exists>res. \<forall>e \<in> set es. simulated env vs res e"
proof (induction es arbitrary: b)
  case (Cons e es)
  then obtain t b1 where t: "sw_load env e = Inr t" "run_variants env t e vs b = Inr b1"
    "run_tapes env vs es b1 = Inr b'"
    by (auto simp: res_bind_def split: sum.splits)
  obtain f where f: "\<forall>v \<in> set vs. simulate env t e v = Inr (f v)" using run_variants_results [OF t(2)] by blast
  obtain res where "\<forall>e \<in> set es. simulated env vs res e" using Cons.IH [OF t(3)] by blast
  with t(1) f have "\<forall>d \<in> set (e # es). simulated env vs (res(e := f)) d" by (auto simp: simulated_def)
  then show ?case by blast
qed simp

lemma no_results_Some: "v \<in> set vs \<Longrightarrow> map_of (no_results vs) (variant_label v) = Some []"
proof -
  have "map_of (fold (\<lambda>v. dict_put (variant_label v) []) vs d) l
      = (if l \<in> variant_label ` set vs then Some [] else map_of d l)" for l and d :: results_by_label
    by (induction vs arbitrary: d) auto
  then show "v \<in> set vs \<Longrightarrow> ?thesis" by (simp add: no_results_def)
qed

lemma labelled_distinct:
  "distinct (map variant_label vs) \<Longrightarrow> v \<in> set vs \<Longrightarrow> labelled (variant_label v) vs = [v]"
  by (induction vs) (auto simp: labelled_def filter_empty_conv image_iff)

lemma sweep_run_collects:
  assumes "sweep_run env es vs = Inr (ms, b)"
  shows "\<exists>res. (\<forall>e \<in> set (runner_episodes es). simulated env vs res e)
    \<and> ms = map (variant_figures b) vs
    \<and> (\<forall>v \<in> set vs. results_of b v
         = concat (map (\<lambda>e. map (res e) (labelled (variant_label v) vs)) (runner_episodes es)))"
proof -
  have run: "run_tapes env vs (runner_episodes es) (no_results vs) = Inr b" "ms = map (variant_figures b) vs"
    using assms by (auto simp: sweep_run_def res_bind_def split: sum.splits)
  obtain res where res: "\<forall>e \<in> set (runner_episodes es). simulated env vs res e"
    using run_tapes_results [OF run(1)] by blast
  have "results_of b v = concat (map (\<lambda>e. map (res e) (labelled (variant_label v) vs)) (runner_episodes es))"
    if "v \<in> set vs" for v
    using run_tapes_collects [OF run(1) res, of "variant_label v"] no_results_Some [OF that]
    by (simp add: results_of_def)
  with res run(2) show ?thesis by blast
qed

section \<open>Facts on walk-forward\<close>

lemma first_max_spec:
  "first_max f x xs \<in> set (x # xs) \<and> (\<forall>y \<in> set (x # xs). f y \<le> f (first_max f x xs))"
proof (induction xs arbitrary: x)
  case (Cons y xs)
  show ?case using Cons.IH [of x] Cons.IH [of y] by (auto intro: order_trans)
qed simp

lemma best_index_spec:
  assumes "ms \<noteq> []"
  shows "best_index ms < length ms \<and> (\<forall>m \<in> set ms. vm_net_pnl m \<le> vm_net_pnl (ms ! best_index ms))"
proof -
  have idx: "set (0 # [1..<length ms]) = {..<length ms}" using assms by (cases ms) auto
  note spec = first_max_spec [of "\<lambda>i. vm_net_pnl (ms ! i)" 0 "[1..<length ms]", unfolded idx, folded best_index_def]
  then show ?thesis by (auto simp: in_set_conv_nth simp del: One_nat_def)
qed

lemma run_folds_nth:
  assumes "run_folds env ordered cs block ks = Inr out" "\<forall>k \<in> set ks. test_block ordered block k \<noteq> []"
  shows "length out = length ks \<and> (\<forall>i < length ks. run_fold env ordered cs block (ks ! i) = Inr (out ! i))"
  using assms
proof (induction ks arbitrary: out)
  case (Cons k ks)
  then obtain x xs where "run_fold env ordered cs block k = Inr x" "run_folds env ordered cs block ks = Inr xs"
    "out = x # xs"
    by (auto simp: res_bind_def split: sum.splits)
  with Cons show ?case by (auto simp: nth_Cons split: nat.splits)
qed simp

lemma train_test_adjacent: "train_block ordered block k @ test_block ordered block k = train_block ordered block (k + 1)"
proof -
  have "block * (k + 1 + 1) = block * (k + 1) + block" by simp
  then show ?thesis unfolding train_block_def test_block_def by (simp only: take_add)
qed

lemma block_fits:
  assumes "2 \<le> n" "n * 2 \<le> length ordered" "block = length ordered div (n + 1)" "k < n"
  shows "0 < block" "length (train_block ordered block k) = block * (k + 1)"
    "length (test_block ordered block k) = block"
proof -
  have "n + 1 \<le> length ordered" using assms(1,2) by linarith
  then show "0 < block" using assms(3) by (simp add: div_greater_zero_iff)
  have "block * (n + 1) \<le> length ordered" using assms(3) by (metis div_times_less_eq_dividend)
  moreover have "block * (k + 2) \<le> block * (n + 1)" by (rule mult_le_mono2) (use assms(4) in simp)
  ultimately have "block * (k + 1) + block \<le> length ordered" by (simp add: algebra_simps)
  then show "length (train_block ordered block k) = block * (k + 1)"
    "length (test_block ordered block k) = block"
    by (simp_all add: train_block_def test_block_def)
qed

text \<open>A sweep whose tapes load and whose runs return, returns.\<close>

definition runs_return :: "'r sweep_env \<Rightarrow> variant list \<Rightarrow> episode list \<Rightarrow> bool" where
  "runs_return env vs es \<longleftrightarrow>
     (\<forall>e \<in> set es. \<exists>t. sw_load env e = Inr t \<and> (\<forall>v \<in> set vs. \<exists>res. simulate env t e v = Inr res))"

lemma run_variants_total:
  assumes "\<forall>v \<in> set vs. \<exists>res. simulate env t e v = Inr res"
    and "\<forall>v \<in> set vs. map_of b (variant_label v) \<noteq> None"
  shows "\<exists>b'. run_variants env t e vs b = Inr b' \<and> (\<forall>l. map_of b l \<noteq> None \<longrightarrow> map_of b' l \<noteq> None)"
  using assms
proof (induction vs arbitrary: b)
  case (Cons v vs)
  obtain res rs where v: "simulate env t e v = Inr res" "map_of b (variant_label v) = Some rs"
    using Cons.prems by auto
  let ?b = "dict_put (variant_label v) (rs @ [res]) b"
  have runs: "\<forall>w \<in> set vs. \<exists>res. simulate env t e w = Inr res" using Cons.prems(1) by simp
  have known: "\<forall>w \<in> set vs. map_of ?b (variant_label w) \<noteq> None" using Cons.prems(2) by simp
  obtain b' where b': "run_variants env t e vs ?b = Inr b'" "\<forall>l. map_of ?b l \<noteq> None \<longrightarrow> map_of b' l \<noteq> None"
    using Cons.IH [OF runs known] by blast
  then have "map_of b' l \<noteq> None" if "map_of b l \<noteq> None" for l using that by simp
  with v b'(1) show ?case by auto
qed simp

lemma run_tapes_total:
  assumes "runs_return env vs es" "\<forall>v \<in> set vs. map_of b (variant_label v) \<noteq> None"
  shows "\<exists>b'. run_tapes env vs es b = Inr b'"
  using assms
proof (induction es arbitrary: b)
  case (Cons e es)
  obtain t where t: "sw_load env e = Inr t" "\<forall>v \<in> set vs. \<exists>res. simulate env t e v = Inr res"
    using Cons.prems(1) by (auto simp: runs_return_def)
  obtain b1 where b1: "run_variants env t e vs b = Inr b1" "\<forall>l. map_of b l \<noteq> None \<longrightarrow> map_of b1 l \<noteq> None"
    using run_variants_total [OF t(2) Cons.prems(2)] by blast
  have "runs_return env vs es" "\<forall>v \<in> set vs. map_of b1 (variant_label v) \<noteq> None"
    using Cons.prems b1(2) by (auto simp: runs_return_def)
  from Cons.IH [OF this] t(1) b1(1) show ?case by simp
qed simp

lemma sweep_run_total:
  assumes "runs_return env vs (runner_episodes es)"
  shows "\<exists>ms b. sweep_run env es vs = Inr (ms, b)"
  using run_tapes_total [OF assms, of "no_results vs"] no_results_Some
  by (auto simp: sweep_run_def res_bind_def)

lemma runs_return_mono: "runs_return env vs es \<Longrightarrow> set ws \<subseteq> set vs \<Longrightarrow> set ds \<subseteq> set es \<Longrightarrow> runs_return env ws ds"
  unfolding runs_return_def by blast

lemma sweep_block_total:
  assumes "runs_return env vs ordered" "set ws \<subseteq> set vs" "set es \<subseteq> set ordered"
  shows "\<exists>ms b. sweep_run env es ws = Inr (ms, b)"
  by (rule sweep_run_total, rule runs_return_mono [OF assms(1,2)])
    (use assms(3) in \<open>auto simp: runner_episodes_def\<close>)

lemma run_folds_total:
  assumes "runs_return env cs ordered" "cs \<noteq> []"
  shows "\<exists>out. run_folds env ordered cs block ks = Inr out"
proof (induction ks)
  case (Cons k ks)
  have sub: "set (train_block ordered block k) \<subseteq> set ordered" "set (test_block ordered block k) \<subseteq> set ordered"
    by (auto simp: train_block_def test_block_def dest: in_set_takeD in_set_dropD)
  obtain ms b where train: "sweep_run env (train_block ordered block k) cs = Inr (ms, b)"
    using sweep_block_total [OF assms(1) _ sub(1)] by blast
  have "length ms = length cs" using sweep_run_collects [OF train] by auto
  then have best: "best_index ms < length cs" using best_index_spec [of ms] assms(2) by (cases ms) auto
  then obtain ms' b' where "sweep_run env (test_block ordered block k) [cs ! best_index ms] = Inr (ms', b')"
    using sweep_block_total [OF assms(1) _ sub(2), of "[cs ! best_index ms]"] by auto
  with train have "\<exists>x. run_fold env ordered cs block k = Inr x" by (simp add: run_fold_def Let_def)
  with Cons show ?case by auto
qed simp

lemma walk_forward_total:
  assumes "runs_return env vs (runner_episodes es)" "2 \<le> folds" "folds * 2 \<le> int (length (runner_episodes es))"
    and "\<exists>v \<in> set vs. er_name (va_realism v) = selection"
  shows "\<exists>out. walk_forward env es vs folds selection = Inr out"
proof -
  let ?cs = "filter (\<lambda>v. er_name (va_realism v) = selection) vs"
  have "?cs \<noteq> []" using assms(4) by (auto simp: filter_empty_conv)
  moreover have "runs_return env ?cs (runner_episodes es)" by (rule runs_return_mono [OF assms(1)]) auto
  ultimately show ?thesis
    using run_folds_total assms(2,3) by (simp add: walk_forward_def Let_def)
qed

lemma run_foldD:
  assumes "run_fold env ordered cs block k = Inr x"
  obtains ms b ms' b' where "sweep_run env (train_block ordered block k) cs = Inr (ms, b)"
    "sweep_run env (test_block ordered block k) [cs ! best_index ms] = Inr (ms', b')"
    "x = \<lparr>wk_fold = k, wk_train_episodes = length (train_block ordered block k),
       wk_test_episodes = length (test_block ordered block k),
       wk_selected_label = variant_label (cs ! best_index ms), wk_train_net_pnl = vm_net_pnl (ms ! best_index ms),
       wk_test_net_pnl = vm_net_pnl (ms' ! 0), wk_test_entries = vm_entries (ms' ! 0),
       wk_test_win_rate_ppm = vm_win_rate_ppm (ms' ! 0)\<rparr>"
  using assms by (auto simp: run_fold_def Let_def res_bind_def split: sum.splits prod.splits)

section \<open>Properties\<close>

text \<open>
  C19. A variant's figures are those of its equity curve.  The drawdown that \<^verbatim>\<open>aggregate\<close> tracks
  along the way is the maximum drawdown of \<^verbatim>\<open>backtest/metrics.py\<close> of the curve that starts flat, at
  least the net loss and never negative; the exposure is the largest entry; wins are among
  the entries and entries among the episodes, so every rate is between nothing and a million.
\<close>

theorem aggregate_follows_equity_curve:
  "let m = aggregate label name results params; entered = filter sr_entered results in
     vm_max_drawdown m = maximum_drawdown (0 # equity_curve 0 entered)
     \<and> vm_net_pnl m = last (0 # equity_curve 0 entered)
     \<and> 0 \<le> vm_max_drawdown m \<and> - vm_net_pnl m \<le> vm_max_drawdown m
     \<and> vm_peak_capital_at_risk m = fold max (map sr_entry_notional entered) 0
     \<and> vm_profitable_trades m \<le> vm_entries m \<and> vm_entries m \<le> vm_episodes m
     \<and> {vm_entry_rate_ppm m, vm_side_correct_ppm m, vm_win_rate_ppm m, vm_stop_out_ppm m} \<subseteq> {0..1000000}"
proof -
  let ?m = "aggregate label name results params"
  define entered where "entered = filter sr_entered results"
  have curve: "cu_drawdown (run_curve entered) = drawdown_loop (equity_curve 0 entered) 0 0"
    "cu_exposure (run_curve entered) = fold max (map sr_entry_notional entered) 0"
    using curve_is_drawdown [of entered 0 0 0 0] by (simp_all add: run_curve_def Let_def)
  have "drawdown_loop (0 # equity_curve 0 entered) 0 0 = drawdown_loop (equity_curve 0 entered) 0 0" by simp
  then have dd: "vm_max_drawdown ?m = maximum_drawdown (0 # equity_curve 0 entered)"
    using curve(1) by (simp add: aggregate_def Let_def maximum_drawdown_def entered_def [symmetric])
  have last: "last (0 # equity_curve 0 entered) = sum_list (map sr_net_pnl entered)"
    by (cases entered rule: rev_cases) (simp_all add: equity_curve_def)
  then have net: "vm_net_pnl ?m = last (0 # equity_curve 0 entered)"
    by (simp add: aggregate_def Let_def entered_def [symmetric])
  have falls: "0 - last (0 # equity_curve 0 entered) \<le> drawdown_loop (equity_curve 0 entered) 0 0"
    "0 \<le> drawdown_loop (equity_curve 0 entered) 0 0"
    using drawdown_loop_falls [of 0 0 "equity_curve 0 entered"] drawdown_loop_ge by simp_all
  have loss: "0 \<le> vm_max_drawdown ?m" "- vm_net_pnl ?m \<le> vm_max_drawdown ?m"
    using falls net by (simp_all add: dd maximum_drawdown_def)
  have peak: "vm_peak_capital_at_risk ?m = fold max (map sr_entry_notional entered) 0"
    using curve(2) by (simp add: aggregate_def Let_def entered_def [symmetric])
  have len: "length (filter P xs) \<le> length xs" for P :: "episode_result \<Rightarrow> bool" and xs by simp
  have sizes: "vm_profitable_trades ?m \<le> vm_entries ?m" "vm_entries ?m \<le> vm_episodes ?m"
    using len by (simp_all add: aggregate_def Let_def del: filter_filter)
  have rates: "{vm_entry_rate_ppm ?m, vm_side_correct_ppm ?m, vm_win_rate_ppm ?m, vm_stop_out_ppm ?m} \<subseteq> {0..1000000}"
    using len ppm_ratio_bounds by (simp add: aggregate_def Let_def tally_def del: filter_filter)
  show ?thesis
    using dd net loss peak sizes rates by (simp add: Let_def entered_def)
qed

text \<open>
  C9. A sweep scores each variant on its own runs, as long as labels tell the variants apart.  What a
  finished sweep holds under a label is, episode after episode in start order, the run of every
  variant with that label; so with distinct labels each variant is judged by exactly one run for
  each eligible episode, and with a shared label each of the variants is judged by the runs
  of all of them.
\<close>

theorem sweep_scores_by_label:
  assumes "sweep_run env es vs = Inr (ms, by_variant)"
  shows "\<exists>res. (\<forall>e \<in> set (runner_episodes es). simulated env vs res e)
    \<and> ms = map (\<lambda>v. aggregate (params_label (va_params v)) (er_name (va_realism v))
                       (results_of by_variant v) (Some (va_params v))) vs
    \<and> (\<forall>v \<in> set vs. results_of by_variant v
         = concat (map (\<lambda>e. map (res e) (labelled (variant_label v) vs)) (runner_episodes es)))
    \<and> (distinct (map variant_label vs) \<longrightarrow>
         (\<forall>v \<in> set vs. results_of by_variant v = map (\<lambda>e. res e v) (runner_episodes es)))"
proof -
  obtain res where res: "\<forall>e \<in> set (runner_episodes es). simulated env vs res e"
    "ms = map (variant_figures by_variant) vs"
    "\<forall>v \<in> set vs. results_of by_variant v
         = concat (map (\<lambda>e. map (res e) (labelled (variant_label v) vs)) (runner_episodes es))"
    using sweep_run_collects [OF assms] by blast
  have "concat (map (\<lambda>x. [f x]) xs) = map f xs" for f :: "episode \<Rightarrow> episode_result" and xs
    by (induction xs) auto
  with res have "results_of by_variant v = map (\<lambda>e. res e v) (runner_episodes es)"
    if "distinct (map variant_label vs)" "v \<in> set vs" for v
    using that labelled_distinct [OF that] by simp
  with res show ?thesis by (simp add: variant_figures_def [abs_def]) blast
qed

text \<open>Two variants whose triggers differ by a tenth of a cent, and so have one label.\<close>

definition twin_variants :: "variant list" where
  "twin_variants =
     [\<lparr>va_params = demo_run_params, va_realism = demo_run_realism\<rparr>,
      \<lparr>va_params = demo_run_params\<lparr>th_entry_trigger_price := 511000\<rparr>, va_realism = demo_run_realism\<rparr>]"

definition demo_sweep :: "unit sweep_env" where
  "demo_sweep = \<lparr>sw_rng = sent_rng_source, sw_load = (\<lambda>_. Inr demo_run_tape), sw_seed = (\<lambda>_. ())\<rparr>"

lemma twin_labels: "map variant_label twin_variants = replicate 2 ''m0-14_e0.51_x0.51_s3_pimmediate|optimistic''"
  by code_simp

lemma twin_run:
  assumes "v \<in> set twin_variants"
  shows "\<exists>res. run sent_rng_source (va_params v) (va_realism v) demo_run_tape None () = Inr res"
proof -
  have params: "make_params (va_params v) = Inr (va_params v)" if "v \<in> set twin_variants" for v
  proof -
    have "list_all (\<lambda>v. \<not> isl (make_params (va_params v))) twin_variants" by code_simp
    then show ?thesis using that params_facts(1) [of "va_params v"]
      by (cases "make_params (va_params v)") (auto simp: list_all_iff)
  qed
  have v: "va_realism v = demo_run_realism" "sized_in_shares (va_params v)"
    using assms by (auto simp: twin_variants_def sized_in_shares_def demo_run_params_def demo_params_def)
  let ?env = "make_run_env sent_rng_source (va_params v) demo_run_realism demo_run_tape None"
  have "run_env_ok ?env"
    using demo_run_ok params [OF assms]
    by (simp add: run_env_ok_def demo_run_env_def make_run_env_def Let_def)
  moreover have "rn_params ?env = va_params v" by (simp add: make_run_env_def Let_def)
  ultimately show ?thesis
    using run_rows_total [of ?env "tape_rows demo_run_tape" "make_run_state ?env ()"] v
    by (auto simp: run_def Let_def)
qed

lemma twin_runs_return: "set vs \<subseteq> set twin_variants \<Longrightarrow> runs_return demo_sweep vs es"
  using twin_run by (auto simp: runs_return_def demo_sweep_def simulate_def)

theorem sweep_scores_by_label_witness:
  "\<exists>ms by_variant. sweep_run demo_sweep [demo_episode] twin_variants = Inr (ms, by_variant)
     \<and> runner_episodes [demo_episode] = [demo_episode]
     \<and> length (results_of by_variant (twin_variants ! 0)) = 2"
proof -
  obtain ms b where run: "sweep_run demo_sweep [demo_episode] twin_variants = Inr (ms, b)"
    using sweep_run_total [OF twin_runs_return] by blast
  have eligible: "runner_episodes [demo_episode] = [demo_episode]"
  proof -
    have "ep_eligible demo_episode" by code_simp
    then show ?thesis by (simp add: runner_episodes_def)
  qed
  have "labelled (variant_label (twin_variants ! 0)) twin_variants = twin_variants"
    using twin_labels by (simp add: labelled_def twin_variants_def numeral_2_eq_2)
  moreover have "twin_variants ! 0 \<in> set twin_variants" "length twin_variants = 2"
    by (simp_all add: twin_variants_def)
  ultimately show ?thesis
    using sweep_scores_by_label [OF run] run eligible by fastforce
qed

text \<open>
  C8. Walk-forward is out of sample.  When it returns, there is one result for each requested fold; each test
  block is not empty, starts no earlier than anything it was selected on, and directly follows the
  training episodes, so the next fold trains on both; the selected variant is the best of the
  candidates on the training episodes, and the reported test figure is that of this variant alone on
  the test block.
\<close>

theorem walk_forward_out_of_sample:
  assumes "walk_forward env es vs folds selection = Inr out"
  shows "let ordered = runner_episodes es; block = length ordered div nat (folds + 1);
             candidates = filter (\<lambda>v. er_name (va_realism v) = selection) vs
         in length out = nat folds \<and> 0 < block
          \<and> (\<forall>k < nat folds. \<exists>ms m b b' j.
               wk_train_episodes (out ! k) = block * (k + 1) \<and> wk_test_episodes (out ! k) = block
             \<and> train_block ordered block k @ test_block ordered block k = train_block ordered block (k + 1)
             \<and> (\<forall>x \<in> set (train_block ordered block k). \<forall>y \<in> set (test_block ordered block k).
                  ep_start_utc_ns x \<le> ep_start_utc_ns y)
             \<and> sweep_run env (train_block ordered block k) candidates = Inr (ms, b)
             \<and> j < length candidates \<and> wk_selected_label (out ! k) = variant_label (candidates ! j)
             \<and> wk_train_net_pnl (out ! k) = vm_net_pnl (ms ! j)
             \<and> (\<forall>x \<in> set ms. vm_net_pnl x \<le> wk_train_net_pnl (out ! k))
             \<and> sweep_run env (test_block ordered block k) [candidates ! j] = Inr ([m], b')
             \<and> wk_test_net_pnl (out ! k) = vm_net_pnl m)"
proof -
  define ordered where "ordered = runner_episodes es"
  define block where "block = length ordered div nat (folds + 1)"
  define cs where "cs = filter (\<lambda>v. er_name (va_realism v) = selection) vs"
  have run: "run_folds env ordered cs block [0..<nat folds] = Inr out" "cs \<noteq> []" "2 \<le> folds"
    "folds * 2 \<le> int (length ordered)"
    using assms by (auto simp: walk_forward_def Let_def ordered_def block_def cs_def split: if_splits)
  have n: "2 \<le> nat folds" "nat folds * 2 \<le> length ordered" using run(3,4) by simp_all
  have block: "block = length ordered div (nat folds + 1)" using run(3) by (simp add: block_def nat_add_distrib)
  note fits = block_fits [OF n block]
  have "\<forall>k \<in> set [0..<nat folds]. test_block ordered block k \<noteq> []" using fits(1,3) by fastforce
  note folds = run_folds_nth [OF run(1) this]
  have fold: "\<exists>ms m b b' j.
       wk_train_episodes (out ! k) = block * (k + 1) \<and> wk_test_episodes (out ! k) = block
     \<and> train_block ordered block k @ test_block ordered block k = train_block ordered block (k + 1)
     \<and> (\<forall>x \<in> set (train_block ordered block k). \<forall>y \<in> set (test_block ordered block k).
          ep_start_utc_ns x \<le> ep_start_utc_ns y)
     \<and> sweep_run env (train_block ordered block k) cs = Inr (ms, b)
     \<and> j < length cs \<and> wk_selected_label (out ! k) = variant_label (cs ! j)
     \<and> wk_train_net_pnl (out ! k) = vm_net_pnl (ms ! j)
     \<and> (\<forall>x \<in> set ms. vm_net_pnl x \<le> wk_train_net_pnl (out ! k))
     \<and> sweep_run env (test_block ordered block k) [cs ! j] = Inr ([m], b')
     \<and> wk_test_net_pnl (out ! k) = vm_net_pnl m" if k: "k < nat folds" for k
  proof -
    have "run_fold env ordered cs block k = Inr (out ! k)" using folds k by simp
    from run_foldD [OF this] obtain ms b ms' b' where f:
      "sweep_run env (train_block ordered block k) cs = Inr (ms, b)"
      "sweep_run env (test_block ordered block k) [cs ! best_index ms] = Inr (ms', b')"
      "wk_train_episodes (out ! k) = length (train_block ordered block k)"
      "wk_test_episodes (out ! k) = length (test_block ordered block k)"
      "wk_selected_label (out ! k) = variant_label (cs ! best_index ms)"
      "wk_train_net_pnl (out ! k) = vm_net_pnl (ms ! best_index ms)"
      "wk_test_net_pnl (out ! k) = vm_net_pnl (ms' ! 0)"
      by (metis walk_forward_fold.select_convs)
    have len: "length ms = length cs" "length ms' = 1"
      using sweep_run_collects [OF f(1)] sweep_run_collects [OF f(2)] by auto
    then obtain m where m: "ms' = [m]" by (auto simp: length_Suc_conv)
    have best: "best_index ms < length cs" "\<forall>x \<in> set ms. vm_net_pnl x \<le> vm_net_pnl (ms ! best_index ms)"
      using best_index_spec [of ms] len run(2) by (cases ms; simp)+
    have "sorted (map ep_start_utc_ns (train_block ordered block (k + 1)))"
      unfolding train_block_def ordered_def runner_episodes_def take_map [symmetric] by (rule sorted_wrt_take) simp
    then have "\<forall>x \<in> set (train_block ordered block k). \<forall>y \<in> set (test_block ordered block k).
        ep_start_utc_ns x \<le> ep_start_utc_ns y"
      unfolding train_test_adjacent [symmetric] by (auto simp: sorted_append)
    with f m best fits(2,3) k train_test_adjacent [of ordered block k] show ?thesis
      by (intro exI [of _ ms] exI [of _ m] exI [of _ b] exI [of _ b'] exI [of _ "best_index ms"]) simp
  qed
  have "0 < nat folds" using n by simp
  then have "length out = nat folds" "0 < block" using folds fits(1) [of 0] by auto
  with fold show ?thesis
    unfolding Let_def ordered_def [symmetric] block_def [symmetric] cs_def [symmetric] by blast
qed

text \<open>
  C18. Selection never looks ahead.  Two walk-forward runs whose training episodes of a fold are the same,
  with the same tapes and seeds, select the same variant for that fold with the same training
  figure, however different everything recorded later may be.
\<close>

theorem selection_never_looks_ahead:
  assumes "walk_forward env es vs folds selection = Inr out"
    and "walk_forward env' es' vs folds selection = Inr out'" "k < nat folds"
    and "train_block (runner_episodes es') (length (runner_episodes es') div nat (folds + 1)) k
      = train_block (runner_episodes es) (length (runner_episodes es) div nat (folds + 1)) k"
    and "sw_rng env' = sw_rng env"
    and "\<forall>e \<in> set (train_block (runner_episodes es) (length (runner_episodes es) div nat (folds + 1)) k).
      sw_load env' e = sw_load env e \<and> sw_seed env' e = sw_seed env e"
  shows "wk_selected_label (out' ! k) = wk_selected_label (out ! k)
    \<and> wk_train_net_pnl (out' ! k) = wk_train_net_pnl (out ! k)"
proof -
  define train where "train = train_block (runner_episodes es) (length (runner_episodes es) div nat (folds + 1)) k"
  define cs where "cs = filter (\<lambda>v. er_name (va_realism v) = selection) vs"
  have variants: "run_variants env' t e ws b = run_variants env t e ws b" if "e \<in> set train" for t e ws b
    using assms(5,6) that
    by (induction ws arbitrary: b) (auto simp: simulate_def train_def res_bind_def split: sum.splits option.splits)
  have tapes: "run_tapes env' ws xs b = run_tapes env ws xs b" if "set xs \<subseteq> set train" for ws xs b
    using that
  proof (induction xs arbitrary: b)
    case (Cons e xs)
    have e: "e \<in> set train" "set xs \<subseteq> set train" using Cons.prems by auto
    then have "sw_load env' e = sw_load env e" using assms(6) by (simp add: train_def)
    with Cons.IH [OF e(2)] variants [OF e(1)] show ?case by (simp add: res_bind_def split: sum.split)
  qed simp
  have same: "sweep_run env' train cs = sweep_run env train cs"
    unfolding sweep_run_def by (subst tapes) (auto simp: runner_episodes_def)
  have "\<exists>ms b. sweep_run e1 train cs = Inr (ms, b) \<and> wk_selected_label (o1 ! k) = variant_label (cs ! best_index ms)
      \<and> wk_train_net_pnl (o1 ! k) = vm_net_pnl (ms ! best_index ms)"
    if "walk_forward e1 xs vs folds selection = Inr o1"
      "train_block (runner_episodes xs) (length (runner_episodes xs) div nat (folds + 1)) k = train"
    for e1 xs and o1 :: "walk_forward_fold list"
  proof -
    let ?block = "length (runner_episodes xs) div nat (folds + 1)"
    have run: "run_folds e1 (runner_episodes xs) cs ?block [0..<nat folds] = Inr o1" "2 \<le> folds"
      "folds * 2 \<le> int (length (runner_episodes xs))"
      using that(1) by (auto simp: walk_forward_def Let_def cs_def split: if_splits)
    have n: "2 \<le> nat folds" "nat folds * 2 \<le> length (runner_episodes xs)" using run(2,3) by simp_all
    have "?block = length (runner_episodes xs) div (nat folds + 1)" using run(2) by (simp add: nat_add_distrib)
    note fits = block_fits [OF n this]
    have "\<forall>k \<in> set [0..<nat folds]. test_block (runner_episodes xs) ?block k \<noteq> []" using fits(1,3) by fastforce
    from run_folds_nth [OF run(1) this] assms(3)
    have "run_fold e1 (runner_episodes xs) cs ?block k = Inr (o1 ! k)" by simp
    from run_foldD [OF this, unfolded that(2)] show ?thesis by (metis walk_forward_fold.select_convs(4,5))
  qed
  note pick = this
  obtain ms b ms' b' where "sweep_run env train cs = Inr (ms, b)" "sweep_run env' train cs = Inr (ms', b')"
    "wk_selected_label (out ! k) = variant_label (cs ! best_index ms)"
    "wk_train_net_pnl (out ! k) = vm_net_pnl (ms ! best_index ms)"
    "wk_selected_label (out' ! k) = variant_label (cs ! best_index ms')"
    "wk_train_net_pnl (out' ! k) = vm_net_pnl (ms' ! best_index ms')"
    using pick [OF assms(1) train_def [symmetric]] pick [OF assms(2) assms(4) [folded train_def]] by blast
  with same show ?thesis by simp
qed

definition demo_candidates :: "variant list" where "demo_candidates = [hd twin_variants]"

text \<open>Six episodes a quarter of an hour apart, on one tape.\<close>

definition demo_span :: "episode list" where
  "demo_span = map (\<lambda>k. demo_episode\<lparr>ep_start_utc_ns := k * 900000000000\<rparr>) [0, 1, 2, 3, 4, 5]"

lemma demo_walk: "\<exists>out. walk_forward demo_sweep demo_span demo_candidates 2 ''optimistic'' = Inr out"
proof (rule walk_forward_total)
  show "runs_return demo_sweep demo_candidates (runner_episodes demo_span)"
    by (rule twin_runs_return) (simp add: demo_candidates_def twin_variants_def)
  show "2 * 2 \<le> int (length (runner_episodes demo_span))" by code_simp
  show "\<exists>v \<in> set demo_candidates. er_name (va_realism v) = ''optimistic''"
    by (simp add: demo_candidates_def twin_variants_def demo_run_realism_def optimistic_preset_def)
qed simp

theorem walk_forward_out_of_sample_witness:
  "\<exists>out. walk_forward demo_sweep demo_span demo_candidates 2 ''optimistic'' = Inr out
     \<and> length out = 2 \<and> wk_train_episodes (out ! 1) = 4 \<and> wk_test_episodes (out ! 1) = 2"
proof -
  obtain out where out: "walk_forward demo_sweep demo_span demo_candidates 2 ''optimistic'' = Inr out"
    using demo_walk by blast
  have six: "length (runner_episodes demo_span) = 6" by code_simp
  from walk_forward_out_of_sample [OF out] out show ?thesis by (simp add: six Let_def)
qed

text \<open>The same first five episodes, another sixth, and no book events from the fifth on.\<close>

definition later_span :: "episode list" where
  "later_span = take 5 demo_span @ [demo_episode\<lparr>ep_start_utc_ns := 9000000000000, ep_winner_outcome := None\<rparr>]"

definition later_sweep :: "unit sweep_env" where
  "later_sweep = demo_sweep\<lparr>sw_load := (\<lambda>e. Inr (if ep_start_utc_ns e < 3600000000000 then demo_run_tape
     else demo_run_tape\<lparr>tape_rows := []\<rparr>))\<rparr>"

lemma later_span_facts:
  "train_block (runner_episodes later_span) 2 1 = train_block (runner_episodes demo_span) 2 1"
  "length (runner_episodes later_span) = 6" "length (runner_episodes demo_span) = 6"
  "list_all (\<lambda>e. ep_start_utc_ns e < 3600000000000) (train_block (runner_episodes demo_span) 2 1)"
proof -
  have eligible: "ep_eligible demo_episode" by code_simp
  show "train_block (runner_episodes later_span) 2 1 = train_block (runner_episodes demo_span) 2 1"
    "length (runner_episodes later_span) = 6" "length (runner_episodes demo_span) = 6"
    "list_all (\<lambda>e. ep_start_utc_ns e < 3600000000000) (train_block (runner_episodes demo_span) 2 1)"
    using eligible by (simp_all add: later_span_def demo_span_def runner_episodes_def train_block_def)
qed

lemma empty_tape_run:
  "\<exists>res. run sent_rng_source p r (demo_run_tape\<lparr>tape_rows := []\<rparr>) None () = Inr res"
  by (simp add: run_def Let_def)

lemma later_walk: "\<exists>out. walk_forward later_sweep later_span demo_candidates 2 ''optimistic'' = Inr out"
proof (rule walk_forward_total)
  have "set demo_candidates \<subseteq> set twin_variants" by (simp add: demo_candidates_def twin_variants_def)
  then show "runs_return later_sweep demo_candidates (runner_episodes later_span)"
    using twin_run empty_tape_run
    by (auto simp: runs_return_def later_sweep_def demo_sweep_def simulate_def)
  show "2 * 2 \<le> int (length (runner_episodes later_span))" by (simp add: later_span_facts)
  show "\<exists>v \<in> set demo_candidates. er_name (va_realism v) = ''optimistic''"
    by (simp add: demo_candidates_def twin_variants_def demo_run_realism_def optimistic_preset_def)
qed simp

theorem selection_never_looks_ahead_witness:
  "\<exists>out out'. walk_forward demo_sweep demo_span demo_candidates 2 ''optimistic'' = Inr out
     \<and> walk_forward later_sweep later_span demo_candidates 2 ''optimistic'' = Inr out'
     \<and> wk_train_net_pnl (out' ! 1) = wk_train_net_pnl (out ! 1)"
proof -
  obtain out where out: "walk_forward demo_sweep demo_span demo_candidates 2 ''optimistic'' = Inr out"
    using demo_walk by blast
  obtain out' where out': "walk_forward later_sweep later_span demo_candidates 2 ''optimistic'' = Inr out'"
    using later_walk by blast
  have "\<forall>e \<in> set (train_block (runner_episodes demo_span) 2 1).
      sw_load later_sweep e = sw_load demo_sweep e \<and> sw_seed later_sweep e = sw_seed demo_sweep e"
    using later_span_facts(4) by (auto simp: list_all_iff later_sweep_def demo_sweep_def)
  moreover have "sw_rng later_sweep = sw_rng demo_sweep" by (simp add: later_sweep_def)
  moreover have "6 div nat (2 + 1) = (2 :: nat)" by simp
  ultimately have "wk_train_net_pnl (out' ! 1) = wk_train_net_pnl (out ! 1)"
    using selection_never_looks_ahead [OF out out', of 1] later_span_facts(1-3) by simp
  with out out' show ?thesis by blast
qed

text \<open>
  Every variant of a grid is one the parameter model accepts.  A grid that is built has only
  parameter sets that pass their own validation, with a trigger, size and window from the lists, a
  stop below the trigger or none, an entry limit that never exceeds one dollar and an arming minute
  only where there is a stop; the realism is one of the requested presets.
\<close>

theorem grid_variants_well_formed:
  assumes "grid fixed offset windows triggers stops sizes names = Inr vs"
  shows "\<forall>v \<in> set vs. make_params (va_params v) = Inr (va_params v)
    \<and> th_entry_trigger_price (va_params v) \<in> set triggers \<and> th_stop_loss_price (va_params v) \<in> set stops
    \<and> th_order_shares (va_params v) \<in> Some ` set sizes
    \<and> (th_entry_from_minute (va_params v), th_entry_to_minute (va_params v)) \<in> set windows
    \<and> opt_all (\<lambda>s. s < th_entry_trigger_price (va_params v)) (th_stop_loss_price (va_params v))
    \<and> th_entry_limit_price (va_params v) \<le> 1000000
    \<and> (th_stop_loss_price (va_params v) = None \<longrightarrow> th_stop_loss_from_minute (va_params v) = None)
    \<and> va_realism v \<in> (\<lambda>n. preset n None None) ` set names
    \<and> realism_ok (va_realism v)"
proof -
  define cells where "cells = grid_cells windows triggers stops sizes names"
  have cell: "w \<in> set windows \<and> t \<in> set triggers \<and> s \<in> set stops \<and> z \<in> set sizes \<and> n \<in> set names"
    if "(w, t, s, z, n) \<in> set cells" for w t s z n
    using that by (auto simp: cells_def grid_cells_def)
  have "\<forall>v \<in> set vs. \<exists>(w, t, s, z, n) \<in> set cells. opt_all (\<lambda>x. x < t) s
      \<and> make_params (grid_params fixed offset w t s z) = Inr (va_params v) \<and> va_realism v = preset n None None"
    using assms unfolding grid_def cells_def [symmetric]
  proof (induction fixed offset cells arbitrary: vs rule: grid_loop.induct)
    case (2 fixed offset w t s z n cells)
    show ?case
    proof (cases "opt_all (\<lambda>x. x < t) s")
      case True
      then obtain p us where p: "make_params (grid_params fixed offset w t s z) = Inr p"
        "grid_loop fixed offset cells = Inr us" "vs = \<lparr>va_params = p, va_realism = preset n None None\<rparr> # us"
        using "2.prems" by (auto simp: res_bind_def split: sum.splits)
      from "2.IH"(1) [OF True p(1,2)] p True show ?thesis by fastforce
    next
      case False
      with "2.prems" have "grid_loop fixed offset cells = Inr vs" by simp
      from "2.IH"(2) [OF False this] show ?thesis by fastforce
    qed
  qed simp
  moreover have "th_entry_limit_price (grid_params fixed offset w t s z) \<le> 1000000" for w t s z
    by (simp add: grid_params_def)
  ultimately show ?thesis
    using cell params_facts(1) preset_ok [of None]
    by (fastforce simp: grid_params_def)
qed

definition demo_grid :: "py_error + variant list" where
  "demo_grid = grid demo_params 50000 [(Flt 12 0, Flt 14 0)] [800000, 980000] [Some 750000, Some 900000, None]
     [100000000] [Base]"

lemma demo_grid_size: "(case demo_grid of Inl _ \<Rightarrow> 0 | Inr vs \<Rightarrow> int (length vs)) = 5"
  by code_simp

theorem grid_variants_well_formed_witness:
  "\<exists>vs. grid demo_params 50000 [(Flt 12 0, Flt 14 0)] [800000, 980000] [Some 750000, Some 900000, None]
     [100000000] [Base] = Inr vs
   \<and> length vs = 5 \<and> th_entry_limit_price (va_params (hd vs)) \<le> 1000000 \<and> realism_ok (va_realism (hd vs))"
proof -
  obtain vs where vs: "demo_grid = Inr vs" "length vs = 5"
    using demo_grid_size by (auto split: sum.splits)
  then have "hd vs \<in> set vs" by (cases vs) auto
  with grid_variants_well_formed [OF vs(1) [unfolded demo_grid_def]] vs show ?thesis
    by (auto simp: demo_grid_def)
qed

end
