(* ===== verification/Service.thy ===== *)
theory Service
  imports Compound
begin

text \<open>
  The front of \<^verbatim>\<open>dashboard/backtest_service.py\<close>: what a person asks for and the parameters it becomes,
  the markets a request selects, and the jobs that carry a run.  Whether a tape is published is a
  parameter, as are the identifiers of jobs and the clock.
\<close>

section \<open>Dates\<close>

definition digit_value :: "char \<Rightarrow> int option" where
  "digit_value c =
     map_of (zip ''0123456789'' [0, 1, 2, 3, 4, 5, 6, 7, 8, 9]) c"

fun digits_value :: "int \<Rightarrow> string \<Rightarrow> int option" where
  "digits_value acc [] = Some acc"
| "digits_value acc (c # cs) =
     (case digit_value c of None \<Rightarrow> None | Some d \<Rightarrow> digits_value (10 * acc + d) cs)"

definition number_in :: "nat set \<Rightarrow> string \<Rightarrow> int option" where
  "number_in lengths s = (if length s \<in> lengths then digits_value 0 s else None)"

definition leap_year :: "int \<Rightarrow> bool" where
  "leap_year y \<longleftrightarrow> y mod 4 = 0 \<and> (y mod 100 \<noteq> 0 \<or> y mod 400 = 0)"

definition days_in_month :: "int \<Rightarrow> int \<Rightarrow> int" where
  "days_in_month y m =
     (if m = 2 then (if leap_year y then 29 else 28) else if m \<in> {4, 6, 9, 11} then 30 else 31)"

text \<open>Days from the first of January of year one to the first of January of \<open>y\<close>, and to a day of the year.\<close>

definition days_before_year :: "int \<Rightarrow> int" where
  "days_before_year y = 365 * (y - 1) + (y - 1) div 4 - (y - 1) div 100 + (y - 1) div 400"

definition days_before_month :: "int \<Rightarrow> int \<Rightarrow> int" where
  "days_before_month y m = sum_list (map (days_in_month y) [1..m - 1])"

definition unix_day :: "int \<Rightarrow> int \<Rightarrow> int \<Rightarrow> int" where
  "unix_day y m d = days_before_year y + days_before_month y m + (d - 1) - 719162"

text \<open>
  \<^verbatim>\<open>datetime.strptime(value, "%Y-%m-%d")\<close> at midnight UTC, in seconds: four digits of year, one or
  two of month and day, and a day that exists.  (A day of one digit may also follow a blank.)
\<close>

definition split_dash :: "string \<Rightarrow> string \<times> string" where
  "split_dash s = (takeWhile (\<lambda>c. c \<noteq> CHR ''-'') s, drop 1 (dropWhile (\<lambda>c. c \<noteq> CHR ''-'') s))"

definition parse_day :: "string \<Rightarrow> int option" where
  "parse_day s =
     (let (year, rest) = split_dash s; (month, day) = split_dash rest;
          day' = (if length day = 2 \<and> hd day = CHR '' '' then tl day else day)
      in case (number_in {4} year, number_in {1, 2} month, number_in {1, 2} day') of
           (Some y, Some m, Some d) \<Rightarrow>
             if 1 \<le> y \<and> 1 \<le> m \<and> m \<le> 12 \<and> 1 \<le> d \<and> d \<le> days_in_month y m
             then Some (unix_day y m d * 86400) else None
         | _ \<Rightarrow> None)"

lemma parse_day_examples:
  "map parse_day [''1970-01-01'', ''2026-07-28'', ''2000-2-29'', ''1900-02-29'', ''2026-13-01'', ''26-01-01'']
    = [Some 0, Some 1785196800, Some 951782400, None, None, None]"
  by code_simp

section \<open>Requests\<close>

record backtest_request =
  bq_entry_price :: pyfloat
  bq_entry_limit_price :: "pyfloat option"
  bq_entry_from_minute :: "pyfloat option"
  bq_entry_to_minute :: "pyfloat option"
  bq_stop_loss_price :: "pyfloat option"
  bq_stop_loss_from_minute :: "pyfloat option"
  bq_side :: side_selection
  bq_sizing :: sizing_mode
  bq_stake_usd :: pyfloat
  bq_realism :: preset_name
  bq_execution_policy :: entry_execution_policy
  bq_execution_horizon_seconds :: pyfloat
  bq_from_date :: "string option"
  bq_to_date :: "string option"
  bq_max_episodes :: "int option"

text \<open>The doubles \<^verbatim>\<open>0.01\<close> and \<^verbatim>\<open>0.99\<close>.\<close>

definition fl_cent :: pyfloat where "fl_cent = Flt 5764607523034235 (-59)"
definition fl_99 :: pyfloat where "fl_99 = Flt 8917127262193582 (-53)"

definition fl_between :: "pyfloat \<Rightarrow> pyfloat \<Rightarrow> pyfloat \<Rightarrow> bool" where
  "fl_between lo hi x \<longleftrightarrow> fl_le lo x \<and> fl_le x hi"

definition request_fields_ok :: "backtest_request \<Rightarrow> bool" where
  "request_fields_ok q \<longleftrightarrow>
     fl_between fl_cent fl_99 (bq_entry_price q)
     \<and> opt_all (fl_between fl_cent (Flt 1 0)) (bq_entry_limit_price q)
     \<and> opt_all (fl_between (Flt 0 0) (Flt 15 0)) (bq_entry_from_minute q)
     \<and> opt_all (\<lambda>m. fl_less (Flt 0 0) m \<and> fl_le m (Flt 15 0)) (bq_entry_to_minute q)
     \<and> opt_all (\<lambda>p. fl_le fl_cent p \<and> fl_less p fl_99) (bq_stop_loss_price q)
     \<and> opt_all (fl_between (Flt 0 0) (Flt 15 0)) (bq_stop_loss_from_minute q)
     \<and> fl_less (Flt 0 0) (bq_stake_usd q) \<and> fl_le (bq_stake_usd q) (Flt 10000000 0)
     \<and> fl_less (Flt 0 0) (bq_execution_horizon_seconds q)
     \<and> fl_le (bq_execution_horizon_seconds q) (Flt 60 0)
     \<and> opt_all (\<lambda>n. 1 \<le> n) (bq_max_episodes q)"

definition make_request :: "backtest_request \<Rightarrow> py_error + backtest_request" where
  "make_request q =
     (if \<not> request_fields_ok q then Inl (ValueError ''field constraint'')
      else if (case (bq_entry_from_minute q, bq_entry_to_minute q) of
                 (Some a, Some b) \<Rightarrow> fl_le b a | _ \<Rightarrow> False)
      then Inl (ValueError ''the entry window must end after it starts'')
      else if opt_all (\<lambda>p. fl_less p (bq_entry_price q)) (bq_stop_loss_price q) = False
      then Inl (ValueError ''the stop-loss price must be below the entry price'')
      else if bq_stop_loss_from_minute q \<noteq> None \<and> bq_stop_loss_price q = None
      then Inl (ValueError ''a stop-loss price is needed before it can be armed at a minute'')
      else if \<not> opt_all (\<lambda>p. fl_le (bq_entry_price q) p) (bq_entry_limit_price q)
      then Inl (ValueError ''the maximum price paid cannot be below the entry price'')
      else if \<not> opt_all (\<lambda>s. parse_day s \<noteq> None) (bq_from_date q)
      then Inl (ValueError ''from_date must be a UTC date formatted YYYY-MM-DD'')
      else if \<not> opt_all (\<lambda>s. parse_day s \<noteq> None) (bq_to_date q)
      then Inl (ValueError ''to_date must be a UTC date formatted YYYY-MM-DD'')
      else Inr q)"

text \<open>\<^verbatim>\<open>round(x * 1_000_000)\<close>, for prices and dollars alike.\<close>

definition scaled_of :: "pyfloat \<Rightarrow> int" where
  "scaled_of x = fl_nearest (fl_mult x (fl_of_int 1000000))"

definition stake_scaled :: "backtest_request \<Rightarrow> int" where
  "stake_scaled q = scaled_of (bq_stake_usd q)"

definition minute_or :: "pyfloat \<Rightarrow> pyfloat option \<Rightarrow> pyfloat" where
  "minute_or y x = (case x of None \<Rightarrow> y | Some m \<Rightarrow> if mantissa m = 0 then y else m)"

definition to_params :: "backtest_request \<Rightarrow> py_error + threshold_params" where
  "to_params q =
     (let trigger = scaled_of (bq_entry_price q);
          limit = (case bq_entry_limit_price q of
                     None \<Rightarrow> min POLYMARKET_PRICE_SCALE (trigger + 50000)
                   | Some p \<Rightarrow> scaled_of p)
      in make_params
           \<lparr>th_entry_from_minute = minute_or (Flt 0 0) (bq_entry_from_minute q),
            th_entry_to_minute = minute_or (Flt 15 0) (bq_entry_to_minute q),
            th_entry_trigger_price = trigger, th_entry_limit_price = limit,
            th_side_selection = bq_side q, th_order_shares = None,
            th_order_notional = Some (stake_scaled q), th_allow_partial_entry = True,
            th_max_entries_per_episode = 1, th_reentry_cooldown_seconds = Flt 30 0,
            th_entry_execution_policy = bq_execution_policy q,
            th_execution_horizon_seconds = bq_execution_horizon_seconds q,
            th_execution_slices = 4, th_execution_participation_ppm = 200000,
            th_stop_loss_price = map_option scaled_of (bq_stop_loss_price q),
            th_stop_loss_from_minute = bq_stop_loss_from_minute q,
            th_stop_loss_fraction_ppm = 1000000, th_take_profit_price = None,
            th_take_profit_fraction_ppm = 1000000, th_stop_retry_limit = 3,
            th_stop_retry_interval_ms = 250, th_flatten_before_end_seconds = None,
            th_hold_to_settlement = True\<rparr>)"

text \<open>
  The inclusive episode-start bounds; \<^verbatim>\<open>strptime\<close> has accepted the dates.  \<^verbatim>\<open>timestamp()\<close> gives seconds
  as a float.
\<close>

definition date_ns :: "string option \<Rightarrow> bool \<Rightarrow> int option" where
  "date_ns v end_of_day =
     (case v of None \<Rightarrow> None
      | Some s \<Rightarrow> (case parse_day s of None \<Rightarrow> None
          | Some seconds \<Rightarrow>
              Some (fl_trunc (fl_mult (fl_of_int (seconds + (if end_of_day then 86400 else 0)))
                                      (fl_of_int 1000000000)))))"

definition window_ns :: "backtest_request \<Rightarrow> int option \<times> int option" where
  "window_ns q = (date_ns (bq_from_date q) False, date_ns (bq_to_date q) True)"

section \<open>Selection\<close>

definition in_window :: "int option \<times> int option \<Rightarrow> episode \<Rightarrow> bool" where
  "in_window w e \<longleftrightarrow>
     opt_all (\<lambda>lo. lo \<le> ep_start_utc_ns e) (fst w) \<and> opt_all (\<lambda>hi. ep_start_utc_ns e \<le> hi) (snd w)"

text \<open>The loop of \<^verbatim>\<open>_selected\<close>: the episodes kept and a counter of why others were not.\<close>

definition bump :: "string \<Rightarrow> (string \<times> nat) list \<Rightarrow> (string \<times> nat) list" where
  "bump k counter = dict_put k (case map_of counter k of None \<Rightarrow> 1 | Some n \<Rightarrow> n + 1) counter"

definition exclusion_label :: "episode \<Rightarrow> string" where
  "exclusion_label e =
     (case ep_exclusion_reason e of None \<Rightarrow> ''ineligible'' | Some r \<Rightarrow> if r = [] then ''ineligible'' else r)"

fun select_loop :: "(episode \<Rightarrow> bool) \<Rightarrow> int option \<times> int option \<Rightarrow> episode list
    \<Rightarrow> episode list \<times> (string \<times> nat) list \<Rightarrow> episode list \<times> (string \<times> nat) list" where
  "select_loop ready w [] acc = acc"
| "select_loop ready w (e # es) (kept, excluded) =
     (if \<not> in_window w e then select_loop ready w es (kept, excluded)
      else if \<not> ep_eligible e then select_loop ready w es (kept, bump (exclusion_label e) excluded)
      else if \<not> ready e then select_loop ready w es (kept, bump ''tape_not_built_yet'' excluded)
      else select_loop ready w es (kept @ [e], excluded))"

definition last_n :: "nat \<Rightarrow> 'a list \<Rightarrow> 'a list" where
  "last_n n xs = drop (length xs - n) xs"

definition selected_episodes :: "(episode \<Rightarrow> bool) \<Rightarrow> episode list \<Rightarrow> backtest_request
    \<Rightarrow> episode list \<times> (string \<times> nat) list" where
  "selected_episodes ready index q =
     (let (kept, excluded) = select_loop ready (window_ns q) (sort_key ep_start_utc_ns index) ([], [])
      in (case bq_max_episodes q of
            None \<Rightarrow> kept
          | Some n \<Rightarrow> if n < int (length kept) then last_n (nat n) kept else kept, excluded))"

section \<open>Jobs\<close>

datatype job_status = Queued | Running | Succeeded | Failed

record 'res backtest_job =
  jb_request :: backtest_request
  jb_created_utc_ns :: int
  jb_state :: job_status
  jb_total :: nat
  jb_completed :: nat
  jb_started_utc_ns :: "int option"
  jb_finished_utc_ns :: "int option"
  jb_result :: "'res option"
  jb_error :: "py_error option"

definition MAX_RETAINED_JOBS :: nat where "MAX_RETAINED_JOBS = 64"

definition JOB_TTL_SECONDS :: int where "JOB_TTL_SECONDS = 3600"

definition make_job :: "backtest_request \<Rightarrow> int \<Rightarrow> nat \<Rightarrow> 'res backtest_job" where
  "make_job q now n =
     \<lparr>jb_request = q, jb_created_utc_ns = now, jb_state = Queued, jb_total = n, jb_completed = 0,
      jb_started_utc_ns = None, jb_finished_utc_ns = None, jb_result = None, jb_error = None\<rparr>"

definition job_done :: "'res backtest_job \<Rightarrow> bool" where
  "job_done j \<longleftrightarrow> jb_state j \<in> {Succeeded, Failed}"

type_synonym 'res jobs = "(string \<times> 'res backtest_job) list"

text \<open>The two passes of \<^verbatim>\<open>_prune\<close>: finished jobs past their time, then the oldest answered ones.\<close>

definition drop_expired :: "int \<Rightarrow> 'res jobs \<Rightarrow> 'res jobs" where
  "drop_expired now d =
     (let cutoff = now - JOB_TTL_SECONDS * 1000000000
      in filter (\<lambda>(_, j). opt_all (\<lambda>t. cutoff \<le> t) (jb_finished_utc_ns j)) d)"

fun drop_first_done :: "'res jobs \<Rightarrow> 'res jobs" where
  "drop_first_done [] = []"
| "drop_first_done ((k, j) # d) = (if job_done j then d else (k, j) # drop_first_done d)"

lemma drop_first_done_length:
  "(\<exists>(k, j) \<in> set d. job_done j) \<Longrightarrow> length d = Suc (length (drop_first_done d))"
  by (induction d rule: drop_first_done.induct) auto

function drop_done :: "'res jobs \<Rightarrow> 'res jobs" where
  "drop_done d =
     (if MAX_RETAINED_JOBS < length d \<and> list_ex (\<lambda>(_, j). job_done j) d
      then drop_done (drop_first_done d) else d)"
  by pat_completeness auto

termination
proof (relation "measure length")
  fix d :: "'res jobs"
  assume "MAX_RETAINED_JOBS < length d \<and> list_ex (\<lambda>(_, j). job_done j) d"
  then have "\<exists>(k, j) \<in> set d. job_done j" by (auto simp: list_ex_iff)
  from drop_first_done_length [OF this] show "(drop_first_done d, d) \<in> measure length" by simp
qed simp

declare drop_done.simps [simp del]

definition prune :: "int \<Rightarrow> 'res jobs \<Rightarrow> 'res jobs" where
  "prune now d = drop_done (drop_expired now d)"

definition update_job :: "string \<Rightarrow> ('res backtest_job \<Rightarrow> 'res backtest_job) \<Rightarrow> 'res jobs \<Rightarrow> 'res jobs" where
  "update_job i f d = map (\<lambda>(k, j). (k, if k = i then f j else j)) d"

text \<open>The effects of \<^verbatim>\<open>_run\<close> and of the progress callback on their job.\<close>

definition start_job :: "int \<Rightarrow> 'res backtest_job \<Rightarrow> 'res backtest_job" where
  "start_job now j = j\<lparr>jb_state := Running, jb_started_utc_ns := Some now\<rparr>"

definition advance_job :: "'res backtest_job \<Rightarrow> 'res backtest_job" where
  "advance_job j = j\<lparr>jb_completed := jb_completed j + 1\<rparr>"

definition settle_job :: "py_error + 'res \<Rightarrow> 'res backtest_job \<Rightarrow> 'res backtest_job" where
  "settle_job outcome j =
     (case outcome of
        Inr res \<Rightarrow> j\<lparr>jb_completed := jb_total j, jb_result := Some res, jb_state := Succeeded\<rparr>
      | Inl err \<Rightarrow> j\<lparr>jb_error := Some err, jb_state := Failed\<rparr>)"

definition stamp_job :: "int \<Rightarrow> 'res backtest_job \<Rightarrow> 'res backtest_job" where
  "stamp_job now j = j\<lparr>jb_finished_utc_ns := Some now\<rparr>"

text \<open>
  The single worker and the submissions around it.  A submission stamps its job, puts it into the
  dictionary under the lock, after pruning, and hands it to the executor when it has left the lock; in
  between the job is arriving, and other submissions may overtake it.  A job leaves the worker in two
  moves: its answer first, the time it finished after that.  Answered jobs are pruned by the next
  submission only.
\<close>

datatype worker = Idle | Evaluating string | Settled string

record 'res job_system =
  js_jobs :: "'res jobs"
  js_arriving :: "string list"
  js_queue :: "string list"
  js_worker :: worker
  js_now :: int

definition waiting :: "'res job_system \<Rightarrow> string list" where
  "waiting s = js_queue s @ js_arriving s"

inductive job_step :: "'res job_system \<Rightarrow> 'res job_system \<Rightarrow> bool" where
  tick: "js_now s \<le> t \<Longrightarrow> job_step s (s\<lparr>js_now := t\<rparr>)"
| submitted: "i \<notin> fst ` set (js_jobs s) \<Longrightarrow> i \<notin> set (waiting s) \<Longrightarrow> js_worker s \<notin> {Evaluating i, Settled i} \<Longrightarrow>
     created \<le> js_now s \<Longrightarrow>
     job_step s (s\<lparr>js_jobs := dict_put i (make_job q created n) (prune (js_now s) (js_jobs s)),
                   js_arriving := js_arriving s @ [i]\<rparr>)"
| enqueued: "i \<in> set (js_arriving s) \<Longrightarrow>
     job_step s (s\<lparr>js_arriving := remove1 i (js_arriving s), js_queue := js_queue s @ [i]\<rparr>)"
| started: "js_worker s = Idle \<Longrightarrow> js_queue s = i # is \<Longrightarrow>
     job_step s (s\<lparr>js_jobs := update_job i (start_job (js_now s)) (js_jobs s), js_queue := is,
                   js_worker := Evaluating i\<rparr>)"
| advanced: "js_worker s = Evaluating i \<Longrightarrow>
     job_step s (s\<lparr>js_jobs := update_job i advance_job (js_jobs s)\<rparr>)"
| settled: "js_worker s = Evaluating i \<Longrightarrow>
     job_step s (s\<lparr>js_jobs := update_job i (settle_job outcome) (js_jobs s), js_worker := Settled i\<rparr>)"
| stamped: "js_worker s = Settled i \<Longrightarrow>
     job_step s (s\<lparr>js_jobs := update_job i (stamp_job (js_now s)) (js_jobs s), js_worker := Idle\<rparr>)"

inductive reachable_jobs :: "'res job_system \<Rightarrow> bool" where
  start: "reachable_jobs \<lparr>js_jobs = [], js_arriving = [], js_queue = [], js_worker = Idle, js_now = t\<rparr>"
| step: "reachable_jobs s \<Longrightarrow> job_step s s' \<Longrightarrow> reachable_jobs s'"

section \<open>Facts on jobs\<close>

lemma drop_done_spec:
  "(length (drop_done d) \<le> MAX_RETAINED_JOBS \<or> (\<forall>(k, j) \<in> set (drop_done d). \<not> job_done j))
   \<and> set (drop_done d) \<subseteq> set d \<and> {(k, j) \<in> set d. \<not> job_done j} \<subseteq> set (drop_done d)
   \<and> (distinct (map fst d) \<longrightarrow> distinct (map fst (drop_done d)))"
proof (induction d rule: drop_done.induct)
  case (1 d)
  have first: "set (drop_first_done d) \<subseteq> set d" "{(k, j) \<in> set d. \<not> job_done j} \<subseteq> set (drop_first_done d)"
    "distinct (map fst d) \<Longrightarrow> distinct (map fst (drop_first_done d))"
    by (induction d rule: drop_first_done.induct) (auto split: if_splits)
  show ?case
  proof (cases "MAX_RETAINED_JOBS < length d \<and> list_ex (\<lambda>(_, j). job_done j) d")
    case True
    then have "drop_done d = drop_done (drop_first_done d)" by (subst drop_done.simps) simp
    with "1.IH" [OF True] first show ?thesis by auto
  next
    case False
    then have "drop_done d = d" by (subst drop_done.simps) (simp only: if_False)
    with False show ?thesis by (auto simp: list_ex_iff)
  qed
qed

lemma prune_spec:
  "length (prune now d) \<le> MAX_RETAINED_JOBS \<or> (\<forall>(k, j) \<in> set (prune now d). \<not> job_done j)"
  "set (prune now d) \<subseteq> set d"
  "(k, j) \<in> set d \<Longrightarrow> \<not> job_done j \<Longrightarrow> jb_finished_utc_ns j = None \<Longrightarrow> (k, j) \<in> set (prune now d)"
  "distinct (map fst d) \<Longrightarrow> distinct (map fst (prune now d))"
  "(k, j) \<in> set (prune now d) \<Longrightarrow> jb_finished_utc_ns j = Some t \<Longrightarrow> now - 3600000000000 \<le> t"
proof -
  note spec = drop_done_spec [of "drop_expired now d", folded prune_def]
  show "length (prune now d) \<le> MAX_RETAINED_JOBS \<or> (\<forall>(k, j) \<in> set (prune now d). \<not> job_done j)"
    using spec by blast
  show "set (prune now d) \<subseteq> set d" using spec by (auto simp: drop_expired_def)
  show "(k, j) \<in> set d \<Longrightarrow> \<not> job_done j \<Longrightarrow> jb_finished_utc_ns j = None \<Longrightarrow> (k, j) \<in> set (prune now d)"
    using spec by (auto simp: drop_expired_def)
  show "distinct (map fst d) \<Longrightarrow> distinct (map fst (prune now d))"
    using spec by (auto simp: drop_expired_def distinct_map_filter)
  show "(k, j) \<in> set (prune now d) \<Longrightarrow> jb_finished_utc_ns j = Some t \<Longrightarrow> now - 3600000000000 \<le> t"
    using spec by (auto simp: drop_expired_def JOB_TTL_SECONDS_def)
qed

lemma update_job_keys [simp]: "map fst (update_job i f d) = map fst d"
  by (induction d) (auto simp: update_job_def)

lemma map_of_update_job [simp]:
  "map_of (update_job i f d) k = map_option (\<lambda>j. if k = i then f j else j) (map_of d k)"
  by (induction d) (auto simp: update_job_def)


text \<open>What holds of every job the service keeps, given the queue and the worker.\<close>

definition job_kept :: "string list \<Rightarrow> worker \<Rightarrow> string \<Rightarrow> 'res backtest_job \<Rightarrow> bool" where
  "job_kept q w i j \<longleftrightarrow>
     (jb_state j = Queued \<longleftrightarrow> i \<in> set q) \<and> (jb_state j = Running \<longleftrightarrow> w = Evaluating i)
     \<and> (jb_finished_utc_ns j \<noteq> None \<longrightarrow> job_done j \<and> w \<noteq> Settled i)"

definition jobs_inv :: "'res job_system \<Rightarrow> bool" where
  "jobs_inv s \<longleftrightarrow>
     distinct (map fst (js_jobs s)) \<and> distinct (waiting s)
     \<and> (\<forall>(i, j) \<in> set (js_jobs s). job_kept (waiting s) (js_worker s) i j)
     \<and> set (waiting s) \<union> {i. js_worker s = Evaluating i} \<subseteq> fst ` set (js_jobs s)
     \<and> (\<forall>i \<in> set (waiting s). js_worker s \<notin> {Evaluating i, Settled i})"

lemma set_update_job:
  "set (update_job i f d) = (\<lambda>(k, j). (k, if k = i then f j else j)) ` set d"
  by (simp add: update_job_def)

lemma keys_update_job [simp]: "fst ` set (update_job i f d) = fst ` set d"
  by (force simp: set_update_job)

lemma job_kept_not_done: "job_kept q w i j \<Longrightarrow> i \<in> set q \<or> w = Evaluating i \<Longrightarrow>
    \<not> job_done j \<and> jb_finished_utc_ns j = None"
  by (auto simp: job_kept_def job_done_def)

lemma jobs_inv_submit:
  assumes "jobs_inv s" "i \<notin> fst ` set (js_jobs s)" "i \<notin> set (waiting s)"
    "js_worker s \<notin> {Evaluating i, Settled i}"
  shows "jobs_inv (s\<lparr>js_jobs := dict_put i (make_job q t n) (prune (js_now s) (js_jobs s)),
      js_arriving := js_arriving s @ [i]\<rparr>)"
proof -
  let ?d = "prune (js_now s) (js_jobs s)" and ?j = "make_job q t n"
  have inv: "distinct (map fst (js_jobs s))" "distinct (waiting s)"
    "\<And>k j. (k, j) \<in> set (js_jobs s) \<Longrightarrow> job_kept (waiting s) (js_worker s) k j"
    "set (waiting s) \<union> {i. js_worker s = Evaluating i} \<subseteq> fst ` set (js_jobs s)"
    "\<forall>i \<in> set (waiting s). js_worker s \<notin> {Evaluating i, Settled i}"
    using assms(1) by (auto simp: jobs_inv_def)
  have d: "distinct (map fst ?d)" using prune_spec(4) inv(1) by blast
  have sub: "set ?d \<subseteq> set (js_jobs s)" by (rule prune_spec(2))
  have put: "set (dict_put i ?j ?d) = insert (i, ?j) {p \<in> set ?d. fst p \<noteq> i}"
    by (rule set_dict_put) (use d in \<open>simp add: dict_keys_distinct_def\<close>)
  have keep: "k \<in> fst ` set ?d" if "k \<in> set (waiting s) \<or> js_worker s = Evaluating k" for k
  proof -
    have "k \<in> fst ` set (js_jobs s)" using that inv(4) by blast
    then obtain j where j: "(k, j) \<in> set (js_jobs s)" by auto
    from prune_spec(3) [OF this] job_kept_not_done [OF inv(3) [OF j] that] show ?thesis by force
  qed
  have "job_kept (waiting s @ [i]) (js_worker s) k j" if "(k, j) \<in> set (dict_put i ?j ?d)" for k j
  proof (cases "k = i")
    case True
    with that put assms(4) show ?thesis by (auto simp: job_kept_def make_job_def)
  next
    case False
    with that put sub inv(3) [of k j] show ?thesis by (auto simp: job_kept_def)
  qed
  moreover have "distinct (map fst (dict_put i ?j ?d))"
    using dict_put_distinct [of ?d i ?j] d by (simp add: dict_keys_distinct_def)
  moreover have "set (waiting s @ [i]) \<union> {k. js_worker s = Evaluating k} \<subseteq> fst ` set (dict_put i ?j ?d)"
    using keep by (auto simp: fst_set_dict_put)
  ultimately show ?thesis
    using inv(2,5) assms(3,4) unfolding jobs_inv_def waiting_def by auto
qed

lemma job_done_iff: "job_done j \<longleftrightarrow> jb_state j \<noteq> Queued \<and> jb_state j \<noteq> Running"
  by (cases "jb_state j") (simp_all add: job_done_def)

lemma jobs_inv_update:
  assumes "jobs_inv s" "distinct (q @ js_arriving s)"
    and "\<And>k j. (k, j) \<in> set (js_jobs s) \<Longrightarrow> job_kept (waiting s) (js_worker s) k j \<Longrightarrow>
      job_kept (q @ js_arriving s) w k (if k = i then f j else j)"
    and "set (q @ js_arriving s) \<union> {i. w = Evaluating i} \<subseteq> set (waiting s) \<union> {i. js_worker s = Evaluating i}"
    and "\<forall>i \<in> set (q @ js_arriving s). w \<notin> {Evaluating i, Settled i}"
  shows "jobs_inv (s\<lparr>js_jobs := update_job i f (js_jobs s), js_queue := q, js_worker := w\<rparr>)"
proof -
  have inv: "distinct (map fst (js_jobs s))"
    "\<And>k j. (k, j) \<in> set (js_jobs s) \<Longrightarrow> job_kept (waiting s) (js_worker s) k j"
    "set (waiting s) \<union> {i. js_worker s = Evaluating i} \<subseteq> fst ` set (js_jobs s)"
    using assms(1) by (auto simp: jobs_inv_def)
  have "job_kept (q @ js_arriving s) w k j" if "(k, j) \<in> set (update_job i f (js_jobs s))" for k j
    using that inv(2) assms(3) by (auto simp: set_update_job)
  moreover have "waiting (s\<lparr>js_jobs := update_job i f (js_jobs s), js_queue := q, js_worker := w\<rparr>) = q @ js_arriving s"
    by (simp add: waiting_def)
  ultimately show ?thesis using inv(1,3) assms(2,4,5) unfolding jobs_inv_def by auto
qed

lemma jobs_inv_enqueue:
  assumes "jobs_inv s" "i \<in> set (js_arriving s)"
  shows "jobs_inv (s\<lparr>js_arriving := remove1 i (js_arriving s), js_queue := js_queue s @ [i]\<rparr>)"
proof -
  let ?s = "s\<lparr>js_arriving := remove1 i (js_arriving s), js_queue := js_queue s @ [i]\<rparr>"
  have d: "distinct (waiting s)" using assms(1) by (simp add: jobs_inv_def)
  then have same: "set (waiting ?s) = set (waiting s)" and "distinct (waiting ?s)"
    using assms(2) by (auto simp: waiting_def)
  moreover have kept: "job_kept (waiting ?s) = job_kept (waiting s)"
    by (simp only: job_kept_def fun_eq_iff same simp_thms)
  ultimately show ?thesis using assms(1) unfolding jobs_inv_def same kept by simp
qed

lemma job_step_inv:
  assumes "job_step s s'" "jobs_inv s"
  shows "jobs_inv s'"
proof -
  have inv: "distinct (waiting s)" "\<forall>i \<in> set (waiting s). js_worker s \<notin> {Evaluating i, Settled i}"
    using assms(2) by (auto simp: jobs_inv_def)
  note inv = inv [unfolded waiting_def]
  note kept = job_kept_def job_done_iff start_job_def advance_job_def settle_job_def stamp_job_def waiting_def
  from assms(1) show ?thesis
  proof (cases rule: job_step.cases)
    case (tick t)
    with assms(2) show ?thesis by (simp add: jobs_inv_def waiting_def)
  next
    case (submitted i created q n)
    with jobs_inv_submit [OF assms(2) submitted(2-4)] show ?thesis by simp
  next
    case (enqueued i)
    with jobs_inv_enqueue [OF assms(2)] show ?thesis by simp
  next
    case (started i "is")
    have "jobs_inv (s\<lparr>js_jobs := update_job i (start_job (js_now s)) (js_jobs s), js_queue := is,
        js_worker := Evaluating i\<rparr>)"
      by (rule jobs_inv_update [OF assms(2)]) (use started inv in \<open>auto simp: kept\<close>)
    with started show ?thesis by simp
  next
    case (advanced i)
    have "jobs_inv (s\<lparr>js_jobs := update_job i advance_job (js_jobs s), js_queue := js_queue s,
        js_worker := js_worker s\<rparr>)"
      by (rule jobs_inv_update [OF assms(2) inv(1) _ _ inv(2)]) (auto simp: kept)
    with advanced(1) show ?thesis by (cases s) simp
  next
    case (settled i outcome)
    have "jobs_inv (s\<lparr>js_jobs := update_job i (settle_job outcome) (js_jobs s), js_queue := js_queue s,
        js_worker := Settled i\<rparr>)"
      by (rule jobs_inv_update [OF assms(2) inv(1)])
        (use settled inv in \<open>auto simp: kept split: sum.splits\<close>)
    with settled show ?thesis by simp
  next
    case (stamped i)
    have "jobs_inv (s\<lparr>js_jobs := update_job i (stamp_job (js_now s)) (js_jobs s), js_queue := js_queue s,
        js_worker := Idle\<rparr>)"
      by (rule jobs_inv_update [OF assms(2) inv(1)]) (use stamped inv in \<open>auto simp: kept\<close>)
    with stamped show ?thesis by simp
  qed
qed

lemma reachable_jobs_inv: "reachable_jobs s \<Longrightarrow> jobs_inv s"
proof (induction rule: reachable_jobs.induct)
  case (start t)
  then show ?case by (simp add: jobs_inv_def waiting_def)
qed (rule job_step_inv)

text \<open>What a submission leaves: the other steps keep the ids as they are.\<close>

lemma submission_bounds:
  assumes "job_step s s'" "\<not> fst ` set (js_jobs s') \<subseteq> fst ` set (js_jobs s)"
    and "distinct (map fst (js_jobs s))"
  shows "(length (js_jobs s') \<le> Suc MAX_RETAINED_JOBS \<or> (\<forall>(i, j) \<in> set (js_jobs s'). \<not> job_done j))
    \<and> (\<forall>(i, j) \<in> set (js_jobs s'). opt_all (\<lambda>t. js_now s' - 3600000000000 \<le> t) (jb_finished_utc_ns j))"
  using assms(1)
proof (cases rule: job_step.cases)
  case (submitted i created q n)
  let ?d = "prune (js_now s) (js_jobs s)" and ?j = "make_job q created n"
  have d: "distinct (map fst ?d)" using prune_spec(4) assms(3) by blast
  have new: "\<not> job_done ?j" "jb_finished_utc_ns ?j = None" by (simp_all add: make_job_def job_done_def)
  have put: "set (dict_put i ?j ?d) = insert (i, ?j) {p \<in> set ?d. fst p \<noteq> i}"
    by (rule set_dict_put) (use d in \<open>simp add: dict_keys_distinct_def\<close>)
  have "length (dict_put i ?j ?d) \<le> Suc (length ?d)" for d :: "'a jobs"
    using arg_cong [OF keys_dict_put [of i ?j ?d], of length] by (simp split: if_splits)
  moreover have "\<not> job_done j" if "\<forall>(k, j) \<in> set ?d. \<not> job_done j" "(k, j) \<in> set (dict_put i ?j ?d)" for k j
    using that put new by auto
  moreover have "opt_all (\<lambda>t. js_now s - 3600000000000 \<le> t) (jb_finished_utc_ns j)" if "(k, j) \<in> set (dict_put i ?j ?d)" for k j
  proof (cases "k = i")
    case True
    with that put have "j = ?j" by auto
    then show ?thesis by (simp add: make_job_def)
  next
    case False
    with that put have "(k, j) \<in> set ?d" by auto
    from prune_spec(5) [OF this] show ?thesis by (simp add: opt_all_def split: option.split)
  qed
  ultimately show ?thesis
    using prune_spec(1) [of "js_now s" "js_jobs s"] unfolding submitted(1) by (auto intro: order_trans)
qed (use assms(2) in simp_all)


section \<open>Facts on dates\<close>

lemma round_half_even_exact: "0 < d \<Longrightarrow> round_half_even (k * d) d = k"
  by (simp add: round_half_even_def)

text \<open>A product with enough trailing zero bits survives rounding to 53 bits.\<close>

lemma fl_trunc_round_shifted:
  assumes "\<bar>m\<bar> < 2 ^ 53"
  shows "fl_trunc (fl_round (m * 2 ^ n) 0) = m * 2 ^ n"
proof -
  let ?k = "bit_len (nat \<bar>m * 2 ^ n\<bar>)"
  have "\<bar>m * 2 ^ n\<bar> < 2 ^ 53 * 2 ^ n" using assms by (simp add: abs_mult)
  then have "nat \<bar>m * 2 ^ n\<bar> < nat (2 ^ (53 + n))" by (subst nat_less_eq_zless) (simp_all add: power_add)
  then have "nat \<bar>m * 2 ^ n\<bar> < 2 ^ (53 + n)" by (simp add: nat_power_eq)
  then have k: "?k - 53 \<le> n" using bit_len_le [of "nat \<bar>m * 2 ^ n\<bar>" "53 + n"] by simp
  define t where "t = ?k - 53"
  have "n = (n - t) + t" using k by (simp add: t_def)
  then have pow: "m * 2 ^ (n - t) * 2 ^ t = m * 2 ^ n" by (metis mult.assoc power_add)
  have "round_half_even (m * 2 ^ (n - t) * 2 ^ t) (2 ^ t) = m * 2 ^ (n - t)"
    by (rule round_half_even_exact) simp
  then have "round_half_even (m * 2 ^ n) (2 ^ t) = m * 2 ^ (n - t)" unfolding pow .
  moreover have "fl_round (m * 2 ^ n) 0 = Flt (m * 2 ^ n) 0
      \<or> fl_round (m * 2 ^ n) 0 = Flt (round_half_even (m * 2 ^ n) (2 ^ t)) (int t)"
    by (simp add: fl_round_def Let_def t_def)
  ultimately show ?thesis using pow by (auto simp: fl_trunc_def)
qed

lemma digits_value_bound:
  "0 \<le> acc \<Longrightarrow> digits_value acc s = Some n \<Longrightarrow> 0 \<le> n \<and> n < (acc + 1) * 10 ^ length s"
proof (induction s arbitrary: acc)
  case (Cons c s)
  obtain d where d: "digit_value c = Some d" "digits_value (10 * acc + d) s = Some n"
    using Cons.prems(2) by (auto split: option.splits)
  have "d \<in> set [0, 1, 2, 3, 4, 5, 6, 7, 8, 9]"
    using map_of_SomeD [OF d(1) [unfolded digit_value_def]] by (rule set_zip_rightD)
  then have digit: "0 \<le> d" "d \<le> 9" by auto
  then have "0 \<le> n \<and> n < (10 * acc + d + 1) * 10 ^ length s" using Cons.IH [OF _ d(2)] Cons.prems(1) by simp
  moreover have "(10 * acc + d + 1) * 10 ^ length s \<le> ((acc + 1) * 10) * 10 ^ length s"
    by (rule mult_right_mono) (use digit in simp_all)
  moreover have "((acc + 1) * 10) * 10 ^ length s = (acc + 1) * 10 ^ length (c # s)" by simp
  ultimately show ?case by linarith
qed simp

lemma days_in_month_bounds: "28 \<le> days_in_month y m \<and> days_in_month y m \<le> 31"
  by (simp add: days_in_month_def)

lemma days_before_month_bounds:
  assumes "1 \<le> m" "m \<le> 12"
  shows "0 \<le> days_before_month y m \<and> days_before_month y m \<le> 341"
proof -
  have "0 \<le> sum_list (map (days_in_month y) ms) \<and> sum_list (map (days_in_month y) ms) \<le> 31 * int (length ms)" for ms
  proof (induction ms)
    case (Cons m ms)
    with days_in_month_bounds [of y m] show ?case by simp
  qed simp
  from this [of "[1..m - 1]"] assms show ?thesis by (simp add: days_before_month_def)
qed

lemma parse_day_day:
  assumes "parse_day s = Some t"
  shows "\<exists>d. t = d * 86400 \<and> \<bar>d\<bar> < 5000000"
proof -
  obtain y m d year where ymd: "number_in {4} year = Some y" "1 \<le> y" "1 \<le> m" "m \<le> 12" "1 \<le> d" "d \<le> days_in_month y m"
    "t = unix_day y m d * 86400"
    using assms by (auto simp: parse_day_def Let_def split: prod.splits option.splits if_splits)
  have y: "y \<le> 9999"
    using ymd(1) digits_value_bound [of 0 year y] by (auto simp: number_in_def split: if_splits)
  have "days_before_year y \<le> 366 * 9999" "0 \<le> days_before_year y"
    using ymd(2) y by (simp_all add: days_before_year_def)
  with ymd(5,6) days_in_month_bounds [of y m] days_before_month_bounds [OF ymd(3,4), of y]
  have "\<bar>unix_day y m d\<bar> < 5000000" by (auto simp: unix_day_def)
  with ymd(7) show ?thesis by blast
qed

lemma day_to_ns:
  assumes "\<bar>d\<bar> \<le> 5000000"
  shows "fl_trunc (fl_mult (fl_of_int (d * 86400)) (fl_of_int 1000000000)) = d * 86400 * 1000000000"
proof -
  have "fl_of_int (d * 86400) = Flt (d * 86400) 0" "fl_of_int 1000000000 = Flt 1000000000 0"
    using assms by (simp_all add: fl_of_int_def fl_round_exact)
  moreover have "d * 86400 * 1000000000 = (d * 1318359375) * 2 ^ 16" by simp
  moreover have "\<bar>d * 1318359375\<bar> < 2 ^ 53" using assms by (simp add: abs_mult)
  ultimately show ?thesis
    using fl_trunc_round_shifted [of "d * 1318359375" 16] by (simp add: fl_mult_def)
qed


section \<open>Facts on the selection\<close>

definition wanted :: "(episode \<Rightarrow> bool) \<Rightarrow> int option \<times> int option \<Rightarrow> episode \<Rightarrow> bool" where
  "wanted ready w e \<longleftrightarrow> in_window w e \<and> ep_eligible e \<and> ready e"

definition counted :: "(string \<times> nat) list \<Rightarrow> nat" where
  "counted counter = sum_list (map snd counter)"

lemma counted_bump: "counted (bump k counter) = counted counter + 1"
proof -
  have "sum_list (map snd (dict_put k (case map_of d k of None \<Rightarrow> 1 | Some n \<Rightarrow> n + 1) d)) = sum_list (map snd d) + (1 :: nat)" for d
    by (induction d) (auto split: option.splits)
  then show ?thesis by (simp add: counted_def bump_def)
qed

lemma select_loop_spec:
  "select_loop ready w es (kept, excluded) = (kept', excluded') \<Longrightarrow>
     kept' = kept @ filter (wanted ready w) es
     \<and> counted excluded' = counted excluded + length (filter (\<lambda>e. in_window w e \<and> \<not> (ep_eligible e \<and> ready e)) es)"
proof (induction es arbitrary: kept excluded)
  case (Cons e es)
  then show ?case
    by (cases "in_window w e"; cases "ep_eligible e"; cases "ready e")
      (force simp: wanted_def counted_bump)+
qed simp

lemma last_n_suffix: "\<exists>older. xs = older @ last_n n xs \<and> length (last_n n xs) = min n (length xs)"
  by (rule exI [of _ "take (length xs - n) xs"]) (simp add: last_n_def)

section \<open>Properties\<close>

text \<open>
  C38. A request runs the latest of the markets it asks for.  The markets selected are, in start order,
  the most recent \<^verbatim>\<open>max_episodes\<close> of the indexed ones that start within the requested dates, are eligible
  and have a published tape.  Of the markets within the dates, those that are not eligible or have no tape are
  each counted once among the excluded; eligible ones with a tape that the limit cuts off, older than the selected, are
  counted nowhere.
\<close>

theorem selection_is_latest_wanted:
  assumes "selected_episodes ready index q = (selected, excluded)"
  shows "\<exists>older. filter (wanted ready (window_ns q)) (sort_key ep_start_utc_ns index) = older @ selected
    \<and> (case bq_max_episodes q of None \<Rightarrow> older = []
        | Some n \<Rightarrow> if 0 \<le> n then length selected = min (nat n) (length (older @ selected)) else selected = [])
    \<and> sorted (map ep_start_utc_ns selected)
    \<and> sum_list (map snd excluded) + length (older @ selected)
        = length (filter (in_window (window_ns q)) index)"
proof -
  let ?w = "window_ns q" and ?es = "sort_key ep_start_utc_ns index"
  let ?all = "filter (wanted ready ?w) ?es"
  obtain kept where loop: "select_loop ready ?w ?es ([], []) = (kept, excluded)"
    "selected = (case bq_max_episodes q of None \<Rightarrow> kept
       | Some n \<Rightarrow> if n < int (length kept) then last_n (nat n) kept else kept)"
    using assms by (auto simp: selected_episodes_def split: prod.splits)
  note spec = select_loop_spec [OF loop(1)]
  obtain older where older: "kept = older @ selected"
    "case bq_max_episodes q of None \<Rightarrow> older = []
     | Some n \<Rightarrow> if 0 \<le> n then length selected = min (nat n) (length kept) else selected = []"
  proof (cases "bq_max_episodes q")
    case None
    with loop(2) that [of "[]"] show ?thesis by simp
  next
    case (Some n)
    show ?thesis
    proof (cases "n < int (length kept)")
      case True
      obtain old where "kept = old @ last_n (nat n) kept" "length (last_n (nat n) kept) = min (nat n) (length kept)"
        using last_n_suffix [of kept "nat n"] by blast
      moreover from this have "last_n (nat n) kept = []" if "\<not> 0 \<le> n" using that by simp
      ultimately show ?thesis using True Some loop(2) that [of old] by auto
    next
      case False
      with Some loop(2) that [of "[]"] show ?thesis by auto
    qed
  qed
  have kept: "kept = ?all" using spec by simp
  have "sorted (map ep_start_utc_ns ?all)" by (simp add: sorted_filter)
  then have "sorted (map ep_start_utc_ns selected)" using older(1) kept by (simp add: sorted_append)
  moreover have "sum_list (map snd excluded) + length ?all = length (filter (in_window ?w) ?es)"
  proof -
    have "length (filter (\<lambda>e. in_window ?w e \<and> \<not> (ep_eligible e \<and> ready e)) es)
        + length (filter (wanted ready ?w) es) = length (filter (in_window ?w) es)" for es
      by (induction es) (auto simp: wanted_def)
    with spec show ?thesis by (simp add: counted_def)
  qed
  moreover have "length (filter (in_window ?w) ?es) = length (filter (in_window ?w) index)"
    by (rule mset_eq_length) (simp add: mset_filter)
  moreover have "?all = older @ selected" using older(1) kept by simp
  ultimately show ?thesis using older(2) unfolding older(1) by (intro exI [of _ older]) simp
qed

text \<open>
  C39. Requested dates become exact bounds, and the last one reaches into the next day.  For a request the
  model accepts, the float arithmetic loses nothing: the first bound is midnight UTC of the first date and
  the last is the midnight that ends the last date, in nanoseconds; and since the bound is inclusive, a market that
  starts exactly at that midnight, on the day after the last date, is inside.
\<close>

theorem dates_bound_exactly:
  assumes "make_request q = Inr q'"
  shows "window_ns q = (map_option (\<lambda>s. the (parse_day s) * 1000000000) (bq_from_date q),
      map_option (\<lambda>s. (the (parse_day s) + 86400) * 1000000000) (bq_to_date q))
    \<and> (\<forall>s e. bq_from_date q = None \<longrightarrow> bq_to_date q = Some s
          \<longrightarrow> ep_start_utc_ns e = (the (parse_day s) + 86400) * 1000000000 \<longrightarrow> in_window (window_ns q) e)"
proof -
  have dates: "opt_all (\<lambda>s. parse_day s \<noteq> None) (bq_from_date q)" "opt_all (\<lambda>s. parse_day s \<noteq> None) (bq_to_date q)"
    using assms by (auto simp: make_request_def split: if_splits)
  have "date_ns v late = map_option (\<lambda>s. (the (parse_day s) + (if late then 86400 else 0)) * 1000000000) v"
    if v: "opt_all (\<lambda>s. parse_day s \<noteq> None) v" for v late
  proof (cases v)
    case (Some s)
    then obtain t where t: "parse_day s = Some t" using v by auto
    obtain d where d: "t = d * 86400" "\<bar>d\<bar> < 5000000" using parse_day_day [OF t] by blast
    have "\<bar>d\<bar> \<le> 5000000" "\<bar>d + 1\<bar> \<le> 5000000" using d(2) by auto
    with day_to_ns [of d] day_to_ns [of "d + 1"] Some t d(1) show ?thesis
      by (simp add: date_ns_def algebra_simps)
  qed (simp add: date_ns_def)
  with dates have "window_ns q = (map_option (\<lambda>s. the (parse_day s) * 1000000000) (bq_from_date q),
      map_option (\<lambda>s. (the (parse_day s) + 86400) * 1000000000) (bq_to_date q))"
    by (simp add: window_ns_def)
  then show ?thesis by (simp add: in_window_def)
qed

text \<open>
  C23. A submitted job is never lost before it has an answer, and answered jobs do not pile up.  However
  submissions, the pruning they do, the worker and the clock interleave: every job that waits, in the queue or
  on its way there, is kept, queued; the one the worker evaluates is kept, running, and no other job
  runs; and a job is stamped as finished only after it is answered.  After each submission, at most
  sixty-four jobs besides the new one are kept, unless none of those kept is answered yet, and none that finished
  more than an hour ago; between submissions nothing is pruned.
\<close>

theorem jobs_never_lost:
  assumes "reachable_jobs s"
  shows "(\<forall>i \<in> set (js_queue s) \<union> set (js_arriving s). \<exists>j. map_of (js_jobs s) i = Some j \<and> jb_state j = Queued)
    \<and> (\<forall>i. js_worker s = Evaluating i \<longrightarrow> (\<exists>j. map_of (js_jobs s) i = Some j \<and> jb_state j = Running))
    \<and> (\<forall>(i, j) \<in> set (js_jobs s). (jb_state j = Running \<longrightarrow> js_worker s = Evaluating i)
         \<and> (jb_finished_utc_ns j \<noteq> None \<longrightarrow> job_done j))
    \<and> (\<forall>s'. job_step s s' \<longrightarrow> \<not> fst ` set (js_jobs s') \<subseteq> fst ` set (js_jobs s) \<longrightarrow>
         (length (js_jobs s') \<le> 65 \<or> (\<forall>(i, j) \<in> set (js_jobs s'). \<not> job_done j))
         \<and> (\<forall>(i, j) \<in> set (js_jobs s'). opt_all (\<lambda>t. js_now s' - 3600000000000 \<le> t) (jb_finished_utc_ns j)))"
proof -
  have inv: "distinct (map fst (js_jobs s))"
    "\<And>i j. (i, j) \<in> set (js_jobs s) \<Longrightarrow> job_kept (waiting s) (js_worker s) i j"
    "set (waiting s) \<union> {i. js_worker s = Evaluating i} \<subseteq> fst ` set (js_jobs s)"
    using reachable_jobs_inv [OF assms] by (auto simp: jobs_inv_def)
  have present: "\<exists>j. map_of (js_jobs s) i = Some j \<and> job_kept (waiting s) (js_worker s) i j"
    if "i \<in> set (waiting s) \<or> js_worker s = Evaluating i" for i
  proof -
    have "i \<in> fst ` set (js_jobs s)" using that inv(3) by blast
    then obtain j where "(i, j) \<in> set (js_jobs s)" by auto
    with inv(1,2) show ?thesis by (auto intro: map_of_is_SomeI)
  qed
  have "\<exists>j. map_of (js_jobs s) i = Some j \<and> jb_state j = Queued" if "i \<in> set (js_queue s) \<union> set (js_arriving s)" for i
    using present [of i] that by (auto simp: job_kept_def waiting_def)
  moreover have "\<exists>j. map_of (js_jobs s) i = Some j \<and> jb_state j = Running" if "js_worker s = Evaluating i" for i
    using present [of i] that by (auto simp: job_kept_def)
  moreover have "(jb_state j = Running \<longrightarrow> js_worker s = Evaluating i) \<and> (jb_finished_utc_ns j \<noteq> None \<longrightarrow> job_done j)"
    if "(i, j) \<in> set (js_jobs s)" for i j
    using inv(2) [OF that] by (auto simp: job_kept_def)
  ultimately show ?thesis
    using submission_bounds [OF _ _ inv(1)] by (auto simp: MAX_RETAINED_JOBS_def)
qed

definition demo_backtest :: backtest_request where
  "demo_backtest =
     \<lparr>bq_entry_price = Flt 1 (-1), bq_entry_limit_price = None, bq_entry_from_minute = None,
      bq_entry_to_minute = None, bq_stop_loss_price = None, bq_stop_loss_from_minute = None,
      bq_side = Select_favoured, bq_sizing = Compounding, bq_stake_usd = Flt 100 0, bq_realism = Base,
      bq_execution_policy = Policy_immediate, bq_execution_horizon_seconds = Flt 2 0, bq_from_date = None,
      bq_to_date = Some ''2026-07-27'', bq_max_episodes = Some 1\<rparr>"

definition midnight_episode :: episode where
  "midnight_episode = demo_episode\<lparr>ep_start_utc_ns := 1785196800000000000, ep_eligible := True\<rparr>"

lemma demo_backtest_accepted: "make_request demo_backtest = Inr demo_backtest"
proof -
  have "\<not> isl (make_request demo_backtest)" by code_simp
  then show ?thesis by (auto simp: make_request_def split: if_splits)
qed

lemma demo_last_date: "parse_day ''2026-07-27'' = Some 1785110400"
  by code_simp

theorem dates_bound_exactly_witness:
  "window_ns demo_backtest = (None, Some 1785196800000000000)
   \<and> in_window (window_ns demo_backtest) midnight_episode"
proof -
  have q: "bq_from_date demo_backtest = None" "bq_to_date demo_backtest = Some ''2026-07-27''"
    by (simp_all add: demo_backtest_def)
  have start: "ep_start_utc_ns midnight_episode = (the (parse_day ''2026-07-27'') + 86400) * 1000000000"
    by (simp add: midnight_episode_def demo_last_date)
  note bounds = dates_bound_exactly [OF demo_backtest_accepted]
  have "window_ns demo_backtest = (None, Some 1785196800000000000)"
    using bounds [THEN conjunct1] by (simp add: q demo_last_date)
  with bounds [THEN conjunct2, rule_format, OF q start] show ?thesis by simp
qed

definition demo_recent :: backtest_request where "demo_recent = demo_backtest\<lparr>bq_to_date := None\<rparr>"

theorem selection_is_latest_wanted_witness:
  "\<exists>selected excluded. selected_episodes (\<lambda>_. True)
       [demo_episode\<lparr>ep_start_utc_ns := 5, ep_eligible := True\<rparr>, midnight_episode] demo_recent = (selected, excluded)
     \<and> length selected = 1"
proof -
  let ?index = "[demo_episode\<lparr>ep_start_utc_ns := 5, ep_eligible := True\<rparr>, midnight_episode]"
  obtain selected excluded where sel: "selected_episodes (\<lambda>_. True) ?index demo_recent = (selected, excluded)"
    by (meson surj_pair)
  have w: "window_ns demo_recent = (None, None)" "bq_max_episodes demo_recent = Some 1"
    by (simp_all add: demo_recent_def demo_backtest_def window_ns_def date_ns_def)
  have "length (filter (wanted (\<lambda>_. True) (None, None)) (sort_key ep_start_utc_ns ?index)) = 2"
    by (simp add: wanted_def in_window_def midnight_episode_def)
  moreover obtain older where
    "filter (wanted (\<lambda>_. True) (None, None)) (sort_key ep_start_utc_ns ?index) = older @ selected"
    "length selected = min 1 (length (older @ selected))"
    using selection_is_latest_wanted [OF sel, unfolded w] by auto
  ultimately have "length selected = 1" by simp
  with sel show ?thesis by auto
qed

definition demo_jobs :: "unit job_system" where
  "demo_jobs = \<lparr>js_jobs = [(''a'', start_job 7 (make_job demo_backtest 7 2))], js_arriving = [], js_queue = [],
     js_worker = Evaluating ''a'', js_now = 7\<rparr>"

lemma demo_jobs_reachable: "reachable_jobs demo_jobs"
proof -
  let ?s0 = "\<lparr>js_jobs = [] :: unit jobs, js_arriving = [], js_queue = [], js_worker = Idle, js_now = 7\<rparr>"
  let ?s1 = "?s0\<lparr>js_jobs := dict_put ''a'' (make_job demo_backtest 7 2) (prune 7 []), js_arriving := [''a'']\<rparr>"
  let ?s2 = "?s1\<lparr>js_arriving := [], js_queue := [''a'']\<rparr>"
  have "prune 7 [] = ([] :: unit jobs)" by (simp add: prune_def drop_expired_def drop_done.simps)
  then have last: "?s2\<lparr>js_jobs := update_job ''a'' (start_job 7) (js_jobs ?s2), js_queue := [], js_worker := Evaluating ''a''\<rparr>
      = demo_jobs"
    by (simp add: demo_jobs_def update_job_def)
  have "reachable_jobs ?s0" by (rule reachable_jobs.start)
  moreover have "job_step ?s0 ?s1" using submitted [of "''a''" ?s0 7 demo_backtest 2] by (simp add: waiting_def)
  moreover have "job_step ?s1 ?s2" using enqueued [of "''a''" ?s1] by simp
  moreover have "job_step ?s2 (?s2\<lparr>js_jobs := update_job ''a'' (start_job 7) (js_jobs ?s2), js_queue := [],
      js_worker := Evaluating ''a''\<rparr>)"
    using started [of ?s2 "''a''" "[]"] by simp
  ultimately show ?thesis unfolding last by (meson reachable_jobs.step)
qed

text \<open>The next submission keeps the running job.\<close>

theorem jobs_never_lost_witness:
  "(\<exists>j. map_of (js_jobs demo_jobs) ''a'' = Some j \<and> jb_state j = Running)
   \<and> (\<exists>s'. job_step demo_jobs s' \<and> fst ` set (js_jobs s') = {''a'', ''b''}
        \<and> (length (js_jobs s') \<le> 65 \<or> (\<forall>(i, j) \<in> set (js_jobs s'). \<not> job_done j)))"
proof -
  let ?d = "prune 7 (js_jobs demo_jobs)"
  let ?s' = "demo_jobs\<lparr>js_jobs := dict_put ''b'' (make_job demo_backtest 7 2) ?d, js_arriving := [''b'']\<rparr>"
  have d: "?d = js_jobs demo_jobs"
    by (simp add: prune_def drop_expired_def drop_done.simps demo_jobs_def start_job_def make_job_def MAX_RETAINED_JOBS_def)
  have step: "job_step demo_jobs ?s'"
    using submitted [of "''b''" demo_jobs 7 demo_backtest 2] by (simp add: demo_jobs_def waiting_def)
  have ids: "fst ` set (js_jobs ?s') = {''a'', ''b''}" unfolding d by (auto simp: demo_jobs_def)
  have "fst ` set (js_jobs demo_jobs) = {''a''}" by (simp add: demo_jobs_def)
  with ids have "\<not> fst ` set (js_jobs ?s') \<subseteq> fst ` set (js_jobs demo_jobs)" by simp
  note facts = jobs_never_lost [OF demo_jobs_reachable]
  have "length (js_jobs ?s') \<le> 65 \<or> (\<forall>(i, j) \<in> set (js_jobs ?s'). \<not> job_done j)"
    by (rule facts [THEN conjunct2, THEN conjunct2, THEN conjunct2, rule_format, OF step, THEN conjunct1]) fact
  with step ids have "\<exists>s'. job_step demo_jobs s' \<and> fst ` set (js_jobs s') = {''a'', ''b''}
      \<and> (length (js_jobs s') \<le> 65 \<or> (\<forall>(i, j) \<in> set (js_jobs s'). \<not> job_done j))" by blast
  moreover have "js_worker demo_jobs = Evaluating ''a''" by (simp add: demo_jobs_def)
  ultimately show ?thesis using facts by blast
qed

end
