(* ===== verification/Report.thy ===== *)
theory Report
  imports Sweep Service
begin

text \<open>
  \<^verbatim>\<open>build_report\<close> of \<^verbatim>\<open>dashboard/backtest_service.py\<close>: the figures of a finished run.  Amounts stay
  in their fixed scales; turning them into rounded dollars, prices, percentages and ISO times is
  presentation and left out.  \<open>job_answer\<close> composes the worker's evaluation of a request, from the selection
  through the pass to the report.
\<close>

section \<open>Figures\<close>

record curve_point =
  cp_start_utc_ns :: int
  cp_slug :: string
  cp_trade :: int
  cp_cumulative :: int
  cp_balance :: "int option"

record curve_state =
  cz_equity :: int
  cz_balance :: int
  cz_peak_balance :: int
  cz_drawdown_ppm :: int
  cz_points :: "curve_point list"

definition report_point :: "bool \<Rightarrow> episode_result \<Rightarrow> curve_state \<Rightarrow> curve_state" where
  "report_point compounding r c =
     (let equity = cz_equity c + sr_net_pnl r;
          balance = cz_balance c + sr_net_pnl r;
          peak = max (cz_peak_balance c) balance
      in \<lparr>cz_equity = equity, cz_balance = balance, cz_peak_balance = peak,
          cz_drawdown_ppm = (if 0 < peak
            then max (cz_drawdown_ppm c) ((peak - balance) * 1000000 div peak) else cz_drawdown_ppm c),
          cz_points = cz_points c @ [\<lparr>cp_start_utc_ns = sr_start_utc_ns r, cp_slug = sr_market_slug r,
            cp_trade = sr_net_pnl r, cp_cumulative = equity,
            cp_balance = (if compounding then Some balance else None)\<rparr>]\<rparr>)"

definition report_curve :: "bool \<Rightarrow> int \<Rightarrow> episode_result list \<Rightarrow> curve_state" where
  "report_curve compounding start entered =
     fold (report_point compounding) (sort_key sr_start_utc_ns entered)
       \<lparr>cz_equity = 0, cz_balance = start, cz_peak_balance = start, cz_drawdown_ppm = 0, cz_points = []\<rparr>"

record staking_figures =
  sx_sizing :: sizing_mode
  sx_starting_balance :: "int option"
  sx_final_balance :: "int option"
  sx_total_return :: "(int \<times> int) option"
  sx_max_drawdown_ppm :: "int option"
  sx_awaiting_settlement :: "int option"
  sx_available :: "int option"
  sx_wallet_cashflow_events :: "nat option"
  sx_ended_early :: bool
  sx_markets_never_reached :: int

text \<open>The return is kept as the profit and the balance it is a percentage of.\<close>

definition staking_of :: "run_outcome \<Rightarrow> bool \<Rightarrow> int \<Rightarrow> staking_figures" where
  "staking_of out compounding drawdown_ppm =
     (let start = rt_starting_balance out;
          shown = (\<lambda>x. if compounding then Some x else None)
      in \<lparr>sx_sizing = rt_sizing out, sx_starting_balance = shown start,
          sx_final_balance = shown (rt_final_balance out),
          sx_total_return = (if compounding \<and> start \<noteq> 0
            then Some (rt_final_balance out - start, start) else None),
          sx_max_drawdown_ppm = shown drawdown_ppm,
          sx_awaiting_settlement = shown (rt_locked_balance out),
          sx_available = shown (rt_available_balance out),
          sx_wallet_cashflow_events =
            (if compounding then Some (length (rt_wallet_events out)) else None),
          sx_ended_early = rt_ended_early out,
          sx_markets_never_reached = int (rt_episodes_selected out) - int (length (rt_results out))\<rparr>)"

record entry_figures =
  qx_average_entry_price :: int
  qx_above_trigger :: int
  qx_stake_on_wins :: "int option"
  qx_stake_on_losses :: "int option"

definition mean_of :: "int list \<Rightarrow> int option" where
  "mean_of xs = (if xs = [] then None else Some (sum_list xs div int (length xs)))"

definition entry_quality :: "threshold_params \<Rightarrow> episode_result list \<Rightarrow> entry_figures option" where
  "entry_quality p entered =
     (let shares = sum_list (map sr_entry_shares entered) in
      if shares = 0 then None
      else
        let average = sum_list (map sr_entry_notional entered) * SHARE_SIZE_SCALE div shares
        in Some \<lparr>qx_average_entry_price = average,
              qx_above_trigger = average - th_entry_trigger_price p,
              qx_stake_on_wins = mean_of (map sr_entry_notional (filter (\<lambda>r. 0 < sr_net_pnl r) entered)),
              qx_stake_on_losses = mean_of (map sr_entry_notional (filter (\<lambda>r. sr_net_pnl r < 0) entered))\<rparr>)"

section \<open>Liquidity\<close>

record liquidity_figures =
  lq_entry_orders :: nat
  lq_entry_child_orders :: nat
  lq_entry_shares_requested :: int
  lq_entry_shares_filled :: int
  lq_entry_fill_ppm :: int
  lq_entry_orders_partially_filled :: nat
  lq_entry_orders_rejected :: nat
  lq_exit_orders :: nat
  lq_exit_shares_requested :: int
  lq_exit_shares_filled :: int
  lq_exit_fill_ppm :: "int option"
  lq_shares_left_unsold :: int
  lq_average_stop_slippage :: "int option"
  lq_worst_stop_slippage :: "int option"
  lq_binding_constraints :: "(string \<times> nat) list"
  lq_rejection_reasons :: "(string \<times> nat) list"

definition is_entry :: "simulated_order \<Rightarrow> bool" where
  "is_entry o1 \<longleftrightarrow> so_kind o1 = Kind_entry"

text \<open>The parents: results with a target or an entry order, each with the shares it wanted.\<close>

definition parent_entries :: "episode_result list \<Rightarrow> (episode_result \<times> int) list" where
  "parent_entries results =
     map (\<lambda>r. (r, requested_shares r))
       (filter (\<lambda>r. sr_execution_target_shares r \<noteq> 0 \<or> list_ex is_entry (sr_orders r)) results)"

text \<open>A \<^verbatim>\<open>Counter\<close> over the texts that are neither absent nor empty.\<close>

definition counter_of :: "string option list \<Rightarrow> (string \<times> nat) list" where
  "counter_of xs =
     fold (\<lambda>x d. case x of None \<Rightarrow> d | Some s \<Rightarrow> if s = [] then d else bump s d) xs []"

definition liquidity_of :: "episode_result list \<Rightarrow> int \<Rightarrow> liquidity_figures" where
  "liquidity_of results entry_fill_ppm =
     (let orders = concat (map sr_orders results);
          parents = parent_entries results;
          exits = filter (\<lambda>o1. \<not> is_entry o1) orders;
          requested_exit = sum_list (map so_requested_shares exits);
          filled_exit = sum_list (map so_filled_shares exits);
          slippages = concat (map (\<lambda>r. case sr_stop_slippage r of None \<Rightarrow> [] | Some x \<Rightarrow> [x]) results)
      in \<lparr>lq_entry_orders = length parents, lq_entry_child_orders = length (filter is_entry orders),
          lq_entry_shares_requested = sum_list (map snd parents),
          lq_entry_shares_filled = sum_list (map (sr_entry_shares \<circ> fst) parents),
          lq_entry_fill_ppm = entry_fill_ppm,
          lq_entry_orders_partially_filled =
            length (filter (\<lambda>(r, target). sr_entry_shares r \<noteq> 0 \<and> sr_entry_shares r < target) parents),
          lq_entry_orders_rejected =
            length (filter (\<lambda>(r, target). target \<noteq> 0 \<and> sr_entry_shares r = 0) parents),
          lq_exit_orders = length exits, lq_exit_shares_requested = requested_exit,
          lq_exit_shares_filled = filled_exit,
          lq_exit_fill_ppm = (if requested_exit = 0 then None
            else Some (filled_exit * 1000000 div requested_exit)),
          lq_shares_left_unsold = sum_list (map sr_unfilled_exit_shares results),
          lq_average_stop_slippage = mean_of slippages,
          lq_worst_stop_slippage = (case slippages of [] \<Rightarrow> None | x # xs \<Rightarrow> Some (fold max xs x)),
          lq_binding_constraints = counter_of (map so_binding_constraint orders),
          lq_rejection_reasons = counter_of (map so_rejected_reason orders)\<rparr>)"

section \<open>Rows\<close>

definition MAX_EPISODE_ROWS :: nat where "MAX_EPISODE_ROWS = 750"

record fill_mark =
  fm_kind :: sent_kind
  fm_side :: "string option"
  fm_utc_ms :: int
  fm_price :: int
  fm_shares :: int

definition marks_of :: "episode_result \<Rightarrow> fill_mark list" where
  "marks_of r =
     concat (map (\<lambda>o1. case so_average_price o1 of
         None \<Rightarrow> []
       | Some p \<Rightarrow> if so_filled_shares o1 = 0 then []
           else [\<lparr>fm_kind = so_kind o1, fm_side = sr_outcome_side r,
                  fm_utc_ms = so_arrival_utc_ns o1 div 1000000, fm_price = p,
                  fm_shares = so_filled_shares o1\<rparr>]) (sr_orders r))"

text \<open>A row shows the result itself; what is computed for it is the size wanted, and the marks.\<close>

record episode_row =
  ew_result :: episode_result
  ew_shares_requested :: "int option"
  ew_unsold_shares :: "int option"
  ew_marks :: "fill_mark list"

definition row_of :: "episode_result \<Rightarrow> episode_row" where
  "row_of r =
     \<lparr>ew_result = r,
      ew_shares_requested = (if sr_execution_target_shares r \<noteq> 0 then Some (sr_execution_target_shares r)
        else map_option so_requested_shares (find is_entry (sr_orders r))),
      ew_unsold_shares = (if sr_unfilled_exit_shares r = 0 then None else Some (sr_unfilled_exit_shares r)),
      ew_marks = marks_of r\<rparr>"

text \<open>\<^verbatim>\<open>sorted(..., reverse=True)\<close> keeps equal keys in their order.\<close>

definition episode_rows :: "episode_result list \<Rightarrow> episode_row list" where
  "episode_rows results = map row_of (take MAX_EPISODE_ROWS (sort_key (\<lambda>r. - sr_start_utc_ns r) results))"

section \<open>The report\<close>

record backtest_report =
  br_metrics :: variant_metrics
  br_capital_deployed :: int
  br_return_on_capital :: "(int \<times> int) option"
  br_losing_trades :: int
  br_staking :: staking_figures
  br_entry_quality :: "entry_figures option"
  br_liquidity :: liquidity_figures
  br_curve :: "curve_point list"
  br_episodes :: "episode_row list"
  br_episodes_shown :: nat
  br_excluded :: "(string \<times> nat) list"
  br_request :: backtest_request
  br_params :: threshold_params
  br_realism :: string
  br_execution_policy :: entry_execution_policy

definition build_report :: "backtest_request \<Rightarrow> threshold_params \<Rightarrow> string \<Rightarrow> run_outcome
    \<Rightarrow> (string \<times> nat) list \<Rightarrow> backtest_report" where
  "build_report q p realism_name out excluded =
     (let results = rt_results out;
          metrics = aggregate (params_label p) realism_name results (Some p);
          entered = filter sr_entered results;
          deployed = sum_list (map sr_entry_notional entered);
          compounding = (rt_sizing out = Compounding);
          c = report_curve compounding (rt_starting_balance out) entered
      in \<lparr>br_metrics = metrics, br_capital_deployed = deployed,
          br_return_on_capital = (if deployed = 0 then None else Some (vm_net_pnl metrics, deployed)),
          br_losing_trades = vm_entries metrics - vm_profitable_trades metrics,
          br_staking = staking_of out compounding (cz_drawdown_ppm c),
          br_entry_quality = entry_quality p entered,
          br_liquidity = liquidity_of results (vm_average_entry_fill_ppm metrics),
          br_curve = cz_points c, br_episodes = episode_rows results,
          br_episodes_shown = min (length results) MAX_EPISODE_ROWS, br_excluded = excluded,
          br_request = q, br_params = p, br_realism = realism_name,
          br_execution_policy = th_entry_execution_policy p\<rparr>)"

section \<open>Facts\<close>

lemma report_curve_fold:
  "let c = fold (report_point compounding) rs c0 in
     map cp_cumulative (cz_points c) = map cp_cumulative (cz_points c0) @ equity_curve (cz_equity c0) rs
     \<and> map cp_balance (cz_points c) = map cp_balance (cz_points c0)
         @ map (\<lambda>x. if compounding then Some (cz_balance c0 + (x - cz_equity c0)) else None)
             (equity_curve (cz_equity c0) rs)
     \<and> map cp_trade (cz_points c) = map cp_trade (cz_points c0) @ map sr_net_pnl rs
     \<and> map cp_start_utc_ns (cz_points c) = map cp_start_utc_ns (cz_points c0) @ map sr_start_utc_ns rs"
proof (induction rs arbitrary: c0)
  case Nil
  then show ?case by (simp add: equity_curve_def)
next
  case (Cons r rs)
  from Cons.IH [of "report_point compounding r c0"] show ?case
    by (simp add: Let_def report_point_def equity_curve_Cons algebra_simps)
qed

lemma last_equity: "last (e # equity_curve e rs) = e + sum_list (map sr_net_pnl rs)"
  by (cases rs rule: rev_cases) (simp_all add: equity_curve_def)

lemma sum_list_sort_key: "sum_list (map f (sort_key k xs)) = (sum_list (map f xs) :: int)"
proof -
  have "mset (map f (sort_key k xs)) = mset (map f xs)" by simp
  then show ?thesis by (metis sum_mset_sum_list)
qed

lemma disjoint_filters_length:
  "(\<And>x. \<not> (P x \<and> Q x)) \<Longrightarrow> length (filter P xs) + length (filter Q xs) \<le> length xs"
  by (induction xs) auto

lemma entered_profit:
  "(\<And>r. r \<in> set rs \<Longrightarrow> sr_entered r \<or> sr_net_pnl r = 0) \<Longrightarrow>
     sum_list (map sr_net_pnl (filter sr_entered rs)) = sum_list (map sr_net_pnl rs)"
proof (induction rs)
  case (Cons r rs)
  then have "sr_entered r \<or> sr_net_pnl r = 0" "sum_list (map sr_net_pnl (filter sr_entered rs)) = sum_list (map sr_net_pnl rs)"
    by (simp, metis list.set_intros(2))
  then show ?case by auto
qed simp

lemma report_balances:
  "map cp_balance (br_curve (build_report q p name out excluded))
     = map (\<lambda>x. if rt_sizing out = Compounding then Some (rt_starting_balance out + x) else None)
         (equity_curve 0 (sort_key sr_start_utc_ns (filter sr_entered (rt_results out))))"
  using report_curve_fold [of "rt_sizing out = Compounding" "sort_key sr_start_utc_ns (filter sr_entered (rt_results out))"
      "\<lparr>cz_equity = 0, cz_balance = rt_starting_balance out, cz_peak_balance = rt_starting_balance out,
        cz_drawdown_ppm = 0, cz_points = []\<rparr>"]
  by (simp add: build_report_def report_curve_def Let_def)

lemma report_balance_end:
  assumes "rt_sizing out = Compounding"
  shows "last (Some (rt_starting_balance out) # map cp_balance (br_curve (build_report q p name out excluded)))
    = Some (rt_starting_balance out + vm_net_pnl (br_metrics (build_report q p name out excluded)))"
proof -
  let ?rs = "sort_key sr_start_utc_ns (filter sr_entered (rt_results out))"
  let ?f = "\<lambda>x. Some (rt_starting_balance out + x)"
  have "map ?f (0 # equity_curve 0 ?rs)
      = Some (rt_starting_balance out) # map cp_balance (br_curve (build_report q p name out excluded))"
    using assms by (simp add: report_balances)
  then have "last (Some (rt_starting_balance out) # map cp_balance (br_curve (build_report q p name out excluded)))
      = ?f (last (0 # equity_curve 0 ?rs))"
    by (metis last_map list.distinct(1))
  also have "\<dots> = ?f (sum_list (map sr_net_pnl ?rs))"
    unfolding last_equity by (simp only: add_0)
  also have "\<dots> = ?f (vm_net_pnl (br_metrics (build_report q p name out excluded)))"
    by (simp add: build_report_def aggregate_def Let_def sum_list_sort_key)
  finally show ?thesis .
qed

section \<open>A job's answer\<close>

fun realism_text :: "preset_name \<Rightarrow> string" where
  "realism_text Optimistic = ''optimistic''"
| "realism_text Base = ''base''"
| "realism_text Pessimistic = ''pessimistic''"

text \<open>
  \<^verbatim>\<open>_run\<close> of the service up to the report: the selection, the parameters, the pass over the markets.  The
  presets are taken as they are, and the seed of each market is an argument.
\<close>

definition job_answer :: "'r rng \<Rightarrow> (episode \<Rightarrow> py_error + tape) \<Rightarrow> (episode \<Rightarrow> 'r) \<Rightarrow> (episode \<Rightarrow> bool)
    \<Rightarrow> episode list \<Rightarrow> backtest_request \<Rightarrow> py_error + backtest_report" where
  "job_answer g load seeds ready index q =
     (let (selected, excluded) = selected_episodes ready index q in
      res_bind (to_params q) (\<lambda>p.
      res_bind (run_episodes
          \<lparr>sg_rng = g, sg_params = p, sg_realism = preset (bq_realism q) None None, sg_load = load, sg_seed = seeds\<rparr>
          (bq_sizing q) (stake_scaled q) selected) (\<lambda>out.
        Inr (build_report q p (realism_text (bq_realism q)) out excluded))))"

definition demo_job :: backtest_request where
  "demo_job = demo_backtest\<lparr>bq_stake_usd := Flt 5 0, bq_realism := Optimistic, bq_to_date := None\<rparr>"

definition demo_job_params :: threshold_params where
  "demo_job_params = demo_params\<lparr>th_entry_from_minute := Flt 0 0, th_entry_to_minute := Flt 15 0,
     th_entry_trigger_price := 500000, th_entry_limit_price := 550000, th_order_shares := None,
     th_order_notional := Some 5000000, th_stop_loss_price := None\<rparr>"

definition demo_job_env :: "unit staking_env" where
  "demo_job_env = \<lparr>sg_rng = sent_rng_source, sg_params = demo_job_params, sg_realism = preset Optimistic None None,
     sg_load = (\<lambda>_. Inr demo_run_tape), sg_seed = (\<lambda>_. ())\<rparr>"

lemma demo_job_to_params: "to_params demo_job = Inr demo_job_params"
proof -
  have "(case to_params demo_job of Inl _ \<Rightarrow> False | Inr p \<Rightarrow> p = demo_job_params)" by code_simp
  then show ?thesis by (simp split: sum.splits)
qed

lemma demo_job_selected:
  "selected_episodes (\<lambda>_. True) [tape_episode demo_run_tape] demo_job = ([tape_episode demo_run_tape], [])"
proof -
  have "ep_eligible (tape_episode demo_run_tape)" by code_simp
  then show ?thesis
    by (simp add: selected_episodes_def window_ns_def date_ns_def demo_job_def demo_backtest_def in_window_def)
qed

lemma demo_job_run:
  "(case run_episodes demo_job_env Compounding 5000000 [tape_episode demo_run_tape] of
      Inl _ \<Rightarrow> False
    | Inr out \<Rightarrow> map (\<lambda>r. (sr_entered r, sr_net_pnl r)) (rt_results out) = [(True, 1850112)])"
  by code_simp

section \<open>Properties\<close>

text \<open>
  C25. The report adds up.  Its equity curve has one point for each market entered, in the order they started,
  its cumulative profit ends at the net profit of the summary, and the balance drawn beside it is the starting
  balance plus the cumulative profit; the rows are the latest markets of the run, at most seven hundred and
  fifty, newest first; and no parent order is counted both as partially filled and as rejected.
\<close>

theorem report_adds_up:
  "let report = build_report q p name out excluded; curve = br_curve report in
     last (0 # map cp_cumulative curve) = vm_net_pnl (br_metrics report)
     \<and> int (length curve) = vm_entries (br_metrics report) \<and> sorted (map cp_start_utc_ns curve)
     \<and> mset (map cp_trade curve) = mset (map sr_net_pnl (filter sr_entered (rt_results out)))
     \<and> map cp_balance curve = map (\<lambda>x. if rt_sizing out = Compounding
          then Some (rt_starting_balance out + cp_cumulative x) else None) curve
     \<and> (\<exists>older. mset (map ew_result (br_episodes report) @ older) = mset (rt_results out)
          \<and> sorted (rev (map sr_start_utc_ns (map ew_result (br_episodes report) @ older))))
     \<and> length (br_episodes report) = br_episodes_shown report \<and> br_episodes_shown report \<le> 750
     \<and> lq_entry_orders_partially_filled (br_liquidity report) + lq_entry_orders_rejected (br_liquidity report)
        \<le> lq_entry_orders (br_liquidity report)"
proof -
  let ?report = "build_report q p name out excluded"
  define entered where "entered = filter sr_entered (rt_results out)"
  define ordered where "ordered = sort_key sr_start_utc_ns entered"
  define start where "start = rt_starting_balance out"
  define compounding where "compounding = (rt_sizing out = Compounding)"
  have curve: "br_curve ?report = cz_points (report_curve compounding start entered)"
    by (simp add: build_report_def Let_def entered_def start_def compounding_def)
  let ?c = "cz_points (report_curve compounding start entered)"
  have points: "map cp_cumulative ?c = equity_curve 0 ordered"
    "map cp_balance ?c = map (\<lambda>x. if compounding then Some (start + x) else None) (equity_curve 0 ordered)"
    "map cp_trade ?c = map sr_net_pnl ordered" "map cp_start_utc_ns ?c = map sr_start_utc_ns ordered"
    using report_curve_fold [of compounding ordered
        "\<lparr>cz_equity = 0, cz_balance = start, cz_peak_balance = start, cz_drawdown_ppm = 0, cz_points = []\<rparr>"]
    by (simp_all add: report_curve_def Let_def ordered_def)
  have "last (0 # map cp_cumulative ?c) = sum_list (map sr_net_pnl ordered)"
    unfolding points(1) using last_equity [of 0 ordered] by (simp only: add_0)
  also have "\<dots> = vm_net_pnl (br_metrics ?report)"
    by (simp add: build_report_def aggregate_def Let_def entered_def ordered_def sum_list_sort_key)
  finally have net: "last (0 # map cp_cumulative ?c) = vm_net_pnl (br_metrics ?report)" .
  have "length ?c = length ordered" using arg_cong [OF points(3), of length] by simp
  then have len: "int (length ?c) = vm_entries (br_metrics ?report)"
    by (simp add: build_report_def aggregate_def Let_def entered_def ordered_def)
  have trades: "mset (map cp_trade ?c) = mset (map sr_net_pnl entered)"
    by (simp add: points(3) ordered_def)
  have sorted: "sorted (map cp_start_utc_ns ?c)" by (simp add: points(4) ordered_def)
  have "map cp_balance ?c = map (\<lambda>x. if compounding then Some (start + x) else None) (map cp_cumulative ?c)"
    by (simp only: points(1,2))
  then have balances: "map cp_balance ?c = map (\<lambda>x. if compounding then Some (start + cp_cumulative x) else None) ?c"
    by (simp add: comp_def)
  define latest where "latest = sort_key (\<lambda>r. - sr_start_utc_ns r) (rt_results out)"
  have rows: "map ew_result (br_episodes ?report) = take 750 latest"
    by (simp add: build_report_def Let_def episode_rows_def row_of_def comp_def MAX_EPISODE_ROWS_def latest_def)
  have "sorted (map (\<lambda>r. - sr_start_utc_ns r) latest)" by (simp add: latest_def)
  then have "sorted_wrt (\<lambda>x y. y \<le> x) (map sr_start_utc_ns latest)"
    by (simp add: sorted_map sorted_wrt_map)
  then have newest: "sorted (rev (map sr_start_utc_ns latest))"
    by (simp add: sorted_wrt_rev)
  have older: "\<exists>older. mset (map ew_result (br_episodes ?report) @ older) = mset (rt_results out)
      \<and> sorted (rev (map sr_start_utc_ns (map ew_result (br_episodes ?report) @ older)))"
    using newest unfolding rows by (intro exI [of _ "drop 750 latest"]) (simp add: latest_def)
  have "length (map ew_result (br_episodes ?report)) = min (length (rt_results out)) 750"
    unfolding rows by (simp add: latest_def)
  then have shown: "length (br_episodes ?report) = br_episodes_shown ?report" "br_episodes_shown ?report \<le> 750"
    by (simp_all add: build_report_def Let_def MAX_EPISODE_ROWS_def)
  have parents: "lq_entry_orders_partially_filled (br_liquidity ?report) + lq_entry_orders_rejected (br_liquidity ?report)
      \<le> lq_entry_orders (br_liquidity ?report)"
    by (simp add: build_report_def liquidity_of_def Let_def) (rule disjoint_filters_length, auto)
  show ?thesis
    unfolding Let_def curve
    using net len sorted trades balances older shown parents
    unfolding entered_def start_def compounding_def by (intro conjI)
qed

text \<open>
  C1. The answer to a request reconciles, from the stake asked for to the report shown.  Every market selected is
  either evaluated or counted as never reached, which happens only to a compounded run that lost all of its stake.
  An account that falls below a tradable size but keeps something still goes through every market, although the page
  explains the markets never reached by such a balance.
  A compounded report shows as final balance the stake plus the net profit of its summary, never negative, which is
  also where its balance curve ends and what is spendable plus what awaits settlement; a fixed one shows none.
\<close>

theorem job_answer_reconciles:
  assumes "job_answer g load seeds ready index q = Inr report"
  shows "let net = vm_net_pnl (br_metrics report); staking = br_staking report in
     vm_episodes (br_metrics report) + sx_markets_never_reached staking = int (length (fst (selected_episodes ready index q)))
     \<and> 0 \<le> sx_markets_never_reached staking
     \<and> (0 < sx_markets_never_reached staking \<longrightarrow> bq_sizing q = Compounding \<and> net = - stake_scaled q)
     \<and> (if bq_sizing q = Compounding
        then sx_final_balance staking = Some (stake_scaled q + net) \<and> 0 \<le> stake_scaled q + net
          \<and> last (Some (stake_scaled q) # map cp_balance (br_curve report)) = sx_final_balance staking
          \<and> (\<exists>free awaiting. sx_available staking = Some free \<and> sx_awaiting_settlement staking = Some awaiting
               \<and> 0 \<le> free \<and> 0 \<le> awaiting \<and> free + awaiting = stake_scaled q + net)
        else sx_final_balance staking = None \<and> set (map cp_balance (br_curve report)) \<subseteq> {None})"
proof -
  obtain selected excluded where sel: "selected_episodes ready index q = (selected, excluded)" by (cases "selected_episodes ready index q")
  obtain p out where run: "run_episodes
      \<lparr>sg_rng = g, sg_params = p, sg_realism = preset (bq_realism q) None None, sg_load = load, sg_seed = seeds\<rparr>
      (bq_sizing q) (stake_scaled q) selected = Inr out"
    "report = build_report q p (realism_text (bq_realism q)) out excluded"
    using assms by (auto simp: job_answer_def sel)
  obtain w s w1 where w: "replay_episodes
      \<lparr>sg_rng = g, sg_params = p, sg_realism = preset (bq_realism q) None None, sg_load = load, sg_seed = seeds\<rparr>
      (bq_sizing q) (sort_key episode_order selected)
       \<lparr>pt_wallet = w, pt_results = [], pt_balance = stake_scaled q, pt_ended_early = False\<rparr> = Inr s"
    and s: "pass_inv (stake_scaled q) (bq_sizing q) s" "length (pt_results s) \<le> length selected"
      "pt_ended_early s \<or> length (pt_results s) = length selected"
    and w1: "wallet_inv (stake_scaled q) w1" "total_equity w1 = total_equity (pt_wallet s)"
    and out: "out = (if bq_sizing q = Compounding
       then \<lparr>rt_results = pt_results s, rt_sizing = bq_sizing q, rt_starting_balance = stake_scaled q,
              rt_final_balance = total_equity w1, rt_episodes_selected = length selected,
              rt_ended_early = pt_ended_early s, rt_available_balance = w_available w1,
              rt_locked_balance = pending_cash w1, rt_wallet_events = w_events w1\<rparr>
       else \<lparr>rt_results = pt_results s, rt_sizing = bq_sizing q, rt_starting_balance = stake_scaled q,
              rt_final_balance = pt_balance s, rt_episodes_selected = length selected,
              rt_ended_early = pt_ended_early s, rt_available_balance = pt_balance s,
              rt_locked_balance = 0, rt_wallet_events = []\<rparr>)"
    using run(1) by (rule pass_ends)
  have results: "rt_results out = pt_results s" "rt_sizing out = bq_sizing q"
    "rt_starting_balance out = stake_scaled q" "rt_episodes_selected out = length selected"
    by (simp_all add: out)
  define net where "net = sum_list (map sr_net_pnl (pt_results s))"
  have net: "vm_net_pnl (br_metrics report) = net"
    using entered_profit [of "pt_results s"] replay_episodes_unentered [OF w]
    by (simp add: run(2) build_report_def aggregate_def Let_def results net_def)
  have counted: "vm_episodes (br_metrics report) = int (length (pt_results s))"
    "sx_markets_never_reached (br_staking report) = int (length selected) - int (length (pt_results s))"
    by (simp_all add: run(2) build_report_def aggregate_def staking_of_def Let_def results)
  show ?thesis
  proof (cases "bq_sizing q")
    case Compounding
    have "wallet_inv (stake_scaled q) (pt_wallet s)" using s(1) by (simp add: pass_inv_def)
    with s(1) Compounding have worth: "total_equity (pt_wallet s) = stake_scaled q + net"
      "pt_ended_early s \<Longrightarrow> stake_scaled q + net = 0" "0 \<le> stake_scaled q + net"
      using equity_nonneg [of "stake_scaled q" "pt_wallet s"] by (auto simp: pass_inv_def net_def)
    have money: "0 \<le> w_available w1" "0 \<le> pending_cash w1" "w_available w1 + pending_cash w1 = stake_scaled q + net"
      using w1 pending_nonneg [OF w1(1)] worth(1) by (auto simp: wallet_inv_def total_equity_def)
    have staking: "sx_final_balance (br_staking report) = Some (stake_scaled q + net)"
      "sx_available (br_staking report) = Some (w_available w1)"
      "sx_awaiting_settlement (br_staking report) = Some (pending_cash w1)"
      using Compounding w1(2) worth(1)
      by (simp_all add: run(2) build_report_def staking_of_def Let_def results) (simp_all add: out)
    have "last (Some (stake_scaled q) # map cp_balance (br_curve report)) = Some (stake_scaled q + net)"
      using report_balance_end [of out q p "realism_text (bq_realism q)" excluded] Compounding net
      by (simp add: run(2) results)
    then show ?thesis
      using worth money staking s(2,3) Compounding by (auto simp: Let_def net counted sel)
  next
    case Fixed
    with s(1,3) have "length (pt_results s) = length selected" by (auto simp: pass_inv_def)
    moreover have "sx_final_balance (br_staking report) = None"
      using Fixed by (simp add: run(2) build_report_def staking_of_def Let_def results)
    moreover have "set (map cp_balance (br_curve report)) \<subseteq> {None}"
      using Fixed by (auto simp: run(2) report_balances results)
    ultimately show ?thesis using Fixed by (simp add: Let_def counted sel)
  qed
qed

theorem job_answer_reconciles_witness:
  "\<exists>report. job_answer sent_rng_source (\<lambda>_. Inr demo_run_tape) (\<lambda>_. ()) (\<lambda>_. True) [tape_episode demo_run_tape] demo_job
       = Inr report
     \<and> vm_net_pnl (br_metrics report) = 1850112 \<and> sx_final_balance (br_staking report) = Some 6850112"
proof -
  obtain out where out: "run_episodes demo_job_env Compounding 5000000 [tape_episode demo_run_tape] = Inr out"
    "map (\<lambda>r. (sr_entered r, sr_net_pnl r)) (rt_results out) = [(True, 1850112)]"
    using demo_job_run by (auto split: sum.splits)
  have q: "bq_sizing demo_job = Compounding" "bq_realism demo_job = Optimistic" "stake_scaled demo_job = 5000000"
    by (simp add: demo_job_def demo_backtest_def, simp add: demo_job_def, code_simp)
  let ?report = "build_report demo_job demo_job_params ''optimistic'' out []"
  have answer: "job_answer sent_rng_source (\<lambda>_. Inr demo_run_tape) (\<lambda>_. ()) (\<lambda>_. True) [tape_episode demo_run_tape] demo_job
      = Inr ?report"
    using out(1) by (simp add: job_answer_def demo_job_selected demo_job_to_params q demo_job_env_def)
  moreover have "vm_net_pnl (br_metrics ?report) = 1850112"
    using out(2) by (auto simp: build_report_def aggregate_def Let_def)
  moreover note job_answer_reconciles [OF answer, unfolded q Let_def]
  ultimately show ?thesis by auto
qed

end
