(* ===== verification/Spec2Isabelle.thy ===== *)
theory Spec2Isabelle
  imports Wallet EngineFacts Funding Verify Tapecache Report
begin

text \<open>
  A verification library for the Polymarket 15-minute backtester, the Python package
  \<^verbatim>\<open>src/src/polymarket_bt\<close>.

  \<^bold>\<open>The program.\<close>  Recorded order book events are replayed by two simulators.  The event engine
  (\<^verbatim>\<open>backtest/engine.py\<close>) merges every event in a deterministic order, rebuilds the books, calls a
  strategy and fills its orders at their arrival.  The tape simulator (\<^verbatim>\<open>backtest/fastsim.py\<close>)
  first writes the book of one market to a tape (\<^verbatim>\<open>backtest/tape.py\<close>) and then runs one
  strategy family over it, with an execution realism model and two ways of buying: at once, or as
  child orders of a TWAP or adaptive policy (\<^verbatim>\<open>backtest/optimal_execution.py\<close>).  The backtest
  service (\<^verbatim>\<open>dashboard/backtest_service.py\<close>) runs it market after market, booking every result in a
  timestamped wallet (\<^verbatim>\<open>backtest/wallet.py\<close>) from which later orders are sized.

  \<^bold>\<open>How the model corresponds to the code.\<close>  A dataclass is a record with the fields of the source in
  its order (behind a prefix of two letters), an enumeration or tagged dictionary is a datatype,
  Python's integers are \<open>int\<close>, \<^verbatim>\<open>Optional\<close> is \<open>option\<close>.  A function that may raise returns
  \<open>py_error + 'a\<close>; a method that may raise half-way returns the state it leaves as well.  A dictionary
  that is iterated is an association list in insertion order, one that is only read is a map, the
  \<^verbatim>\<open>SortedDict\<close> is an ascending association list under an interpreted contract, and a heap of
  distinct keys is the list of its entries in pop order, likewise.  Floats are exact pairs of mantissa and
  exponent with IEEE rounding of products written out (\<open>fl_round\<close>); decimals are exact.
  Loops are structural recursion over the list the code iterates, or \<open>function\<close> with a termination
  proof; there is no fuel anywhere.

  \<^bold>\<open>Parameters.\<close>  The seeded random generator is a record of its two draws (\<open>rng\<close>); the wallet a
  run sizes from is a function of time (\<open>cash_source\<close>); a strategy is a record of callbacks; loading a
  tape, seeding an episode and the results of SQL queries are arguments.  Nothing is assumed of
  them beyond what a theorem names.

  \<^bold>\<open>Theories.\<close>
  \<^item> \<open>Prelude\<close>, \<open>Numerics\<close>: errors, dictionaries, bisection; fixed-scale arithmetic, Python's
    rounding and floats (\<^verbatim>\<open>constants.py\<close>, \<^verbatim>\<open>clock.py\<close>, parts of \<^verbatim>\<open>config.py\<close>).
  \<^item> \<open>TimedQueue\<close>, \<open>Wallet\<close>: the queue contract and \<^verbatim>\<open>backtest/wallet.py\<close>.  The ledger is never
    overdrawn, its log explains its balance, a debit succeeds exactly when covered.
  \<^item> \<open>Orders\<close>, \<open>Fees\<close>: \<^verbatim>\<open>models/\<close>, \<^verbatim>\<open>backtest/fees.py\<close>, \<^verbatim>\<open>backtest/latency.py\<close>.
  \<^item> \<open>SortedDict\<close>, \<open>OrderBook\<close>, \<open>Reconstructor\<close>: \<^verbatim>\<open>orderbook/\<close>.  Both sides stay sorted and
    uncrossed; a level change refines an update of two price maps; snapshots are all or nothing;
    consumed depth is not offered again; an uncertain token stays invalid until its next snapshot.
  \<^item> \<open>Portfolio\<close>, \<open>Execution\<close>, \<open>Metrics\<close>: \<^verbatim>\<open>backtest/portfolio.py\<close>, \<^verbatim>\<open>settlement.py\<close>,
    \<^verbatim>\<open>execution.py\<close>, \<^verbatim>\<open>maker.py\<close>, \<^verbatim>\<open>metrics.py\<close>.  Cash and cost basis balance; an order is filled
    within its limits or has no effect; settlement pays winners once.
  \<^item> \<open>Replay\<close>, \<open>Engine\<close>, \<open>EngineFacts\<close>, \<open>Strategies\<close>: \<^verbatim>\<open>replay/\<close>, \<^verbatim>\<open>backtest/engine.py\<close>,
    \<^verbatim>\<open>backtest/strategy.py\<close>, \<^verbatim>\<open>strategies/\<close>.  The merge is a stable sort; a finished run accounts
    for every order and ties its cash to the fills; fills never precede decisions.
  \<^item> \<open>Realism\<close>: \<^verbatim>\<open>backtest/realism.py\<close>, the taker executor and its presets.
  \<^item> \<open>Policy\<close>, \<open>Session\<close>: \<^verbatim>\<open>backtest/optimal_execution.py\<close>.  Slices stay within every cap, the
    schedule is followed, a session's books balance under any policy of the interpreted contract.
  \<^item> \<open>Episodes\<close>, \<open>Tape\<close>: the computations of \<^verbatim>\<open>backtest/episodes.py\<close> and \<^verbatim>\<open>backtest/tape.py\<close>.  Gating is
    sound; tape rows carry sound books outside uncertain intervals and survive storage.
  \<^item> \<open>Threshold\<close>: \<^verbatim>\<open>backtest/threshold_hold.py\<close> and \<^verbatim>\<open>strategies/threshold_hold_strategy.py\<close>.
  \<^item> \<open>Fastsim\<close>, \<open>Fastentry\<close>, \<open>Fastrun\<close>: \<^verbatim>\<open>backtest/fastsim.py\<close>, bottom up: one order from
    decision to fill, one parent entry and its children, one run over a tape.  Orders stay within
    budget and meet depth that is still there, over any sequence of orders (\<open>sends_made\<close>); a parent
    completes; a run accounts for every share.
  \<^item> \<open>Compound\<close>, \<open>Funding\<close>: the pass over the markets.  Money is conserved; what a run sent from the
    wallet's cash can always be booked in the wallet.
  \<^item> \<open>Matched\<close>, \<open>Recorded\<close>, \<open>Verify\<close>: \<^verbatim>\<open>backtest/verify.py\<close>, the cross-check of the two
    simulators.  On the same book both fill an order of at least the venue minimum alike; the
    engine's books follow the tape's on the events it is forwarded, through its own merge and run and but
    for what its orders take, where rows of one instant and kind came over one connection (otherwise
    the merge reorders them and the books can differ); and the comparison of the two outcomes.
  \<^item> \<open>Labels\<close>, \<open>Sweep\<close>: the label of a variant with its float formats, and \<^verbatim>\<open>backtest/sweep.py\<close>:
    aggregation, the sweep over markets and variants, the grid and walk-forward.  Figures
    follow the equity curve, results are scored by label, selection never looks ahead.
  \<^item> \<open>Tapecache\<close>, \<open>Service\<close>, \<open>Report\<close>: the rest of \<^verbatim>\<open>dashboard/backtest_service.py\<close>.  The cache of
    tapes is a step relation whose steps are the locked sections of \<^verbatim>\<open>get\<close>, the loads between them,
    changes of the files, and the reading of the index time and the clearing by \<^verbatim>\<open>episodes()\<close>; the jobs
    are one whose steps are submissions in two parts, under the lock and after it, the moves of the
    single worker and the clock.  Byte counts stay right under every interleaving, no waiting job is
    lost, a request runs the latest markets it asks for, and from its stake to the report shown the
    money adds up (\<open>job_answer\<close>).

  \<^bold>\<open>Concurrency.\<close>  Only the service has any: what a lock protects is one step, what lies between two
  locks is not, and the theorems quantify over every reachable state.  The files on disk change at any time, and the
  cache is cleared only when a later call notices.

  \<^bold>\<open>Not modelled.\<close>  Network clients and process supervision (\<^verbatim>\<open>ingestion/\<close>), market discovery and the
  normalizer (\<^verbatim>\<open>discovery/\<close>, \<^verbatim>\<open>normalization/\<close>), Parquet, SQLite and file formats (\<^verbatim>\<open>storage/\<close>,
  \<^verbatim>\<open>replay/event_reader.py\<close>), SQL text, HTTP serving and rendering (\<^verbatim>\<open>dashboard/server.py\<close>,
  \<^verbatim>\<open>dashboard/data.py\<close>), the rounding of figures for display, argument parsing and report files
  (\<^verbatim>\<open>cli.py\<close>, \<^verbatim>\<open>backtest/report.py\<close>), monitoring: they are input and output around the code above
  or call libraries outside the repository.
\<close>

end
